(* ===== verification/Prelude.thy ===== *)
theory Prelude
  imports Main "HOL-Library.Word"
begin

text \<open>
  Shared vocabulary of the development: results of fallible code, signed machine
  integers of 64 bits, and lists of rows that play the role of SQL tables.
  Go's \<open>(T, error)\<close> returns are sums: \<open>Inl\<close> carries the error, \<open>Inr\<close> the value.
\<close>

section \<open>Collections of facts\<close>

named_theorems code_defs "the string constants of the contract"
named_theorems inv_defs "the parts of the invariants"

section \<open>Results\<close>

definition and_then :: "'e + 'a \<Rightarrow> ('a \<Rightarrow> 'e + 'b) \<Rightarrow> 'e + 'b" where
  "and_then r f = (case r of Inl e \<Rightarrow> Inl e | Inr x \<Rightarrow> f x)"

lemma and_then_simps [simp]:
  "and_then (Inl e) f = Inl e"
  "and_then (Inr x) f = f x"
  by (simp_all add: and_then_def)

lemma and_then_Inr_iff:
  "and_then r f = Inr b \<longleftrightarrow> (\<exists>a. r = Inr a \<and> f a = Inr b)"
  by (cases r) simp_all

lemma and_then_Inl_iff:
  "and_then r f = Inl e \<longleftrightarrow> r = Inl e \<or> (\<exists>a. r = Inr a \<and> f a = Inl e)"
  by (cases r) auto

lemma and_then_InrE [elim!]:
  assumes "and_then r f = Inr b"
  obtains a where "r = Inr a" and "f a = Inr b"
  using assms by (auto simp: and_then_Inr_iff)

definition ok :: "'e + 'a \<Rightarrow> bool" where
  "ok r = (case r of Inl _ \<Rightarrow> False | Inr _ \<Rightarrow> True)"

lemma ok_simps [simp]:
  "\<not> ok (Inl e)"
  "ok (Inr x)"
  by (simp_all add: ok_def)

section \<open>Signed 64-bit integers\<close>

text \<open>
  Go's \<open>int64\<close>, and \<open>int\<close> on a 64-bit target: \<open>+\<close>, \<open>-\<close> and \<open>*\<close> wrap, comparisons are
  signed (\<open><s\<close>, \<open>\<le>s\<close>), \<open>sint\<close> reads the value, division truncates towards zero.
\<close>

type_synonym int64 = "64 word"
type_synonym uint64 = "64 word"

definition MaxInt64 :: int64 where "MaxInt64 = 0x7FFFFFFFFFFFFFFF"
definition MinInt64 :: int64 where "MinInt64 = 0x8000000000000000"

definition go_div :: "int64 \<Rightarrow> int64 \<Rightarrow> int64" where
  "go_div a b = word_of_int (sgn (sint a) * sgn (sint b) * (\<bar>sint a\<bar> div \<bar>sint b\<bar>))"

lemma sint_MaxInt64 [simp]: "sint MaxInt64 = 9223372036854775807"
  by (simp add: MaxInt64_def)

lemma sint_MinInt64 [simp]: "sint MinInt64 = - 9223372036854775808"
  by (simp add: MinInt64_def)

lemma sint64_lower: "- 9223372036854775808 \<le> sint (a :: int64)"
  using sint_greater_eq [of a] by simp

lemma sint64_upper: "sint (a :: int64) \<le> 9223372036854775807"
  using sint_less [of a] by simp

lemma sint64_of_int:
  assumes "- 9223372036854775808 \<le> i" and "i \<le> 9223372036854775807"
  shows "sint (word_of_int i :: int64) = i"
  using assms by (simp add: signed_of_int signed_take_bit_int_eq_self)

lemma word_of_int_sint64 [simp]: "word_of_int (sint (a :: int64)) = a"
  by simp

lemma sint64_inject: "sint (a :: int64) = sint b \<longleftrightarrow> a = b"
  using signed_word_eqI [of a b] by blast

lemma sint64_plus:
  assumes "- 9223372036854775808 \<le> sint a + sint b" and "sint a + sint b \<le> 9223372036854775807"
  shows "sint (a + b :: int64) = sint a + sint b"
proof -
  have "a + b = word_of_int (sint a + sint b)" by simp
  with assms show ?thesis by (simp only: sint64_of_int)
qed

lemma sint64_minus:
  assumes "- 9223372036854775808 \<le> sint a - sint b" and "sint a - sint b \<le> 9223372036854775807"
  shows "sint (a - b :: int64) = sint a - sint b"
proof -
  have "a - b = word_of_int (sint a - sint b)" by simp
  with assms show ?thesis by (simp only: sint64_of_int)
qed

lemma sint64_times:
  assumes "- 9223372036854775808 \<le> sint a * sint b" and "sint a * sint b \<le> 9223372036854775807"
  shows "sint (a * b :: int64) = sint a * sint b"
proof -
  have "a * b = word_of_int (sint a * sint b)" by simp
  with assms show ?thesis by (simp only: sint64_of_int)
qed

lemma sint64_uminus:
  assumes "a \<noteq> MinInt64"
  shows "sint (- a :: int64) = - sint a"
proof -
  have "sint a \<noteq> - 9223372036854775808"
    using assms sint64_inject [of a MinInt64] by simp
  with sint64_lower [of a] sint64_upper [of a]
  have "sint (0 - a) = sint (0 :: int64) - sint a" by (intro sint64_minus) simp_all
  then show ?thesis by simp
qed

lemma sint64_zero_iff [simp]: "sint (a :: int64) = 0 \<longleftrightarrow> a = 0"
  using sint64_inject [of a 0] by simp

lemma sle64: "(a :: int64) \<le>s b \<longleftrightarrow> sint a \<le> sint b"
  by (simp add: word_sle_eq)

lemma sless64: "(a :: int64) <s b \<longleftrightarrow> sint a < sint b"
  by (simp add: word_sless_alt)

lemma sint64_uint:
  assumes "0 \<le> sint (a :: int64)"
  shows "sint a = uint a"
proof -
  have "uint a = uint (word_of_int (sint a) :: int64)" by simp
  also have "\<dots> = take_bit 64 (sint a)" by (simp only: unsigned_of_int) simp
  also have "\<dots> = sint a"
    using assms sint64_upper [of a] by (simp add: take_bit_int_eq_self_iff)
  finally show ?thesis by simp
qed

section \<open>Rows\<close>

text \<open>
  A table is the list of its rows in insertion order. \<open>SELECT ... WHERE\<close> on a unique key
  is \<open>List.find\<close>, \<open>UPDATE ... WHERE\<close> rewrites the rows that match and counts them.
\<close>

definition update_rows :: "('r \<Rightarrow> bool) \<Rightarrow> ('r \<Rightarrow> 'r) \<Rightarrow> 'r list \<Rightarrow> 'r list" where
  "update_rows P f rs = map (\<lambda>r. if P r then f r else r) rs"

definition count_rows :: "('r \<Rightarrow> bool) \<Rightarrow> 'r list \<Rightarrow> nat" where
  "count_rows P rs = length (filter P rs)"

lemma update_rows_simps [simp]:
  "update_rows P f [] = []"
  "update_rows P f (r # rs) = (if P r then f r else r) # update_rows P f rs"
  by (simp_all add: update_rows_def)

lemma count_rows_simps [simp]:
  "count_rows P [] = 0"
  "count_rows P (r # rs) = (if P r then Suc (count_rows P rs) else count_rows P rs)"
  by (simp_all add: count_rows_def)

lemma map_update_rows:
  "(\<And>r. P r \<Longrightarrow> g (f r) = g r) \<Longrightarrow> map g (update_rows P f rs) = map g rs"
  by (induction rs) simp_all

lemma count_rows_0_iff: "count_rows P rs = 0 \<longleftrightarrow> (\<forall>r \<in> set rs. \<not> P r)"
  by (induction rs) auto

lemma find_SomeD: "List.find P rs = Some r \<Longrightarrow> r \<in> set rs \<and> P r"
  by (auto simp: find_Some_iff)

lemma find_append:
  "List.find P (xs @ ys) = (case List.find P xs of None \<Rightarrow> List.find P ys | Some r \<Rightarrow> Some r)"
  by (induction xs) simp_all

lemma distinct_key_unique:
  "distinct (map key rs) \<Longrightarrow> r \<in> set rs \<Longrightarrow> r' \<in> set rs \<Longrightarrow> key r = key r' \<Longrightarrow> r = r'"
  by (induction rs) (auto simp: image_iff)

end
