(* ===== verification/Domain.thy ===== *)
theory Domain
  imports Prelude
begin

text \<open>
  \<open>internal/domain\<close>: the classifiable errors (\<open>errors.go\<close>), the identifiers (\<open>id.go\<close>) and the
  check on instants (\<open>time.go\<close>), together with the sentinels the other packages declare.
  Messages are for people and are left out: an error is its class, its cause and its code.
\<close>

section \<open>Failure codes\<close>

type_synonym failure_code = string

definition FailureCodeInvalidInput :: failure_code where
  [code_defs]: "FailureCodeInvalidInput = ''INVALID_INPUT''"
definition FailureCodeInvalidAmount :: failure_code where
  [code_defs]: "FailureCodeInvalidAmount = ''INVALID_AMOUNT''"
definition FailureCodeAmountOverflow :: failure_code where
  [code_defs]: "FailureCodeAmountOverflow = ''AMOUNT_OVERFLOW''"
definition FailureCodeCurrencyMismatch :: failure_code where
  [code_defs]: "FailureCodeCurrencyMismatch = ''CURRENCY_MISMATCH''"
definition FailureCodeInsufficientFunds :: failure_code where
  [code_defs]: "FailureCodeInsufficientFunds = ''INSUFFICIENT_FUNDS''"
definition FailureCodeInsufficientFundsForReversal :: failure_code where
  [code_defs]: "FailureCodeInsufficientFundsForReversal = ''INSUFFICIENT_FUNDS_FOR_REVERSAL''"
definition FailureCodeReferenceNotFound :: failure_code where
  [code_defs]: "FailureCodeReferenceNotFound = ''REFERENCE_NOT_FOUND''"
definition FailureCodeReferenceNotProcessed :: failure_code where
  [code_defs]: "FailureCodeReferenceNotProcessed = ''REFERENCE_NOT_PROCESSED''"
definition FailureCodeReferenceMismatch :: failure_code where
  [code_defs]: "FailureCodeReferenceMismatch = ''REFERENCE_MISMATCH''"
definition FailureCodeReferenceAmountMismatch :: failure_code where
  [code_defs]: "FailureCodeReferenceAmountMismatch = ''REFERENCE_AMOUNT_MISMATCH''"
definition FailureCodeReferenceAlreadyReversed :: failure_code where
  [code_defs]: "FailureCodeReferenceAlreadyReversed = ''REFERENCE_ALREADY_REVERSED''"
definition FailureCodeInvalidStateTransition :: failure_code where
  [code_defs]: "FailureCodeInvalidStateTransition = ''INVALID_STATE_TRANSITION''"
definition FailureCodeKindNotAllowed :: failure_code where
  [code_defs]: "FailureCodeKindNotAllowed = ''TRANSACTION_KIND_NOT_ALLOWED''"
definition FailureCodeIdempotencyConflict :: failure_code where
  [code_defs]: "FailureCodeIdempotencyConflict = ''IDEMPOTENCY_CONFLICT''"
definition FailureCodeWalletAlreadyExists :: failure_code where
  [code_defs]: "FailureCodeWalletAlreadyExists = ''WALLET_ALREADY_EXISTS''"
definition FailureCodeWalletNotFound :: failure_code where
  [code_defs]: "FailureCodeWalletNotFound = ''WALLET_NOT_FOUND''"
definition FailureCodeWalletPlayerMismatch :: failure_code where
  [code_defs]: "FailureCodeWalletPlayerMismatch = ''WALLET_PLAYER_MISMATCH''"
definition FailureCodeTransactionNotFound :: failure_code where
  [code_defs]: "FailureCodeTransactionNotFound = ''TRANSACTION_NOT_FOUND''"

section \<open>Errors\<close>

text \<open>
  The sentinels of \<open>internal/domain/errors.go\<close>, \<open>internal/usecase\<close> and
  \<open>internal/infrastructure\<close>; then the errors a call can return: a sentinel, a failure code
  (which is itself an error), the domain error with its class, optional cause and code, what
  the database driver reports (\<open>PgError\<close> when the server answered, the others when it could
  not be asked), and an error wrapping others (\<open>fmt.Errorf\<close> with \<open>%w\<close>, \<open>errors.Join\<close>).
\<close>

datatype sentinel =
    ErrValidation | ErrRejected | ErrConflict | ErrNotFound
  | ErrInsufficientFunds
  | ErrUnavailable | ErrConcurrentUpdate | ErrReferencePending
  | ErrOutsideTransaction | ErrNoRows
  | ErrDeadlineExceeded
  | ErrInvalidToken

datatype err =
    Sentinel sentinel
  | FailureCode failure_code
  | DomainError sentinel "err option" failure_code
  | PgError string string
  | ConnectError | TimeoutError | SafeToRetryError
  | OtherError
  | Wrapped "err list"

definition ValidationError :: "failure_code \<Rightarrow> err" where
  "ValidationError code = DomainError ErrValidation None code"

definition RejectionError :: "failure_code \<Rightarrow> err" where
  "RejectionError code = DomainError ErrRejected None code"

definition RejectionErrorWithCause :: "err \<Rightarrow> failure_code \<Rightarrow> err" where
  "RejectionErrorWithCause cause code = DomainError ErrRejected (Some cause) code"

definition ConflictError :: "failure_code \<Rightarrow> err" where
  "ConflictError code = DomainError ErrConflict None code"

definition NotFoundError :: "failure_code \<Rightarrow> err" where
  "NotFoundError code = DomainError ErrNotFound None code"

text \<open>\<open>(*Error).Is\<close>: a failure code is compared with the code, anything else with the class.\<close>

fun Error_Is :: "sentinel \<Rightarrow> failure_code \<Rightarrow> err \<Rightarrow> bool" where
  "Error_Is class code (FailureCode c) = (c = code)"
| "Error_Is class code target = (target = Sentinel class)"

text \<open>
  \<open>errors.Is\<close> of the Go library: the error itself, its \<open>Is\<close> method, then what it unwraps to,
  depth first.
\<close>

fun errors_Is :: "err \<Rightarrow> err \<Rightarrow> bool" where
  "errors_Is (DomainError class cause code) target =
     (Error_Is class code target \<or> (case cause of None \<Rightarrow> False | Some c \<Rightarrow> errors_Is c target))"
| "errors_Is (Wrapped es) target = (\<exists>e \<in> set es. errors_Is e target)"
| "errors_Is e target = (e = target)"

text \<open>\<open>CodeOf\<close>: the code of the first domain error found by unwrapping.\<close>

fun CodeOf :: "err \<Rightarrow> failure_code option" where
  "CodeOf (DomainError class cause code) = Some code"
| "CodeOf (Wrapped []) = None"
| "CodeOf (Wrapped (e # es)) =
     (case CodeOf e of Some c \<Rightarrow> Some c | None \<Rightarrow> CodeOf (Wrapped es))"
| "CodeOf e = None"

lemma errors_Is_domain [simp]:
  "errors_Is (ValidationError c) (Sentinel s) = (s = ErrValidation)"
  "errors_Is (RejectionError c) (Sentinel s) = (s = ErrRejected)"
  "errors_Is (ConflictError c) (Sentinel s) = (s = ErrConflict)"
  "errors_Is (NotFoundError c) (Sentinel s) = (s = ErrNotFound)"
  "errors_Is (RejectionErrorWithCause (Sentinel q) c) (Sentinel s) = (s = ErrRejected \<or> s = q)"
  by (auto simp: ValidationError_def RejectionError_def ConflictError_def NotFoundError_def
      RejectionErrorWithCause_def)

lemma CodeOf_domain [simp]:
  "CodeOf (ValidationError c) = Some c"
  "CodeOf (RejectionError c) = Some c"
  "CodeOf (RejectionErrorWithCause e c) = Some c"
  "CodeOf (ConflictError c) = Some c"
  "CodeOf (NotFoundError c) = Some c"
  by (simp_all add: ValidationError_def RejectionError_def ConflictError_def NotFoundError_def
      RejectionErrorWithCause_def)

lemma domain_error_inject [simp]:
  "ValidationError c = ValidationError d \<longleftrightarrow> c = d"
  "RejectionError c = RejectionError d \<longleftrightarrow> c = d"
  "ConflictError c = ConflictError d \<longleftrightarrow> c = d"
  "NotFoundError c = NotFoundError d \<longleftrightarrow> c = d"
  "RejectionErrorWithCause e c = RejectionErrorWithCause f d \<longleftrightarrow> e = f \<and> c = d"
  by (auto simp: ValidationError_def RejectionError_def ConflictError_def NotFoundError_def
      RejectionErrorWithCause_def)

section \<open>Identifiers and instants\<close>

text \<open>
  \<open>ID\<close> is \<open>uuid.UUID\<close>, sixteen bytes read as one unsigned number; the nil identifier is zero.
  Parsing the text form is \<open>uuid.Parse\<close> of the library, a parameter. A \<open>time.Time\<close> is the
  number of nanoseconds since the first instant of year 1 in UTC, whose zero is \<open>IsZero\<close>.
\<close>

type_synonym ID = "128 word"
type_synonym time = int

definition NilID :: ID where "NilID = 0"

definition IsNilID :: "ID \<Rightarrow> bool" where "IsNilID i = (i = NilID)"

definition ParseID :: "(string \<Rightarrow> ID option) \<Rightarrow> string \<Rightarrow> err + ID" where
  "ParseID uuid_Parse value =
     (case uuid_Parse value of
        None \<Rightarrow> Inl (ValidationError FailureCodeInvalidInput)
      | Some i \<Rightarrow> if i = NilID then Inl (ValidationError FailureCodeInvalidInput) else Inr i)"

definition RequireID :: "ID \<Rightarrow> err + unit" where
  "RequireID i = (if IsNilID i then Inl (ValidationError FailureCodeInvalidInput) else Inr ())"

definition IsZero_time :: "time \<Rightarrow> bool" where "IsZero_time t = (t = 0)"

definition RequireTime :: "time \<Rightarrow> err + unit" where
  "RequireTime t = (if IsZero_time t then Inl (ValidationError FailureCodeInvalidInput) else Inr ())"

lemma RequireID_Inr [simp]: "RequireID i = Inr u \<longleftrightarrow> i \<noteq> NilID"
  by (simp add: RequireID_def IsNilID_def)

lemma RequireTime_Inr [simp]: "RequireTime t = Inr u \<longleftrightarrow> t \<noteq> 0"
  by (simp add: RequireTime_def IsZero_time_def)

lemma Require_Inr:
  "i \<noteq> NilID \<Longrightarrow> RequireID i = Inr ()"
  "t \<noteq> 0 \<Longrightarrow> RequireTime t = Inr ()"
  by simp_all

lemma RequireID_Inl [simp]:
  "RequireID i = Inl e \<longleftrightarrow> i = NilID \<and> e = ValidationError FailureCodeInvalidInput"
  by (auto simp: RequireID_def IsNilID_def)

lemma RequireTime_Inl [simp]:
  "RequireTime t = Inl e \<longleftrightarrow> t = 0 \<and> e = ValidationError FailureCodeInvalidInput"
  by (auto simp: RequireTime_def IsZero_time_def)

end
