(* ===== verification/Money.thy ===== *)
theory Money
  imports Domain
begin

text \<open>
  \<open>internal/domain/money\<close>: the currency code and the exact amount in minor units, kept at the
  width of the code (\<open>int64\<close>), with parsing, formatting and checked arithmetic.
\<close>

section \<open>Currency\<close>

datatype Currency = Currency (currency_code: string)

definition currency_String :: "Currency \<Rightarrow> string" where
  "currency_String c = currency_code c"

definition currency_IsZero :: "Currency \<Rightarrow> bool" where
  "currency_IsZero c = (currency_code c = '''')"

definition currencyCodeLen :: nat where "currencyCodeLen = 3"

text \<open>The byte order of Go: a \<open>char\<close> is compared by its code.\<close>

definition byte_between :: "char \<Rightarrow> char \<Rightarrow> char \<Rightarrow> bool" where
  "byte_between lo hi c = ((of_char lo :: nat) \<le> of_char c \<and> (of_char c :: nat) \<le> of_char hi)"

definition NewCurrency :: "string \<Rightarrow> err + Currency" where
  "NewCurrency code =
     (if length code \<noteq> currencyCodeLen then Inl (ValidationError FailureCodeInvalidInput)
      else if \<exists>c \<in> set code. \<not> byte_between (CHR ''A'') (CHR ''Z'') c
        then Inl (ValidationError FailureCodeInvalidInput)
      else Inr (Currency code))"

section \<open>Money\<close>

record Money =
  minorUnits :: int64
  currency :: Currency

definition Scale :: nat where "Scale = 2"

definition zero_Money :: Money where
  "zero_Money = \<lparr>minorUnits = 0, currency = Currency ''''\<rparr>"

definition money_Validate :: "Money \<Rightarrow> err + unit" where
  "money_Validate m =
     (if currency_IsZero (currency m) then Inl (ValidationError FailureCodeInvalidInput) else Inr ())"

definition money_New :: "int64 \<Rightarrow> Currency \<Rightarrow> err + Money" where
  "money_New units c =
     (if currency_IsZero c then Inl (ValidationError FailureCodeInvalidInput)
      else Inr \<lparr>minorUnits = units, currency = c\<rparr>)"

definition money_Zero :: "Currency \<Rightarrow> err + Money" where
  "money_Zero c = money_New 0 c"

definition money_IsZero :: "Money \<Rightarrow> bool" where "money_IsZero m = (minorUnits m = 0)"
definition money_IsPositive :: "Money \<Rightarrow> bool" where "money_IsPositive m = (0 <s minorUnits m)"
definition money_IsNegative :: "Money \<Rightarrow> bool" where "money_IsNegative m = (minorUnits m <s 0)"
definition money_Equal :: "Money \<Rightarrow> Money \<Rightarrow> bool" where "money_Equal m other = (m = other)"

section \<open>Parsing\<close>

text \<open>\<open>strings.IndexByte\<close>: the first position of a byte, \<open>None\<close> for Go's -1.\<close>

fun IndexByte :: "string \<Rightarrow> char \<Rightarrow> nat option" where
  "IndexByte [] c = None"
| "IndexByte (x # xs) c = (if x = c then Some 0 else map_option Suc (IndexByte xs c))"

text \<open>The loop over the digits, with the guard that keeps the accumulator representable.\<close>

fun parse_digits :: "string \<Rightarrow> int64 \<Rightarrow> err + int64" where
  "parse_digits [] acc = Inr acc"
| "parse_digits (c # cs) acc =
     (if \<not> byte_between (CHR ''0'') (CHR ''9'') c
        then Inl (ValidationError FailureCodeInvalidAmount)
      else let digit = of_nat (of_char c - of_char (CHR ''0'')) :: int64
           in if go_div (MaxInt64 - digit) 10 <s acc
                then Inl (ValidationError FailureCodeAmountOverflow)
              else parse_digits cs (acc * 10 + digit))"

definition split_fraction :: "string \<Rightarrow> err + (string \<times> string)" where
  "split_fraction digits =
     (case IndexByte digits (CHR ''.'') of
        None \<Rightarrow> Inr (digits, '''')
      | Some i \<Rightarrow>
          let fracPart = drop (i + 1) digits
          in if IndexByte fracPart (CHR ''.'') \<noteq> None
               then Inl (ValidationError FailureCodeInvalidAmount)
             else if fracPart = '''' then Inl (ValidationError FailureCodeInvalidAmount)
             else if length fracPart > Scale then Inl (ValidationError FailureCodeInvalidAmount)
             else Inr (take i digits, fracPart))"

definition parseMinorUnits :: "string \<Rightarrow> bool \<Rightarrow> err + int64" where
  "parseMinorUnits amount allowNegative =
     (if amount = '''' then Inl (ValidationError FailureCodeInvalidAmount)
      else let negative = (hd amount = CHR ''-'') in
        if negative \<and> \<not> allowNegative then Inl (ValidationError FailureCodeInvalidAmount)
        else and_then (split_fraction (if negative then tl amount else amount))
          (\<lambda>(intPart, fracPart).
            if intPart = '''' then Inl (ValidationError FailureCodeInvalidAmount)
            else and_then
              (parse_digits (intPart @ fracPart @ replicate (Scale - length fracPart) (CHR ''0'')) 0)
              (\<lambda>minorUnits. Inr (if negative then - minorUnits else minorUnits))))"

definition money_parse :: "string \<Rightarrow> string \<Rightarrow> bool \<Rightarrow> err + Money" where
  "money_parse amount currencyCode allowNegative =
     and_then (NewCurrency currencyCode)
       (\<lambda>c. and_then (parseMinorUnits amount allowNegative)
         (\<lambda>units. Inr \<lparr>minorUnits = units, currency = c\<rparr>))"

definition Parse :: "string \<Rightarrow> string \<Rightarrow> err + Money" where
  "Parse amount currencyCode = money_parse amount currencyCode False"

definition ParseSigned :: "string \<Rightarrow> string \<Rightarrow> err + Money" where
  "ParseSigned amount currencyCode = money_parse amount currencyCode True"

section \<open>Formatting\<close>

definition byte_digit :: "uint64 \<Rightarrow> char" where
  "byte_digit d = char_of (of_char (CHR ''0'') + unat d)"

text \<open>\<open>formatUint\<close> fills its buffer from the right; \<open>buf\<close> is the part already written.\<close>

function formatUint_loop :: "uint64 \<Rightarrow> string \<Rightarrow> string" where
  "formatUint_loop value buf =
     (if 0 < value then formatUint_loop (value div 10) (byte_digit (value mod 10) # buf) else buf)"
  by pat_completeness auto
termination
  by (relation "measure (\<lambda>(value, buf). unat value)")
    (auto simp: unat_div word_less_nat_alt)

declare formatUint_loop.simps [simp del]

definition formatUint :: "uint64 \<Rightarrow> string" where
  "formatUint value = (if value = 0 then ''0'' else formatUint_loop value [])"

definition abs_units :: "int64 \<Rightarrow> uint64" where
  "abs_units units = (if units <s 0 then - (units + 1) + 1 else units)"

definition money_Amount :: "Money \<Rightarrow> string" where
  "money_Amount m =
     (let units = minorUnits m;
          sign = (if units <s 0 then ''-'' else '''');
          abs = abs_units units;
          whole = abs div 100;
          frac = abs mod 100
      in sign @ formatUint whole @ ''.'' @ [byte_digit (frac div 10), byte_digit (frac mod 10)])"

section \<open>Arithmetic\<close>

definition requireSameCurrency :: "Money \<Rightarrow> Money \<Rightarrow> err + unit" where
  "requireSameCurrency m other =
     and_then (money_Validate m) (\<lambda>_. and_then (money_Validate other) (\<lambda>_.
       if currency m \<noteq> currency other then Inl (ValidationError FailureCodeCurrencyMismatch)
       else Inr ()))"

definition money_Add :: "Money \<Rightarrow> Money \<Rightarrow> err + Money" where
  "money_Add m other =
     and_then (requireSameCurrency m other) (\<lambda>_.
       if (0 <s minorUnits other \<and> MaxInt64 - minorUnits other <s minorUnits m) \<or>
          (minorUnits other <s 0 \<and> minorUnits m <s MinInt64 - minorUnits other)
         then Inl (ValidationError FailureCodeAmountOverflow)
       else Inr \<lparr>minorUnits = minorUnits m + minorUnits other, currency = currency m\<rparr>)"

definition money_Sub :: "Money \<Rightarrow> Money \<Rightarrow> err + Money" where
  "money_Sub m other =
     and_then (requireSameCurrency m other) (\<lambda>_.
       if (minorUnits other <s 0 \<and> MaxInt64 + minorUnits other <s minorUnits m) \<or>
          (0 <s minorUnits other \<and> minorUnits m <s MinInt64 + minorUnits other)
         then Inl (ValidationError FailureCodeAmountOverflow)
       else Inr \<lparr>minorUnits = minorUnits m - minorUnits other, currency = currency m\<rparr>)"

definition money_Neg :: "Money \<Rightarrow> err + Money" where
  "money_Neg m =
     and_then (money_Validate m) (\<lambda>_.
       if minorUnits m = MinInt64 then Inl (ValidationError FailureCodeAmountOverflow)
       else Inr \<lparr>minorUnits = - minorUnits m, currency = currency m\<rparr>)"

definition money_Cmp :: "Money \<Rightarrow> Money \<Rightarrow> err + int" where
  "money_Cmp m other =
     and_then (requireSameCurrency m other) (\<lambda>_.
       Inr (if minorUnits m <s minorUnits other then - 1
            else if minorUnits other <s minorUnits m then 1 else 0))"

section \<open>Digits\<close>

definition is_digit :: "char \<Rightarrow> bool" where
  "is_digit c = byte_between (CHR ''0'') (CHR ''9'') c"

definition digit_value :: "char \<Rightarrow> int" where
  "digit_value c = int (of_char c - 48)"

fun digits_value :: "int \<Rightarrow> string \<Rightarrow> int" where
  "digits_value a [] = a"
| "digits_value a (c # cs) = digits_value (a * 10 + digit_value c) cs"

lemma digit_value_bounds: "is_digit c \<Longrightarrow> 0 \<le> digit_value c \<and> digit_value c \<le> 9"
  by (auto simp: is_digit_def byte_between_def digit_value_def)

lemma digits_value_append: "digits_value a (xs @ ys) = digits_value (digits_value a xs) ys"
  by (induction xs arbitrary: a) simp_all

lemma digits_value_ge:
  "0 \<le> a \<Longrightarrow> \<forall>c \<in> set s. is_digit c \<Longrightarrow> a \<le> digits_value a s"
proof (induction s arbitrary: a)
  case (Cons c s)
  have d: "0 \<le> digit_value c" using Cons.prems(2) digit_value_bounds [of c] by simp
  with Cons.prems have "a * 10 + digit_value c \<le> digits_value (a * 10 + digit_value c) s"
    by (intro Cons.IH) simp_all
  with d Cons.prems(1) show ?case by simp
qed simp

lemma byte_digit_is_digit:
  assumes "d < 10"
  shows "is_digit (byte_digit d)" and "digit_value (byte_digit d) = uint d"
proof -
  have "unat d < 10" using assms by (simp add: word_less_nat_alt)
  then have "of_char (byte_digit d) = 48 + unat d" by (simp add: byte_digit_def)
  with \<open>unat d < 10\<close> show "is_digit (byte_digit d)" and "digit_value (byte_digit d) = uint d"
    by (simp_all add: is_digit_def byte_between_def digit_value_def)
qed

lemma digit_not_dot: "is_digit c \<Longrightarrow> c \<noteq> CHR ''.''"
  by (auto simp: is_digit_def byte_between_def)

lemma digit_not_minus: "is_digit c \<Longrightarrow> c \<noteq> CHR ''-''"
  by (auto simp: is_digit_def byte_between_def)

section \<open>The digit loop\<close>

lemma sint_digit:
  assumes "is_digit c"
  shows "sint (of_nat (of_char c - of_char (CHR ''0'')) :: int64) = digit_value c"
proof -
  have "(of_nat (of_char c - of_char (CHR ''0'')) :: int64) = word_of_int (digit_value c)"
    by (simp add: digit_value_def)
  also have "sint \<dots> = digit_value c"
    using digit_value_bounds [OF assms] by (intro sint64_of_int) simp_all
  finally show ?thesis .
qed

lemma tenth_bounds:
  fixes x :: int
  assumes "0 \<le> x" and "x \<le> 9223372036854775807"
  shows "- 9223372036854775808 \<le> x div 10" and "x div 10 \<le> 9223372036854775807"
  using assms pos_imp_zdiv_nonneg_iff [of 10 x] zdiv_mono2 [of x 1 10] by simp_all

lemma tenth_less: "(x :: int) div 10 < a \<longleftrightarrow> x < a * 10"
  using div_mult_mod_eq [of x 10] pos_mod_bound [of 10 x] pos_mod_sign [of 10 x] by linarith

lemma go_div_guard:
  assumes "0 \<le> sint d" and "sint d \<le> 9"
  shows "sint (go_div (MaxInt64 - d) 10) = (9223372036854775807 - sint d) div 10"
proof -
  have m: "sint (MaxInt64 - d) = 9223372036854775807 - sint d"
    using assms by (subst sint64_minus) simp_all
  have ten: "sint (10 :: int64) = 10" by simp
  define x where "x = 9223372036854775807 - sint d"
  have x: "0 \<le> x" "x \<le> 9223372036854775807" "0 < x" using assms by (simp_all add: x_def)
  have "go_div (MaxInt64 - d) 10 = word_of_int (x div 10)"
    unfolding go_div_def m ten x_def [symmetric] using x by simp
  then show ?thesis
    using sint64_of_int [OF tenth_bounds [OF x(1,2)]] by (simp only: x_def)
qed

lemma digit_step:
  assumes "0 \<le> sint acc" and "0 \<le> sint d" and "sint d \<le> 9"
  shows "go_div (MaxInt64 - d) 10 <s acc \<longleftrightarrow> 9223372036854775807 < sint acc * 10 + sint d"
    and "\<not> go_div (MaxInt64 - d) 10 <s acc \<Longrightarrow> sint (acc * 10 + d) = sint acc * 10 + sint d"
proof -
  show g: "go_div (MaxInt64 - d) 10 <s acc \<longleftrightarrow> 9223372036854775807 < sint acc * 10 + sint d"
    unfolding sless64 go_div_guard [OF assms(2,3)] tenth_less by linarith
  assume "\<not> go_div (MaxInt64 - d) 10 <s acc"
  with g have le: "sint acc * 10 + sint d \<le> 9223372036854775807" by simp
  have t: "sint (acc * 10) = sint acc * 10"
    using le assms by (subst sint64_times) simp_all
  then show "sint (acc * 10 + d) = sint acc * 10 + sint d"
    using le assms by (subst sint64_plus) simp_all
qed

lemma parse_digits_Inr_iff:
  "0 \<le> sint acc \<Longrightarrow>
     parse_digits s acc = Inr u \<longleftrightarrow>
       (\<forall>c \<in> set s. is_digit c) \<and> digits_value (sint acc) s \<le> 9223372036854775807 \<and>
       sint u = digits_value (sint acc) s"
proof (induction s arbitrary: acc)
  case Nil
  then show ?case using sint64_upper [of acc] sint64_inject [of acc u] by auto
next
  case (Cons c s)
  let ?d = "of_nat (of_char c - of_char (CHR ''0'')) :: int64"
  show ?case
  proof (cases "is_digit c")
    case False
    then show ?thesis by (simp add: is_digit_def)
  next
    case True
    note d = sint_digit [OF True] digit_value_bounds [OF True]
    note step = digit_step [of acc ?d, unfolded d(1)]
    show ?thesis
    proof (cases "go_div (MaxInt64 - ?d) 10 <s acc")
      case over: True
      then have "9223372036854775807 < sint acc * 10 + digit_value c"
        using step(1) d(2) Cons.prems by simp
      moreover have "(\<forall>c \<in> set s. is_digit c) \<Longrightarrow>
          sint acc * 10 + digit_value c \<le> digits_value (sint acc * 10 + digit_value c) s"
        using d(2) Cons.prems by (intro digits_value_ge) simp_all
      ultimately show ?thesis using over True by (auto simp: is_digit_def Let_def)
    next
      case fits: False
      then have "sint (acc * 10 + ?d) = sint acc * 10 + digit_value c"
        using step(2) d(2) Cons.prems by simp
      moreover have "0 \<le> sint acc * 10 + digit_value c" using d(2) Cons.prems by simp
      ultimately show ?thesis
        using fits True Cons.IH [of "acc * 10 + ?d"] by (simp add: is_digit_def Let_def)
    qed
  qed
qed

lemma parse_digits_overflow:
  "0 \<le> sint acc \<Longrightarrow> \<forall>c \<in> set s. is_digit c \<Longrightarrow>
     9223372036854775807 < digits_value (sint acc) s \<Longrightarrow>
     parse_digits s acc = Inl (ValidationError FailureCodeAmountOverflow)"
proof (induction s arbitrary: acc)
  case Nil
  then show ?case using sint64_upper [of acc] by simp
next
  case (Cons c s)
  let ?d = "of_nat (of_char c - of_char (CHR ''0'')) :: int64"
  have c: "is_digit c" using Cons.prems(2) by simp
  note d = sint_digit [OF c] digit_value_bounds [OF c]
  note step = digit_step [of acc ?d, unfolded d(1)]
  show ?case
  proof (cases "go_div (MaxInt64 - ?d) 10 <s acc")
    case True
    then show ?thesis using c by (simp add: is_digit_def Let_def)
  next
    case False
    then have "sint (acc * 10 + ?d) = sint acc * 10 + digit_value c"
      using step(2) d(2) Cons.prems(1) by simp
    then show ?thesis
      using False c d(2) Cons.prems Cons.IH [of "acc * 10 + ?d"] by (simp add: is_digit_def Let_def)
  qed
qed

section \<open>The language of amounts\<close>

text \<open>
  An amount is a sign, an integer part of at least one digit and at most two decimals; its
  value in minor units reads the digits padded to the scale, over unbounded integers.
\<close>

definition amount_text :: "string \<Rightarrow> string \<Rightarrow> string" where
  "amount_text intPart fracPart = intPart @ (if fracPart = '''' then '''' else ''.'' @ fracPart)"

definition amount_parts :: "string \<Rightarrow> string \<Rightarrow> bool" where
  "amount_parts intPart fracPart =
     (intPart \<noteq> '''' \<and> (\<forall>c \<in> set (intPart @ fracPart). is_digit c) \<and> length fracPart \<le> Scale)"

definition amount_value :: "string \<Rightarrow> string \<Rightarrow> int" where
  "amount_value intPart fracPart =
     digits_value 0 (intPart @ fracPart @ replicate (Scale - length fracPart) (CHR ''0''))"

definition signed_value :: "string \<Rightarrow> int \<Rightarrow> int" where
  "signed_value sign v = (if sign = '''' then v else - v)"

lemma IndexByte_None_iff: "IndexByte s c = None \<longleftrightarrow> c \<notin> set s"
  by (induction s) auto

lemma IndexByte_append: "c \<notin> set xs \<Longrightarrow> IndexByte (xs @ c # ys) c = Some (length xs)"
  by (induction xs) auto

lemma IndexByte_Some: "IndexByte s c = Some i \<Longrightarrow> s = take i s @ c # drop (Suc i) s \<and> c \<notin> set (take i s)"
proof (induction s arbitrary: i)
  case (Cons x s)
  then show ?case by (cases "x = c") auto
qed simp

lemma split_fraction_Inr:
  assumes "split_fraction s = Inr (ip, fp)"
  shows "s = amount_text ip fp \<and> length fp \<le> Scale"
proof (cases "IndexByte s (CHR ''.'')")
  case None
  with assms show ?thesis by (auto simp: split_fraction_def amount_text_def)
next
  case (Some i)
  then have s: "s = take i s @ CHR ''.'' # drop (Suc i) s" by (simp add: IndexByte_Some)
  from assms Some have "ip = take i s" "fp = drop (Suc i) s" "fp \<noteq> ''''" "length fp \<le> Scale"
    by (auto simp: split_fraction_def Let_def split: if_splits)
  with s show ?thesis by (simp add: amount_text_def)
qed

lemma split_fraction_text:
  assumes "\<forall>c \<in> set (ip @ fp). is_digit c" and "length fp \<le> Scale"
  shows "split_fraction (amount_text ip fp) = Inr (ip, fp)"
proof -
  have ip: "CHR ''.'' \<notin> set ip" and fp: "CHR ''.'' \<notin> set fp"
    using assms(1) digit_not_dot by auto
  show ?thesis
  proof (cases "fp = ''''")
    case True
    with ip show ?thesis
      by (simp add: split_fraction_def amount_text_def IndexByte_None_iff [THEN iffD2])
  next
    case False
    with ip fp assms(2) show ?thesis
      by (simp add: split_fraction_def amount_text_def IndexByte_append Let_def not_less
          IndexByte_None_iff [THEN iffD2])
  qed
qed

lemma zero_digit [simp]: "is_digit (CHR ''0'')"
  by (simp add: is_digit_def byte_between_def)

lemma amount_value_nonneg: "amount_parts ip fp \<Longrightarrow> 0 \<le> amount_value ip fp"
  unfolding amount_value_def amount_parts_def
  by (rule digits_value_ge) auto

lemma sint_negated:
  assumes "0 \<le> sint u"
  shows "sint (- u :: int64) = - sint u"
  using assms by (intro sint64_uminus) auto

lemma parseMinorUnits_sound:
  assumes "parseMinorUnits amount allowNegative = Inr u"
  shows "\<exists>sign ip fp. (sign = '''' \<or> allowNegative \<and> sign = ''-'') \<and> amount = sign @ amount_text ip fp \<and>
     amount_parts ip fp \<and> amount_value ip fp \<le> 9223372036854775807 \<and>
     sint u = signed_value sign (amount_value ip fp)"
proof -
  define neg where "neg = (hd amount = CHR ''-'')"
  from assms obtain ip fp v where
    ne: "amount \<noteq> ''''" and allowed: "neg \<longrightarrow> allowNegative" and
    split: "split_fraction (if neg then tl amount else amount) = Inr (ip, fp)" and
    ip: "ip \<noteq> ''''" and
    digits: "parse_digits (ip @ fp @ replicate (Scale - length fp) (CHR ''0'')) 0 = Inr v" and
    u: "u = (if neg then - v else v)"
    by (auto simp: parseMinorUnits_def Let_def neg_def and_then_Inr_iff split: if_splits)
  define sign where "sign = (if neg then ''-'' else '''')"
  from digits have parts: "amount_parts ip fp" and le: "amount_value ip fp \<le> 9223372036854775807"
    and v: "sint v = amount_value ip fp"
    using split_fraction_Inr [OF split] ip
    by (auto simp: parse_digits_Inr_iff amount_parts_def amount_value_def)
  have "amount = sign @ amount_text ip fp"
    using split_fraction_Inr [OF split] ne by (cases amount) (auto simp: sign_def neg_def split: if_splits)
  moreover have "sint u = signed_value sign (amount_value ip fp)"
    using u v sint_negated [of v] amount_value_nonneg [OF parts]
    by (simp add: sign_def signed_value_def)
  ultimately show ?thesis
    using parts le allowed by (intro exI [of _ sign] exI [of _ ip] exI [of _ fp]) (simp add: sign_def)
qed

lemma parseMinorUnits_complete:
  assumes sign: "sign = '''' \<or> allowNegative \<and> sign = ''-''" and parts: "amount_parts ip fp"
  shows "parseMinorUnits (sign @ amount_text ip fp) allowNegative =
     (if amount_value ip fp \<le> 9223372036854775807
      then Inr (word_of_int (signed_value sign (amount_value ip fp)))
      else Inl (ValidationError FailureCodeAmountOverflow))"
proof -
  let ?s = "ip @ fp @ replicate (Scale - length fp) (CHR ''0'')"
  from parts have ip: "ip \<noteq> ''''" and digits: "\<forall>c \<in> set (ip @ fp). is_digit c"
    and len: "length fp \<le> Scale" by (simp_all add: amount_parts_def)
  have hd: "hd ip \<noteq> CHR ''-''" using ip digits digit_not_minus by (cases ip) auto
  have all: "\<forall>c \<in> set ?s. is_digit c" using digits by auto
  have loop: "parse_digits ?s 0 =
     (if amount_value ip fp \<le> 9223372036854775807 then Inr (word_of_int (amount_value ip fp))
      else Inl (ValidationError FailureCodeAmountOverflow))"
  proof (cases "amount_value ip fp \<le> 9223372036854775807")
    case True
    then have "sint (word_of_int (amount_value ip fp) :: int64) = amount_value ip fp"
      using amount_value_nonneg [OF parts] by (intro sint64_of_int) simp_all
    with True all show ?thesis by (simp add: parse_digits_Inr_iff amount_value_def)
  next
    case False
    with all show ?thesis by (simp add: parse_digits_overflow amount_value_def)
  qed
  have parts_of_text: "split_fraction (amount_text ip fp) = Inr (ip, fp)"
    using digits len by (rule split_fraction_text)
  have hd_text: "amount_text ip fp \<noteq> ''''" "hd (amount_text ip fp) \<noteq> CHR ''-''"
    using ip hd by (simp_all add: amount_text_def)
  from sign show ?thesis
    using parts_of_text hd_text ip
    by (elim disjE) (simp_all add: parseMinorUnits_def Let_def loop signed_value_def)
qed

text \<open>
  C31. Parsing accepts exactly the amounts of the contract (an optional sign where it is
  allowed, digits, at most two decimals) whose value in minor units fits, and yields that
  value exactly, computed over unbounded integers.
\<close>

theorem parseMinorUnits_exact:
  "parseMinorUnits amount allowNegative = Inr u \<longleftrightarrow>
     (\<exists>sign ip fp. (sign = '''' \<or> allowNegative \<and> sign = ''-'') \<and> amount = sign @ amount_text ip fp \<and>
        amount_parts ip fp \<and> amount_value ip fp \<le> 9223372036854775807 \<and>
        sint u = signed_value sign (amount_value ip fp))"
proof
  assume "\<exists>sign ip fp. (sign = '''' \<or> allowNegative \<and> sign = ''-'') \<and> amount = sign @ amount_text ip fp \<and>
        amount_parts ip fp \<and> amount_value ip fp \<le> 9223372036854775807 \<and>
        sint u = signed_value sign (amount_value ip fp)"
  then obtain sign ip fp where h: "sign = '''' \<or> allowNegative \<and> sign = ''-''"
    "amount = sign @ amount_text ip fp" "amount_parts ip fp"
    "amount_value ip fp \<le> 9223372036854775807" and u: "sint u = signed_value sign (amount_value ip fp)"
    by blast
  have "u = word_of_int (signed_value sign (amount_value ip fp))"
    by (simp flip: u)
  with h show "parseMinorUnits amount allowNegative = Inr u"
    by (simp add: parseMinorUnits_complete)
qed (rule parseMinorUnits_sound)

lemma split_fraction_Inl: "split_fraction s = Inl e \<Longrightarrow> e = ValidationError FailureCodeInvalidAmount"
  by (auto simp: split_fraction_def Let_def split: option.splits if_splits)

lemma parse_digits_Inl:
  "parse_digits s acc = Inl e \<Longrightarrow>
     e = ValidationError FailureCodeInvalidAmount \<or> e = ValidationError FailureCodeAmountOverflow"
  by (induction s acc rule: parse_digits.induct) (auto simp: Let_def split: if_splits)

lemma parseMinorUnits_Inl:
  "parseMinorUnits amount allowNegative = Inl e \<Longrightarrow>
     e = ValidationError FailureCodeInvalidAmount \<or> e = ValidationError FailureCodeAmountOverflow"
  by (auto simp: parseMinorUnits_def Let_def and_then_Inl_iff split: if_splits
      dest: split_fraction_Inl parse_digits_Inl)

section \<open>Formatted amounts\<close>

lemma formatUint_loop_append: "formatUint_loop v (xs @ ys) = formatUint_loop v xs @ ys"
proof (induction v xs rule: formatUint_loop.induct)
  case (1 v xs)
  then show ?case
    by (simp add: formatUint_loop.simps [of v])
qed

lemma formatUint_loop_step:
  "0 < v \<Longrightarrow> formatUint_loop v [] = formatUint_loop (v div 10) [] @ [byte_digit (v mod 10)]"
  using formatUint_loop_append [of "v div 10" "[]" "[byte_digit (v mod 10)]"]
  by (simp add: formatUint_loop.simps [of v])

lemma mod10_less: "(v :: uint64) mod 10 < 10"
  by (simp add: word_less_nat_alt unat_mod)

lemma div10_decreases: "0 < (v :: uint64) \<Longrightarrow> unat (v div 10) < unat v"
  by (auto simp: unat_div word_less_nat_alt)

lemma formatUint_loop_digits:
  "(\<forall>c \<in> set (formatUint_loop v []). is_digit c) \<and> digits_value 0 (formatUint_loop v []) = uint v"
proof (induction "unat v" arbitrary: v rule: less_induct)
  case less
  show ?case
  proof (cases "0 < v")
    case True
    then show ?thesis
      using less.hyps [OF div10_decreases [OF True]] byte_digit_is_digit [OF mod10_less [of v]]
      by (simp add: formatUint_loop_step digits_value_append uint_div uint_mod)
  next
    case False
    then have "v = 0" using word_neq_0_conv by blast
    then show ?thesis by (simp add: formatUint_loop.simps)
  qed
qed

lemma formatUint_loop_length: "unat v < 10 ^ n \<Longrightarrow> length (formatUint_loop v []) \<le> n"
proof (induction n arbitrary: v)
  case 0
  then have "v = 0" by (simp add: unat_eq_zero)
  then show ?case by (simp add: formatUint_loop.simps)
next
  case (Suc n)
  show ?case
  proof (cases "0 < v")
    case True
    from Suc.prems have "unat (v div 10) < 10 ^ n" by (simp add: unat_div)
    then show ?thesis using Suc.IH [of "v div 10"] True by (simp add: formatUint_loop_step)
  next
    case False
    then have "v = 0" using word_neq_0_conv by blast
    then show ?thesis by (simp add: formatUint_loop.simps)
  qed
qed

text \<open>The buffer of twenty bytes of \<open>formatUint\<close> is never overrun.\<close>

lemma formatUint_fits_buffer: "length (formatUint v) \<le> 20"
proof -
  have "unat v < 10 ^ 20"
    by (rule order_less_le_trans [OF unsigned_less]) simp
  then show ?thesis using formatUint_loop_length [of v 20] by (simp add: formatUint_def)
qed

lemma uint_abs_units: "uint (abs_units u) = \<bar>sint u\<bar>"
proof -
  have "abs_units u = word_of_int \<bar>sint u\<bar>"
    by (simp add: abs_units_def sless64)
  also have "uint \<dots> = take_bit 64 \<bar>sint u\<bar>" by (simp only: unsigned_of_int) simp
  also have "\<dots> = \<bar>sint u\<bar>"
    using sint64_lower [of u] sint64_upper [of u] by (simp add: take_bit_int_eq_self_iff abs_le_iff)
  finally show ?thesis .
qed

lemma formatUint_digits:
  "formatUint v \<noteq> '''' \<and> (\<forall>c \<in> set (formatUint v). is_digit c) \<and> digits_value 0 (formatUint v) = uint v"
proof (cases "v = 0")
  case True
  then show ?thesis by (simp add: formatUint_def digit_value_def)
next
  case False
  then have "0 < v" using word_neq_0_conv by blast
  then show ?thesis
    using formatUint_loop_digits [of v] False by (simp add: formatUint_def formatUint_loop_step)
qed

lemma fraction_digits:
  fixes v :: uint64
  shows "v mod 100 div 10 < 10" and "v mod 100 mod 10 < 10"
    and "(uint (v div 100) * 10 + uint (v mod 100 div 10)) * 10 + uint (v mod 100 mod 10) = uint v"
  by (simp_all add: word_less_def uint_div uint_mod)

lemma money_Amount_text:
  assumes "sign = (if minorUnits m <s 0 then ''-'' else '''')"
  shows "\<exists>ip fp. money_Amount m = sign @ amount_text ip fp \<and> amount_parts ip fp \<and>
    amount_value ip fp = \<bar>sint (minorUnits m)\<bar>"
proof -
  define a where "a = abs_units (minorUnits m)"
  define ip where "ip = formatUint (a div 100)"
  define fp where "fp = [byte_digit (a mod 100 div 10), byte_digit (a mod 100 mod 10)]"
  note d = byte_digit_is_digit [OF fraction_digits(1) [of a]] byte_digit_is_digit [OF fraction_digits(2) [of a]]
  have "money_Amount m = sign @ amount_text ip fp"
    using assms by (simp add: money_Amount_def Let_def amount_text_def ip_def fp_def a_def)
  moreover have "amount_parts ip fp"
    using formatUint_digits [of "a div 100"] d by (auto simp: amount_parts_def ip_def fp_def Scale_def)
  moreover have "amount_value ip fp = uint a"
    using formatUint_digits [of "a div 100"] d fraction_digits(3) [of a]
    by (simp add: amount_value_def ip_def fp_def Scale_def digits_value_append)
  ultimately show ?thesis using uint_abs_units by (auto simp: a_def)
qed



section \<open>Checked arithmetic\<close>

text \<open>
  What the ledger relies on: addition and subtraction that either yield the exact result or
  refuse, on values that can be combined (\<open>like\<close>) and are told apart by their reading.
\<close>

locale checked_arith =
  fixes reading :: "'m \<Rightarrow> int"
    and like :: "'m \<Rightarrow> 'm \<Rightarrow> bool"
    and add :: "'m \<Rightarrow> 'm \<Rightarrow> 'e + 'm"
    and sub :: "'m \<Rightarrow> 'm \<Rightarrow> 'e + 'm"
    and least :: int
    and greatest :: int
  assumes like_sym: "like a b \<Longrightarrow> like b a"
    and like_trans: "like a b \<Longrightarrow> like b c \<Longrightarrow> like a c"
    and reading_inject: "like a b \<Longrightarrow> reading a = reading b \<Longrightarrow> a = b"
    and reading_range: "like a b \<Longrightarrow> least \<le> reading a \<and> reading a \<le> greatest"
    and add_Inr: "add a b = Inr c \<longleftrightarrow>
      like a b \<and> like a c \<and> reading c = reading a + reading b"
    and sub_Inr: "sub a b = Inr c \<longleftrightarrow>
      like a b \<and> like a c \<and> reading c = reading a - reading b"
    and add_total: "like a b \<Longrightarrow> least \<le> reading a + reading b \<Longrightarrow> reading a + reading b \<le> greatest \<Longrightarrow>
      ok (add a b)"
    and sub_total: "like a b \<Longrightarrow> least \<le> reading a - reading b \<Longrightarrow> reading a - reading b \<le> greatest \<Longrightarrow>
      ok (sub a b)"
begin

lemma sub_add: "add a b = Inr c \<Longrightarrow> sub c b = Inr a"
  by (auto simp: add_Inr sub_Inr intro: like_sym like_trans)

lemma add_sub: "sub a b = Inr c \<Longrightarrow> add c b = Inr a"
  by (auto simp: add_Inr sub_Inr intro: like_sym like_trans)

lemma add_ok_iff:
  "ok (add a b) \<longleftrightarrow> like a b \<and> least \<le> reading a + reading b \<and> reading a + reading b \<le> greatest"
proof
  assume "ok (add a b)"
  then obtain c where "add a b = Inr c" by (cases "add a b") auto
  then show "like a b \<and> least \<le> reading a + reading b \<and> reading a + reading b \<le> greatest"
    using reading_range [of c a] by (auto simp: add_Inr like_sym)
qed (use add_total in blast)

lemma sub_ok_iff:
  "ok (sub a b) \<longleftrightarrow> like a b \<and> least \<le> reading a - reading b \<and> reading a - reading b \<le> greatest"
proof
  assume "ok (sub a b)"
  then obtain c where "sub a b = Inr c" by (cases "sub a b") auto
  then show "like a b \<and> least \<le> reading a - reading b \<and> reading a - reading b \<le> greatest"
    using reading_range [of c a] by (auto simp: sub_Inr like_sym)
qed (use sub_total in blast)

end

text \<open>Two initialised values of one currency.\<close>

definition money_like :: "Money \<Rightarrow> Money \<Rightarrow> bool" where
  "money_like a b = (\<not> currency_IsZero (currency a) \<and> currency a = currency b)"

definition money_reading :: "Money \<Rightarrow> int" where
  "money_reading m = sint (minorUnits m)"

lemma requireSameCurrency_Inr [simp]: "requireSameCurrency a b = Inr u \<longleftrightarrow> money_like a b"
  by (auto simp: requireSameCurrency_def money_Validate_def money_like_def and_then_def split: sum.splits)

lemma requireSameCurrency_like: "money_like a b \<Longrightarrow> requireSameCurrency a b = Inr ()"
  by simp

lemma money_eqI: "currency a = currency b \<Longrightarrow> sint (minorUnits a) = sint (minorUnits b) \<Longrightarrow> a = (b :: Money)"
  using sint64_inject by (cases a, cases b) auto

lemma money_Add_guard:
  "(0 <s b \<and> MaxInt64 - b <s a) \<or> (b <s 0 \<and> a <s MinInt64 - b) \<longleftrightarrow>
     \<not> (- 9223372036854775808 \<le> sint a + sint b \<and> sint a + sint b \<le> 9223372036854775807)"
proof -
  have 1: "0 < sint b \<Longrightarrow> sint (MaxInt64 - b) = 9223372036854775807 - sint b"
    using sint64_upper [of b] by (subst sint64_minus) simp_all
  have 2: "sint b < 0 \<Longrightarrow> sint (MinInt64 - b) = - 9223372036854775808 - sint b"
    using sint64_lower [of b] by (subst sint64_minus) simp_all
  show ?thesis
    using sint64_lower [of a] sint64_upper [of a] 1 2 by (auto simp: sless64)
qed

lemma money_Sub_guard:
  "(b <s 0 \<and> MaxInt64 + b <s a) \<or> (0 <s b \<and> a <s MinInt64 + b) \<longleftrightarrow>
     \<not> (- 9223372036854775808 \<le> sint a - sint b \<and> sint a - sint b \<le> 9223372036854775807)"
proof -
  have 1: "sint b < 0 \<Longrightarrow> sint (MaxInt64 + b) = 9223372036854775807 + sint b"
    using sint64_lower [of b] by (subst sint64_plus) simp_all
  have 2: "0 < sint b \<Longrightarrow> sint (MinInt64 + b) = - 9223372036854775808 + sint b"
    using sint64_upper [of b] by (subst sint64_plus) simp_all
  show ?thesis
    using sint64_lower [of a] sint64_upper [of a] 1 2 by (auto simp: sless64)
qed

definition fits64 :: "int \<Rightarrow> bool" where
  "fits64 i = (- 9223372036854775808 \<le> i \<and> i \<le> 9223372036854775807)"

lemma fits64_sint [simp]: "fits64 (sint (a :: int64))"
  using sint64_lower [of a] sint64_upper [of a] by (simp add: fits64_def)

lemma money_Add_eq:
  "money_like a b \<Longrightarrow> money_Add a b =
     (if fits64 (money_reading a + money_reading b)
      then Inr \<lparr>minorUnits = minorUnits a + minorUnits b, currency = currency a\<rparr>
      else Inl (ValidationError FailureCodeAmountOverflow))"
  unfolding money_Add_def money_Add_guard fits64_def money_reading_def
  by (simp add: requireSameCurrency_like)

lemma money_Sub_eq:
  "money_like a b \<Longrightarrow> money_Sub a b =
     (if fits64 (money_reading a - money_reading b)
      then Inr \<lparr>minorUnits = minorUnits a - minorUnits b, currency = currency a\<rparr>
      else Inl (ValidationError FailureCodeAmountOverflow))"
  unfolding money_Sub_def money_Sub_guard fits64_def money_reading_def
  by (simp add: requireSameCurrency_like)

lemma money_Add_unlike: "\<not> money_like a b \<Longrightarrow> \<not> ok (money_Add a b)"
  by (cases "requireSameCurrency a b") (simp_all add: money_Add_def)

lemma money_Sub_unlike: "\<not> money_like a b \<Longrightarrow> \<not> ok (money_Sub a b)"
  by (cases "requireSameCurrency a b") (simp_all add: money_Sub_def)

lemma money_Add_Inr_iff:
  "money_Add a b = Inr c \<longleftrightarrow>
     money_like a b \<and> money_like a c \<and> money_reading c = money_reading a + money_reading b"
proof (cases "money_like a b")
  case True
  show ?thesis
  proof (cases "fits64 (money_reading a + money_reading b)")
    case fits: True
    then have "sint (minorUnits a + minorUnits b) = money_reading a + money_reading b"
      by (simp add: fits64_def money_reading_def sint64_plus)
    with True fits show ?thesis
      by (auto simp: money_Add_eq money_like_def money_reading_def intro!: money_eqI)
  next
    case False
    then have "money_reading c \<noteq> money_reading a + money_reading b"
      by (metis fits64_sint money_reading_def)
    with True False show ?thesis by (simp add: money_Add_eq)
  qed
next
  case False
  then show ?thesis using money_Add_unlike [of a b] by auto
qed

lemma money_Sub_Inr_iff:
  "money_Sub a b = Inr c \<longleftrightarrow>
     money_like a b \<and> money_like a c \<and> money_reading c = money_reading a - money_reading b"
proof (cases "money_like a b")
  case True
  show ?thesis
  proof (cases "fits64 (money_reading a - money_reading b)")
    case fits: True
    then have "sint (minorUnits a - minorUnits b) = money_reading a - money_reading b"
      by (simp add: fits64_def money_reading_def sint64_minus)
    with True fits show ?thesis
      by (auto simp: money_Sub_eq money_like_def money_reading_def intro!: money_eqI)
  next
    case False
    then have "money_reading c \<noteq> money_reading a - money_reading b"
      by (metis fits64_sint money_reading_def)
    with True False show ?thesis by (simp add: money_Sub_eq)
  qed
next
  case False
  then show ?thesis using money_Sub_unlike [of a b] by auto
qed

interpretation money_arith: checked_arith money_reading money_like money_Add money_Sub
  "- 9223372036854775808" "9223372036854775807"
proof unfold_locales
  show "money_like a b \<Longrightarrow> money_reading a = money_reading b \<Longrightarrow> a = b" for a b
    by (auto simp: money_like_def money_reading_def intro: money_eqI)
  show "money_like a b \<Longrightarrow> - 9223372036854775808 \<le> money_reading a + money_reading b \<Longrightarrow>
      money_reading a + money_reading b \<le> 9223372036854775807 \<Longrightarrow> ok (money_Add a b)" for a b
    by (simp add: money_Add_eq fits64_def)
  show "money_like a b \<Longrightarrow> - 9223372036854775808 \<le> money_reading a - money_reading b \<Longrightarrow>
      money_reading a - money_reading b \<le> 9223372036854775807 \<Longrightarrow> ok (money_Sub a b)" for a b
    by (simp add: money_Sub_eq fits64_def)
qed (auto simp: money_like_def money_reading_def money_Add_Inr_iff money_Sub_Inr_iff sint64_lower sint64_upper)

lemma requireSameCurrency_no_overflow:
  "requireSameCurrency a b \<noteq> Inl (ValidationError FailureCodeAmountOverflow)"
  by (auto simp: requireSameCurrency_def money_Validate_def and_then_def code_defs split: if_splits)

text \<open>
  C33. Addition and subtraction are exact or refused: on two values of one currency they yield
  the mathematical result when it fits 64 bits and the overflow code when it does not, and on
  values of different or uninitialised currencies they yield no value.
\<close>

theorem money_Add_Sub_exact:
  "(money_Add a b = Inr c \<longleftrightarrow>
      money_like a b \<and> money_like a c \<and> money_reading c = money_reading a + money_reading b) \<and>
   (money_Sub a b = Inr c \<longleftrightarrow>
      money_like a b \<and> money_like a c \<and> money_reading c = money_reading a - money_reading b) \<and>
   (money_Add a b = Inl (ValidationError FailureCodeAmountOverflow) \<longleftrightarrow>
      money_like a b \<and> \<not> fits64 (money_reading a + money_reading b)) \<and>
   (money_Sub a b = Inl (ValidationError FailureCodeAmountOverflow) \<longleftrightarrow>
      money_like a b \<and> \<not> fits64 (money_reading a - money_reading b))"
proof (intro conjI)
  show "money_Add a b = Inl (ValidationError FailureCodeAmountOverflow) \<longleftrightarrow>
     money_like a b \<and> \<not> fits64 (money_reading a + money_reading b)"
    using requireSameCurrency_no_overflow [of a b] by (cases "money_like a b"; cases "requireSameCurrency a b")
      (auto simp: money_Add_eq, auto simp: money_Add_def)
  show "money_Sub a b = Inl (ValidationError FailureCodeAmountOverflow) \<longleftrightarrow>
     money_like a b \<and> \<not> fits64 (money_reading a - money_reading b)"
    using requireSameCurrency_no_overflow [of a b] by (cases "money_like a b"; cases "requireSameCurrency a b")
      (auto simp: money_Sub_eq, auto simp: money_Sub_def)
qed (simp_all add: money_Add_Inr_iff money_Sub_Inr_iff)

lemma money_Neg_Inr: "money_Neg m = Inr r \<Longrightarrow> money_like m r \<and> money_reading r = - money_reading m"
  by (auto simp: money_Neg_def money_Validate_def money_like_def money_reading_def sint64_uminus
      split: if_splits)

end
