(* ===== verification/Encoding.thy ===== *)
theory Encoding
  imports Money
begin

text \<open>
  What the entry points use of Go's text packages: \<open>strings.Cut\<close>, \<open>strings.EqualFold\<close> against a
  word of plain letters, \<open>strconv.Atoi\<close> and the unpadded URL alphabet of \<open>encoding/base64\<close>, with
  the round trip of the latter, on which the pages of a ledger depend.
\<close>

section \<open>strings and strconv\<close>

definition strings_Cut :: "string \<Rightarrow> char \<Rightarrow> (string \<times> string) option" where
  "strings_Cut s sep =
     (case IndexByte s sep of None \<Rightarrow> None | Some i \<Rightarrow> Some (take i s, drop (Suc i) s))"

lemma strings_Cut_append: "sep \<notin> set xs \<Longrightarrow> strings_Cut (xs @ sep # ys) sep = Some (xs, ys)"
  by (simp add: strings_Cut_def IndexByte_append)

lemma strings_Cut_Some: "strings_Cut s sep = Some (a, b) \<Longrightarrow> s = a @ sep # b \<and> sep \<notin> set a"
  using IndexByte_Some by (fastforce simp: strings_Cut_def split: option.splits)

definition to_lower :: "char \<Rightarrow> char" where
  "to_lower c = (if byte_between (CHR ''A'') (CHR ''Z'') c then char_of ((of_char c :: nat) + 32) else c)"

definition EqualFold :: "string \<Rightarrow> string \<Rightarrow> bool" where
  "EqualFold s t = (map to_lower s = map to_lower t)"

text \<open>
  \<open>Atoi\<close> answers a number or an error, and a number with the error too: zero when the text is no
  number, the nearest one when it does not fit.
\<close>

definition Atoi :: "string \<Rightarrow> int64 + int64" where
  "Atoi s =
     (let negative = (s \<noteq> '''' \<and> hd s = CHR ''-'');
          digits = (if s \<noteq> '''' \<and> (hd s = CHR ''-'' \<or> hd s = CHR ''+'') then tl s else s)
      in if digits = '''' \<or> (\<exists>c \<in> set digits. \<not> is_digit c) then Inl 0
         else let v = digits_value 0 digits; i = (if negative then - v else v)
              in if fits64 i then Inr (word_of_int i) else Inl (if negative then MinInt64 else MaxInt64))"

section \<open>base64.RawURLEncoding\<close>

definition url_alphabet :: string where
  "url_alphabet = ''ABCDEFGHIJKLMNOPQRSTUVWXYZabcdefghijklmnopqrstuvwxyz0123456789-_''"

definition url_char :: "nat \<Rightarrow> char" where
  "url_char n = url_alphabet ! n"

definition url_value :: "char \<Rightarrow> nat option" where
  "url_value c = IndexByte url_alphabet c"

fun sextets :: "nat list \<Rightarrow> nat list" where
  "sextets [] = []"
| "sextets [a] = [a div 4, (a mod 4) * 16]"
| "sextets [a, b] = [a div 4, (a mod 4) * 16 + b div 16, (b mod 16) * 4]"
| "sextets (a # b # c # rest) =
     a div 4 # ((a mod 4) * 16 + b div 16) # ((b mod 16) * 4 + c div 64) # c mod 64 # sextets rest"

definition base64_EncodeToString :: "string \<Rightarrow> string" where
  "base64_EncodeToString s = map url_char (sextets (map of_char s))"

text \<open>
  Decoding skips line breaks, refuses any other character outside the alphabet and a lone last
  character, and does not look at the bits a shorter last group leaves over.
\<close>

fun octets :: "nat list \<Rightarrow> nat list option" where
  "octets [] = Some []"
| "octets [x] = None"
| "octets [x, y] = Some [x * 4 + y div 16]"
| "octets [x, y, z] = Some [x * 4 + y div 16, (y mod 16) * 16 + z div 4]"
| "octets (x # y # z # u # rest) =
     map_option (\<lambda>os. (x * 4 + y div 16) # ((y mod 16) * 16 + z div 4) # ((z mod 4) * 64 + u) # os)
       (octets rest)"

definition base64_DecodeString :: "string \<Rightarrow> string option" where
  "base64_DecodeString s =
     (case those (map url_value (filter (\<lambda>c. c \<noteq> CHR 10 \<and> c \<noteq> CHR 13) s)) of
        None \<Rightarrow> None
      | Some vs \<Rightarrow> map_option (map char_of) (octets vs))"

lemma sextets_bounded: "\<forall>b \<in> set bs. b < 256 \<Longrightarrow> \<forall>x \<in> set (sextets bs). x < 64"
  by (induction bs rule: sextets.induct) auto

lemma octets_sextets: "\<forall>b \<in> set bs. b < 256 \<Longrightarrow> octets (sextets bs) = Some bs"
  by (induction bs rule: sextets.induct) (auto simp: div_mult2_eq [symmetric])

lemma url_alphabet_checks:
  "\<forall>n \<in> set [0..<64]. url_value (url_char n) = Some n \<and> url_char n \<noteq> CHR 10 \<and> url_char n \<noteq> CHR 13"
  by code_simp

lemma url_char_value:
  "n < 64 \<Longrightarrow> url_value (url_char n) = Some n \<and> url_char n \<noteq> CHR 10 \<and> url_char n \<noteq> CHR 13"
  using url_alphabet_checks by simp

lemma those_map_url:
  "\<forall>x \<in> set xs. x < 64 \<Longrightarrow>
     those (map url_value (filter (\<lambda>c. c \<noteq> CHR 10 \<and> c \<noteq> CHR 13) (map url_char xs))) = Some xs"
  by (induction xs) (simp_all add: url_char_value)

lemma base64_roundtrip: "base64_DecodeString (base64_EncodeToString s) = Some s"
proof -
  have b: "\<forall>x \<in> set (map of_char s :: nat list). x < 256" by auto
  have "base64_DecodeString (base64_EncodeToString s) =
      map_option (map char_of) (octets (sextets (map of_char s)))"
    by (simp add: base64_DecodeString_def base64_EncodeToString_def those_map_url [OF sextets_bounded [OF b]])
  also have "\<dots> = Some s" by (simp add: octets_sextets [OF b] o_def)
  finally show ?thesis .
qed

lemma base64_nonempty: "s \<noteq> '''' \<Longrightarrow> base64_EncodeToString s \<noteq> ''''"
  by (cases "map of_char s :: nat list" rule: sextets.cases) (simp_all add: base64_EncodeToString_def)

end
