(* ===== verification/Ledger.thy ===== *)
theory Ledger
  imports Money
begin

text \<open>
  \<open>internal/domain/ledger\<close>: the direction of a movement and the immutable entry of the
  append-only ledger, whose constructor checks the balance arithmetic.
\<close>

section \<open>Direction\<close>

text \<open>\<open>type Direction string\<close>: the two known values, and any other text.\<close>

datatype Direction = Debit | Credit | OtherDirection string

definition direction_of :: "string \<Rightarrow> Direction" where
  "direction_of s =
     (if s = ''DEBIT'' then Debit else if s = ''CREDIT'' then Credit else OtherDirection s)"

fun direction_String :: "Direction \<Rightarrow> string" where
  "direction_String Debit = ''DEBIT''"
| "direction_String Credit = ''CREDIT''"
| "direction_String (OtherDirection s) = s"

definition direction_IsValid :: "Direction \<Rightarrow> bool" where
  "direction_IsValid d = (d = Debit \<or> d = Credit)"

definition direction_Apply :: "Direction \<Rightarrow> Money \<Rightarrow> Money \<Rightarrow> err + Money" where
  "direction_Apply d balance amount =
     (if d = Credit then money_Add balance amount else money_Sub balance amount)"

lemma direction_of_String: "direction_IsValid d \<Longrightarrow> direction_of (direction_String d) = d"
  by (auto simp: direction_IsValid_def direction_of_def)

lemma direction_String_of [simp]: "direction_String (direction_of s) = s"
  by (simp add: direction_of_def)

section \<open>Entries\<close>

record Entry =
  entry_id :: ID
  entry_walletID :: ID
  entry_transactionID :: ID
  entry_direction :: Direction
  entry_amount :: Money
  entry_balanceBefore :: Money
  entry_balanceAfter :: Money
  entry_createdAt :: time

definition entry_requireSameCurrency :: "Money \<Rightarrow> Money \<Rightarrow> Money \<Rightarrow> err + unit" where
  "entry_requireSameCurrency amount balanceBefore balanceAfter =
     and_then (money_Cmp amount balanceBefore) (\<lambda>_.
       and_then (money_Cmp amount balanceAfter) (\<lambda>_. Inr ()))"

definition NewEntry ::
  "ID \<Rightarrow> ID \<Rightarrow> ID \<Rightarrow> Direction \<Rightarrow> Money \<Rightarrow> Money \<Rightarrow> Money \<Rightarrow> time \<Rightarrow> err + Entry" where
  "NewEntry i walletID transactionID direction amount balanceBefore balanceAfter createdAt =
     and_then (RequireID i) (\<lambda>_. and_then (RequireID walletID) (\<lambda>_.
     and_then (RequireID transactionID) (\<lambda>_. and_then (RequireTime createdAt) (\<lambda>_.
     if \<not> direction_IsValid direction then Inl (ValidationError FailureCodeInvalidInput)
     else and_then (money_Validate amount) (\<lambda>_.
     if \<not> money_IsPositive amount then Inl (ValidationError FailureCodeInvalidAmount)
     else and_then (entry_requireSameCurrency amount balanceBefore balanceAfter) (\<lambda>_.
     if money_IsNegative balanceBefore \<or> money_IsNegative balanceAfter
       then Inl (ValidationError FailureCodeInvalidAmount)
     else and_then (direction_Apply direction balanceBefore amount) (\<lambda>expected.
     if \<not> money_Equal expected balanceAfter then Inl (ValidationError FailureCodeInvalidAmount)
     else Inr \<lparr>entry_id = i, entry_walletID = walletID, entry_transactionID = transactionID,
       entry_direction = direction, entry_amount = amount, entry_balanceBefore = balanceBefore,
       entry_balanceAfter = balanceAfter, entry_createdAt = createdAt\<rparr>)))))))"

definition SignedMoney :: "Entry \<Rightarrow> err + Money" where
  "SignedMoney e =
     (if entry_direction e = Credit then Inr (entry_amount e) else money_Neg (entry_amount e))"

section \<open>What an entry promises\<close>

text \<open>The movement an entry records, signed by its direction, over the integers.\<close>

definition signed_amount :: "Direction \<Rightarrow> Money \<Rightarrow> int" where
  "signed_amount d amount = (if d = Credit then money_reading amount else - money_reading amount)"

definition entry_wf :: "Entry \<Rightarrow> bool" where
  "entry_wf e =
     (entry_id e \<noteq> NilID \<and> entry_walletID e \<noteq> NilID \<and> entry_transactionID e \<noteq> NilID \<and>
      entry_createdAt e \<noteq> 0 \<and> direction_IsValid (entry_direction e) \<and>
      money_like (entry_amount e) (entry_balanceBefore e) \<and>
      money_like (entry_amount e) (entry_balanceAfter e) \<and>
      0 < money_reading (entry_amount e) \<and> 0 \<le> money_reading (entry_balanceBefore e) \<and>
      0 \<le> money_reading (entry_balanceAfter e) \<and>
      money_reading (entry_balanceAfter e) =
        money_reading (entry_balanceBefore e) + signed_amount (entry_direction e) (entry_amount e))"

lemma money_sign_readings:
  "money_IsPositive m \<longleftrightarrow> 0 < money_reading m"
  "money_IsNegative m \<longleftrightarrow> money_reading m < 0"
  "money_IsZero m \<longleftrightarrow> money_reading m = 0"
  by (simp_all add: money_IsPositive_def money_IsNegative_def money_IsZero_def money_reading_def sless64)

lemma money_Validate_Inr [simp]: "money_Validate m = Inr u \<longleftrightarrow> \<not> currency_IsZero (currency m)"
  by (simp add: money_Validate_def)

lemma money_Validate_ok: "\<not> currency_IsZero (currency m) \<Longrightarrow> money_Validate m = Inr ()"
  by simp

lemma money_Cmp_Inr:
  "(\<exists>i. money_Cmp a b = Inr i) \<longleftrightarrow> money_like a b"
proof (cases "money_like a b")
  case True
  then show ?thesis by (simp add: money_Cmp_def requireSameCurrency_like)
next
  case False
  then have "requireSameCurrency a b \<noteq> Inr ()" by simp
  with False show ?thesis by (auto simp: money_Cmp_def and_then_Inr_iff)
qed

lemma entry_requireSameCurrency_Inr:
  "entry_requireSameCurrency a b c = Inr u \<longleftrightarrow> money_like a b \<and> money_like a c"
  by (simp add: entry_requireSameCurrency_def and_then_Inr_iff money_Cmp_Inr)

lemma direction_Apply_Inr_iff:
  "direction_Apply d balance amount = Inr r \<longleftrightarrow>
     money_like balance amount \<and> money_like balance r \<and>
     money_reading r = money_reading balance + signed_amount d amount"
  by (auto simp: direction_Apply_def signed_amount_def money_arith.add_Inr money_arith.sub_Inr)

text \<open>Moving back in the opposite direction restores the balance.\<close>

lemma direction_Apply_inverse:
  "direction_Apply Credit b m = Inr r \<Longrightarrow> direction_Apply Debit r m = Inr b"
  "direction_Apply Debit b m = Inr r \<Longrightarrow> direction_Apply Credit r m = Inr b"
  by (auto simp: direction_Apply_def intro: money_arith.sub_add money_arith.add_sub)

lemma money_like_equiv:
  "money_like a b \<Longrightarrow> money_like b a"
  "money_like a b \<Longrightarrow> money_like b c \<Longrightarrow> money_like a c"
  by (auto simp: money_like_def)

lemma NewEntry_Inr_iff:
  "NewEntry i w t d amount before after at = Inr e \<longleftrightarrow>
     e = \<lparr>entry_id = i, entry_walletID = w, entry_transactionID = t, entry_direction = d,
       entry_amount = amount, entry_balanceBefore = before, entry_balanceAfter = after,
       entry_createdAt = at\<rparr> \<and> entry_wf e"
  (is "_ \<longleftrightarrow> e = ?e \<and> _")
proof
  assume "NewEntry i w t d amount before after at = Inr e"
  then have "i \<noteq> NilID" "w \<noteq> NilID" "t \<noteq> NilID" "at \<noteq> 0" "direction_IsValid d"
    "\<not> currency_IsZero (currency amount)" "money_IsPositive amount"
    "entry_requireSameCurrency amount before after = Inr ()"
    "\<not> money_IsNegative before" "\<not> money_IsNegative after"
    "direction_Apply d before amount = Inr after" "e = ?e"
    by (auto simp: NewEntry_def money_Equal_def split: if_splits)
  then show "e = ?e \<and> entry_wf e"
    by (simp add: entry_wf_def entry_requireSameCurrency_Inr direction_Apply_Inr_iff money_sign_readings)
next
  assume "e = ?e \<and> entry_wf e"
  then have e: "e = ?e" and e_wf: "entry_wf ?e" by metis+
  then have wf: "i \<noteq> NilID" "w \<noteq> NilID" "t \<noteq> NilID" "at \<noteq> 0" "direction_IsValid d"
    "money_IsPositive amount" "\<not> money_IsNegative before" "\<not> money_IsNegative after"
    "\<not> currency_IsZero (currency amount)"
    by (auto simp: entry_wf_def money_sign_readings money_like_def)
  from e_wf have "direction_Apply d before amount = Inr after"
    and "entry_requireSameCurrency amount before after = Inr ()"
    by (auto simp: entry_wf_def direction_Apply_Inr_iff entry_requireSameCurrency_Inr money_like_def)
  with wf e show "NewEntry i w t d amount before after at = Inr e"
    by (simp add: NewEntry_def money_Equal_def Require_Inr money_Validate_ok)
qed

lemma SignedMoney_reading:
  "SignedMoney e = Inr m \<Longrightarrow> money_reading m = signed_amount (entry_direction e) (entry_amount e)"
  by (auto simp: SignedMoney_def signed_amount_def dest: money_Neg_Inr split: if_splits)

end
