(* ===== verification/Wager.thy ===== *)
theory Wager
  imports Ledger
begin

text \<open>
  \<open>internal/domain/wager\<close>: the kinds of operation, their state machine and the operation
  itself with its constructors and the methods that move it. A method that changes its
  receiver returns the changed operation; where Go returns an error after a change, the model
  returns the error together with the operation as it was left.
\<close>

section \<open>Kind\<close>

text \<open>\<open>type Kind string\<close>: the six known values, and any other text.\<close>

datatype Kind = KindOpening | KindBet | KindWin | KindLoss | KindRefund | KindRollback | OtherKind string

definition kind_of :: "string \<Rightarrow> Kind" where
  "kind_of s =
     (if s = ''OPENING'' then KindOpening else if s = ''BET'' then KindBet
      else if s = ''WIN'' then KindWin else if s = ''LOSS'' then KindLoss
      else if s = ''REFUND'' then KindRefund else if s = ''ROLLBACK'' then KindRollback
      else OtherKind s)"

fun kind_String :: "Kind \<Rightarrow> string" where
  "kind_String KindOpening = ''OPENING''"
| "kind_String KindBet = ''BET''"
| "kind_String KindWin = ''WIN''"
| "kind_String KindLoss = ''LOSS''"
| "kind_String KindRefund = ''REFUND''"
| "kind_String KindRollback = ''ROLLBACK''"
| "kind_String (OtherKind s) = s"

definition kind_IsValid :: "Kind \<Rightarrow> bool" where
  "kind_IsValid k = (k \<in> {KindOpening, KindBet, KindWin, KindLoss, KindRefund, KindRollback})"

definition IsExternal :: "Kind \<Rightarrow> bool" where
  "IsExternal k = (kind_IsValid k \<and> k \<noteq> KindOpening)"

definition IsReversal :: "Kind \<Rightarrow> bool" where
  "IsReversal k = (k = KindRefund \<or> k = KindRollback)"

definition RequiresReference :: "Kind \<Rightarrow> bool" where
  "RequiresReference k = IsReversal k"

definition AllowsReference :: "Kind \<Rightarrow> bool" where
  "AllowsReference k = (RequiresReference k \<or> k = KindWin)"

definition ParseExternalKind :: "string \<Rightarrow> err + Kind" where
  "ParseExternalKind value =
     (let kind = kind_of value in
      if \<not> kind_IsValid kind then Inl (ValidationError FailureCodeInvalidInput)
      else if \<not> IsExternal kind then Inl (ValidationError FailureCodeKindNotAllowed)
      else Inr kind)"

lemma kind_of_String: "kind_IsValid k \<Longrightarrow> kind_of (kind_String k) = k"
  by (auto simp: kind_IsValid_def kind_of_def)

lemma kind_String_of [simp]: "kind_String (kind_of s) = s"
  by (simp add: kind_of_def)

section \<open>State\<close>

text \<open>\<open>type State string\<close>: the five known values, and any other text.\<close>

datatype State =
    StatePending | StatePendingReference | StateProcessed | StateRejected | StateFailed
  | OtherState string

definition state_of :: "string \<Rightarrow> State" where
  "state_of s =
     (if s = ''PENDING'' then StatePending else if s = ''PENDING_REFERENCE'' then StatePendingReference
      else if s = ''PROCESSED'' then StateProcessed else if s = ''REJECTED'' then StateRejected
      else if s = ''FAILED'' then StateFailed else OtherState s)"

fun state_String :: "State \<Rightarrow> string" where
  "state_String StatePending = ''PENDING''"
| "state_String StatePendingReference = ''PENDING_REFERENCE''"
| "state_String StateProcessed = ''PROCESSED''"
| "state_String StateRejected = ''REJECTED''"
| "state_String StateFailed = ''FAILED''"
| "state_String (OtherState s) = s"

definition state_IsValid :: "State \<Rightarrow> bool" where
  "state_IsValid s =
     (s \<in> {StatePending, StatePendingReference, StateProcessed, StateRejected, StateFailed})"

definition IsTerminal :: "State \<Rightarrow> bool" where
  "IsTerminal s = (s = StateProcessed \<or> s = StateRejected \<or> s = StateFailed)"

definition CanTransitionTo :: "State \<Rightarrow> State \<Rightarrow> bool" where
  "CanTransitionTo s target =
     (if \<not> state_IsValid s \<or> \<not> state_IsValid target \<or> IsTerminal s then False
      else if target = StatePending then False
      else if target = StatePendingReference then s = StatePending
      else True)"

lemma state_of_String: "state_IsValid s \<Longrightarrow> state_of (state_String s) = s"
  by (auto simp: state_IsValid_def state_of_def)

lemma state_String_of [simp]: "state_String (state_of s) = s"
  by (simp add: state_of_def)

section \<open>Transaction\<close>

record Transaction =
  t_id :: ID
  t_kind :: Kind
  t_state :: State
  t_walletID :: ID
  t_playerID :: ID
  t_amount :: Money
  t_providerID :: string
  t_externalTransactionID :: string
  t_idempotencyKey :: string
  t_payloadHash :: string
  t_roundID :: string
  t_gameID :: string
  t_referenceExternalTransactionID :: string
  t_referenceTransactionID :: ID
  t_referenceAttempts :: int64
  t_failureCode :: failure_code
  t_resultBalance :: "Money option"
  t_createdAt :: time
  t_updatedAt :: time

record NewExternalParams =
  p_ID :: ID
  p_Kind :: Kind
  p_ProviderID :: string
  p_ExternalTransactionID :: string
  p_IdempotencyKey :: string
  p_PayloadHash :: string
  p_WalletID :: ID
  p_PlayerID :: ID
  p_RoundID :: string
  p_GameID :: string
  p_Money :: Money
  p_ReferenceExternalTransactionID :: string
  p_CreatedAt :: time

definition validateKindAmount :: "Kind \<Rightarrow> Money \<Rightarrow> err + unit" where
  "validateKindAmount kind amount =
     and_then (money_Validate amount) (\<lambda>_.
       if money_IsNegative amount then Inl (ValidationError FailureCodeInvalidAmount)
       else if kind = KindLoss
         then (if \<not> money_IsZero amount then Inl (ValidationError FailureCodeInvalidAmount) else Inr ())
       else if \<not> money_IsPositive amount then Inl (ValidationError FailureCodeInvalidAmount)
       else Inr ())"

definition validateKindReference :: "Kind \<Rightarrow> string \<Rightarrow> err + unit" where
  "validateKindReference kind reference =
     (if RequiresReference kind \<and> reference = '''' then Inl (ValidationError FailureCodeInvalidInput)
      else if \<not> AllowsReference kind \<and> reference \<noteq> '''' then Inl (ValidationError FailureCodeInvalidInput)
      else Inr ())"

definition NewExternal :: "NewExternalParams \<Rightarrow> err + Transaction" where
  "NewExternal params =
     (if \<not> kind_IsValid (p_Kind params) then Inl (ValidationError FailureCodeInvalidInput)
      else if \<not> IsExternal (p_Kind params) then Inl (ValidationError FailureCodeKindNotAllowed)
      else and_then (RequireID (p_ID params)) (\<lambda>_. and_then (RequireID (p_WalletID params)) (\<lambda>_.
      and_then (RequireID (p_PlayerID params)) (\<lambda>_. and_then (RequireTime (p_CreatedAt params)) (\<lambda>_.
      if '''' \<in> set [p_ProviderID params, p_ExternalTransactionID params, p_IdempotencyKey params,
                      p_PayloadHash params, p_RoundID params, p_GameID params]
        then Inl (ValidationError FailureCodeInvalidInput)
      else and_then (validateKindAmount (p_Kind params) (p_Money params)) (\<lambda>_.
      and_then (validateKindReference (p_Kind params) (p_ReferenceExternalTransactionID params)) (\<lambda>_.
      if p_ReferenceExternalTransactionID params = p_ExternalTransactionID params
        then Inl (ValidationError FailureCodeInvalidInput)
      else Inr \<lparr>t_id = p_ID params, t_kind = p_Kind params, t_state = StatePending,
        t_walletID = p_WalletID params, t_playerID = p_PlayerID params, t_amount = p_Money params,
        t_providerID = p_ProviderID params, t_externalTransactionID = p_ExternalTransactionID params,
        t_idempotencyKey = p_IdempotencyKey params, t_payloadHash = p_PayloadHash params,
        t_roundID = p_RoundID params, t_gameID = p_GameID params,
        t_referenceExternalTransactionID = p_ReferenceExternalTransactionID params,
        t_referenceTransactionID = NilID, t_referenceAttempts = 0, t_failureCode = '''',
        t_resultBalance = None, t_createdAt = p_CreatedAt params,
        t_updatedAt = p_CreatedAt params\<rparr>)))))))"

definition NewOpening :: "ID \<Rightarrow> ID \<Rightarrow> ID \<Rightarrow> Money \<Rightarrow> time \<Rightarrow> err + Transaction" where
  "NewOpening i walletID playerID initialBalance createdAt =
     and_then (RequireID i) (\<lambda>_. and_then (RequireID walletID) (\<lambda>_. and_then (RequireID playerID) (\<lambda>_.
     and_then (validateKindAmount KindOpening initialBalance) (\<lambda>_. and_then (RequireTime createdAt) (\<lambda>_.
     Inr \<lparr>t_id = i, t_kind = KindOpening, t_state = StateProcessed,
        t_walletID = walletID, t_playerID = playerID, t_amount = initialBalance,
        t_providerID = '''', t_externalTransactionID = '''', t_idempotencyKey = '''',
        t_payloadHash = '''', t_roundID = '''', t_gameID = '''',
        t_referenceExternalTransactionID = '''', t_referenceTransactionID = NilID,
        t_referenceAttempts = 0, t_failureCode = '''', t_resultBalance = Some initialBalance,
        t_createdAt = createdAt, t_updatedAt = createdAt\<rparr>)))))"

text \<open>
  \<open>RehydrateParams\<close> has the fields of \<open>Transaction\<close> under exported names, so the same record
  stands for both; \<open>Rehydrate\<close> checks and copies them.
\<close>

type_synonym RehydrateParams = Transaction

definition wager_Rehydrate :: "RehydrateParams \<Rightarrow> err + Transaction" where
  "wager_Rehydrate params =
     (if \<not> kind_IsValid (t_kind params) then Inl (ValidationError FailureCodeInvalidInput)
      else if \<not> state_IsValid (t_state params) then Inl (ValidationError FailureCodeInvalidInput)
      else and_then (RequireID (t_id params)) (\<lambda>_. and_then (RequireID (t_walletID params)) (\<lambda>_.
      and_then (RequireID (t_playerID params)) (\<lambda>_. and_then (money_Validate (t_amount params)) (\<lambda>_.
      if t_referenceAttempts params <s 0 then Inl (ValidationError FailureCodeInvalidInput)
      else and_then (RequireTime (t_createdAt params)) (\<lambda>_.
      and_then (RequireTime (t_updatedAt params)) (\<lambda>_. Inr params)))))))"

definition ReferenceTransactionID :: "Transaction \<Rightarrow> ID option" where
  "ReferenceTransactionID t =
     (if IsNilID (t_referenceTransactionID t) then None else Some (t_referenceTransactionID t))"

section \<open>Transitions\<close>

definition transitionTo :: "Transaction \<Rightarrow> State \<Rightarrow> time \<Rightarrow> err + Transaction" where
  "transitionTo t target at =
     and_then (RequireTime at) (\<lambda>_.
       if IsTerminal (t_state t) then Inl (ValidationError FailureCodeInvalidStateTransition)
       else if \<not> CanTransitionTo (t_state t) target
         then Inl (ValidationError FailureCodeInvalidStateTransition)
       else Inr (t\<lparr>t_state := target, t_updatedAt := at\<rparr>))"

definition MarkPendingReference :: "Transaction \<Rightarrow> time \<Rightarrow> err + Transaction" where
  "MarkPendingReference t at =
     (if t_referenceExternalTransactionID t = ''''
        then Inl (ValidationError FailureCodeInvalidStateTransition)
      else transitionTo t StatePendingReference at)"

definition MarkProcessed :: "Transaction \<Rightarrow> Money \<Rightarrow> time \<Rightarrow> err + Transaction" where
  "MarkProcessed t balanceAfter at =
     and_then (money_Validate balanceAfter) (\<lambda>_.
       if currency balanceAfter \<noteq> currency (t_amount t)
         then Inl (ValidationError FailureCodeCurrencyMismatch)
       else and_then (transitionTo t StateProcessed at)
         (\<lambda>t'. Inr (t'\<lparr>t_resultBalance := Some balanceAfter\<rparr>)))"

definition MarkRejected :: "Transaction \<Rightarrow> failure_code \<Rightarrow> time \<Rightarrow> err + Transaction" where
  "MarkRejected t code at =
     (if code = '''' then Inl (ValidationError FailureCodeInvalidInput)
      else and_then (transitionTo t StateRejected at) (\<lambda>t'. Inr (t'\<lparr>t_failureCode := code\<rparr>)))"

definition MarkFailed :: "Transaction \<Rightarrow> failure_code \<Rightarrow> time \<Rightarrow> err + Transaction" where
  "MarkFailed t code at =
     (if code = '''' then Inl (ValidationError FailureCodeInvalidInput)
      else and_then (transitionTo t StateFailed at) (\<lambda>t'. Inr (t'\<lparr>t_failureCode := code\<rparr>)))"

text \<open>The attempt is counted before the rejection, which could still fail.\<close>

definition RecordMissingReference ::
  "Transaction \<Rightarrow> int64 \<Rightarrow> time \<Rightarrow> (err + unit) \<times> Transaction" where
  "RecordMissingReference t maxAttempts at =
     (case RequireTime at of
        Inl e \<Rightarrow> (Inl e, t)
      | Inr _ \<Rightarrow>
          if maxAttempts <s 1 then (Inl (ValidationError FailureCodeInvalidInput), t)
          else if t_state t \<noteq> StatePendingReference
            then (Inl (ValidationError FailureCodeInvalidStateTransition), t)
          else let t' = t\<lparr>t_referenceAttempts := t_referenceAttempts t + 1, t_updatedAt := at\<rparr> in
            if t_referenceAttempts t' <s maxAttempts then (Inr (), t')
            else (case MarkRejected t' FailureCodeReferenceNotFound at of
                    Inl e \<Rightarrow> (Inl e, t')
                  | Inr t'' \<Rightarrow> (Inr (), t'')))"

fun referableKinds :: "Kind \<Rightarrow> Kind list" where
  "referableKinds KindWin = [KindBet]"
| "referableKinds KindRefund = [KindBet]"
| "referableKinds KindRollback = [KindBet, KindWin, KindRefund]"
| "referableKinds _ = []"

definition ResolveReference :: "Transaction \<Rightarrow> Transaction option \<Rightarrow> err + Transaction" where
  "ResolveReference t reference =
     (case reference of
        None \<Rightarrow> Inl (ValidationError FailureCodeInvalidInput)
      | Some r \<Rightarrow>
          if t_referenceExternalTransactionID t = '''' then Inl (ValidationError FailureCodeInvalidInput)
          else if IsTerminal (t_state t) then Inl (ValidationError FailureCodeInvalidStateTransition)
          else if t_providerID r \<noteq> t_providerID t \<or>
                  t_externalTransactionID r \<noteq> t_referenceExternalTransactionID t
            then Inl (ValidationError FailureCodeInvalidInput)
          else if t_kind r \<notin> set (referableKinds (t_kind t))
            then Inl (RejectionError FailureCodeReferenceMismatch)
          else if t_state r \<noteq> StateProcessed
            then Inl (RejectionError FailureCodeReferenceNotProcessed)
          else if t_walletID r \<noteq> t_walletID t \<or> t_playerID r \<noteq> t_playerID t \<or>
                  currency (t_amount r) \<noteq> currency (t_amount t) \<or> t_roundID r \<noteq> t_roundID t
            then Inl (RejectionError FailureCodeReferenceMismatch)
          else if IsReversal (t_kind t) \<and> \<not> money_Equal (t_amount r) (t_amount t)
            then Inl (RejectionError FailureCodeReferenceAmountMismatch)
          else Inr (t\<lparr>t_referenceTransactionID := t_id r\<rparr>))"

section \<open>The state machine\<close>

text \<open>
  What the use cases rely on when they conclude an operation: a relation on states that only
  goes down a ranking and never leaves a terminal state. A run is the list of the states
  visited after the first.
\<close>

locale ranked_machine =
  fixes can :: "'s \<Rightarrow> 's \<Rightarrow> bool"
    and terminal :: "'s \<Rightarrow> bool"
    and rank :: "'s \<Rightarrow> nat"
  assumes terminal_stuck: "terminal s \<Longrightarrow> \<not> can s t"
    and rank_decreases: "can s t \<Longrightarrow> rank t < rank s"
begin

lemma run_rank: "(\<And>i. Suc i < length ss \<Longrightarrow> can (ss ! i) (ss ! Suc i)) \<Longrightarrow> j < length ss \<Longrightarrow>
    rank (ss ! j) + j \<le> rank (ss ! 0)"
proof (induction j)
  case (Suc j)
  have "rank (ss ! Suc j) < rank (ss ! j)" using Suc.prems by (intro rank_decreases) simp
  moreover have "rank (ss ! j) + j \<le> rank (ss ! 0)" using Suc by simp
  ultimately show ?case by simp
qed simp

lemma run_bounded:
  assumes "\<And>i. Suc i < length ss \<Longrightarrow> can (ss ! i) (ss ! Suc i)" and "ss \<noteq> []"
  shows "length ss \<le> Suc (rank (ss ! 0))"
  using run_rank [of ss "length ss - 1"] assms by (cases ss) simp_all

lemma no_return: "can\<^sup>+\<^sup>+ s t \<Longrightarrow> rank t < rank s"
  by (induction rule: tranclp_induct) (auto dest: rank_decreases)

lemma acyclic: "\<not> can\<^sup>+\<^sup>+ s s"
  using no_return by blast

end

definition state_rank :: "State \<Rightarrow> nat" where
  "state_rank s = (if s = StatePending then 2 else if s = StatePendingReference then 1 else 0)"

interpretation wager_machine: ranked_machine CanTransitionTo IsTerminal state_rank
  by unfold_locales
    (auto simp: CanTransitionTo_def IsTerminal_def state_rank_def state_IsValid_def split: if_splits)

section \<open>Well-formed operations\<close>

definition kind_amount_ok :: "Kind \<Rightarrow> Money \<Rightarrow> bool" where
  "kind_amount_ok k m =
     (\<not> currency_IsZero (currency m) \<and>
      (if k = KindLoss then money_reading m = 0 else 0 < money_reading m))"

definition kind_reference_ok :: "Kind \<Rightarrow> string \<Rightarrow> bool" where
  "kind_reference_ok k r = ((RequiresReference k \<longrightarrow> r \<noteq> '''') \<and> (r \<noteq> '''' \<longrightarrow> AllowsReference k))"

text \<open>What the state of an operation says about its outcome.\<close>

definition outcome_ok :: "Transaction \<Rightarrow> bool" where
  "outcome_ok t =
     (state_IsValid (t_state t) \<and>
      (t_state t = StateProcessed \<longleftrightarrow> t_resultBalance t \<noteq> None) \<and>
      (\<forall>b. t_resultBalance t = Some b \<longrightarrow> money_like b (t_amount t)) \<and>
      (t_state t \<in> {StateRejected, StateFailed} \<longleftrightarrow> t_failureCode t \<noteq> '''') \<and>
      (t_state t = StatePendingReference \<longrightarrow> t_referenceExternalTransactionID t \<noteq> ''''))"

definition origin_ok :: "Transaction \<Rightarrow> bool" where
  "origin_ok t =
     (if t_kind t = KindOpening
      then t_state t = StateProcessed \<and> t_providerID t = '''' \<and> t_externalTransactionID t = '''' \<and>
        t_idempotencyKey t = '''' \<and> t_payloadHash t = '''' \<and> t_roundID t = '''' \<and> t_gameID t = '''' \<and>
        t_referenceExternalTransactionID t = ''''
      else t_providerID t \<noteq> '''' \<and> t_externalTransactionID t \<noteq> '''' \<and> t_idempotencyKey t \<noteq> '''' \<and>
        t_payloadHash t \<noteq> '''' \<and> t_roundID t \<noteq> '''' \<and> t_gameID t \<noteq> '''' \<and>
        t_referenceExternalTransactionID t \<noteq> t_externalTransactionID t)"

definition transaction_wf :: "Transaction \<Rightarrow> bool" where
  "transaction_wf t =
     (t_id t \<noteq> NilID \<and> t_walletID t \<noteq> NilID \<and> t_playerID t \<noteq> NilID \<and>
      t_createdAt t \<noteq> 0 \<and> t_updatedAt t \<noteq> 0 \<and> 0 \<le> sint (t_referenceAttempts t) \<and>
      (\<not> IsTerminal (t_state t) \<longrightarrow> t_referenceAttempts t <s MaxInt64) \<and>
      kind_IsValid (t_kind t) \<and> kind_amount_ok (t_kind t) (t_amount t) \<and>
      kind_reference_ok (t_kind t) (t_referenceExternalTransactionID t) \<and>
      outcome_ok t \<and> origin_ok t)"

lemmas transaction_wf_defs = transaction_wf_def outcome_ok_def origin_ok_def

lemma validateKindAmount_Inr [simp]: "validateKindAmount k m = Inr u \<longleftrightarrow> kind_amount_ok k m"
  by (auto simp: validateKindAmount_def kind_amount_ok_def money_sign_readings and_then_Inr_iff)

lemma validateKindReference_Inr [simp]: "validateKindReference k r = Inr u \<longleftrightarrow> kind_reference_ok k r"
  by (auto simp: validateKindReference_def kind_reference_ok_def)

lemma MaxInt64_positive [simp]: "0 <s MaxInt64"
  by (simp add: sless64)

lemma NewExternal_wf:
  assumes "NewExternal p = Inr t"
  shows "transaction_wf t" and "t_state t = StatePending" and "IsExternal (t_kind t)"
  using assms
  by (auto simp: NewExternal_def transaction_wf_defs state_IsValid_def IsExternal_def split: if_splits)

lemma NewOpening_wf:
  assumes "NewOpening i w p b at = Inr t"
  shows "transaction_wf t"
  using assms
  by (auto simp: NewOpening_def transaction_wf_defs state_IsValid_def kind_IsValid_def
      kind_reference_ok_def RequiresReference_def IsReversal_def kind_amount_ok_def money_like_def)

lemma transitionTo_Inr_iff:
  "transitionTo t s at = Inr t' \<longleftrightarrow>
     at \<noteq> 0 \<and> CanTransitionTo (t_state t) s \<and> t' = t\<lparr>t_state := s, t_updatedAt := at\<rparr>"
  by (auto simp: transitionTo_def and_then_Inr_iff CanTransitionTo_def split: if_splits)

lemma CanTransitionTo_from:
  "CanTransitionTo s s' \<Longrightarrow> s = StatePending \<or> s = StatePendingReference"
  by (auto simp: CanTransitionTo_def IsTerminal_def state_IsValid_def split: if_splits)

text \<open>The methods that change an operation, as the steps it can take.\<close>

inductive wager_step :: "Transaction \<Rightarrow> Transaction \<Rightarrow> bool" where
  pending: "MarkPendingReference t at = Inr t' \<Longrightarrow> wager_step t t'"
| missing: "RecordMissingReference t n at = (r, t') \<Longrightarrow> wager_step t t'"
| processed: "MarkProcessed t b at = Inr t' \<Longrightarrow> wager_step t t'"
| rejected: "MarkRejected t c at = Inr t' \<Longrightarrow> wager_step t t'"
| failed: "MarkFailed t c at = Inr t' \<Longrightarrow> wager_step t t'"
| resolved: "ResolveReference t r = Inr t' \<Longrightarrow> wager_step t t'"

lemma MarkPendingReference_Inr_iff:
  "MarkPendingReference t at = Inr t' \<longleftrightarrow>
     at \<noteq> 0 \<and> t_state t = StatePending \<and> t_referenceExternalTransactionID t \<noteq> '''' \<and>
     t' = t\<lparr>t_state := StatePendingReference, t_updatedAt := at\<rparr>"
  by (auto simp: MarkPendingReference_def transitionTo_Inr_iff CanTransitionTo_def IsTerminal_def
      state_IsValid_def split: if_splits)

lemma MarkProcessed_Inr_iff:
  "MarkProcessed t b at = Inr t' \<longleftrightarrow>
     money_like b (t_amount t) \<and> at \<noteq> 0 \<and> t_state t \<in> {StatePending, StatePendingReference} \<and>
     t' = t\<lparr>t_state := StateProcessed, t_updatedAt := at, t_resultBalance := Some b\<rparr>"
  by (auto simp: MarkProcessed_def transitionTo_Inr_iff CanTransitionTo_def IsTerminal_def
      state_IsValid_def money_like_def and_then_Inr_iff split: if_splits)

lemma MarkRejected_Inr_iff:
  "MarkRejected t c at = Inr t' \<longleftrightarrow>
     c \<noteq> '''' \<and> at \<noteq> 0 \<and> t_state t \<in> {StatePending, StatePendingReference} \<and>
     t' = t\<lparr>t_state := StateRejected, t_updatedAt := at, t_failureCode := c\<rparr>"
  by (auto simp: MarkRejected_def transitionTo_Inr_iff CanTransitionTo_def IsTerminal_def
      state_IsValid_def and_then_Inr_iff split: if_splits)

lemma MarkFailed_Inr_iff:
  "MarkFailed t c at = Inr t' \<longleftrightarrow>
     c \<noteq> '''' \<and> at \<noteq> 0 \<and> t_state t \<in> {StatePending, StatePendingReference} \<and>
     t' = t\<lparr>t_state := StateFailed, t_updatedAt := at, t_failureCode := c\<rparr>"
  by (auto simp: MarkFailed_def transitionTo_Inr_iff CanTransitionTo_def IsTerminal_def
      state_IsValid_def and_then_Inr_iff split: if_splits)

lemma ResolveReference_Inr_iff:
  "ResolveReference t r = Inr t' \<longleftrightarrow>
     (\<exists>q. r = Some q \<and> t_referenceExternalTransactionID t \<noteq> '''' \<and> \<not> IsTerminal (t_state t) \<and>
        t_providerID q = t_providerID t \<and>
        t_externalTransactionID q = t_referenceExternalTransactionID t \<and>
        t_kind q \<in> set (referableKinds (t_kind t)) \<and> t_state q = StateProcessed \<and>
        t_walletID q = t_walletID t \<and> t_playerID q = t_playerID t \<and>
        currency (t_amount q) = currency (t_amount t) \<and> t_roundID q = t_roundID t \<and>
        (IsReversal (t_kind t) \<longrightarrow> t_amount q = t_amount t) \<and>
        t' = t\<lparr>t_referenceTransactionID := t_id q\<rparr>)"
  by (cases r) (auto simp: ResolveReference_def money_Equal_def)

lemmas mark_iffs = MarkPendingReference_Inr_iff MarkProcessed_Inr_iff MarkRejected_Inr_iff
  MarkFailed_Inr_iff ResolveReference_Inr_iff

lemma RecordMissingReference_cases:
  assumes "RecordMissingReference t n at = (r, t')"
  obtains (refused) e where "r = Inl e" and "t' = t"
  | (waiting) "r = Inr ()" and "at \<noteq> 0" and "t_state t = StatePendingReference" and
      "t_referenceAttempts t + 1 <s n" and
      "t' = t\<lparr>t_referenceAttempts := t_referenceAttempts t + 1, t_updatedAt := at\<rparr>"
  | (expired) "r = Inr ()" and "at \<noteq> 0" and "t_state t = StatePendingReference" and
      "n \<le>s t_referenceAttempts t + 1" and "1 \<le>s n" and
      "t' = t\<lparr>t_referenceAttempts := t_referenceAttempts t + 1, t_updatedAt := at,
        t_state := StateRejected, t_failureCode := FailureCodeReferenceNotFound\<rparr>"
proof (cases "at \<noteq> 0 \<and> \<not> n <s 1 \<and> t_state t = StatePendingReference")
  case False
  with assms obtain e where "r = Inl e" "t' = t"
    by (auto simp: RecordMissingReference_def RequireTime_def IsZero_time_def split: if_splits)
  then show thesis by (rule refused)
next
  case True
  let ?t = "t\<lparr>t_referenceAttempts := t_referenceAttempts t + 1, t_updatedAt := at\<rparr>"
  have "MarkRejected ?t FailureCodeReferenceNotFound at =
      Inr (?t\<lparr>t_state := StateRejected, t_updatedAt := at, t_failureCode := FailureCodeReferenceNotFound\<rparr>)"
    using True by (subst MarkRejected_Inr_iff) (simp add: code_defs)
  with True assms show thesis
    using waiting expired
    by (auto simp: RecordMissingReference_def Require_Inr Let_def sless64 sle64 not_less split: if_splits)
qed

lemma wager_step_terminal: "wager_step t t' \<Longrightarrow> IsTerminal (t_state t) \<Longrightarrow> t' = t"
  by (erule wager_step.cases)
    (auto simp: mark_iffs IsTerminal_def elim!: RecordMissingReference_cases)

lemma wager_step_state:
  "wager_step t t' \<Longrightarrow> t_state t' = t_state t \<or> CanTransitionTo (t_state t) (t_state t')"
  by (erule wager_step.cases)
    (auto simp: mark_iffs CanTransitionTo_def IsTerminal_def state_IsValid_def
      elim!: RecordMissingReference_cases)

text \<open>What never changes once an operation is created.\<close>

definition same_request :: "Transaction \<Rightarrow> Transaction \<Rightarrow> bool" where
  "same_request t t' =
     (t_id t' = t_id t \<and> t_kind t' = t_kind t \<and> t_walletID t' = t_walletID t \<and>
      t_playerID t' = t_playerID t \<and> t_amount t' = t_amount t \<and> t_providerID t' = t_providerID t \<and>
      t_externalTransactionID t' = t_externalTransactionID t \<and>
      t_idempotencyKey t' = t_idempotencyKey t \<and> t_payloadHash t' = t_payloadHash t \<and>
      t_roundID t' = t_roundID t \<and> t_gameID t' = t_gameID t \<and>
      t_referenceExternalTransactionID t' = t_referenceExternalTransactionID t \<and>
      t_createdAt t' = t_createdAt t)"

lemma same_request_refl [simp]: "same_request t t"
  by (simp add: same_request_def)

lemma same_request_trans: "same_request t u \<Longrightarrow> same_request u v \<Longrightarrow> same_request t v"
  by (simp add: same_request_def)

lemma wager_step_same_request: "wager_step t t' \<Longrightarrow> same_request t t'"
  by (erule wager_step.cases)
    (auto simp: mark_iffs same_request_def elim!: RecordMissingReference_cases)

lemma sint_attempt:
  "t <s MaxInt64 \<Longrightarrow> sint (t + 1) = sint t + 1"
  using sint64_lower [of t] by (simp add: sless64 sint64_plus)

lemma open_state_wf:
  "transaction_wf t \<Longrightarrow> t_state t = StatePending \<or> t_state t = StatePendingReference \<Longrightarrow>
     t_kind t \<noteq> KindOpening \<and> t_resultBalance t = None \<and> t_failureCode t = ''''"
  by (cases "t_kind t = KindOpening") (auto simp: transaction_wf_defs)

lemma wager_step_keeps_wf:
  assumes "wager_step t t'" and "transaction_wf t"
  shows "transaction_wf t'"
  using assms(1)
proof cases
  case (missing n at r)
  then show ?thesis
  proof (cases rule: RecordMissingReference_cases)
    case waiting
    with assms(2) sint_attempt [of "t_referenceAttempts t"] sint64_upper [of n] show ?thesis
      by (auto simp: transaction_wf_defs IsTerminal_def sless64 state_IsValid_def)
  next
    case expired
    with assms(2) sint_attempt [of "t_referenceAttempts t"] show ?thesis
      by (auto simp: transaction_wf_defs IsTerminal_def sless64 state_IsValid_def code_defs)
  qed (use assms(2) in simp)
next
  case (pending at)
  then have h: "t_state t = StatePending" "t_referenceExternalTransactionID t \<noteq> ''''" "at \<noteq> 0"
    "t' = t\<lparr>t_state := StatePendingReference, t_updatedAt := at\<rparr>"
    by (simp_all add: MarkPendingReference_Inr_iff)
  then show ?thesis
    using assms(2) open_state_wf [OF assms(2)]
    by (simp add: transaction_wf_defs IsTerminal_def state_IsValid_def)
next
  case (processed b at)
  then have h: "t_state t = StatePending \<or> t_state t = StatePendingReference" "money_like b (t_amount t)"
    "at \<noteq> 0" "t' = t\<lparr>t_state := StateProcessed, t_updatedAt := at, t_resultBalance := Some b\<rparr>"
    by (simp_all add: MarkProcessed_Inr_iff)
  then show ?thesis
    using assms(2) open_state_wf [OF assms(2)]
    by (simp add: transaction_wf_defs IsTerminal_def state_IsValid_def)
next
  case (rejected c at)
  then have h: "t_state t = StatePending \<or> t_state t = StatePendingReference" "c \<noteq> ''''"
    "at \<noteq> 0" "t' = t\<lparr>t_state := StateRejected, t_updatedAt := at, t_failureCode := c\<rparr>"
    by (simp_all add: MarkRejected_Inr_iff)
  then show ?thesis
    using assms(2) open_state_wf [OF assms(2)]
    by (simp add: transaction_wf_defs IsTerminal_def state_IsValid_def)
next
  case (failed c at)
  then have h: "t_state t = StatePending \<or> t_state t = StatePendingReference" "c \<noteq> ''''"
    "at \<noteq> 0" "t' = t\<lparr>t_state := StateFailed, t_updatedAt := at, t_failureCode := c\<rparr>"
    by (simp_all add: MarkFailed_Inr_iff)
  then show ?thesis
    using assms(2) open_state_wf [OF assms(2)]
    by (simp add: transaction_wf_defs IsTerminal_def state_IsValid_def)
next
  case (resolved r)
  then obtain q :: Transaction where "t' = t\<lparr>t_referenceTransactionID := t_id q\<rparr>"
    unfolding ResolveReference_Inr_iff by blast
  with assms(2) show ?thesis by (simp add: transaction_wf_defs)
qed

text \<open>
  The methods of an operation keep it well formed: it always has its identifiers and
  instants, an amount and a reference its kind allows, a balance exactly when it is PROCESSED,
  a failure code exactly when it is REJECTED or FAILED, and attempts that never wrap around.
\<close>

theorem wager_step_wf:
  assumes "wager_step t t'" and "transaction_wf t"
  shows "transaction_wf t'"
  using assms by (rule wager_step_keeps_wf)

definition sample_bet :: Transaction where
  "sample_bet = \<lparr>t_id = 1, t_kind = KindBet, t_state = StatePending, t_walletID = 2, t_playerID = 3,
     t_amount = \<lparr>minorUnits = 2500, currency = Currency ''BRL''\<rparr>, t_providerID = ''p'',
     t_externalTransactionID = ''x'', t_idempotencyKey = ''k'', t_payloadHash = ''h'',
     t_roundID = ''r'', t_gameID = ''g'', t_referenceExternalTransactionID = '''',
     t_referenceTransactionID = NilID, t_referenceAttempts = 0, t_failureCode = '''',
     t_resultBalance = None, t_createdAt = 10, t_updatedAt = 10\<rparr>"

lemma sample_bet_wf: "transaction_wf sample_bet"
  by (simp add: sample_bet_def transaction_wf_defs NilID_def IsTerminal_def sless64 kind_IsValid_def
      kind_amount_ok_def kind_reference_ok_def RequiresReference_def IsReversal_def
      currency_IsZero_def money_reading_def state_IsValid_def)

definition sample_refund :: Transaction where
  "sample_refund = sample_bet\<lparr>t_id := 5, t_kind := KindRefund, t_externalTransactionID := ''y'',
     t_referenceExternalTransactionID := ''x'', t_state := StatePendingReference\<rparr>"

lemma sample_refund_wf: "transaction_wf sample_refund"
  by (simp add: sample_refund_def sample_bet_def transaction_wf_defs NilID_def IsTerminal_def sless64
      kind_IsValid_def kind_amount_ok_def kind_reference_ok_def RequiresReference_def AllowsReference_def
      IsReversal_def currency_IsZero_def money_reading_def state_IsValid_def)

theorem wager_step_wf_witness:
  "transaction_wf (sample_refund\<lparr>t_referenceAttempts := 1, t_updatedAt := 20,
     t_state := StateRejected, t_failureCode := FailureCodeReferenceNotFound\<rparr>)"
proof -
  have "wager_step sample_refund (sample_refund\<lparr>t_referenceAttempts := 1, t_updatedAt := 20,
      t_state := StateRejected, t_failureCode := FailureCodeReferenceNotFound\<rparr>)"
    by (rule wager_step.missing [where n = 1 and at = 20 and r = "Inr ()"])
      (simp add: RecordMissingReference_def sample_refund_def sample_bet_def MarkRejected_def
        transitionTo_def RequireTime_def IsZero_time_def sless64 IsTerminal_def CanTransitionTo_def
        state_IsValid_def code_defs)
  then show ?thesis using sample_refund_wf by (rule wager_step_wf)
qed

lemma wager_steps_same_request: "wager_step\<^sup>*\<^sup>* t t' \<Longrightarrow> same_request t t'"
  by (induction rule: rtranclp_induct) (auto intro: same_request_trans wager_step_same_request)

lemma wager_steps_terminal: "wager_step\<^sup>*\<^sup>* t t' \<Longrightarrow> IsTerminal (t_state t) \<Longrightarrow> t' = t"
  by (induction rule: rtranclp_induct) (auto dest: wager_step_terminal)

text \<open>
  A concluded operation is frozen: from a PROCESSED, REJECTED or FAILED operation no
  sequence of method calls, refused ones included, changes anything in it; and no sequence of
  calls ever changes what was requested.
\<close>

theorem wager_steps_frozen:
  assumes "wager_step\<^sup>*\<^sup>* t t'"
  shows "(IsTerminal (t_state t) \<longrightarrow> t' = t) \<and> same_request t t' \<and>
    state_rank (t_state t') \<le> state_rank (t_state t)"
proof (intro conjI impI)
  show "state_rank (t_state t') \<le> state_rank (t_state t)"
    using assms
  proof (induction rule: rtranclp_induct)
    case (step u v)
    then show ?case
      using wager_step_state [of u v] wager_machine.rank_decreases [of "t_state u" "t_state v"] by auto
  qed simp
qed (use assms wager_steps_terminal wager_steps_same_request in blast)+

theorem wager_steps_frozen_witness:
  "wager_step\<^sup>*\<^sup>* sample_bet (sample_bet\<lparr>t_state := StateRejected, t_updatedAt := 20, t_failureCode := ''C''\<rparr>) \<and>
   same_request sample_bet (sample_bet\<lparr>t_state := StateRejected, t_updatedAt := 20, t_failureCode := ''C''\<rparr>)"
proof -
  have "wager_step sample_bet (sample_bet\<lparr>t_state := StateRejected, t_updatedAt := 20, t_failureCode := ''C''\<rparr>)"
    by (rule wager_step.rejected [where c = "''C''" and at = 20])
      (simp add: MarkRejected_Inr_iff sample_bet_def)
  then have "wager_step\<^sup>*\<^sup>* sample_bet (sample_bet\<lparr>t_state := StateRejected, t_updatedAt := 20, t_failureCode := ''C''\<rparr>)"
    by simp
  with wager_steps_frozen [OF this] show ?thesis by blast
qed

section \<open>The wait for a reference is bounded\<close>

text \<open>\<open>n\<close> unsuccessful attempts one after the other, each at its own instant.\<close>

fun miss_attempts :: "Transaction \<Rightarrow> int64 \<Rightarrow> time list \<Rightarrow> Transaction" where
  "miss_attempts t maxAttempts [] = t"
| "miss_attempts t maxAttempts (at # ats) =
     miss_attempts (snd (RecordMissingReference t maxAttempts at)) maxAttempts ats"

lemma RecordMissingReference_waits:
  assumes "at \<noteq> 0" and "1 \<le>s n" and "t_state t = StatePendingReference"
    and "sint (t_referenceAttempts t) + 1 < sint n"
  shows "RecordMissingReference t n at =
    (Inr (), t\<lparr>t_referenceAttempts := t_referenceAttempts t + 1, t_updatedAt := at\<rparr>)"
proof -
  have "t_referenceAttempts t <s MaxInt64" using assms(4) sint64_upper [of n] by (simp add: sless64)
  then show ?thesis
    using assms by (simp add: RecordMissingReference_def Require_Inr sless64 sle64 sint_attempt)
qed

lemma RecordMissingReference_expires:
  assumes "at \<noteq> 0" and "1 \<le>s n" and "t_state t = StatePendingReference"
    and "sint (t_referenceAttempts t) + 1 = sint n"
  shows "RecordMissingReference t n at =
    (Inr (), t\<lparr>t_referenceAttempts := n, t_updatedAt := at,
        t_state := StateRejected, t_failureCode := FailureCodeReferenceNotFound\<rparr>)"
proof -
  have n: "t_referenceAttempts t + 1 = n"
    using assms(4) sint64_upper [of n] sint64_inject [of "t_referenceAttempts t + 1" n]
    by (simp add: sless64 sint_attempt)
  have "MarkRejected (t\<lparr>t_referenceAttempts := n, t_updatedAt := at\<rparr>) FailureCodeReferenceNotFound at =
      Inr (t\<lparr>t_referenceAttempts := n, t_updatedAt := at, t_state := StateRejected,
        t_failureCode := FailureCodeReferenceNotFound\<rparr>)"
    using assms by (subst MarkRejected_Inr_iff) (simp add: code_defs)
  then show ?thesis
    using assms n by (simp add: RecordMissingReference_def Require_Inr sless64 sle64)
qed

text \<open>
  C29. A missing reference expires by attempts: an operation in PENDING_REFERENCE that has made
  \<open>a\<close> of its \<open>m\<close> attempts is still waiting, with every attempt counted, while fewer than
  \<open>m - a\<close> further attempts fail, and is REJECTED with REFERENCE_NOT_FOUND by the next one.
\<close>

theorem miss_attempts_expire:
  assumes "t_state t = StatePendingReference" and "0 \<le> sint (t_referenceAttempts t)"
    and "sint (t_referenceAttempts t) + int (length ats) \<le> sint m" and "0 \<notin> set ats"
    and "sint (t_referenceAttempts t) < sint m"
  shows "sint (t_referenceAttempts (miss_attempts t m ats)) = sint (t_referenceAttempts t) + int (length ats) \<and>
    (if sint (t_referenceAttempts t) + int (length ats) < sint m
     then t_state (miss_attempts t m ats) = StatePendingReference
     else t_state (miss_attempts t m ats) = StateRejected \<and>
       t_failureCode (miss_attempts t m ats) = FailureCodeReferenceNotFound)"
  using assms
proof (induction ats arbitrary: t)
  case Nil
  then show ?case by simp
next
  case (Cons at ats)
  have m: "1 \<le>s m" using Cons.prems by (simp add: sle64)
  show ?case
  proof (cases "sint (t_referenceAttempts t) + 1 < sint m")
    case True
    then have "t_referenceAttempts t <s MaxInt64" using sint64_upper [of m] by (simp add: sless64)
    then show ?thesis
      using Cons.prems True m sint_attempt [of "t_referenceAttempts t"]
        Cons.IH [of "t\<lparr>t_referenceAttempts := t_referenceAttempts t + 1, t_updatedAt := at\<rparr>"]
      by (simp add: RecordMissingReference_waits add.assoc)
  next
    case False
    have "int (length (at # ats)) = 1 + int (length ats)" by simp
    with False Cons.prems(3,5) have "int (length ats) \<le> 0" and "sint (t_referenceAttempts t) + 1 = sint m"
      by linarith+
    with Cons.prems m show ?thesis by (simp add: RecordMissingReference_expires)
  qed
qed

theorem miss_attempts_expire_witness:
  "t_state (miss_attempts sample_refund 3 [11, 12, 13]) = StateRejected \<and>
   t_state (miss_attempts sample_refund 3 [11, 12]) = StatePendingReference"
  using miss_attempts_expire [of sample_refund "[11, 12, 13]" 3] miss_attempts_expire [of sample_refund "[11, 12]" 3]
  by (simp add: sample_refund_def sample_bet_def)

end
