(* ===== verification/Wallet.thy ===== *)
theory Wallet
  imports Wager
begin

text \<open>
  \<open>internal/domain/wallet\<close>: the root of the financial aggregate. Methods that move the balance
  return the entry together with the changed wallet; on an error the wallet is unchanged, as in
  the code, which assigns its fields last. The identifier of a new entry is an argument, the
  result of \<open>domain.NewID\<close>.
\<close>

record Wallet =
  w_id :: ID
  w_playerID :: ID
  w_balance :: Money
  w_version :: int64
  w_createdAt :: time
  w_updatedAt :: time

definition initialVersion :: int64 where "initialVersion = 1"

definition wallet_Currency :: "Wallet \<Rightarrow> Currency" where
  "wallet_Currency w = currency (w_balance w)"

definition wallet_Rehydrate :: "ID \<Rightarrow> ID \<Rightarrow> Money \<Rightarrow> int64 \<Rightarrow> time \<Rightarrow> time \<Rightarrow> err + Wallet" where
  "wallet_Rehydrate i playerID balance version createdAt updatedAt =
     and_then (RequireID i) (\<lambda>_. and_then (RequireID playerID) (\<lambda>_. and_then (money_Validate balance) (\<lambda>_.
     if money_IsNegative balance then Inl (ValidationError FailureCodeInvalidAmount)
     else if version <s initialVersion then Inl (ValidationError FailureCodeInvalidInput)
     else and_then (RequireTime createdAt) (\<lambda>_. and_then (RequireTime updatedAt) (\<lambda>_.
     Inr \<lparr>w_id = i, w_playerID = playerID, w_balance = balance, w_version = version,
       w_createdAt = createdAt, w_updatedAt = updatedAt\<rparr>)))))"

definition wallet_Open :: "ID \<Rightarrow> ID \<Rightarrow> Money \<Rightarrow> time \<Rightarrow> err + Wallet" where
  "wallet_Open i playerID initialBalance openedAt =
     wallet_Rehydrate i playerID initialBalance initialVersion openedAt openedAt"

definition wallet_move ::
  "Wallet \<Rightarrow> Money \<Rightarrow> ID \<Rightarrow> Direction \<Rightarrow> time \<Rightarrow> ID \<Rightarrow> err + (Entry \<times> Wallet)" where
  "wallet_move w amount transactionID direction at newID =
     and_then (RequireID transactionID) (\<lambda>_. and_then (money_Validate amount) (\<lambda>_.
     if \<not> money_IsPositive amount then Inl (ValidationError FailureCodeInvalidAmount)
     else if currency amount \<noteq> wallet_Currency w then Inl (ValidationError FailureCodeCurrencyMismatch)
     else and_then (direction_Apply direction (w_balance w) amount) (\<lambda>balanceAfter.
     if money_IsNegative balanceAfter
       then Inl (RejectionErrorWithCause (Sentinel ErrInsufficientFunds) FailureCodeInsufficientFunds)
     else and_then (NewEntry newID (w_id w) transactionID direction amount (w_balance w) balanceAfter at)
       (\<lambda>entry. Inr (entry, w\<lparr>w_balance := balanceAfter, w_version := w_version w + 1,
          w_updatedAt := at\<rparr>)))))"

definition wallet_Credit :: "Wallet \<Rightarrow> Money \<Rightarrow> ID \<Rightarrow> time \<Rightarrow> ID \<Rightarrow> err + (Entry \<times> Wallet)" where
  "wallet_Credit w amount transactionID at newID = wallet_move w amount transactionID Credit at newID"

definition wallet_Debit :: "Wallet \<Rightarrow> Money \<Rightarrow> ID \<Rightarrow> time \<Rightarrow> ID \<Rightarrow> err + (Entry \<times> Wallet)" where
  "wallet_Debit w amount transactionID at newID = wallet_move w amount transactionID Debit at newID"

definition moved :: "err + (Entry \<times> Wallet) \<Rightarrow> err + (Entry option \<times> Wallet)" where
  "moved r = and_then r (\<lambda>(entry, w). Inr (Some entry, w))"

definition wallet_Apply ::
  "Wallet \<Rightarrow> Transaction option \<Rightarrow> Transaction option \<Rightarrow> time \<Rightarrow> ID \<Rightarrow> err + (Entry option \<times> Wallet)" where
  "wallet_Apply w operation reference at newID =
     (case operation of
        None \<Rightarrow> Inl (ValidationError FailureCodeInvalidInput)
      | Some t \<Rightarrow>
        if t_walletID t \<noteq> w_id w then Inl (ValidationError FailureCodeInvalidInput)
        else if IsReversal (t_kind t) \<and>
                (case ReferenceTransactionID t of
                   None \<Rightarrow> True
                 | Some i \<Rightarrow> (case reference of None \<Rightarrow> True | Some r \<Rightarrow> t_id r \<noteq> i))
          then Inl (ValidationError FailureCodeInvalidInput)
        else if t_playerID t \<noteq> w_playerID w then Inl (RejectionError FailureCodeWalletPlayerMismatch)
        else if currency (t_amount t) \<noteq> wallet_Currency w
          then Inl (RejectionError FailureCodeCurrencyMismatch)
        else if t_kind t = KindLoss then Inr (None, w)
        else if t_kind t = KindBet then moved (wallet_Debit w (t_amount t) (t_id t) at newID)
        else if t_kind t = KindRollback \<and> (case reference of None \<Rightarrow> False | Some r \<Rightarrow> t_kind r \<noteq> KindBet)
          then (case wallet_Debit w (t_amount t) (t_id t) at newID of
                  Inl e \<Rightarrow>
                    if errors_Is e (Sentinel ErrInsufficientFunds)
                      then Inl (RejectionErrorWithCause (Sentinel ErrInsufficientFunds)
                        FailureCodeInsufficientFundsForReversal)
                    else Inl e
                | Inr r \<Rightarrow> moved (Inr r))
        else moved (wallet_Credit w (t_amount t) (t_id t) at newID))"

definition OpeningLedgerEntry :: "Wallet \<Rightarrow> ID \<Rightarrow> time \<Rightarrow> ID \<Rightarrow> err + Entry" where
  "OpeningLedgerEntry w transactionID at newID =
     and_then (RequireID transactionID) (\<lambda>_.
     if \<not> money_IsPositive (w_balance w) then Inl (ValidationError FailureCodeInvalidAmount)
     else and_then (money_Zero (wallet_Currency w)) (\<lambda>zero.
       NewEntry newID (w_id w) transactionID Credit (w_balance w) zero (w_balance w) at))"

section \<open>The aggregate\<close>

definition wallet_wf :: "Wallet \<Rightarrow> bool" where
  "wallet_wf w =
     (w_id w \<noteq> NilID \<and> w_playerID w \<noteq> NilID \<and> \<not> currency_IsZero (wallet_Currency w) \<and>
      0 \<le> money_reading (w_balance w) \<and> 1 \<le> sint (w_version w) \<and>
      w_createdAt w \<noteq> 0 \<and> w_updatedAt w \<noteq> 0)"

lemma wallet_Rehydrate_Inr_iff:
  "wallet_Rehydrate i p b v c u = Inr w \<longleftrightarrow>
     w = \<lparr>w_id = i, w_playerID = p, w_balance = b, w_version = v, w_createdAt = c, w_updatedAt = u\<rparr> \<and>
     wallet_wf w"
  by (auto simp: wallet_Rehydrate_def wallet_wf_def initialVersion_def money_sign_readings
      wallet_Currency_def sless64 and_then_Inr_iff)

lemma wallet_Rehydrate_self:
  "wallet_wf w \<Longrightarrow>
     wallet_Rehydrate (w_id w) (w_playerID w) (w_balance w) (w_version w) (w_createdAt w) (w_updatedAt w) = Inr w"
  by (simp add: wallet_Rehydrate_Inr_iff)

text \<open>What a movement does to the wallet and what its entry records.\<close>

definition movement :: "Wallet \<Rightarrow> Money \<Rightarrow> ID \<Rightarrow> Direction \<Rightarrow> time \<Rightarrow> ID \<Rightarrow> Entry \<Rightarrow> Wallet \<Rightarrow> bool" where
  "movement w amount transactionID d at newID entry w' =
     (entry_wf entry \<and> entry_id entry = newID \<and> entry_walletID entry = w_id w \<and>
      entry_transactionID entry = transactionID \<and> entry_direction entry = d \<and>
      entry_amount entry = amount \<and> entry_balanceBefore entry = w_balance w \<and>
      entry_balanceAfter entry = w_balance w' \<and> entry_createdAt entry = at \<and>
      w_id w' = w_id w \<and> w_playerID w' = w_playerID w \<and> w_version w' = w_version w + 1 \<and>
      w_createdAt w' = w_createdAt w \<and> w_updatedAt w' = at)"

lemma wallet_move_Inr:
  assumes "wallet_move w amount tid d at newID = Inr (entry, w')"
  shows "movement w amount tid d at newID entry w'"
proof -
  from assms obtain after where
    "NewEntry newID (w_id w) tid d amount (w_balance w) after at = Inr entry" and
    w': "w' = w\<lparr>w_balance := after, w_version := w_version w + 1, w_updatedAt := at\<rparr>"
    by (auto simp: wallet_move_def split: if_splits)
  then show ?thesis by (auto simp: NewEntry_Inr_iff movement_def)
qed

lemma movement_balance:
  "movement w amount tid d at newID entry w' \<Longrightarrow>
     money_reading (w_balance w') = money_reading (w_balance w) + signed_amount d amount \<and>
     money_like (w_balance w) (w_balance w') \<and> 0 \<le> money_reading (w_balance w')"
  by (auto simp: movement_def entry_wf_def money_like_def)

text \<open>
  The version is the one field that could wrap; below the greatest version a movement keeps the
  wallet well formed.
\<close>

lemma movement_wf:
  assumes "movement w amount tid d at newID entry w'" and "wallet_wf w" and "w_version w \<noteq> MaxInt64"
  shows "wallet_wf w' \<and> sint (w_version w') = sint (w_version w) + 1"
proof -
  have "w_version w <s MaxInt64"
    using assms(3) sint64_upper [of "w_version w"] sint64_inject [of "w_version w" MaxInt64]
    by (simp add: sless64)
  then have v: "sint (w_version w + 1) = sint (w_version w) + 1" by (rule sint_attempt)
  from assms(1) have w': "w_id w' = w_id w" "w_playerID w' = w_playerID w" "w_version w' = w_version w + 1"
    "w_createdAt w' = w_createdAt w" "w_updatedAt w' = at" "at \<noteq> 0"
    by (simp_all add: movement_def entry_wf_def)
  show ?thesis
    using movement_balance [OF assms(1)] assms(2) w' v
    by (simp add: wallet_wf_def wallet_Currency_def money_like_def)
qed

section \<open>Applying an operation\<close>

text \<open>
  The direction an operation moves its wallet in, none for a LOSS: the table of the contract.
\<close>

definition operation_direction :: "Transaction \<Rightarrow> Transaction option \<Rightarrow> Direction option" where
  "operation_direction t reference =
     (if t_kind t = KindLoss then None
      else if t_kind t = KindBet then Some Debit
      else if t_kind t = KindRollback \<and> (\<exists>r. reference = Some r \<and> t_kind r \<noteq> KindBet) then Some Debit
      else Some Credit)"

definition reference_attached :: "Transaction \<Rightarrow> Transaction option \<Rightarrow> bool" where
  "reference_attached t reference =
     (IsReversal (t_kind t) \<longrightarrow>
      (\<exists>r. reference = Some r \<and> t_id r = t_referenceTransactionID t \<and> t_id r \<noteq> NilID))"

definition operation_fits :: "Wallet \<Rightarrow> Transaction \<Rightarrow> Transaction option \<Rightarrow> bool" where
  "operation_fits w t reference =
     (t_walletID t = w_id w \<and> reference_attached t reference \<and>
      t_playerID t = w_playerID w \<and> currency (t_amount t) = wallet_Currency w)"

lemma reference_attached_guard:
  "(IsReversal (t_kind t) \<and>
     (case ReferenceTransactionID t of None \<Rightarrow> True
      | Some i \<Rightarrow> (case reference of None \<Rightarrow> True | Some r \<Rightarrow> t_id r \<noteq> i))) \<longleftrightarrow>
   \<not> reference_attached t reference"
  by (auto simp: reference_attached_def ReferenceTransactionID_def IsNilID_def split: option.splits)

lemma rollback_guard:
  "(case reference of None \<Rightarrow> False | Some r \<Rightarrow> t_kind r \<noteq> KindBet) \<longleftrightarrow>
   (\<exists>r. reference = Some r \<and> t_kind r \<noteq> KindBet)"
  by (cases reference) simp_all

lemma moved_Inr: "moved r = Inr (e, w) \<longleftrightarrow> (\<exists>entry. e = Some entry \<and> r = Inr (entry, w))"
  by (cases r) (auto simp: moved_def)

lemma wallet_Apply_fits:
  assumes "operation_fits w t reference"
  shows "wallet_Apply w (Some t) reference at newID =
    (case operation_direction t reference of
       None \<Rightarrow> Inr (None, w)
     | Some d \<Rightarrow>
         (case wallet_move w (t_amount t) (t_id t) d at newID of
            Inl e \<Rightarrow>
              if t_kind t = KindRollback \<and> d = Debit \<and> errors_Is e (Sentinel ErrInsufficientFunds)
                then Inl (RejectionErrorWithCause (Sentinel ErrInsufficientFunds)
                  FailureCodeInsufficientFundsForReversal)
              else Inl e
          | Inr (entry, w') \<Rightarrow> Inr (Some entry, w')))"
  using assms
  by (auto simp: wallet_Apply_def reference_attached_guard rollback_guard operation_fits_def
      operation_direction_def wallet_Debit_def wallet_Credit_def moved_def split: sum.splits)

lemma wallet_Apply_misfit:
  "\<not> operation_fits w t reference \<Longrightarrow> \<not> ok (wallet_Apply w (Some t) reference at newID)"
  by (auto simp: wallet_Apply_def reference_attached_guard operation_fits_def)

lemma wallet_Apply_Inr:
  assumes "wallet_Apply w (Some t) reference at newID = Inr (e, w')"
  shows "operation_fits w t reference \<and>
    (case operation_direction t reference of
       None \<Rightarrow> e = None \<and> w' = w
     | Some d \<Rightarrow> \<exists>entry. e = Some entry \<and> movement w (t_amount t) (t_id t) d at newID entry w')"
proof -
  have fits: "operation_fits w t reference"
    using wallet_Apply_misfit [of w t reference at newID] assms by (cases "operation_fits w t reference") simp_all
  with assms show ?thesis
    by (auto simp: wallet_Apply_fits wallet_move_Inr split: option.splits sum.splits if_splits)
qed

text \<open>The balance a movement aims at, over the integers.\<close>

definition target_balance :: "Wallet \<Rightarrow> Direction \<Rightarrow> Money \<Rightarrow> int" where
  "target_balance w d amount = money_reading (w_balance w) + signed_amount d amount"

definition money_of :: "int \<Rightarrow> Currency \<Rightarrow> Money" where
  "money_of i c = \<lparr>minorUnits = word_of_int i, currency = c\<rparr>"

lemma money_of_reading [simp]: "currency m = c \<Longrightarrow> money_of (money_reading m) c = m"
  by (simp add: money_of_def money_reading_def)

lemma money_reading_of: "fits64 i \<Longrightarrow> money_reading (money_of i c) = i"
  by (simp add: money_reading_def money_of_def fits64_def sint64_of_int)

lemma wallet_move_outcome:
  assumes w: "wallet_wf w" and at: "at \<noteq> 0" and ids: "newID \<noteq> NilID" "tid \<noteq> NilID"
    and m: "0 < money_reading amount" "currency amount = wallet_Currency w"
    and d: "d = Debit \<or> d = Credit"
  shows "wallet_move w amount tid d at newID =
    (let b = target_balance w d amount; after = money_of b (wallet_Currency w) in
     if b < 0 then Inl (RejectionErrorWithCause (Sentinel ErrInsufficientFunds) FailureCodeInsufficientFunds)
     else if 9223372036854775807 < b then Inl (ValidationError FailureCodeAmountOverflow)
     else Inr (\<lparr>entry_id = newID, entry_walletID = w_id w, entry_transactionID = tid,
         entry_direction = d, entry_amount = amount, entry_balanceBefore = w_balance w,
         entry_balanceAfter = after, entry_createdAt = at\<rparr>,
       w\<lparr>w_balance := after, w_version := w_version w + 1, w_updatedAt := at\<rparr>))"
proof -
  define b where "b = target_balance w d amount"
  define after where "after = money_of b (wallet_Currency w)"
  have init: "\<not> currency_IsZero (wallet_Currency w)" "0 \<le> money_reading (w_balance w)" "w_id w \<noteq> NilID"
    using w by (simp_all add: wallet_wf_def)
  have like: "money_like (w_balance w) amount"
    using init m by (simp add: money_like_def wallet_Currency_def)
  have bounds: "money_reading (w_balance w) \<le> 9223372036854775807" "money_reading amount \<le> 9223372036854775807"
    by (simp_all add: money_reading_def sint64_upper)
  have "- 9223372036854775808 \<le> b"
    using d init bounds m by (auto simp: b_def target_balance_def signed_amount_def)
  then have fits: "fits64 b \<longleftrightarrow> b \<le> 9223372036854775807" by (simp add: fits64_def)
  have neg_fits: "b < 0 \<Longrightarrow> fits64 b" using fits by simp
  have app: "direction_Apply d (w_balance w) amount =
      (if fits64 b then Inr after else Inl (ValidationError FailureCodeAmountOverflow))"
  proof (cases "fits64 b")
    case True
    then have "direction_Apply d (w_balance w) amount = Inr after"
      using like by (simp add: direction_Apply_Inr_iff after_def money_reading_of b_def target_balance_def)
        (auto simp: money_like_def money_of_def wallet_Currency_def)
    with True show ?thesis by simp
  next
    case False
    then show ?thesis
      using like d by (auto simp: direction_Apply_def money_Add_eq money_Sub_eq b_def target_balance_def
          signed_amount_def)
  qed
  have neg: "fits64 b \<Longrightarrow> money_IsNegative after \<longleftrightarrow> b < 0"
    by (simp add: money_sign_readings after_def money_reading_of)
  have new: "NewEntry newID (w_id w) tid d amount (w_balance w) after at =
      Inr \<lparr>entry_id = newID, entry_walletID = w_id w, entry_transactionID = tid,
         entry_direction = d, entry_amount = amount, entry_balanceBefore = w_balance w,
         entry_balanceAfter = after, entry_createdAt = at\<rparr>" if "fits64 b" "0 \<le> b"
    unfolding NewEntry_Inr_iff
  proof (intro conjI refl)
    have after: "money_reading after = b" "currency after = wallet_Currency w"
      using that by (simp add: after_def money_reading_of, simp add: after_def money_of_def)
    have "currency amount = currency (w_balance w)" using m by (simp add: wallet_Currency_def)
    then show "entry_wf \<lparr>entry_id = newID, entry_walletID = w_id w, entry_transactionID = tid,
        entry_direction = d, entry_amount = amount, entry_balanceBefore = w_balance w,
        entry_balanceAfter = after, entry_createdAt = at\<rparr>"
      using that at ids m(1) d init after
      by (simp add: entry_wf_def direction_IsValid_def money_like_def wallet_Currency_def b_def
          target_balance_def)
  qed
  have pre: "RequireID tid = Inr ()" "money_Validate amount = Inr ()" "money_IsPositive amount"
    using ids m init by (simp_all add: Require_Inr money_Validate_ok money_sign_readings)
  show ?thesis
  proof (cases "fits64 b")
    case False
    then show ?thesis
      using fits neg_fits m(2) app by (simp add: wallet_move_def pre Let_def not_le flip: b_def)
  next
    case True
    then show ?thesis
      using fits neg new m(2) app by (simp add: wallet_move_def pre Let_def flip: b_def after_def)
  qed
qed

lemma wallet_Apply_eq:
  assumes "wallet_wf w" and "transaction_wf t" and "operation_fits w t reference"
    and "at \<noteq> 0" and "newID \<noteq> NilID"
  shows "wallet_Apply w (Some t) reference at newID =
    (case operation_direction t reference of
       None \<Rightarrow> Inr (None, w)
     | Some d \<Rightarrow>
        (let b = target_balance w d (t_amount t); after = money_of b (wallet_Currency w) in
         if b < 0 then Inl (RejectionErrorWithCause (Sentinel ErrInsufficientFunds)
            (if t_kind t = KindRollback then FailureCodeInsufficientFundsForReversal
             else FailureCodeInsufficientFunds))
         else if 9223372036854775807 < b then Inl (ValidationError FailureCodeAmountOverflow)
         else Inr (Some \<lparr>entry_id = newID, entry_walletID = w_id w, entry_transactionID = t_id t,
             entry_direction = d, entry_amount = t_amount t, entry_balanceBefore = w_balance w,
             entry_balanceAfter = after, entry_createdAt = at\<rparr>,
           w\<lparr>w_balance := after, w_version := w_version w + 1, w_updatedAt := at\<rparr>)))"
proof (cases "operation_direction t reference")
  case None
  with assms(3) show ?thesis by (simp add: wallet_Apply_fits)
next
  case (Some d)
  then have d: "d = Debit \<or> d = Credit" and loss: "t_kind t \<noteq> KindLoss"
    by (auto simp: operation_direction_def split: if_splits)
  have amount: "0 < money_reading (t_amount t)" "t_id t \<noteq> NilID" "currency (t_amount t) = wallet_Currency w"
    using assms(2,3) loss by (simp_all add: transaction_wf_def kind_amount_ok_def operation_fits_def)
  note out = wallet_move_outcome [OF assms(1,4,5) amount(2,1,3) d]
  have credit: "d = Credit \<Longrightarrow> \<not> target_balance w d (t_amount t) < 0"
    using amount assms(1) by (simp add: target_balance_def signed_amount_def wallet_wf_def)
  show ?thesis
    using assms(3) Some d credit
    by (auto simp: wallet_Apply_fits out Let_def)
qed

text \<open>
  C30. What applying an operation does, on every branch: an operation that fits its wallet (same
  wallet, owner and currency, a reversal with its resolved reference) moves it as its kind
  demands when the resulting balance, computed over the integers, is neither negative nor too
  large, with one entry that records exactly this movement; a shortfall is a refusal with the
  code of a reversal for a ROLLBACK and of a bet otherwise; a LOSS moves nothing.
\<close>

theorem wallet_Apply_outcome:
  assumes "wallet_wf w" and "transaction_wf t" and "operation_fits w t reference"
    and "at \<noteq> 0" and "newID \<noteq> NilID"
  shows "wallet_Apply w (Some t) reference at newID =
    (case operation_direction t reference of
       None \<Rightarrow> Inr (None, w)
     | Some d \<Rightarrow>
        (let b = target_balance w d (t_amount t); after = money_of b (wallet_Currency w) in
         if b < 0 then Inl (RejectionErrorWithCause (Sentinel ErrInsufficientFunds)
            (if t_kind t = KindRollback then FailureCodeInsufficientFundsForReversal
             else FailureCodeInsufficientFunds))
         else if 9223372036854775807 < b then Inl (ValidationError FailureCodeAmountOverflow)
         else Inr (Some \<lparr>entry_id = newID, entry_walletID = w_id w, entry_transactionID = t_id t,
             entry_direction = d, entry_amount = t_amount t, entry_balanceBefore = w_balance w,
             entry_balanceAfter = after, entry_createdAt = at\<rparr>,
           w\<lparr>w_balance := after, w_version := w_version w + 1, w_updatedAt := at\<rparr>)))"
  using assms by (rule wallet_Apply_eq)

definition sample_wallet :: Wallet where
  "sample_wallet = \<lparr>w_id = 2, w_playerID = 3,
     w_balance = \<lparr>minorUnits = 10000, currency = Currency ''BRL''\<rparr>, w_version = 1,
     w_createdAt = 5, w_updatedAt = 5\<rparr>"

lemma sample_wallet_wf: "wallet_wf sample_wallet"
  by (simp add: sample_wallet_def wallet_wf_def NilID_def wallet_Currency_def currency_IsZero_def
      money_reading_def)

lemma sample_bet_fits: "operation_fits sample_wallet sample_bet None"
  by (simp add: sample_wallet_def sample_bet_def operation_fits_def reference_attached_def
      IsReversal_def wallet_Currency_def)

theorem wallet_Apply_outcome_witness:
  "map_sum id (\<lambda>(e, w). (map_option entry_balanceAfter e, w_version w))
     (wallet_Apply sample_wallet (Some sample_bet) None 20 7) =
   Inr (Some \<lparr>minorUnits = 7500, currency = Currency ''BRL''\<rparr>, 2)"
  unfolding wallet_Apply_outcome [OF sample_wallet_wf sample_bet_wf sample_bet_fits, of 20 7, simplified NilID_def, simplified]
  by (simp add: sample_wallet_def sample_bet_def operation_direction_def target_balance_def
      signed_amount_def money_reading_def money_of_def wallet_Currency_def Let_def)

section \<open>Reversals\<close>

lemma reversal_direction:
  assumes "IsReversal (t_kind u)" and "t_kind t \<in> set (referableKinds (t_kind u))"
    and "operation_direction t q = Some d" and "t_kind t \<in> {KindBet, KindWin, KindRefund}"
  shows "operation_direction u (Some t) = Some (if d = Debit then Credit else Debit)"
  using assms by (cases "t_kind u") (auto simp: IsReversal_def operation_direction_def split: if_splits)

lemma opposite_movement:
  assumes "movement w m tid d at i entry w1" and "d = Debit \<or> d = Credit" and "wallet_wf w"
    and "w_version w \<noteq> MaxInt64" and "at2 \<noteq> 0" and "i2 \<noteq> NilID" and "tid2 \<noteq> NilID"
  shows "\<exists>entry2 w2. wallet_move w1 m tid2 (if d = Debit then Credit else Debit) at2 i2 = Inr (entry2, w2) \<and>
    w_balance w2 = w_balance w"
proof -
  let ?d = "if d = Debit then Credit else Debit"
  note b = movement_balance [OF assms(1)]
  have m: "0 < money_reading m" "currency m = wallet_Currency w1"
    using assms(1) by (auto simp: movement_def entry_wf_def money_like_def wallet_Currency_def)
  have w1: "wallet_wf w1" using movement_wf [OF assms(1,3,4)] by simp
  have target: "target_balance w1 ?d m = money_reading (w_balance w)"
    using b assms(2) by (auto simp: target_balance_def signed_amount_def)
  have "0 \<le> money_reading (w_balance w)" "money_reading (w_balance w) \<le> 9223372036854775807"
    using assms(3) by (simp_all add: wallet_wf_def money_reading_def sint64_upper)
  moreover have "money_of (money_reading (w_balance w)) (wallet_Currency w1) = w_balance w"
    using b by (simp add: money_like_def wallet_Currency_def)
  ultimately show ?thesis
    using wallet_move_outcome [OF w1 assms(5,6,7) m, of ?d] target by (simp add: Let_def)
qed

text \<open>
  A reversal undoes what it reverses: right after an operation moved a wallet, the REFUND
  of a bet or the ROLLBACK of a bet, a win or a refund, for the same amount and resolved to that
  operation, succeeds and brings the balance back to what it was, with its own entry in the
  opposite direction.
\<close>

theorem reversal_restores_balance:
  assumes "wallet_wf w" and "w_version w \<noteq> MaxInt64"
    and "wallet_Apply w (Some t) q at i = Inr (Some entry, w1)"
    and "operation_fits w1 u (Some t)" and "IsReversal (t_kind u)"
    and "t_kind t \<in> set (referableKinds (t_kind u))" and "t_amount u = t_amount t"
    and "at2 \<noteq> 0" and "i2 \<noteq> NilID" and "t_id u \<noteq> NilID"
  shows "\<exists>entry2 w2. wallet_Apply w1 (Some u) (Some t) at2 i2 = Inr (Some entry2, w2) \<and>
    w_balance w2 = w_balance w \<and>
    entry_direction entry2 = (if entry_direction entry = Debit then Credit else Debit)"
proof -
  obtain d where d: "operation_direction t q = Some d"
    and mv: "movement w (t_amount t) (t_id t) d at i entry w1"
    using wallet_Apply_Inr [OF assms(3)] by (auto split: option.splits)
  have dd: "d = Debit \<or> d = Credit" using d by (auto simp: operation_direction_def split: if_splits)
  have "t_kind t \<in> {KindBet, KindWin, KindRefund}" using assms(6) by (cases "t_kind u") auto
  then have dir: "operation_direction u (Some t) = Some (if d = Debit then Credit else Debit)"
    using reversal_direction assms(5,6) d by blast
  obtain entry2 w2 where m2: "wallet_move w1 (t_amount t) (t_id u) (if d = Debit then Credit else Debit) at2 i2
      = Inr (entry2, w2)" and "w_balance w2 = w_balance w"
    using opposite_movement [OF mv dd assms(1,2,8,9,10)] by blast
  moreover have "entry_direction entry = d" using mv by (simp add: movement_def)
  moreover have "entry_direction entry2 = (if d = Debit then Credit else Debit)"
    using wallet_move_Inr [OF m2] by (simp add: movement_def)
  ultimately show ?thesis
    using assms(4,7) dir by (simp add: wallet_Apply_fits)
qed

definition sample_bet_refund :: Transaction where
  "sample_bet_refund = sample_refund\<lparr>t_state := StatePending, t_referenceTransactionID := 1\<rparr>"

theorem reversal_restores_balance_witness:
  "\<exists>entry w1 entry2 w2. wallet_Apply sample_wallet (Some sample_bet) None 20 7 = Inr (Some entry, w1) \<and>
     wallet_Apply w1 (Some sample_bet_refund) (Some sample_bet) 30 8 = Inr (Some entry2, w2) \<and>
     w_balance w2 = \<lparr>minorUnits = 10000, currency = Currency ''BRL''\<rparr>"
proof -
  have "operation_direction sample_bet None = Some Debit"
    by (simp add: operation_direction_def sample_bet_def)
  then obtain entry w1 where a: "wallet_Apply sample_wallet (Some sample_bet) None 20 7 = Inr (Some entry, w1)"
    using wallet_Apply_eq [OF sample_wallet_wf sample_bet_wf sample_bet_fits, of 20 7]
    by (simp add: NilID_def Let_def sample_wallet_def sample_bet_def target_balance_def
        signed_amount_def money_reading_def)
  then have "movement sample_wallet (t_amount sample_bet) (t_id sample_bet) Debit 20 7 entry w1"
    using wallet_Apply_Inr [OF a] \<open>operation_direction sample_bet None = Some Debit\<close> by simp
  then have w1: "w_id w1 = 2" "w_playerID w1 = 3" "wallet_Currency w1 = Currency ''BRL''"
    using movement_balance [of sample_wallet]
    by (auto simp: movement_def sample_wallet_def money_like_def wallet_Currency_def)
  then have fits: "operation_fits w1 sample_bet_refund (Some sample_bet)"
    by (simp add: operation_fits_def sample_bet_refund_def sample_refund_def sample_bet_def
        reference_attached_def NilID_def)
  have "w_version sample_wallet \<noteq> MaxInt64" "t_id sample_bet_refund \<noteq> NilID"
    "IsReversal (t_kind sample_bet_refund)" "t_amount sample_bet_refund = t_amount sample_bet"
    "t_kind sample_bet \<in> set (referableKinds (t_kind sample_bet_refund))"
    by (simp_all add: sample_wallet_def MaxInt64_def sample_bet_refund_def sample_refund_def sample_bet_def
        NilID_def IsReversal_def)
  then have "\<exists>entry2 w2. wallet_Apply w1 (Some sample_bet_refund) (Some sample_bet) 30 8 = Inr (Some entry2, w2) \<and>
      w_balance w2 = w_balance sample_wallet"
    using reversal_restores_balance [OF sample_wallet_wf _ a fits, of 30 8] by (auto simp: NilID_def)
  with a show ?thesis by (auto simp: sample_wallet_def)
qed

end
