(* ===== verification/Event.thy ===== *)
theory Event
  imports Wallet
begin

text \<open>
  \<open>internal/domain/event\<close>: the envelope of an integration event, its four payloads and their
  constructors, which refuse an event that disagrees with the operation it reports. The
  identifier of an event is an argument, the result of \<open>domain.NewID\<close>; identifiers inside a
  payload are kept as identifiers, their text form being \<open>uuid.UUID.String\<close> of the library.
\<close>

definition TypeWagerTransactionProcessed :: string where
  [code_defs]: "TypeWagerTransactionProcessed = ''WagerTransactionProcessed''"
definition TypeWagerTransactionRejected :: string where
  [code_defs]: "TypeWagerTransactionRejected = ''WagerTransactionRejected''"
definition TypeWagerTransactionPendingReference :: string where
  [code_defs]: "TypeWagerTransactionPendingReference = ''WagerTransactionPendingReference''"
definition TypeWalletBalanceChanged :: string where
  [code_defs]: "TypeWalletBalanceChanged = ''WalletBalanceChanged''"

record ProcessedData =
  pd_TransactionID :: ID
  pd_Kind :: Kind
  pd_WalletID :: ID
  pd_PlayerID :: ID
  pd_Money :: Money
  pd_Balance :: Money
  pd_ProviderID :: string
  pd_ExternalTransactionID :: string
  pd_RoundID :: string
  pd_GameID :: string

record RejectedData =
  rd_TransactionID :: ID
  rd_Kind :: Kind
  rd_WalletID :: ID
  rd_PlayerID :: ID
  rd_Money :: Money
  rd_FailureCode :: failure_code
  rd_ProviderID :: string
  rd_ExternalTransactionID :: string
  rd_RoundID :: string
  rd_GameID :: string

record PendingReferenceData =
  prd_TransactionID :: ID
  prd_Kind :: Kind
  prd_WalletID :: ID
  prd_PlayerID :: ID
  prd_Money :: Money
  prd_ReferenceExternalTransactionID :: string
  prd_ProviderID :: string
  prd_ExternalTransactionID :: string
  prd_RoundID :: string
  prd_GameID :: string

record BalanceChangedData =
  bd_WalletID :: ID
  bd_TransactionID :: ID
  bd_Direction :: Direction
  bd_Money :: Money
  bd_BalanceBefore :: Money
  bd_BalanceAfter :: Money
  bd_WalletVersion :: int64

datatype event_data =
    ProcessedPayload ProcessedData
  | RejectedPayload RejectedData
  | PendingReferencePayload PendingReferenceData
  | BalanceChangedPayload BalanceChangedData

record Event =
  ev_ID :: ID
  ev_Type :: string
  ev_AggregateID :: ID
  ev_CorrelationID :: string
  ev_CausationID :: string
  ev_OccurredAt :: time
  ev_Version :: int
  ev_Data :: event_data

definition contractVersion :: int where "contractVersion = 1"

definition WithCausation :: "Event \<Rightarrow> string \<Rightarrow> Event" where
  "WithCausation e causationID = e\<lparr>ev_CausationID := causationID\<rparr>"

definition newEvent :: "ID \<Rightarrow> string \<Rightarrow> ID \<Rightarrow> string \<Rightarrow> time \<Rightarrow> event_data \<Rightarrow> Event" where
  "newEvent newID eventType aggregateID correlationID occurredAt data =
     \<lparr>ev_ID = newID, ev_Type = eventType, ev_AggregateID = aggregateID,
      ev_CorrelationID = correlationID, ev_CausationID = '''', ev_OccurredAt = occurredAt,
      ev_Version = contractVersion, ev_Data = data\<rparr>"

definition requireEnvelope :: "string \<Rightarrow> time \<Rightarrow> err + unit" where
  "requireEnvelope correlationID occurredAt =
     (if correlationID = '''' then Inl (ValidationError FailureCodeInvalidInput)
      else if IsZero_time occurredAt then Inl (ValidationError FailureCodeInvalidInput)
      else Inr ())"

definition requireTransaction :: "Transaction option \<Rightarrow> string \<Rightarrow> time \<Rightarrow> err + Transaction" where
  "requireTransaction transaction correlationID occurredAt =
     (case transaction of
        None \<Rightarrow> Inl (ValidationError FailureCodeInvalidInput)
      | Some t \<Rightarrow> and_then (requireEnvelope correlationID occurredAt) (\<lambda>_. Inr t))"

definition NewWagerTransactionProcessed ::
  "ID \<Rightarrow> Transaction option \<Rightarrow> string \<Rightarrow> time \<Rightarrow> err + Event" where
  "NewWagerTransactionProcessed newID transaction correlationID occurredAt =
     and_then (requireTransaction transaction correlationID occurredAt) (\<lambda>t.
       if t_state t \<noteq> StateProcessed then Inl (ValidationError FailureCodeInvalidStateTransition)
       else (case t_resultBalance t of
           None \<Rightarrow> Inl (ValidationError FailureCodeInvalidInput)
         | Some balance \<Rightarrow>
             Inr (newEvent newID TypeWagerTransactionProcessed (t_walletID t) correlationID occurredAt
               (ProcessedPayload \<lparr>pd_TransactionID = t_id t, pd_Kind = t_kind t,
                  pd_WalletID = t_walletID t, pd_PlayerID = t_playerID t, pd_Money = t_amount t,
                  pd_Balance = balance, pd_ProviderID = t_providerID t,
                  pd_ExternalTransactionID = t_externalTransactionID t, pd_RoundID = t_roundID t,
                  pd_GameID = t_gameID t\<rparr>))))"

definition NewWagerTransactionRejected ::
  "ID \<Rightarrow> Transaction option \<Rightarrow> string \<Rightarrow> time \<Rightarrow> err + Event" where
  "NewWagerTransactionRejected newID transaction correlationID occurredAt =
     and_then (requireTransaction transaction correlationID occurredAt) (\<lambda>t.
       if t_state t \<noteq> StateRejected then Inl (ValidationError FailureCodeInvalidStateTransition)
       else if t_failureCode t = '''' then Inl (ValidationError FailureCodeInvalidInput)
       else Inr (newEvent newID TypeWagerTransactionRejected (t_walletID t) correlationID occurredAt
               (RejectedPayload \<lparr>rd_TransactionID = t_id t, rd_Kind = t_kind t,
                  rd_WalletID = t_walletID t, rd_PlayerID = t_playerID t, rd_Money = t_amount t,
                  rd_FailureCode = t_failureCode t, rd_ProviderID = t_providerID t,
                  rd_ExternalTransactionID = t_externalTransactionID t, rd_RoundID = t_roundID t,
                  rd_GameID = t_gameID t\<rparr>)))"

definition NewWagerTransactionPendingReference ::
  "ID \<Rightarrow> Transaction option \<Rightarrow> string \<Rightarrow> time \<Rightarrow> err + Event" where
  "NewWagerTransactionPendingReference newID transaction correlationID occurredAt =
     and_then (requireTransaction transaction correlationID occurredAt) (\<lambda>t.
       if t_state t \<noteq> StatePendingReference
         then Inl (ValidationError FailureCodeInvalidStateTransition)
       else Inr (newEvent newID TypeWagerTransactionPendingReference (t_walletID t) correlationID occurredAt
               (PendingReferencePayload \<lparr>prd_TransactionID = t_id t, prd_Kind = t_kind t,
                  prd_WalletID = t_walletID t, prd_PlayerID = t_playerID t, prd_Money = t_amount t,
                  prd_ReferenceExternalTransactionID = t_referenceExternalTransactionID t,
                  prd_ProviderID = t_providerID t,
                  prd_ExternalTransactionID = t_externalTransactionID t, prd_RoundID = t_roundID t,
                  prd_GameID = t_gameID t\<rparr>)))"

definition NewWalletBalanceChanged ::
  "ID \<Rightarrow> Wallet option \<Rightarrow> Entry option \<Rightarrow> string \<Rightarrow> time \<Rightarrow> err + Event" where
  "NewWalletBalanceChanged newID wallet entry correlationID occurredAt =
     (case wallet of
        None \<Rightarrow> Inl (ValidationError FailureCodeInvalidInput)
      | Some w \<Rightarrow>
          (case entry of
             None \<Rightarrow> Inl (ValidationError FailureCodeInvalidInput)
           | Some e \<Rightarrow>
               and_then (requireEnvelope correlationID occurredAt) (\<lambda>_.
                 if entry_walletID e \<noteq> w_id w then Inl (ValidationError FailureCodeInvalidInput)
                 else Inr (newEvent newID TypeWalletBalanceChanged (w_id w) correlationID occurredAt
                   (BalanceChangedPayload \<lparr>bd_WalletID = w_id w,
                      bd_TransactionID = entry_transactionID e, bd_Direction = entry_direction e,
                      bd_Money = entry_amount e, bd_BalanceBefore = entry_balanceBefore e,
                      bd_BalanceAfter = entry_balanceAfter e, bd_WalletVersion = w_version w\<rparr>)))))"

lemma requireTransaction_Inr:
  "requireTransaction tx c at = Inr t \<longleftrightarrow> tx = Some t \<and> c \<noteq> '''' \<and> at \<noteq> 0"
  by (auto simp: requireTransaction_def requireEnvelope_def IsZero_time_def split: option.splits if_splits)

lemma requireEnvelope_Inr: "requireEnvelope c at = Inr u \<longleftrightarrow> c \<noteq> '''' \<and> at \<noteq> 0"
  by (auto simp: requireEnvelope_def IsZero_time_def)

end
