(* ===== verification/Tables.thy ===== *)
theory Tables
  imports Event
begin

text \<open>
  The relational state: the rows of the five tables (\<open>sqlcgen/models.go\<close>), the constraints of
  \<open>migrations/*.sql\<close> and the statements of \<open>queries/*.sql\<close> that \<open>sqlcgen\<close> wraps, each as a
  function on the database that answers with the error PostgreSQL reports or with the result and
  the changed database. Optional columns are options. \<open>time\<close> columns hold the instants
  unchanged, because both programs truncate their clock to the microseconds PostgreSQL keeps.
  Where SQL leaves the order of rows open the table order is taken. The JSON snapshot of an event
  is kept as the event itself.
\<close>

type_synonym int32 = "32 word"

record wallet_row =
  wr_ID :: ID
  wr_PlayerID :: ID
  wr_Currency :: string
  wr_BalanceMinor :: int64
  wr_Version :: int64
  wr_CreatedAt :: time
  wr_UpdatedAt :: time

record transaction_row =
  tr_ID :: ID
  tr_Kind :: string
  tr_State :: string
  tr_WalletID :: ID
  tr_PlayerID :: ID
  tr_Currency :: string
  tr_AmountMinor :: int64
  tr_ProviderID :: "string option"
  tr_ExternalTransactionID :: "string option"
  tr_IdempotencyKey :: "string option"
  tr_PayloadHash :: "string option"
  tr_RoundID :: "string option"
  tr_GameID :: "string option"
  tr_ReferenceExternalTransactionID :: "string option"
  tr_ReferenceTransactionID :: "ID option"
  tr_FailureCode :: "string option"
  tr_ResultBalanceMinor :: "int64 option"
  tr_CreatedAt :: time
  tr_UpdatedAt :: time
  tr_ReferenceAttempts :: int32
  tr_NextAttemptAt :: "time option"

record ledger_row =
  lr_ID :: ID
  lr_WalletID :: ID
  lr_TransactionID :: ID
  lr_Direction :: string
  lr_Currency :: string
  lr_AmountMinor :: int64
  lr_BalanceBeforeMinor :: int64
  lr_BalanceAfterMinor :: int64
  lr_CreatedAt :: time

record outbox_row =
  or_ID :: ID
  or_AggregateID :: ID
  or_EventType :: string
  or_Payload :: Event
  or_OccurredAt :: time
  or_Attempts :: int32
  or_NextAttemptAt :: time
  or_PublishedAt :: "time option"
  or_CreatedAt :: time
  or_Sequence :: int

record inbox_row =
  ir_MessageID :: string
  ir_PayloadHash :: string
  ir_TransactionID :: ID
  ir_ReceivedAt :: time

record db =
  wallets :: "wallet_row list"
  transactions :: "transaction_row list"
  entries :: "ledger_row list"
  outbox :: "outbox_row list"
  inbox :: "inbox_row list"

text \<open>What a statement sees of its session: \<open>now()\<close>, the rows other sessions hold, the number
  drawn from the sequence of the outbox.\<close>

record session =
  ss_now :: time
  ss_locked :: "ID set"
  ss_sequence :: int

type_synonym 'a sql = "session \<Rightarrow> db \<Rightarrow> err + ('a \<times> db)"

section \<open>Constraints\<close>

definition check_violation :: "string \<Rightarrow> err" where "check_violation c = PgError ''23514'' c"
definition unique_violation :: "string \<Rightarrow> err" where "unique_violation c = PgError ''23505'' c"
definition foreign_key_violation :: "string \<Rightarrow> err" where "foreign_key_violation c = PgError ''23503'' c"

type_synonym 'r checks = "(string \<times> ('r \<Rightarrow> bool)) list"
type_synonym 'r uniques = "(string \<times> ('r \<Rightarrow> 'r \<Rightarrow> bool)) list"

fun first_failed :: "'r checks \<Rightarrow> 'r \<Rightarrow> string option" where
  "first_failed [] r = None"
| "first_failed ((c, p) # cs) r = (if p r then first_failed cs r else Some c)"

fun first_clash :: "'r uniques \<Rightarrow> 'r list \<Rightarrow> 'r \<Rightarrow> string option" where
  "first_clash [] rs r = None"
| "first_clash ((c, clash) # us) rs r =
     (if \<exists>q \<in> set rs. clash q r then Some c else first_clash us rs r)"

text \<open>
  PostgreSQL checks a new row version in this order: its CHECK constraints, the unique indexes in
  the order they were created, the foreign keys at the end of the statement.
\<close>

definition admit :: "'r checks \<Rightarrow> 'r uniques \<Rightarrow> 'r checks \<Rightarrow> 'r list \<Rightarrow> 'r \<Rightarrow> err + unit" where
  "admit checks uniques foreign others r =
     (case first_failed checks r of
        Some c \<Rightarrow> Inl (check_violation c)
      | None \<Rightarrow>
          (case first_clash uniques others r of
             Some c \<Rightarrow> Inl (unique_violation c)
           | None \<Rightarrow>
               (case first_failed foreign r of
                  Some c \<Rightarrow> Inl (foreign_key_violation c)
                | None \<Rightarrow> Inr ())))"

definition insert_row ::
  "'r checks \<Rightarrow> 'r uniques \<Rightarrow> 'r checks \<Rightarrow> 'r \<Rightarrow> 'r list \<Rightarrow> err + 'r list" where
  "insert_row checks uniques foreign r rs =
     and_then (admit checks uniques foreign rs r) (\<lambda>_. Inr (rs @ [r]))"

text \<open>An update selected by primary key: at most one row changes.\<close>

definition update_row ::
  "'r checks \<Rightarrow> 'r uniques \<Rightarrow> 'r checks \<Rightarrow> ('r \<Rightarrow> bool) \<Rightarrow> ('r \<Rightarrow> 'r) \<Rightarrow> 'r list \<Rightarrow> err + (nat \<times> 'r list)" where
  "update_row checks uniques foreign P f rs =
     (case List.find P rs of
        None \<Rightarrow> Inr (0, rs)
      | Some r \<Rightarrow>
          and_then (admit checks uniques foreign (filter (\<lambda>q. \<not> P q) rs) (f r))
            (\<lambda>_. Inr (count_rows P rs, update_rows P f rs)))"

definition currency_iso4217 :: "string \<Rightarrow> bool" where
  "currency_iso4217 s = (length s = 3 \<and> (\<forall>c \<in> set s. byte_between (CHR ''A'') (CHR ''Z'') c))"

definition wallet_checks :: "wallet_row checks" where
  "wallet_checks =
     [(''wallets_balance_non_negative'', \<lambda>r. 0 \<le>s wr_BalanceMinor r),
      (''wallets_currency_iso4217'', \<lambda>r. currency_iso4217 (wr_Currency r)),
      (''wallets_version_positive'', \<lambda>r. 1 \<le>s wr_Version r)]"

definition walletsPlayerCurrencyKey :: string where
  "walletsPlayerCurrencyKey = ''wallets_player_currency_key''"

definition wallet_uniques :: "wallet_row uniques" where
  "wallet_uniques =
     [(''wallets_pkey'', \<lambda>q r. wr_ID q = wr_ID r),
      (walletsPlayerCurrencyKey, \<lambda>q r. wr_PlayerID q = wr_PlayerID r \<and> wr_Currency q = wr_Currency r)]"

definition known_kinds :: "string list" where
  "known_kinds = [''OPENING'', ''BET'', ''WIN'', ''LOSS'', ''REFUND'', ''ROLLBACK'']"

definition known_states :: "string list" where
  "known_states = [''PENDING'', ''PENDING_REFERENCE'', ''PROCESSED'', ''REJECTED'', ''FAILED'']"

definition row_is_reversal :: "transaction_row \<Rightarrow> bool" where
  "row_is_reversal r = (tr_Kind r = ''REFUND'' \<or> tr_Kind r = ''ROLLBACK'')"

definition row_origin :: "transaction_row \<Rightarrow> bool" where
  "row_origin r =
     (if tr_Kind r = ''OPENING''
      then tr_State r = ''PROCESSED'' \<and> tr_ProviderID r = None \<and> tr_ExternalTransactionID r = None \<and>
        tr_IdempotencyKey r = None \<and> tr_PayloadHash r = None \<and> tr_RoundID r = None \<and>
        tr_GameID r = None \<and> tr_ReferenceExternalTransactionID r = None
      else tr_ProviderID r \<noteq> None \<and> tr_ExternalTransactionID r \<noteq> None \<and>
        tr_IdempotencyKey r \<noteq> None \<and> tr_PayloadHash r \<noteq> None \<and> tr_RoundID r \<noteq> None \<and>
        tr_GameID r \<noteq> None)"

definition transaction_checks :: "transaction_row checks" where
  "transaction_checks =
     [(''wager_transactions_amount_non_negative'', \<lambda>r. 0 \<le>s tr_AmountMinor r),
      (''wager_transactions_kind_known'', \<lambda>r. tr_Kind r \<in> set known_kinds),
      (''wager_transactions_origin'', row_origin),
      (''wager_transactions_pending_reference_scheduled'',
         \<lambda>r. tr_State r \<noteq> ''PENDING_REFERENCE'' \<or> tr_NextAttemptAt r \<noteq> None),
      (''wager_transactions_processed_reversal_resolved'',
         \<lambda>r. \<not> row_is_reversal r \<or> tr_State r \<noteq> ''PROCESSED'' \<or> tr_ReferenceTransactionID r \<noteq> None),
      (''wager_transactions_reference_attempts_non_negative'', \<lambda>r. 0 \<le>s tr_ReferenceAttempts r),
      (''wager_transactions_state_known'', \<lambda>r. tr_State r \<in> set known_states)]"

definition transactionsProviderIdempotencyKey :: string where
  "transactionsProviderIdempotencyKey = ''wager_transactions_provider_idempotency_key''"
definition transactionsProviderExternalID :: string where
  "transactionsProviderExternalID = ''wager_transactions_provider_external_id''"
definition transactionsOneReversalPerRef :: string where
  "transactionsOneReversalPerRef = ''wager_transactions_one_reversal_per_reference''"

text \<open>Two NULLs never clash, which is why the comparisons ask for a value.\<close>

definition same_value :: "'a option \<Rightarrow> 'a option \<Rightarrow> bool" where
  "same_value x y = (x \<noteq> None \<and> x = y)"

definition row_reversed :: "transaction_row \<Rightarrow> bool" where
  "row_reversed r = (row_is_reversal r \<and> tr_State r = ''PROCESSED'')"

definition transaction_uniques :: "transaction_row uniques" where
  "transaction_uniques =
     [(''wager_transactions_pkey'', \<lambda>q r. tr_ID q = tr_ID r),
      (''wager_transactions_one_opening_per_wallet'', \<lambda>q r.
         tr_Kind q = ''OPENING'' \<and> tr_Kind r = ''OPENING'' \<and> tr_WalletID q = tr_WalletID r),
      (transactionsProviderExternalID, \<lambda>q r.
         tr_Kind q \<noteq> ''OPENING'' \<and> tr_Kind r \<noteq> ''OPENING'' \<and>
         same_value (tr_ProviderID q) (tr_ProviderID r) \<and>
         same_value (tr_ExternalTransactionID q) (tr_ExternalTransactionID r)),
      (transactionsProviderIdempotencyKey, \<lambda>q r.
         tr_Kind q \<noteq> ''OPENING'' \<and> tr_Kind r \<noteq> ''OPENING'' \<and>
         same_value (tr_ProviderID q) (tr_ProviderID r) \<and>
         same_value (tr_IdempotencyKey q) (tr_IdempotencyKey r)),
      (transactionsOneReversalPerRef, \<lambda>q r.
         row_reversed q \<and> row_reversed r \<and>
         same_value (tr_ReferenceTransactionID q) (tr_ReferenceTransactionID r))]"

definition transaction_foreign :: "db \<Rightarrow> transaction_row checks" where
  "transaction_foreign d =
     [(''wager_transactions_wallet_id_fkey'', \<lambda>r. \<exists>w \<in> set (wallets d). wr_ID w = tr_WalletID r),
      (''wager_transactions_reference_transaction_id_fkey'', \<lambda>r.
         case tr_ReferenceTransactionID r of
           None \<Rightarrow> True
         | Some i \<Rightarrow> i = tr_ID r \<or> (\<exists>q \<in> set (transactions d). tr_ID q = i))]"

definition row_signed_amount :: "ledger_row \<Rightarrow> int" where
  "row_signed_amount r =
     (if lr_Direction r = ''CREDIT'' then sint (lr_AmountMinor r) else - sint (lr_AmountMinor r))"

definition ledger_checks :: "ledger_row checks" where
  "ledger_checks =
     [(''wallet_ledger_entries_amount_positive'', \<lambda>r. 0 <s lr_AmountMinor r),
      (''wallet_ledger_entries_arithmetic'', \<lambda>r.
         sint (lr_BalanceAfterMinor r) = sint (lr_BalanceBeforeMinor r) + row_signed_amount r \<and>
         lr_Direction r \<in> {''CREDIT'', ''DEBIT''}),
      (''wallet_ledger_entries_balances_non_negative'', \<lambda>r.
         0 \<le>s lr_BalanceBeforeMinor r \<and> 0 \<le>s lr_BalanceAfterMinor r),
      (''wallet_ledger_entries_direction_known'', \<lambda>r. lr_Direction r \<in> {''DEBIT'', ''CREDIT''})]"

definition ledger_uniques :: "ledger_row uniques" where
  "ledger_uniques =
     [(''wallet_ledger_entries_pkey'', \<lambda>q r. lr_ID q = lr_ID r),
      (''wallet_ledger_entries_wallet_transaction_key'', \<lambda>q r.
         lr_WalletID q = lr_WalletID r \<and> lr_TransactionID q = lr_TransactionID r)]"

definition ledger_foreign :: "db \<Rightarrow> ledger_row checks" where
  "ledger_foreign d =
     [(''wallet_ledger_entries_wallet_id_fkey'', \<lambda>r. \<exists>w \<in> set (wallets d). wr_ID w = lr_WalletID r),
      (''wallet_ledger_entries_transaction_id_fkey'', \<lambda>r.
         \<exists>t \<in> set (transactions d). tr_ID t = lr_TransactionID r)]"

definition outbox_checks :: "outbox_row checks" where
  "outbox_checks = [(''outbox_events_attempts_non_negative'', \<lambda>r. 0 \<le>s or_Attempts r)]"

definition outbox_uniques :: "outbox_row uniques" where
  "outbox_uniques =
     [(''outbox_events_pkey'', \<lambda>q r. or_ID q = or_ID r),
      (''outbox_events_sequence'', \<lambda>q r. or_Sequence q = or_Sequence r)]"

definition inboxMessagesPrimaryKey :: string where "inboxMessagesPrimaryKey = ''inbox_messages_pkey''"

definition inbox_uniques :: "inbox_row uniques" where
  "inbox_uniques = [(inboxMessagesPrimaryKey, \<lambda>q r. ir_MessageID q = ir_MessageID r)]"

definition inbox_foreign :: "db \<Rightarrow> inbox_row checks" where
  "inbox_foreign d =
     [(''inbox_messages_transaction_id_fkey'', \<lambda>r. \<exists>t \<in> set (transactions d). tr_ID t = ir_TransactionID r)]"

end
