(* ===== verification/Queries.thy ===== *)
theory Queries
  imports Tables
begin

text \<open>
  \<open>internal/infrastructure/postgres/sqlcgen\<close>: the statements of \<open>queries/*.sql\<close>. A \<open>:one\<close> query
  answers with an optional row, \<open>None\<close> where pgx reports \<open>ErrNoRows\<close>; \<open>:many\<close> with a list;
  \<open>:execrows\<close> with the number of rows changed. The parameters of an insert are carried by a row
  whose remaining columns the statement fills in.
\<close>

definition read_db :: "(db \<Rightarrow> 'a) \<Rightarrow> 'a sql" where
  "read_db f = (\<lambda>s d. Inr (f d, d))"

section \<open>wallets.sql\<close>

definition InsertWallet :: "wallet_row \<Rightarrow> unit sql" where
  "InsertWallet arg = (\<lambda>s d.
     if length (wr_Currency arg) > 3 then Inl (PgError ''22001'' '''')
     else and_then (insert_row wallet_checks wallet_uniques [] arg (wallets d))
       (\<lambda>rs. Inr ((), d\<lparr>wallets := rs\<rparr>)))"

definition SelectWallet :: "ID \<Rightarrow> wallet_row option sql" where
  "SelectWallet i = read_db (\<lambda>d. List.find (\<lambda>r. wr_ID r = i) (wallets d))"

text \<open>\<open>FOR UPDATE\<close> reads the same row; the lock keeps other sessions from changing it.\<close>

definition SelectWalletForUpdate :: "ID \<Rightarrow> wallet_row option sql" where
  "SelectWalletForUpdate i = read_db (\<lambda>d. List.find (\<lambda>r. wr_ID r = i) (wallets d))"

record UpdateWalletBalanceParams =
  uw_BalanceMinor :: int64
  uw_Version :: int64
  uw_UpdatedAt :: time
  uw_ID :: ID
  uw_ExpectedVersion :: int64

definition UpdateWalletBalance :: "UpdateWalletBalanceParams \<Rightarrow> nat sql" where
  "UpdateWalletBalance arg = (\<lambda>s d.
     and_then (update_row wallet_checks wallet_uniques []
         (\<lambda>r. wr_ID r = uw_ID arg \<and> wr_Version r = uw_ExpectedVersion arg)
         (\<lambda>r. r\<lparr>wr_BalanceMinor := uw_BalanceMinor arg, wr_Version := uw_Version arg,
            wr_UpdatedAt := uw_UpdatedAt arg\<rparr>) (wallets d))
       (\<lambda>(n, rs). Inr (n, d\<lparr>wallets := rs\<rparr>)))"

record SelectWalletReconciliationRow =
  rec_Currency :: string
  rec_BalanceMinor :: int64
  rec_RebuiltMinor :: int64
  rec_CheckedEntries :: int64

definition wallet_entries :: "db \<Rightarrow> ID \<Rightarrow> ledger_row list" where
  "wallet_entries d i = filter (\<lambda>l. lr_WalletID l = i) (entries d)"

definition rebuilt_balance :: "db \<Rightarrow> ID \<Rightarrow> int" where
  "rebuilt_balance d i = sum_list (map row_signed_amount (wallet_entries d i))"

text \<open>The sum is a \<open>numeric\<close>, whose cast to \<open>bigint\<close> fails out of range.\<close>

definition SelectWalletReconciliation :: "ID \<Rightarrow> SelectWalletReconciliationRow option sql" where
  "SelectWalletReconciliation i = (\<lambda>s d.
     case List.find (\<lambda>r. wr_ID r = i) (wallets d) of
       None \<Rightarrow> Inr (None, d)
     | Some w \<Rightarrow>
         if \<not> fits64 (rebuilt_balance d i) then Inl (PgError ''22003'' '''')
         else Inr (Some \<lparr>rec_Currency = wr_Currency w, rec_BalanceMinor = wr_BalanceMinor w,
             rec_RebuiltMinor = word_of_int (rebuilt_balance d i),
             rec_CheckedEntries = of_nat (length (wallet_entries d i))\<rparr>, d))"

section \<open>wager_transactions.sql\<close>

type_synonym InsertWagerTransactionParams = transaction_row

definition inserted_transaction :: "time \<Rightarrow> InsertWagerTransactionParams \<Rightarrow> transaction_row" where
  "inserted_transaction now arg = arg\<lparr>tr_ReferenceAttempts := 0,
     tr_NextAttemptAt := (if tr_State arg = ''PENDING_REFERENCE'' then Some now else None)\<rparr>"

definition InsertWagerTransaction :: "InsertWagerTransactionParams \<Rightarrow> unit sql" where
  "InsertWagerTransaction arg = (\<lambda>s d.
     if length (tr_Currency arg) > 3 then Inl (PgError ''22001'' '''')
     else and_then (insert_row transaction_checks transaction_uniques (transaction_foreign d)
         (inserted_transaction (ss_now s) arg) (transactions d))
       (\<lambda>rs. Inr ((), d\<lparr>transactions := rs\<rparr>)))"

definition SelectWagerTransactionByIdempotencyKey ::
  "string \<Rightarrow> string \<Rightarrow> transaction_row option sql" where
  "SelectWagerTransactionByIdempotencyKey providerID idempotencyKey =
     read_db (\<lambda>d. List.find (\<lambda>r. tr_ProviderID r = Some providerID \<and>
       tr_IdempotencyKey r = Some idempotencyKey) (transactions d))"

definition SelectWagerTransactionByExternalID ::
  "string \<Rightarrow> string \<Rightarrow> transaction_row option sql" where
  "SelectWagerTransactionByExternalID providerID externalTransactionID =
     read_db (\<lambda>d. List.find (\<lambda>r. tr_ProviderID r = Some providerID \<and>
       tr_ExternalTransactionID r = Some externalTransactionID) (transactions d))"

definition SelectWagerTransactionByID :: "ID \<Rightarrow> transaction_row option sql" where
  "SelectWagerTransactionByID i = read_db (\<lambda>d. List.find (\<lambda>r. tr_ID r = i) (transactions d))"

definition ExistsProcessedReversal :: "ID \<Rightarrow> bool sql" where
  "ExistsProcessedReversal referenceTransactionID =
     read_db (\<lambda>d. \<exists>r \<in> set (transactions d).
       tr_ReferenceTransactionID r = Some referenceTransactionID \<and> row_reversed r)"

text \<open>The rows a lease takes: due, not held by another session, the earliest first.\<close>

definition due_references :: "session \<Rightarrow> time \<Rightarrow> transaction_row list \<Rightarrow> transaction_row list" where
  "due_references s dueAt rs =
     sort_key (\<lambda>r. case tr_NextAttemptAt r of None \<Rightarrow> 0 | Some t \<Rightarrow> t)
       (filter (\<lambda>r. tr_State r = ''PENDING_REFERENCE'' \<and>
          (case tr_NextAttemptAt r of None \<Rightarrow> False | Some t \<Rightarrow> t \<le> dueAt) \<and> tr_ID r \<notin> ss_locked s) rs)"

definition LeasePendingReferences_sql :: "time \<Rightarrow> time \<Rightarrow> int32 \<Rightarrow> (ID \<times> ID) list sql" where
  "LeasePendingReferences_sql leaseUntil dueAt batchSize = (\<lambda>s d.
     if batchSize <s 0 then Inl (PgError ''2201W'' '''')
     else let taken = take (nat (sint batchSize)) (due_references s dueAt (transactions d)) in
       Inr (map (\<lambda>r. (tr_ID r, tr_WalletID r)) taken,
         d\<lparr>transactions := update_rows (\<lambda>r. tr_ID r \<in> tr_ID ` set taken)
           (\<lambda>r. r\<lparr>tr_NextAttemptAt := Some leaseUntil\<rparr>) (transactions d)\<rparr>))"

record UpdatePendingReferenceParams =
  up_State :: string
  up_FailureCode :: "string option"
  up_ReferenceTransactionID :: "ID option"
  up_ResultBalanceMinor :: "int64 option"
  up_ReferenceAttempts :: int32
  up_NextAttemptAt :: "time option"
  up_UpdatedAt :: time
  up_ID :: ID

definition updated_pending :: "UpdatePendingReferenceParams \<Rightarrow> transaction_row \<Rightarrow> transaction_row" where
  "updated_pending arg r = r\<lparr>tr_State := up_State arg, tr_FailureCode := up_FailureCode arg,
     tr_ReferenceTransactionID := up_ReferenceTransactionID arg,
     tr_ResultBalanceMinor := up_ResultBalanceMinor arg,
     tr_ReferenceAttempts := up_ReferenceAttempts arg, tr_NextAttemptAt := up_NextAttemptAt arg,
     tr_UpdatedAt := up_UpdatedAt arg\<rparr>"

definition UpdatePendingReference_sql :: "UpdatePendingReferenceParams \<Rightarrow> nat sql" where
  "UpdatePendingReference_sql arg = (\<lambda>s d.
     and_then (update_row transaction_checks transaction_uniques (transaction_foreign d)
         (\<lambda>r. tr_ID r = up_ID arg \<and> tr_State r = ''PENDING_REFERENCE'')
         (updated_pending arg) (transactions d))
       (\<lambda>(n, rs). Inr (n, d\<lparr>transactions := rs\<rparr>)))"

section \<open>wallet_ledger_entries.sql\<close>

definition InsertLedgerEntry :: "ledger_row \<Rightarrow> unit sql" where
  "InsertLedgerEntry arg = (\<lambda>s d.
     if length (lr_Currency arg) > 3 then Inl (PgError ''22001'' '''')
     else and_then (insert_row ledger_checks ledger_uniques (ledger_foreign d) arg (entries d))
       (\<lambda>rs. Inr ((), d\<lparr>entries := rs\<rparr>)))"

definition after_cursor :: "(time \<times> ID) option \<Rightarrow> ledger_row \<Rightarrow> bool" where
  "after_cursor cursor r =
     (case cursor of
        None \<Rightarrow> True
      | Some (createdAt, entryID) \<Rightarrow>
          createdAt < lr_CreatedAt r \<or> (createdAt = lr_CreatedAt r \<and> entryID < lr_ID r))"

text \<open>\<open>ORDER BY created_at, id\<close>: a stable sort by identifier, then one by instant.\<close>

definition ledger_order :: "ledger_row list \<Rightarrow> ledger_row list" where
  "ledger_order rs = sort_key lr_CreatedAt (sort_key lr_ID rs)"

definition SelectLedgerPage :: "ID \<Rightarrow> (time \<times> ID) option \<Rightarrow> int32 \<Rightarrow> ledger_row list sql" where
  "SelectLedgerPage walletID cursor pageSize = (\<lambda>s d.
     if pageSize <s 0 then Inl (PgError ''2201W'' '''')
     else Inr (take (nat (sint pageSize))
         (ledger_order (filter (after_cursor cursor) (wallet_entries d walletID))), d))"

section \<open>outbox_events.sql\<close>

record InsertOutboxEventParams =
  io_ID :: ID
  io_AggregateID :: ID
  io_EventType :: string
  io_Payload :: Event
  io_OccurredAt :: time

definition inserted_event :: "session \<Rightarrow> InsertOutboxEventParams \<Rightarrow> outbox_row" where
  "inserted_event s arg = \<lparr>or_ID = io_ID arg, or_AggregateID = io_AggregateID arg,
     or_EventType = io_EventType arg, or_Payload = io_Payload arg,
     or_OccurredAt = io_OccurredAt arg, or_Attempts = 0, or_NextAttemptAt = ss_now s,
     or_PublishedAt = None, or_CreatedAt = ss_now s, or_Sequence = ss_sequence s\<rparr>"

definition InsertOutboxEvent :: "InsertOutboxEventParams \<Rightarrow> unit sql" where
  "InsertOutboxEvent arg = (\<lambda>s d.
     and_then (insert_row outbox_checks outbox_uniques [] (inserted_event s arg) (outbox d))
       (\<lambda>rs. Inr ((), d\<lparr>outbox := rs\<rparr>)))"

text \<open>The oldest unpublished event of its aggregate, when it is due and nobody holds it.\<close>

definition outbox_head :: "outbox_row list \<Rightarrow> outbox_row \<Rightarrow> bool" where
  "outbox_head rs r =
     (or_PublishedAt r = None \<and>
      \<not> (\<exists>q \<in> set rs. or_AggregateID q = or_AggregateID r \<and> or_PublishedAt q = None \<and>
           or_Sequence q < or_Sequence r))"

definition due_events :: "session \<Rightarrow> time \<Rightarrow> outbox_row list \<Rightarrow> outbox_row list" where
  "due_events s dueAt rs =
     sort_key or_Sequence
       (filter (\<lambda>r. outbox_head rs r \<and> or_NextAttemptAt r \<le> dueAt \<and> or_ID r \<notin> ss_locked s) rs)"

definition LeasePendingOutboxEvents :: "time \<Rightarrow> time \<Rightarrow> int32 \<Rightarrow> outbox_row list sql" where
  "LeasePendingOutboxEvents leaseUntil dueAt batchSize = (\<lambda>s d.
     if batchSize <s 0 then Inl (PgError ''2201W'' '''')
     else let taken = take (nat (sint batchSize)) (due_events s dueAt (outbox d)) in
       Inr (map (\<lambda>r. r\<lparr>or_NextAttemptAt := leaseUntil\<rparr>) taken,
         d\<lparr>outbox := update_rows (\<lambda>r. or_ID r \<in> or_ID ` set taken)
           (\<lambda>r. r\<lparr>or_NextAttemptAt := leaseUntil\<rparr>) (outbox d)\<rparr>))"

definition MarkOutboxEventPublished :: "ID \<Rightarrow> time \<Rightarrow> nat sql" where
  "MarkOutboxEventPublished i publishedAt = (\<lambda>s d.
     and_then (update_row outbox_checks outbox_uniques []
         (\<lambda>r. or_ID r = i \<and> or_PublishedAt r = None)
         (\<lambda>r. r\<lparr>or_PublishedAt := Some publishedAt\<rparr>) (outbox d))
       (\<lambda>(n, rs). Inr (n, d\<lparr>outbox := rs\<rparr>)))"

definition RescheduleOutboxEvent :: "ID \<Rightarrow> int32 \<Rightarrow> time \<Rightarrow> nat sql" where
  "RescheduleOutboxEvent i attempts nextAttemptAt = (\<lambda>s d.
     and_then (update_row outbox_checks outbox_uniques []
         (\<lambda>r. or_ID r = i \<and> or_PublishedAt r = None)
         (\<lambda>r. r\<lparr>or_Attempts := attempts, or_NextAttemptAt := nextAttemptAt\<rparr>) (outbox d))
       (\<lambda>(n, rs). Inr (n, d\<lparr>outbox := rs\<rparr>)))"

section \<open>inbox_messages.sql\<close>

definition InsertInboxMessage :: "string \<Rightarrow> string \<Rightarrow> ID \<Rightarrow> unit sql" where
  "InsertInboxMessage messageID payloadHash transactionID = (\<lambda>s d.
     and_then (insert_row [] inbox_uniques (inbox_foreign d)
         \<lparr>ir_MessageID = messageID, ir_PayloadHash = payloadHash,
          ir_TransactionID = transactionID, ir_ReceivedAt = ss_now s\<rparr> (inbox d))
       (\<lambda>rs. Inr ((), d\<lparr>inbox := rs\<rparr>)))"

definition SelectInboxMessage :: "string \<Rightarrow> inbox_row option sql" where
  "SelectInboxMessage messageID = read_db (\<lambda>d. List.find (\<lambda>r. ir_MessageID r = messageID) (inbox d))"

end
