(* ===== verification/Store.thy ===== *)
theory Store
  imports Queries
begin

text \<open>
  The world the use cases act on and the actions themselves: a Go call that takes a context and
  returns \<open>(T, error)\<close> is a function from the world to its result and the world it leaves. The
  transaction carried by the context is \<open>tx\<close>; what is outside the program (clock, identifiers,
  the network, the other sessions, the broker) is the environment, indexed by how often it was
  asked, and every theorem holds for all environments. Then \<open>postgres/errors.go\<close> and
  \<open>postgres/transactor.go\<close>.
\<close>

section \<open>Environment and world\<close>

text \<open>
  What the driver reports when the server could not be asked, or answered with an error of its
  own that no constraint explains (a deadlock, a shutdown). A fault strikes before the request
  took effect, or, for a commit, after it, with the answer lost.
\<close>

datatype driver_error =
    Unconnected | TimedOut | NotSent | DeadlineExpired | ServerError string | Unclassified

fun driver_err :: "driver_error \<Rightarrow> err" where
  "driver_err Unconnected = ConnectError"
| "driver_err TimedOut = TimeoutError"
| "driver_err NotSent = SafeToRetryError"
| "driver_err DeadlineExpired = Sentinel ErrDeadlineExceeded"
| "driver_err (ServerError code) = PgError code ''''"
| "driver_err Unclassified = OtherError"

datatype fault = Lost driver_error | AnswerLost driver_error

fun fault_err :: "fault \<Rightarrow> err" where
  "fault_err (Lost e) = driver_err e"
| "fault_err (AnswerLost e) = driver_err e"

record environment =
  env_fault :: "nat \<Rightarrow> fault option"
  env_clock :: "nat \<Rightarrow> time"
  env_NewID :: "nat \<Rightarrow> ID"
  env_server_now :: "nat \<Rightarrow> time"
  env_held :: "nat \<Rightarrow> ID set"
  env_publisher :: "nat \<Rightarrow> err option"
  env_uuid_String :: "ID \<Rightarrow> string"
  env_sha256 :: "string \<Rightarrow> string"

type_synonym duration = int64

datatype metric =
    WagerConcluded Kind State failure_code bool duration
  | MessageTaken bool
  | ReferenceAttempted State
  | EventPublished duration bool
  | ReconciliationChecked bool
  | ConcurrencyConflict
  | MessageDeadLettered
  | RequestHandled string string nat duration

record OutboxRecord =
  ob_EventID :: ID
  ob_AggregateID :: ID
  ob_EventType :: string
  ob_OccurredAt :: time
  ob_Payload :: Event
  ob_Attempts :: int64

text \<open>
  \<open>tx\<close> is the open transaction: the database as it sees it, and whether a statement failed in it,
  after which PostgreSQL refuses all others until the rollback.
\<close>

record world =
  committed :: db
  tx :: "(db \<times> bool) option"
  sequence :: int
  env :: environment
  begun :: nat
  calls :: nat
  instants :: nat
  identifiers :: nat
  publications :: nat
  metrics :: "metric list"
  published :: "OutboxRecord list"

type_synonym 'a action = "world \<Rightarrow> (err + 'a) \<times> world"

section \<open>Actions\<close>

definition return_ok :: "'a \<Rightarrow> 'a action" where
  "return_ok a = (\<lambda>w. (Inr a, w))"

definition raise_err :: "err \<Rightarrow> 'a action" where
  "raise_err e = (\<lambda>w. (Inl e, w))"

definition of_result :: "err + 'a \<Rightarrow> 'a action" where
  "of_result r = (\<lambda>w. (r, w))"

text \<open>Run an action and look at its result, or go on only when it succeeded.\<close>

definition attempt :: "'a action \<Rightarrow> ((err + 'a) \<Rightarrow> 'b action) \<Rightarrow> 'b action" where
  "attempt m f = (\<lambda>w. case m w of (r, w') \<Rightarrow> f r w')"

definition bind_action :: "'a action \<Rightarrow> ('a \<Rightarrow> 'b action) \<Rightarrow> 'b action" where
  "bind_action m f = attempt m (\<lambda>r. case r of Inl e \<Rightarrow> raise_err e | Inr a \<Rightarrow> f a)"

definition clock_now :: "time action" where
  "clock_now = (\<lambda>w. (Inr (env_clock (env w) (instants w)), w\<lparr>instants := Suc (instants w)\<rparr>))"

definition NewID :: "ID action" where
  "NewID = (\<lambda>w. (Inr (env_NewID (env w) (identifiers w)), w\<lparr>identifiers := Suc (identifiers w)\<rparr>))"

definition record_metric :: "metric \<Rightarrow> unit action" where
  "record_metric m = (\<lambda>w. (Inr (), w\<lparr>metrics := metrics w @ [m]\<rparr>))"

definition time_Add :: "time \<Rightarrow> duration \<Rightarrow> time" where
  "time_Add t d = t + sint d"

text \<open>\<open>Time.Sub\<close> answers with the nearest duration when the difference does not fit.\<close>

definition time_Sub :: "time \<Rightarrow> time \<Rightarrow> duration" where
  "time_Sub t u =
     (if t - u < sint MinInt64 then MinInt64 else if sint MaxInt64 < t - u then MaxInt64
      else word_of_int (t - u))"

section \<open>errors.go\<close>

definition uniqueViolationCode :: string where "uniqueViolationCode = ''23505''"

text \<open>\<open>errors.As(err, &pgErr)\<close>: the server's error found by unwrapping.\<close>

fun as_PgError :: "err \<Rightarrow> (string \<times> string) option" where
  "as_PgError (PgError code constraint) = Some (code, constraint)"
| "as_PgError (DomainError class cause code) = (case cause of None \<Rightarrow> None | Some c \<Rightarrow> as_PgError c)"
| "as_PgError (Wrapped []) = None"
| "as_PgError (Wrapped (e # es)) =
     (case as_PgError e of Some p \<Rightarrow> Some p | None \<Rightarrow> as_PgError (Wrapped es))"
| "as_PgError e = None"

definition isUniqueViolation :: "err \<Rightarrow> string \<Rightarrow> bool" where
  "isUniqueViolation e constraint = (as_PgError e = Some (uniqueViolationCode, constraint))"

text \<open>
  \<open>translate\<close>: \<open>pgconn.Timeout\<close>, \<open>pgconn.SafeToRetry\<close> and the connect error are recognised by
  the errors of the driver that have them.
\<close>

definition is_outage :: "err \<Rightarrow> bool" where
  "is_outage e = (errors_Is e TimeoutError \<or> errors_Is e SafeToRetryError \<or> errors_Is e ConnectError \<or>
     errors_Is e (Sentinel ErrDeadlineExceeded))"

definition translate :: "err \<Rightarrow> err" where
  "translate e =
     (if as_PgError e \<noteq> None then e
      else if is_outage e then Wrapped [Sentinel ErrUnavailable, e]
      else e)"

definition translated :: "'a action \<Rightarrow> 'a action" where
  "translated m = attempt m (\<lambda>r. case r of Inl e \<Rightarrow> raise_err (translate e) | Inr a \<Rightarrow> return_ok a)"

section \<open>Statements\<close>

definition the_session :: "world \<Rightarrow> session" where
  "the_session w = \<lparr>ss_now = env_server_now (env w) (begun w), ss_locked = env_held (env w) (calls w),
     ss_sequence = sequence w\<rparr>"

definition next_call :: "world \<Rightarrow> world" where
  "next_call w = w\<lparr>calls := Suc (calls w)\<rparr>"

text \<open>\<open>queries\<close>: the statements of the transaction in the context, or a refusal.\<close>

definition queries :: "unit action" where
  "queries = (\<lambda>w. (case tx w of None \<Rightarrow> Inl (Sentinel ErrOutsideTransaction) | Some _ \<Rightarrow> Inr (), w))"

definition statement :: "'a sql \<Rightarrow> 'a action" where
  "statement f = (\<lambda>w.
     case tx w of
       None \<Rightarrow> (Inl (Sentinel ErrOutsideTransaction), w)
     | Some (d, aborted) \<Rightarrow>
         if aborted then (Inl (PgError ''25P02'' ''''), next_call w)
         else (case env_fault (env w) (calls w) of
                 Some e \<Rightarrow> (Inl (fault_err e), (next_call w)\<lparr>tx := Some (d, True)\<rparr>)
               | None \<Rightarrow>
                   (case f (the_session w) d of
                      Inl e \<Rightarrow> (Inl e, (next_call w)\<lparr>tx := Some (d, True)\<rparr>)
                    | Inr (a, d') \<Rightarrow> (Inr a, (next_call w)\<lparr>tx := Some (d', False)\<rparr>))))"

text \<open>A \<open>:one\<close> query: no row is \<open>pgx.ErrNoRows\<close>, an error of the client.\<close>

definition query_row :: "'a option sql \<Rightarrow> 'a action" where
  "query_row f = bind_action (statement f) (\<lambda>r.
     case r of None \<Rightarrow> raise_err (Sentinel ErrNoRows) | Some a \<Rightarrow> return_ok a)"

text \<open>An insert into the outbox draws from its sequence, which no rollback gives back.\<close>

definition draw_sequence :: "unit action" where
  "draw_sequence = (\<lambda>w. (Inr (), w\<lparr>sequence := sequence w + 1\<rparr>))"

section \<open>transactor.go\<close>

definition begin_transaction :: "unit action" where
  "begin_transaction = (\<lambda>w.
     case env_fault (env w) (calls w) of
       Some e \<Rightarrow> (Inl (Wrapped [fault_err e]), next_call w)
     | None \<Rightarrow> (Inr (), (next_call w)\<lparr>tx := Some (committed w, False), begun := Suc (begun w)\<rparr>))"

definition rollback_transaction :: "world \<Rightarrow> world" where
  "rollback_transaction w = w\<lparr>tx := None\<rparr>"

text \<open>A commit of a transaction in which a statement failed rolls back and is reported.\<close>

definition commit_transaction :: "unit action" where
  "commit_transaction = (\<lambda>w.
     case tx w of
       None \<Rightarrow> (Inl OtherError, w)
     | Some (d, aborted) \<Rightarrow>
         (case env_fault (env w) (calls w) of
            Some (Lost e) \<Rightarrow> (Inl (Wrapped [driver_err e]), (next_call w)\<lparr>tx := None\<rparr>)
          | Some (AnswerLost e) \<Rightarrow>
              (Inl (Wrapped [driver_err e]),
               (next_call w)\<lparr>committed := (if aborted then committed w else d), tx := None\<rparr>)
          | None \<Rightarrow>
              if aborted then (Inl (Wrapped [OtherError]), (next_call w)\<lparr>tx := None\<rparr>)
              else (Inr (), (next_call w)\<lparr>committed := d, tx := None\<rparr>)))"

definition WithinTransaction :: "'a action \<Rightarrow> 'a action" where
  "WithinTransaction fn = (\<lambda>w.
     if tx w \<noteq> None then fn w
     else (case translated begin_transaction w of
             (Inl e, w0) \<Rightarrow> (Inl e, w0)
           | (Inr _, w0) \<Rightarrow>
               (case fn w0 of
                  (Inl e, w1) \<Rightarrow> (Inl e, rollback_transaction w1)
                | (Inr a, w1) \<Rightarrow>
                    (case translated commit_transaction w1 of
                       (Inl e, w2) \<Rightarrow> (Inl e, rollback_transaction w2)
                     | (Inr _, w2) \<Rightarrow> (Inr a, rollback_transaction w2)))))"

end
