(* ===== verification/Repositories.thy ===== *)
theory Repositories
  imports Store
begin

text \<open>
  \<open>internal/infrastructure/postgres/*_repository.go\<close>: the ports of the use cases on the
  statements. Each method first asks for the transaction of its context, then runs its
  statement, and translates what the driver reports: a missing row, a violated unique
  constraint, an outage.
\<close>

section \<open>Wallets\<close>

definition wallet_to_row :: "Wallet \<Rightarrow> wallet_row" where
  "wallet_to_row w = \<lparr>wr_ID = w_id w, wr_PlayerID = w_playerID w,
     wr_Currency = currency_String (wallet_Currency w), wr_BalanceMinor = minorUnits (w_balance w),
     wr_Version = w_version w, wr_CreatedAt = w_createdAt w, wr_UpdatedAt = w_updatedAt w\<rparr>"

definition rehydrateWallet :: "wallet_row \<Rightarrow> err + Wallet" where
  "rehydrateWallet row =
     and_then (NewCurrency (wr_Currency row)) (\<lambda>c.
     and_then (money_New (wr_BalanceMinor row) c) (\<lambda>balance.
     wallet_Rehydrate (wr_ID row) (wr_PlayerID row) balance (wr_Version row) (wr_CreatedAt row)
       (wr_UpdatedAt row)))"

definition WalletRepository_Create :: "Wallet \<Rightarrow> unit action" where
  "WalletRepository_Create w =
     bind_action queries (\<lambda>_.
     attempt (statement (InsertWallet (wallet_to_row w))) (\<lambda>r.
       case r of
         Inr _ \<Rightarrow> return_ok ()
       | Inl e \<Rightarrow>
           if isUniqueViolation e walletsPlayerCurrencyKey
             then raise_err (ConflictError FailureCodeWalletAlreadyExists)
           else raise_err (translate e)))"

definition found_wallet :: "wallet_row option sql \<Rightarrow> Wallet action" where
  "found_wallet f =
     bind_action queries (\<lambda>_.
     attempt (query_row f) (\<lambda>r.
       case r of
         Inl e \<Rightarrow>
           if errors_Is e (Sentinel ErrNoRows) then raise_err (NotFoundError FailureCodeWalletNotFound)
           else raise_err (translate e)
       | Inr row \<Rightarrow> of_result (rehydrateWallet row)))"

definition WalletRepository_Find :: "ID \<Rightarrow> Wallet action" where
  "WalletRepository_Find i = found_wallet (SelectWallet i)"

definition GetForUpdate :: "ID \<Rightarrow> Wallet action" where
  "GetForUpdate i = found_wallet (SelectWalletForUpdate i)"

record Reconciliation =
  rc_Stored :: Money
  rc_Calculated :: Money
  rc_CheckedEntries :: int64

definition WalletRepository_Reconcile :: "ID \<Rightarrow> Reconciliation action" where
  "WalletRepository_Reconcile i =
     bind_action queries (\<lambda>_.
     attempt (query_row (SelectWalletReconciliation i)) (\<lambda>r.
       case r of
         Inl e \<Rightarrow>
           if errors_Is e (Sentinel ErrNoRows) then raise_err (NotFoundError FailureCodeWalletNotFound)
           else raise_err (translate e)
       | Inr row \<Rightarrow> of_result (
           and_then (NewCurrency (rec_Currency row)) (\<lambda>c.
           and_then (money_New (rec_BalanceMinor row) c) (\<lambda>stored.
           and_then (money_New (rec_RebuiltMinor row) c) (\<lambda>calculated.
           Inr \<lparr>rc_Stored = stored, rc_Calculated = calculated,
             rc_CheckedEntries = rec_CheckedEntries row\<rparr>))))))"

definition UpdateBalance :: "Wallet \<Rightarrow> int64 \<Rightarrow> unit action" where
  "UpdateBalance w expectedVersion =
     bind_action queries (\<lambda>_.
     attempt (statement (UpdateWalletBalance \<lparr>uw_BalanceMinor = minorUnits (w_balance w),
         uw_Version = w_version w, uw_UpdatedAt = w_updatedAt w, uw_ID = w_id w,
         uw_ExpectedVersion = expectedVersion\<rparr>)) (\<lambda>r.
       case r of
         Inl e \<Rightarrow> raise_err (translate e)
       | Inr updated \<Rightarrow>
           if updated = 0 then raise_err (Sentinel ErrConcurrentUpdate) else return_ok ()))"

section \<open>Operations\<close>

definition optional :: "string \<Rightarrow> string option" where
  "optional value = (if value = '''' then None else Some value)"

definition pointed_value :: "string option \<Rightarrow> string" where
  "pointed_value pointer = (case pointer of None \<Rightarrow> '''' | Some s \<Rightarrow> s)"

text \<open>\<open>int32(n)\<close> keeps the low 32 bits, \<open>int(n)\<close> of an \<open>int32\<close> keeps the value.\<close>

definition to_int32 :: "int64 \<Rightarrow> int32" where "to_int32 n = ucast n"
definition from_int32 :: "int32 \<Rightarrow> int64" where "from_int32 n = scast n"

definition transaction_to_params :: "Transaction \<Rightarrow> InsertWagerTransactionParams" where
  "transaction_to_params t = \<lparr>tr_ID = t_id t, tr_Kind = kind_String (t_kind t),
     tr_State = state_String (t_state t), tr_WalletID = t_walletID t, tr_PlayerID = t_playerID t,
     tr_Currency = currency_String (currency (t_amount t)), tr_AmountMinor = minorUnits (t_amount t),
     tr_ProviderID = optional (t_providerID t),
     tr_ExternalTransactionID = optional (t_externalTransactionID t),
     tr_IdempotencyKey = optional (t_idempotencyKey t),
     tr_PayloadHash = optional (t_payloadHash t), tr_RoundID = optional (t_roundID t),
     tr_GameID = optional (t_gameID t),
     tr_ReferenceExternalTransactionID = optional (t_referenceExternalTransactionID t),
     tr_ReferenceTransactionID = ReferenceTransactionID t,
     tr_FailureCode = optional (t_failureCode t),
     tr_ResultBalanceMinor = map_option minorUnits (t_resultBalance t),
     tr_CreatedAt = t_createdAt t, tr_UpdatedAt = t_updatedAt t,
     tr_ReferenceAttempts = 0, tr_NextAttemptAt = None\<rparr>"

definition TransactionRepository_Create :: "Transaction \<Rightarrow> unit action" where
  "TransactionRepository_Create t =
     bind_action queries (\<lambda>_.
     attempt (statement (InsertWagerTransaction (transaction_to_params t))) (\<lambda>r.
       case r of
         Inr _ \<Rightarrow> return_ok ()
       | Inl e \<Rightarrow>
           if isUniqueViolation e transactionsProviderIdempotencyKey \<or>
              isUniqueViolation e transactionsProviderExternalID
             then raise_err (ConflictError FailureCodeIdempotencyConflict)
           else if isUniqueViolation e transactionsOneReversalPerRef
             then raise_err (ConflictError FailureCodeReferenceAlreadyReversed)
           else raise_err (translate e)))"

definition HasProcessedReversal :: "ID \<Rightarrow> bool action" where
  "HasProcessedReversal referenceID =
     bind_action queries (\<lambda>_. translated (statement (ExistsProcessedReversal referenceID)))"

definition rehydrate_row :: "transaction_row \<Rightarrow> err + Transaction" where
  "rehydrate_row row =
     and_then (NewCurrency (tr_Currency row)) (\<lambda>c.
     and_then (money_New (tr_AmountMinor row) c) (\<lambda>amount.
     and_then
       (case tr_ResultBalanceMinor row of
          None \<Rightarrow> Inr None
        | Some units \<Rightarrow> and_then (money_New units c) (\<lambda>balance. Inr (Some balance)))
       (\<lambda>balance. wager_Rehydrate \<lparr>t_id = tr_ID row, t_kind = kind_of (tr_Kind row),
          t_state = state_of (tr_State row), t_walletID = tr_WalletID row,
          t_playerID = tr_PlayerID row, t_amount = amount,
          t_providerID = pointed_value (tr_ProviderID row),
          t_externalTransactionID = pointed_value (tr_ExternalTransactionID row),
          t_idempotencyKey = pointed_value (tr_IdempotencyKey row),
          t_payloadHash = pointed_value (tr_PayloadHash row),
          t_roundID = pointed_value (tr_RoundID row), t_gameID = pointed_value (tr_GameID row),
          t_referenceExternalTransactionID = pointed_value (tr_ReferenceExternalTransactionID row),
          t_referenceTransactionID =
            (case tr_ReferenceTransactionID row of None \<Rightarrow> NilID | Some i \<Rightarrow> i),
          t_referenceAttempts = from_int32 (tr_ReferenceAttempts row),
          t_failureCode = pointed_value (tr_FailureCode row), t_resultBalance = balance,
          t_createdAt = tr_CreatedAt row, t_updatedAt = tr_UpdatedAt row\<rparr>)))"

definition rehydrateTransaction :: "transaction_row action \<Rightarrow> Transaction option action" where
  "rehydrateTransaction m =
     attempt m (\<lambda>r.
       case r of
         Inl e \<Rightarrow>
           if errors_Is e (Sentinel ErrNoRows) then return_ok None else raise_err (translate e)
       | Inr row \<Rightarrow> of_result (and_then (rehydrate_row row) (\<lambda>t. Inr (Some t))))"

definition FindByIdempotencyKey :: "string \<Rightarrow> string \<Rightarrow> Transaction option action" where
  "FindByIdempotencyKey providerID idempotencyKey =
     bind_action queries (\<lambda>_. rehydrateTransaction
       (query_row (SelectWagerTransactionByIdempotencyKey providerID idempotencyKey)))"

definition FindByExternalID :: "string \<Rightarrow> string \<Rightarrow> Transaction option action" where
  "FindByExternalID providerID externalTransactionID =
     bind_action queries (\<lambda>_. rehydrateTransaction
       (query_row (SelectWagerTransactionByExternalID providerID externalTransactionID)))"

definition FindByID :: "ID \<Rightarrow> Transaction option action" where
  "FindByID i = bind_action queries (\<lambda>_. rehydrateTransaction (query_row (SelectWagerTransactionByID i)))"

record PendingReference =
  pr_TransactionID :: ID
  pr_WalletID :: ID

definition LeasePendingReferences :: "time \<Rightarrow> time \<Rightarrow> int64 \<Rightarrow> PendingReference list action" where
  "LeasePendingReferences dueAt leaseUntil limit =
     bind_action queries (\<lambda>_.
     bind_action (translated (statement (LeasePendingReferences_sql leaseUntil dueAt (to_int32 limit))))
       (\<lambda>rows. return_ok (map (\<lambda>(i, walletID). \<lparr>pr_TransactionID = i, pr_WalletID = walletID\<rparr>) rows)))"

definition UpdatePendingReference :: "Transaction \<Rightarrow> time \<Rightarrow> unit action" where
  "UpdatePendingReference t nextAttemptAt =
     bind_action queries (\<lambda>_.
     attempt (statement (UpdatePendingReference_sql
         \<lparr>up_State = state_String (t_state t), up_FailureCode = optional (t_failureCode t),
          up_ReferenceTransactionID = ReferenceTransactionID t,
          up_ResultBalanceMinor = map_option minorUnits (t_resultBalance t),
          up_ReferenceAttempts = to_int32 (t_referenceAttempts t),
          up_NextAttemptAt = (if t_state t = StatePendingReference then Some nextAttemptAt else None),
          up_UpdatedAt = t_updatedAt t, up_ID = t_id t\<rparr>)) (\<lambda>r.
       case r of
         Inl e \<Rightarrow>
           if isUniqueViolation e transactionsOneReversalPerRef
             then raise_err (ConflictError FailureCodeReferenceAlreadyReversed)
           else raise_err (translate e)
       | Inr updated \<Rightarrow>
           if updated = 0 then raise_err (Sentinel ErrConcurrentUpdate) else return_ok ()))"

section \<open>Ledger\<close>

definition entry_to_row :: "Entry \<Rightarrow> ledger_row" where
  "entry_to_row e = \<lparr>lr_ID = entry_id e, lr_WalletID = entry_walletID e,
     lr_TransactionID = entry_transactionID e, lr_Direction = direction_String (entry_direction e),
     lr_Currency = currency_String (currency (entry_amount e)),
     lr_AmountMinor = minorUnits (entry_amount e),
     lr_BalanceBeforeMinor = minorUnits (entry_balanceBefore e),
     lr_BalanceAfterMinor = minorUnits (entry_balanceAfter e), lr_CreatedAt = entry_createdAt e\<rparr>"

definition LedgerRepository_Append :: "Entry \<Rightarrow> unit action" where
  "LedgerRepository_Append e =
     bind_action queries (\<lambda>_. translated (statement (InsertLedgerEntry (entry_to_row e))))"

definition entry_of_row :: "ledger_row \<Rightarrow> err + Entry" where
  "entry_of_row row =
     and_then (NewCurrency (lr_Currency row)) (\<lambda>c.
     and_then (money_New (lr_AmountMinor row) c) (\<lambda>amount.
     and_then (money_New (lr_BalanceBeforeMinor row) c) (\<lambda>before.
     and_then (money_New (lr_BalanceAfterMinor row) c) (\<lambda>after.
     NewEntry (lr_ID row) (lr_WalletID row) (lr_TransactionID row) (direction_of (lr_Direction row))
       amount before after (lr_CreatedAt row)))))"

fun map_results :: "('a \<Rightarrow> err + 'b) \<Rightarrow> 'a list \<Rightarrow> err + 'b list" where
  "map_results f [] = Inr []"
| "map_results f (x # xs) = and_then (f x) (\<lambda>y. and_then (map_results f xs) (\<lambda>ys. Inr (y # ys)))"

text \<open>\<open>LedgerCursor\<close>: the instant and the identifier of the last entry of a page.\<close>

type_synonym LedgerCursor = "time \<times> ID"

definition LedgerRepository_Page :: "ID \<Rightarrow> LedgerCursor option \<Rightarrow> int64 \<Rightarrow> Entry list action" where
  "LedgerRepository_Page walletID cursor limit =
     bind_action queries (\<lambda>_.
     bind_action (translated (statement (SelectLedgerPage walletID cursor (to_int32 limit))))
       (\<lambda>rows. of_result (map_results entry_of_row rows)))"

section \<open>Outbox\<close>

text \<open>
  \<open>json.Marshal\<close> of an event fails exactly when \<open>Time.MarshalJSON\<close> refuses its instant, which is
  not in the years 0 to 9999, or \<open>Money.MarshalJSON\<close> one of its amounts, which has no currency.
\<close>

definition time_MarshalJSON :: "time \<Rightarrow> err + time" where
  "time_MarshalJSON t =
     (if t < - 31622400 * 10 ^ 9 \<or> 315537897600 * 10 ^ 9 \<le> t then Inl OtherError else Inr t)"

definition money_MarshalJSON :: "Money \<Rightarrow> err + Money" where
  "money_MarshalJSON m = and_then (money_Validate m) (\<lambda>_. Inr m)"

fun payload_moneys :: "event_data \<Rightarrow> Money list" where
  "payload_moneys (ProcessedPayload p) = [pd_Money p, pd_Balance p]"
| "payload_moneys (RejectedPayload p) = [rd_Money p]"
| "payload_moneys (PendingReferencePayload p) = [prd_Money p]"
| "payload_moneys (BalanceChangedPayload p) = [bd_Money p, bd_BalanceBefore p, bd_BalanceAfter p]"

definition event_Marshal :: "Event \<Rightarrow> err + Event" where
  "event_Marshal e =
     and_then (time_MarshalJSON (ev_OccurredAt e)) (\<lambda>_.
     and_then (map_results money_MarshalJSON (payload_moneys (ev_Data e))) (\<lambda>_. Inr e))"

definition append_event :: "Event \<Rightarrow> unit action" where
  "append_event e =
     (case event_Marshal e of
        Inl x \<Rightarrow> raise_err (Wrapped [x])
      | Inr payload \<Rightarrow>
          bind_action draw_sequence (\<lambda>_.
          translated (statement (InsertOutboxEvent \<lparr>io_ID = ev_ID e, io_AggregateID = ev_AggregateID e,
            io_EventType = ev_Type e, io_Payload = payload, io_OccurredAt = ev_OccurredAt e\<rparr>))))"

fun append_events :: "Event list \<Rightarrow> unit action" where
  "append_events [] = return_ok ()"
| "append_events (e # es) = bind_action (append_event e) (\<lambda>_. append_events es)"

definition OutboxRepository_Append :: "Event list \<Rightarrow> unit action" where
  "OutboxRepository_Append events = bind_action queries (\<lambda>_. append_events events)"

definition outbox_record :: "outbox_row \<Rightarrow> OutboxRecord" where
  "outbox_record row = \<lparr>ob_EventID = or_ID row, ob_AggregateID = or_AggregateID row,
     ob_EventType = or_EventType row, ob_OccurredAt = or_OccurredAt row,
     ob_Payload = or_Payload row, ob_Attempts = from_int32 (or_Attempts row)\<rparr>"

definition LeasePending :: "time \<Rightarrow> time \<Rightarrow> int64 \<Rightarrow> OutboxRecord list action" where
  "LeasePending dueAt leaseUntil limit =
     bind_action queries (\<lambda>_.
     bind_action (translated (statement (LeasePendingOutboxEvents leaseUntil dueAt (to_int32 limit))))
       (\<lambda>rows. return_ok (map outbox_record rows)))"

definition MarkPublished :: "ID \<Rightarrow> time \<Rightarrow> unit action" where
  "MarkPublished eventID publishedAt =
     bind_action queries (\<lambda>_.
     bind_action (translated (statement (MarkOutboxEventPublished eventID publishedAt)))
       (\<lambda>_. return_ok ()))"

definition ReschedulePublication :: "ID \<Rightarrow> int64 \<Rightarrow> time \<Rightarrow> unit action" where
  "ReschedulePublication eventID attempts nextAttemptAt =
     bind_action queries (\<lambda>_.
     bind_action (translated (statement (RescheduleOutboxEvent eventID (to_int32 attempts) nextAttemptAt)))
       (\<lambda>_. return_ok ()))"

section \<open>Inbox\<close>

record InboxMessage =
  im_MessageID :: string
  im_PayloadHash :: string
  im_TransactionID :: ID

definition InboxRepository_Find :: "string \<Rightarrow> InboxMessage option action" where
  "InboxRepository_Find messageID =
     bind_action queries (\<lambda>_.
     attempt (query_row (SelectInboxMessage messageID)) (\<lambda>r.
       case r of
         Inl e \<Rightarrow>
           if errors_Is e (Sentinel ErrNoRows) then return_ok None else raise_err (translate e)
       | Inr row \<Rightarrow> return_ok (Some \<lparr>im_MessageID = ir_MessageID row,
           im_PayloadHash = ir_PayloadHash row, im_TransactionID = ir_TransactionID row\<rparr>)))"

definition InboxRepository_Record :: "InboxMessage \<Rightarrow> unit action" where
  "InboxRepository_Record message =
     bind_action queries (\<lambda>_.
     attempt (statement (InsertInboxMessage (im_MessageID message) (im_PayloadHash message)
         (im_TransactionID message))) (\<lambda>r.
       case r of
         Inr _ \<Rightarrow> return_ok ()
       | Inl e \<Rightarrow>
           if isUniqueViolation e inboxMessagesPrimaryKey
             then raise_err (ConflictError FailureCodeIdempotencyConflict)
           else raise_err (translate e)))"

end
