(* ===== verification/Payload_Hash.thy ===== *)
theory Payload_Hash
  imports Store
begin

text \<open>
  \<open>internal/usecase/payload_hash.go\<close>: the canonical JSON of the business fields of an operation
  and its hash. The part of \<open>encoding/json\<close> it uses is written out: strings escaped without the
  HTML escapes, objects with sorted keys. SHA-256 and the text form of an identifier come from
  the environment. A Go string is a list of bytes, so characters are bytes here.
\<close>

section \<open>Strings in JSON\<close>

definition byte_in :: "nat \<Rightarrow> nat \<Rightarrow> char \<Rightarrow> bool" where
  "byte_in lo hi c = (lo \<le> of_char c \<and> (of_char c :: nat) \<le> hi)"

text \<open>The length of the multi-byte UTF-8 sequence a text starts with, \<open>None\<close> when it is not one.\<close>

fun utf8_size :: "string \<Rightarrow> nat option" where
  "utf8_size (a # b # cs) =
     (if byte_in 0xC2 0xDF a \<and> byte_in 0x80 0xBF b then Some 2
      else (case cs of
        [] \<Rightarrow> None
      | c # ds \<Rightarrow>
          if (byte_in 0xE0 0xE0 a \<and> byte_in 0xA0 0xBF b \<or> byte_in 0xE1 0xEC a \<and> byte_in 0x80 0xBF b \<or>
              byte_in 0xED 0xED a \<and> byte_in 0x80 0x9F b \<or> byte_in 0xEE 0xEF a \<and> byte_in 0x80 0xBF b) \<and>
             byte_in 0x80 0xBF c then Some 3
          else (case ds of
            [] \<Rightarrow> None
          | d # es \<Rightarrow>
              if (byte_in 0xF0 0xF0 a \<and> byte_in 0x90 0xBF b \<or> byte_in 0xF1 0xF3 a \<and> byte_in 0x80 0xBF b \<or>
                  byte_in 0xF4 0xF4 a \<and> byte_in 0x80 0x8F b) \<and>
                 byte_in 0x80 0xBF c \<and> byte_in 0x80 0xBF d then Some 4
              else None)))"
| "utf8_size _ = None"

definition hex_digit :: "nat \<Rightarrow> char" where
  "hex_digit n = ''0123456789abcdef'' ! (n mod 16)"

definition escape_byte :: "char \<Rightarrow> string" where
  "escape_byte c =
     (let n = of_char c :: nat in
      if n = 0x22 then [CHR 0x5C, CHR 0x22]
      else if n = 0x5C then [CHR 0x5C, CHR 0x5C]
      else if n = 8 then [CHR 0x5C, CHR ''b'']
      else if n = 12 then [CHR 0x5C, CHR ''f'']
      else if n = 10 then [CHR 0x5C, CHR ''n'']
      else if n = 13 then [CHR 0x5C, CHR ''r'']
      else if n = 9 then [CHR 0x5C, CHR ''t'']
      else if n < 0x20 then CHR 0x5C # ''u00'' @ [hex_digit (n div 16), hex_digit n]
      else [c])"

text \<open>
  \<open>appendString\<close> with \<open>escapeHTML\<close> off: bytes that are not UTF-8 become the replacement
  character, the two line separators are always escaped. \<open>skip\<close> counts the bytes of the current
  sequence still to be copied.
\<close>

definition is_line_separator :: "string \<Rightarrow> bool" where
  "is_line_separator s =
     (take 2 s = [CHR 0xE2, CHR 0x80] \<and> length s > 2 \<and> byte_in 0xA8 0xA9 (s ! 2))"

fun json_escape :: "nat \<Rightarrow> string \<Rightarrow> string" where
  "json_escape skip [] = []"
| "json_escape (Suc skip) (c # cs) = c # json_escape skip cs"
| "json_escape 0 (c # cs) =
     (if (of_char c :: nat) < 0x80 then escape_byte c @ json_escape 0 cs
      else (case utf8_size (c # cs) of
        None \<Rightarrow> CHR 0x5C # ''ufffd'' @ json_escape 0 cs
      | Some n \<Rightarrow>
          if is_line_separator (c # cs)
            then CHR 0x5C # ''u202'' @ [hex_digit (of_char (cs ! 1))] @ json_escape 0 (drop 2 cs)
          else c # json_escape (n - 1) cs))"

definition json_string :: "string \<Rightarrow> string" where
  "json_string s = CHR 0x22 # json_escape 0 s @ [CHR 0x22]"

section \<open>Values\<close>

datatype json = JString string | JObject "(string \<times> json) list"

text \<open>The byte order of keys.\<close>

fun bytes_le :: "string \<Rightarrow> string \<Rightarrow> bool" where
  "bytes_le [] ys = True"
| "bytes_le (x # xs) [] = False"
| "bytes_le (x # xs) (y # ys) =
     ((of_char x :: nat) < of_char y \<or> (x = y \<and> bytes_le xs ys))"

fun insert_field :: "string \<times> json \<Rightarrow> (string \<times> json) list \<Rightarrow> (string \<times> json) list" where
  "insert_field f [] = [f]"
| "insert_field f (g # gs) = (if bytes_le (fst f) (fst g) then f # g # gs else g # insert_field f gs)"

definition sort_fields :: "(string \<times> json) list \<Rightarrow> (string \<times> json) list" where
  "sort_fields fs = foldr insert_field fs []"

fun sort_json :: "json \<Rightarrow> json" where
  "sort_json (JString s) = JString s"
| "sort_json (JObject fs) = JObject (sort_fields (map (\<lambda>(k, v). (k, sort_json v)) fs))"

fun encode_json :: "json \<Rightarrow> string" and encode_fields :: "(string \<times> json) list \<Rightarrow> string" where
  "encode_json (JString s) = json_string s"
| "encode_json (JObject fs) = CHR ''{'' # encode_fields fs @ ''}''"
| "encode_fields [] = ''''"
| "encode_fields [(k, v)] = json_string k @ CHR '':'' # encode_json v"
| "encode_fields ((k, v) # f # fs) =
     json_string k @ CHR '':'' # encode_json v @ CHR '','' # encode_fields (f # fs)"

text \<open>\<open>Encode\<close> ends its output with a newline, which the caller trims.\<close>

definition Encode :: "json \<Rightarrow> string" where
  "Encode v = encode_json (sort_json v) @ [CHR 0x0A]"

definition TrimSuffix :: "string \<Rightarrow> string \<Rightarrow> string" where
  "TrimSuffix s suffix =
     (if length suffix \<le> length s \<and> drop (length s - length suffix) s = suffix
      then take (length s - length suffix) s else s)"

definition EncodeToString :: "string \<Rightarrow> string" where
  "EncodeToString s = concat (map (\<lambda>c. [hex_digit (of_char c div 16), hex_digit (of_char c)]) s)"

section \<open>The hash of an operation\<close>

record ProcessWagerInput =
  in_ProviderID :: string
  in_ExternalTransactionID :: string
  in_IdempotencyKey :: string
  in_PlayerID :: ID
  in_WalletID :: ID
  in_RoundID :: string
  in_GameID :: string
  in_Kind :: Kind
  in_Money :: Money
  in_ReferenceExternalTransactionID :: string
  in_CorrelationID :: string

definition business_fields :: "(ID \<Rightarrow> string) \<Rightarrow> ProcessWagerInput \<Rightarrow> json" where
  "business_fields uuid_String input =
     (let fields =
        [(''providerId'', JString (in_ProviderID input)),
         (''externalTransactionId'', JString (in_ExternalTransactionID input)),
         (''playerId'', JString (uuid_String (in_PlayerID input))),
         (''walletId'', JString (uuid_String (in_WalletID input))),
         (''roundId'', JString (in_RoundID input)),
         (''gameId'', JString (in_GameID input)),
         (''kind'', JString (kind_String (in_Kind input))),
         (''money'', JObject
            [(''amount'', JString (money_Amount (in_Money input))),
             (''currency'', JString (currency_String (currency (in_Money input))))])]
      in JObject (if in_ReferenceExternalTransactionID input \<noteq> ''''
        then fields @ [(''referenceExternalTransactionId'',
               JString (in_ReferenceExternalTransactionID input))]
        else fields))"

definition canonical_text :: "(ID \<Rightarrow> string) \<Rightarrow> ProcessWagerInput \<Rightarrow> string" where
  "canonical_text uuid_String input = TrimSuffix (Encode (business_fields uuid_String input)) [CHR 0x0A]"

definition PayloadHash :: "environment \<Rightarrow> ProcessWagerInput \<Rightarrow> err + string" where
  "PayloadHash E input =
     and_then (money_Validate (in_Money input)) (\<lambda>_.
       Inr (EncodeToString (env_sha256 E (canonical_text (env_uuid_String E) input))))"

end
