(* ===== verification/Settlement.thy ===== *)
theory Settlement
  imports Repositories Payload_Hash
begin

text \<open>
  \<open>internal/usecase\<close>, the use cases that write money: \<open>settlement.go\<close>, \<open>process_wager.go\<close>,
  \<open>open_wallet.go\<close> and \<open>resolve_pending_references.go\<close>. A pointer the code changes in place is
  passed in and returned changed. An identifier is drawn from the environment where the code
  calls \<open>domain.NewID\<close>, also on the branches that would not have used it.
\<close>

section \<open>settlement.go\<close>

definition conclude :: "Transaction \<Rightarrow> Wallet \<Rightarrow> err option \<Rightarrow> time \<Rightarrow> err + Transaction" where
  "conclude t w outcome at =
     (case outcome of
        Some e \<Rightarrow>
          if errors_Is e (Sentinel ErrReferencePending) then MarkPendingReference t at
          else if errors_Is e (Sentinel ErrRejected)
            then MarkRejected t (case CodeOf e of None \<Rightarrow> '''' | Some c \<Rightarrow> c) at
          else Inl e
      | None \<Rightarrow> MarkProcessed t (w_balance w) at)"

definition newEvents ::
  "Transaction \<Rightarrow> Wallet \<Rightarrow> Entry option \<Rightarrow> string \<Rightarrow> time \<Rightarrow> Event list action" where
  "newEvents t w entry correlationID occurredAt =
     bind_action NewID (\<lambda>i.
     bind_action (of_result (
       if t_state t = StatePendingReference
         then NewWagerTransactionPendingReference i (Some t) correlationID occurredAt
       else if t_state t = StateRejected
         then NewWagerTransactionRejected i (Some t) correlationID occurredAt
       else NewWagerTransactionProcessed i (Some t) correlationID occurredAt)) (\<lambda>outcome.
     case entry of
       None \<Rightarrow> return_ok [outcome]
     | Some e \<Rightarrow>
         bind_action NewID (\<lambda>j.
         bind_action (of_result (NewWalletBalanceChanged j (Some w) (Some e) correlationID occurredAt))
           (\<lambda>balanceChanged. return_ok [outcome, balanceChanged]))))"

definition record_settlement ::
  "Wallet \<Rightarrow> int64 \<Rightarrow> Transaction \<Rightarrow> Entry option \<Rightarrow> Event list \<Rightarrow> (Transaction \<Rightarrow> unit action) \<Rightarrow> unit action" where
  "record_settlement w loadedVersion t entry events save =
     bind_action (save t) (\<lambda>_.
     bind_action
       (case entry of
          None \<Rightarrow> return_ok ()
        | Some e \<Rightarrow> bind_action (UpdateBalance w loadedVersion) (\<lambda>_. LedgerRepository_Append e))
       (\<lambda>_. OutboxRepository_Append events))"

text \<open>
  \<open>findReference\<close> in three parts, the lookup, the checks on what it found and the check for an
  earlier reversal: its result is the reference, none, or an error; the operation comes back as
  \<open>ResolveReference\<close> left it, also when the last check refuses the reversal.
\<close>

definition refuse_reversed ::
  "Transaction \<Rightarrow> Transaction \<Rightarrow> ((err + Transaction option) \<times> Transaction) action" where
  "refuse_reversed t reference =
     (if \<not> IsReversal (t_kind t) then return_ok (Inr (Some reference), t)
      else attempt (HasProcessedReversal (t_id reference)) (\<lambda>h.
        case h of
          Inl e \<Rightarrow> return_ok (Inl e, t)
        | Inr reversed \<Rightarrow>
            if reversed then return_ok (Inl (RejectionError FailureCodeReferenceAlreadyReversed), t)
            else return_ok (Inr (Some reference), t)))"

definition check_reference ::
  "Transaction \<Rightarrow> Transaction option \<Rightarrow> ((err + Transaction option) \<times> Transaction) action" where
  "check_reference t found =
     (case found of
        None \<Rightarrow> return_ok (Inl (Sentinel ErrReferencePending), t)
      | Some reference \<Rightarrow>
          if \<not> IsTerminal (t_state reference)
            then return_ok (Inl (Sentinel ErrReferencePending), t)
          else (case ResolveReference t (Some reference) of
              Inl e \<Rightarrow> return_ok (Inl e, t)
            | Inr t' \<Rightarrow> refuse_reversed t' reference))"

definition findReference :: "Transaction \<Rightarrow> ((err + Transaction option) \<times> Transaction) action" where
  "findReference t =
     (if t_referenceExternalTransactionID t = '''' then return_ok (Inr None, t)
      else attempt (FindByExternalID (t_providerID t) (t_referenceExternalTransactionID t)) (\<lambda>r.
        case r of
          Inl e \<Rightarrow> return_ok (Inl e, t)
        | Inr found \<Rightarrow> check_reference t found))"

text \<open>
  The part \<open>Execute\<close> and \<open>retry\<close> share: find the reference and, unless that failed, apply the
  operation. The outcome is the error variable of the code, \<open>None\<close> for nil.
\<close>

definition find_and_apply ::
  "Wallet \<Rightarrow> Transaction \<Rightarrow> time \<Rightarrow> (err option \<times> Entry option \<times> Wallet \<times> Transaction) action" where
  "find_and_apply w t at =
     bind_action (findReference t) (\<lambda>(reference, t').
       case reference of
         Inl e \<Rightarrow> return_ok (Some e, None, w, t')
       | Inr q \<Rightarrow>
           bind_action NewID (\<lambda>i.
             case wallet_Apply w (Some t') q at i of
               Inl e \<Rightarrow> return_ok (Some e, None, w, t')
             | Inr (entry, w') \<Rightarrow> return_ok (None, entry, w', t')))"

section \<open>process_wager.go\<close>

record WagerResult =
  res_TransactionID :: ID
  res_State :: State
  res_FailureCode :: failure_code
  res_Balance :: Money
  res_IdempotentReplay :: bool

definition newWagerResult :: "Transaction \<Rightarrow> bool \<Rightarrow> WagerResult" where
  "newWagerResult t replay =
     \<lparr>res_TransactionID = t_id t, res_State = t_state t, res_FailureCode = t_failureCode t,
      res_Balance = (case t_resultBalance t of None \<Rightarrow> zero_Money | Some b \<Rightarrow> b),
      res_IdempotentReplay = replay\<rparr>"

definition findReplay :: "Transaction \<Rightarrow> Transaction option action" where
  "findReplay t =
     bind_action (FindByIdempotencyKey (t_providerID t) (t_idempotencyKey t)) (\<lambda>previous.
       case previous of
         Some p \<Rightarrow>
           if t_payloadHash p \<noteq> t_payloadHash t
             then raise_err (ConflictError FailureCodeIdempotencyConflict)
           else return_ok (Some p)
       | None \<Rightarrow>
           bind_action (FindByExternalID (t_providerID t) (t_externalTransactionID t)) (\<lambda>found.
             case found of
               Some _ \<Rightarrow> raise_err (ConflictError FailureCodeIdempotencyConflict)
             | None \<Rightarrow> return_ok None))"

definition new_external_params :: "ProcessWagerInput \<Rightarrow> string \<Rightarrow> ID \<Rightarrow> time \<Rightarrow> NewExternalParams" where
  "new_external_params input payloadHash i receivedAt =
     \<lparr>p_ID = i, p_Kind = in_Kind input, p_ProviderID = in_ProviderID input,
      p_ExternalTransactionID = in_ExternalTransactionID input,
      p_IdempotencyKey = in_IdempotencyKey input, p_PayloadHash = payloadHash,
      p_WalletID = in_WalletID input, p_PlayerID = in_PlayerID input,
      p_RoundID = in_RoundID input, p_GameID = in_GameID input, p_Money = in_Money input,
      p_ReferenceExternalTransactionID = in_ReferenceExternalTransactionID input,
      p_CreatedAt = receivedAt\<rparr>"

text \<open>The function \<open>Execute\<close> runs within the transaction.\<close>

definition process_in_transaction :: "Transaction \<Rightarrow> string \<Rightarrow> time \<Rightarrow> WagerResult action" where
  "process_in_transaction t correlationID receivedAt =
     bind_action (GetForUpdate (t_walletID t)) (\<lambda>w.
     bind_action (findReplay t) (\<lambda>previous.
       case previous of
         Some p \<Rightarrow> return_ok (newWagerResult p True)
       | None \<Rightarrow>
           bind_action (find_and_apply w t receivedAt) (\<lambda>(outcome, entry, w', t').
           bind_action (of_result (conclude t' w' outcome receivedAt)) (\<lambda>t''.
           bind_action (newEvents t'' w' entry correlationID receivedAt) (\<lambda>events.
           bind_action (record_settlement w' (w_version w) t'' entry events TransactionRepository_Create)
             (\<lambda>_. return_ok (newWagerResult t'' False)))))))"

definition ProcessWager_Execute :: "ProcessWagerInput \<Rightarrow> WagerResult action" where
  "ProcessWager_Execute input =
     (if in_CorrelationID input = '''' then raise_err (ValidationError FailureCodeInvalidInput)
      else bind_action (\<lambda>w. (PayloadHash (env w) input, w)) (\<lambda>payloadHash.
      bind_action clock_now (\<lambda>receivedAt.
      bind_action NewID (\<lambda>i.
      bind_action (of_result (NewExternal (new_external_params input payloadHash i receivedAt))) (\<lambda>t.
      attempt (WithinTransaction (process_in_transaction t (in_CorrelationID input) receivedAt)) (\<lambda>r.
        case r of
          Inl e \<Rightarrow>
            bind_action
              (if errors_Is e (Sentinel ErrConcurrentUpdate) then record_metric ConcurrencyConflict
               else return_ok ())
              (\<lambda>_. raise_err e)
        | Inr result \<Rightarrow>
            bind_action clock_now (\<lambda>finished.
            bind_action (record_metric (WagerConcluded (t_kind t) (res_State result)
                (res_FailureCode result) (res_IdempotentReplay result) (time_Sub finished receivedAt)))
              (\<lambda>_. return_ok result))))))))"

section \<open>open_wallet.go\<close>

record OpenWalletInput =
  ow_PlayerID :: ID
  ow_InitialBalance :: Money
  ow_CorrelationID :: string

definition open_in_transaction :: "Wallet \<Rightarrow> string \<Rightarrow> time \<Rightarrow> unit action" where
  "open_in_transaction w correlationID now =
     bind_action (WalletRepository_Create w) (\<lambda>_.
       if \<not> money_IsPositive (w_balance w) then return_ok ()
       else
         bind_action NewID (\<lambda>i.
         bind_action (of_result (NewOpening i (w_id w) (w_playerID w) (w_balance w) now)) (\<lambda>opening.
         bind_action (TransactionRepository_Create opening) (\<lambda>_.
         bind_action NewID (\<lambda>j.
         bind_action (of_result (OpeningLedgerEntry w (t_id opening) now j)) (\<lambda>credit.
         bind_action (LedgerRepository_Append credit) (\<lambda>_.
         bind_action NewID (\<lambda>k.
         bind_action (of_result (NewWagerTransactionProcessed k (Some opening) correlationID now)) (\<lambda>processed.
         bind_action NewID (\<lambda>l.
         bind_action (of_result (NewWalletBalanceChanged l (Some w) (Some credit) correlationID now)) (\<lambda>balanceChanged.
         OutboxRepository_Append [processed, balanceChanged])))))))))))"

definition OpenWallet_Execute :: "OpenWalletInput \<Rightarrow> Wallet action" where
  "OpenWallet_Execute input =
     (if ow_CorrelationID input = '''' then raise_err (ValidationError FailureCodeInvalidInput)
      else bind_action clock_now (\<lambda>now.
      bind_action NewID (\<lambda>i.
      bind_action (of_result (wallet_Open i (ow_PlayerID input) (ow_InitialBalance input) now)) (\<lambda>w.
      bind_action (WithinTransaction (open_in_transaction w (ow_CorrelationID input) now))
        (\<lambda>_. return_ok w)))))"

section \<open>resolve_pending_references.go\<close>

record ReferenceRetryPolicy =
  rp_MaxAttempts :: int64
  rp_BaseDelay :: duration
  rp_MaxDelay :: duration
  rp_Lease :: duration
  rp_BatchSize :: int64

definition min64 :: "int64 \<Rightarrow> int64 \<Rightarrow> int64" where
  "min64 a b = (if b <s a then b else a)"

text \<open>The loop of \<open>backoff\<close>, with its early return.\<close>

fun backoff_loop :: "nat \<Rightarrow> duration \<Rightarrow> duration \<Rightarrow> duration" where
  "backoff_loop 0 delay maximum = min64 delay maximum"
| "backoff_loop (Suc n) delay maximum =
     (if go_div maximum 2 \<le>s delay then maximum else backoff_loop n (delay * 2) maximum)"

definition backoff :: "duration \<Rightarrow> duration \<Rightarrow> int64 \<Rightarrow> duration" where
  "backoff base maximum attempts = backoff_loop (nat (sint (attempts - 1))) base maximum"

definition policy_delay :: "ReferenceRetryPolicy \<Rightarrow> int64 \<Rightarrow> duration" where
  "policy_delay policy attempts = backoff (rp_BaseDelay policy) (rp_MaxDelay policy) attempts"

text \<open>\<open>time.Time{}\<close>, the instant \<open>retry\<close> passes when no next attempt is scheduled.\<close>

definition zero_time :: time where "zero_time = 0"

definition retry_correlation :: "environment \<Rightarrow> ID \<Rightarrow> string" where
  "retry_correlation E i = ''pending-reference-'' @ env_uuid_String E i"

definition retry_in_transaction :: "ReferenceRetryPolicy \<Rightarrow> PendingReference \<Rightarrow> time \<Rightarrow> State action" where
  "retry_in_transaction policy pending at =
     bind_action (GetForUpdate (pr_WalletID pending)) (\<lambda>w.
     bind_action (FindByID (pr_TransactionID pending)) (\<lambda>found.
       case found of
         None \<Rightarrow> return_ok (OtherState '''')
       | Some t \<Rightarrow>
           if t_state t \<noteq> StatePendingReference then return_ok (t_state t)
           else
             bind_action (find_and_apply w t at) (\<lambda>(outcome, entry, w', t').
             bind_action (of_result (
               case outcome of
                 None \<Rightarrow> conclude t' w' None at
               | Some e \<Rightarrow>
                   if errors_Is e (Sentinel ErrReferencePending)
                     then (case RecordMissingReference t' (rp_MaxAttempts policy) at of
                             (Inl x, _) \<Rightarrow> Inl x
                           | (Inr _, t'') \<Rightarrow> Inr t'')
                   else conclude t' w' (Some e) at)) (\<lambda>t''.
             if t_state t'' = StatePendingReference
               then bind_action (UpdatePendingReference t''
                   (time_Add at (policy_delay policy (t_referenceAttempts t''))))
                 (\<lambda>_. return_ok (t_state t''))
             else
               bind_action (\<lambda>v. (Inr (retry_correlation (env v) (t_id t'')), v)) (\<lambda>correlationID.
               bind_action (newEvents t'' w' entry correlationID at) (\<lambda>events.
               bind_action (record_settlement w' (w_version w) t'' entry events
                   (\<lambda>u. UpdatePendingReference u zero_time))
                 (\<lambda>_. return_ok (t_state t''))))))))"

definition retry :: "ReferenceRetryPolicy \<Rightarrow> PendingReference \<Rightarrow> State action" where
  "retry policy pending =
     bind_action clock_now (\<lambda>at. WithinTransaction (retry_in_transaction policy pending at))"

definition observe :: "err + State \<Rightarrow> unit action" where
  "observe r =
     (case r of
        Inl e \<Rightarrow>
          if errors_Is e (Sentinel ErrConcurrentUpdate) then record_metric ConcurrencyConflict
          else return_ok ()
      | Inr s \<Rightarrow> if state_IsValid s then record_metric (ReferenceAttempted s) else return_ok ())"

text \<open>\<open>errors.Join\<close>: nil when every error is nil.\<close>

definition errors_Join :: "err option list \<Rightarrow> err option" where
  "errors_Join es =
     (case List.map_filter (\<lambda>e. e) es of [] \<Rightarrow> None | xs \<Rightarrow> Some (Wrapped xs))"

definition err_of :: "err + 'a \<Rightarrow> err option" where
  "err_of r = (case r of Inl e \<Rightarrow> Some e | Inr _ \<Rightarrow> None)"

fun retry_all :: "ReferenceRetryPolicy \<Rightarrow> PendingReference list \<Rightarrow> err option list action" where
  "retry_all policy [] = return_ok []"
| "retry_all policy (p # ps) =
     attempt (retry policy p) (\<lambda>r.
     bind_action (observe r) (\<lambda>_.
     bind_action (retry_all policy ps) (\<lambda>es. return_ok (err_of r # es))))"

text \<open>The number taken, with the joined error when one failed.\<close>

definition ResolvePendingReferences_Execute ::
  "ReferenceRetryPolicy \<Rightarrow> (nat \<times> err option) action" where
  "ResolvePendingReferences_Execute policy =
     bind_action clock_now (\<lambda>now.
     attempt (WithinTransaction (LeasePendingReferences now (time_Add now (rp_Lease policy))
         (rp_BatchSize policy))) (\<lambda>r.
       case r of
         Inl e \<Rightarrow> return_ok (0, Some e)
       | Inr leased \<Rightarrow>
           bind_action (retry_all policy leased) (\<lambda>errs. return_ok (length leased, errors_Join errs))))"

end
