(* ===== verification/Configuration.thy ===== *)
theory Configuration
  imports Encoding Settlement
begin

text \<open>
  \<open>internal/infrastructure/config/config.go\<close>: the configuration read from the environment of the
  process, its defaults and its checks. The environment is a function from names to values, empty
  where a name is not set, and \<open>time.ParseDuration\<close>, which computes with floating point, is a
  parameter that answers with no duration where the library reports an error.
\<close>

section \<open>Config\<close>

record Config =
  cfg_HTTPPort :: string
  cfg_DatabaseURL :: string
  cfg_OIDCIssuerURL :: string
  cfg_OIDCDiscoveryURL :: string
  cfg_OIDCAudience :: string
  cfg_ReferenceMaxAttempts :: int64
  cfg_ReferenceRetryBaseDelay :: duration
  cfg_ReferenceRetryMaxDelay :: duration
  cfg_ReferenceRetryLease :: duration
  cfg_ReferencePollInterval :: duration
  cfg_AWSRegion :: string
  cfg_AWSEndpointURL :: string
  cfg_EventsQueueName :: string
  cfg_OutboxPollInterval :: duration
  cfg_OutboxRetryBaseDelay :: duration
  cfg_OutboxRetryMaxDelay :: duration
  cfg_OutboxLease :: duration
  cfg_WagerQueueName :: string
  cfg_WagerDeadLetterQueueName :: string
  cfg_ConsumerWaitTime :: duration
  cfg_ConsumerVisibilityTimeout :: duration
  cfg_ConsumerBatchSize :: int64
  cfg_ConsumerPollInterval :: duration

text \<open>What the loading reports, without its wording: the name of the value that is wrong.\<close>

datatype config_error = NotAnInteger string | NotADuration string | InvalidValue string

definition Millisecond :: duration where "Millisecond = 1000000"
definition Second :: duration where "Second = 1000 * Millisecond"
definition Minute :: duration where "Minute = 60 * Second"

section \<open>Reading values\<close>

type_synonym getenv = "string \<Rightarrow> string"
type_synonym ParseDuration = "string \<Rightarrow> duration option"

definition envOrDefault :: "getenv \<Rightarrow> string \<Rightarrow> string \<Rightarrow> string" where
  "envOrDefault getenv key fallback = (if getenv key \<noteq> '''' then getenv key else fallback)"

definition intOrDefault :: "getenv \<Rightarrow> string \<Rightarrow> int64 \<Rightarrow> int64 \<times> config_error list" where
  "intOrDefault getenv key fallback =
     (if getenv key = '''' then (fallback, [])
      else (case Atoi (getenv key) of
              Inl parsed \<Rightarrow> (parsed, [NotAnInteger key])
            | Inr parsed \<Rightarrow> (parsed, [])))"

definition durationOrDefault ::
  "getenv \<Rightarrow> ParseDuration \<Rightarrow> string \<Rightarrow> duration \<Rightarrow> duration \<times> config_error list" where
  "durationOrDefault getenv parse key fallback =
     (if getenv key = '''' then (fallback, [])
      else (case parse (getenv key) of
              None \<Rightarrow> (0, [NotADuration key])
            | Some parsed \<Rightarrow> (parsed, [])))"

section \<open>Loading\<close>

definition refuse_if :: "bool \<Rightarrow> string \<Rightarrow> config_error list" where
  "refuse_if wrong name = (if wrong then [InvalidValue name] else [])"

definition config_validate :: "Config \<Rightarrow> config_error list" where
  "config_validate c =
     refuse_if (cfg_HTTPPort c = '''') ''HTTP_PORT'' @
     refuse_if (cfg_DatabaseURL c = '''') ''DATABASE_URL'' @
     refuse_if (cfg_OIDCIssuerURL c = '''') ''OIDC_ISSUER_URL'' @
     refuse_if (cfg_OIDCAudience c = '''') ''OIDC_AUDIENCE'' @
     refuse_if (cfg_ReferenceMaxAttempts c <s 1) ''REFERENCE_MAX_ATTEMPTS'' @
     refuse_if (cfg_ReferenceRetryBaseDelay c \<le>s 0 \<or>
       cfg_ReferenceRetryMaxDelay c <s cfg_ReferenceRetryBaseDelay c) ''REFERENCE_RETRY_BASE_DELAY'' @
     refuse_if (cfg_ReferenceRetryLease c \<le>s 0 \<or> cfg_ReferencePollInterval c \<le>s 0) ''REFERENCE_RETRY_LEASE'' @
     refuse_if (cfg_EventsQueueName c = '''') ''EVENTS_QUEUE_NAME'' @
     refuse_if (cfg_OutboxRetryBaseDelay c \<le>s 0 \<or>
       cfg_OutboxRetryMaxDelay c <s cfg_OutboxRetryBaseDelay c) ''OUTBOX_RETRY_BASE_DELAY'' @
     refuse_if (cfg_OutboxLease c \<le>s 0 \<or> cfg_OutboxPollInterval c \<le>s 0) ''OUTBOX_LEASE'' @
     refuse_if (cfg_WagerQueueName c = '''' \<or> cfg_WagerDeadLetterQueueName c = '''') ''WAGER_QUEUE_NAME'' @
     refuse_if (cfg_ConsumerWaitTime c <s 0 \<or> 20 * Second <s cfg_ConsumerWaitTime c) ''CONSUMER_WAIT_TIME'' @
     refuse_if (cfg_ConsumerVisibilityTimeout c \<le>s 0 \<or> cfg_ConsumerPollInterval c \<le>s 0)
       ''CONSUMER_VISIBILITY_TIMEOUT'' @
     refuse_if (cfg_ConsumerBatchSize c <s 1 \<or> 10 <s cfg_ConsumerBatchSize c) ''CONSUMER_BATCH_SIZE''"

text \<open>The literal of \<open>Load\<close>, with the errors its fields added in the order they are written.\<close>

definition read_config :: "getenv \<Rightarrow> ParseDuration \<Rightarrow> Config \<times> config_error list" where
  "read_config getenv parse =
     (let (maxAttempts, e1) = intOrDefault getenv ''REFERENCE_MAX_ATTEMPTS'' 8;
          (baseDelay, e2) = durationOrDefault getenv parse ''REFERENCE_RETRY_BASE_DELAY'' Second;
          (maxDelay, e3) = durationOrDefault getenv parse ''REFERENCE_RETRY_MAX_DELAY'' (5 * Minute);
          (lease, e4) = durationOrDefault getenv parse ''REFERENCE_RETRY_LEASE'' (30 * Second);
          (interval, e5) = durationOrDefault getenv parse ''REFERENCE_POLL_INTERVAL'' Second;
          (outInterval, e6) = durationOrDefault getenv parse ''OUTBOX_POLL_INTERVAL'' (500 * Millisecond);
          (outBase, e7) = durationOrDefault getenv parse ''OUTBOX_RETRY_BASE_DELAY'' Second;
          (outMax, e8) = durationOrDefault getenv parse ''OUTBOX_RETRY_MAX_DELAY'' Minute;
          (outLease, e9) = durationOrDefault getenv parse ''OUTBOX_LEASE'' (30 * Second);
          (waitTime, e10) = durationOrDefault getenv parse ''CONSUMER_WAIT_TIME'' (20 * Second);
          (visibility, e11) = durationOrDefault getenv parse ''CONSUMER_VISIBILITY_TIMEOUT'' (30 * Second);
          (batchSize, e12) = intOrDefault getenv ''CONSUMER_BATCH_SIZE'' 10;
          (pollInterval, e13) = durationOrDefault getenv parse ''CONSUMER_POLL_INTERVAL'' Second
      in (\<lparr>cfg_HTTPPort = envOrDefault getenv ''HTTP_PORT'' ''8080'',
           cfg_DatabaseURL = getenv ''DATABASE_URL'',
           cfg_OIDCIssuerURL = getenv ''OIDC_ISSUER_URL'',
           cfg_OIDCDiscoveryURL = envOrDefault getenv ''OIDC_DISCOVERY_URL'' (getenv ''OIDC_ISSUER_URL''),
           cfg_OIDCAudience = envOrDefault getenv ''OIDC_AUDIENCE'' ''betledger-api'',
           cfg_ReferenceMaxAttempts = maxAttempts,
           cfg_ReferenceRetryBaseDelay = baseDelay,
           cfg_ReferenceRetryMaxDelay = maxDelay,
           cfg_ReferenceRetryLease = lease,
           cfg_ReferencePollInterval = interval,
           cfg_AWSRegion = envOrDefault getenv ''AWS_REGION'' ''us-east-1'',
           cfg_AWSEndpointURL = getenv ''AWS_ENDPOINT_URL'',
           cfg_EventsQueueName = envOrDefault getenv ''EVENTS_QUEUE_NAME'' ''wallet-events.fifo'',
           cfg_OutboxPollInterval = outInterval,
           cfg_OutboxRetryBaseDelay = outBase,
           cfg_OutboxRetryMaxDelay = outMax,
           cfg_OutboxLease = outLease,
           cfg_WagerQueueName = envOrDefault getenv ''WAGER_QUEUE_NAME'' ''wager-transactions.fifo'',
           cfg_WagerDeadLetterQueueName =
             envOrDefault getenv ''WAGER_DLQ_NAME'' ''wager-transactions-dlq.fifo'',
           cfg_ConsumerWaitTime = waitTime,
           cfg_ConsumerVisibilityTimeout = visibility,
           cfg_ConsumerBatchSize = batchSize,
           cfg_ConsumerPollInterval = pollInterval\<rparr>,
          e1 @ e2 @ e3 @ e4 @ e5 @ e6 @ e7 @ e8 @ e9 @ e10 @ e11 @ e12 @ e13))"

definition Load :: "getenv \<Rightarrow> ParseDuration \<Rightarrow> config_error list + Config" where
  "Load getenv parse =
     (case read_config getenv parse of
        (c, errs) \<Rightarrow> (let all_errs = errs @ config_validate c in if all_errs \<noteq> [] then Inl all_errs else Inr c))"

section \<open>What a loaded configuration promises\<close>

definition usable :: "Config \<Rightarrow> bool" where
  "usable c \<longleftrightarrow>
     '''' \<notin> {cfg_HTTPPort c, cfg_DatabaseURL c, cfg_OIDCIssuerURL c, cfg_OIDCAudience c,
       cfg_EventsQueueName c, cfg_WagerQueueName c, cfg_WagerDeadLetterQueueName c} \<and>
     1 \<le> sint (cfg_ReferenceMaxAttempts c) \<and>
     0 < sint (cfg_ReferenceRetryBaseDelay c) \<and>
     sint (cfg_ReferenceRetryBaseDelay c) \<le> sint (cfg_ReferenceRetryMaxDelay c) \<and>
     0 < sint (cfg_ReferenceRetryLease c) \<and> 0 < sint (cfg_ReferencePollInterval c) \<and>
     0 < sint (cfg_OutboxRetryBaseDelay c) \<and>
     sint (cfg_OutboxRetryBaseDelay c) \<le> sint (cfg_OutboxRetryMaxDelay c) \<and>
     0 < sint (cfg_OutboxLease c) \<and> 0 < sint (cfg_OutboxPollInterval c) \<and>
     0 \<le> sint (cfg_ConsumerWaitTime c) \<and> sint (cfg_ConsumerWaitTime c) \<le> 20 * 10 ^ 9 \<and>
     0 < sint (cfg_ConsumerVisibilityTimeout c) \<and> 0 < sint (cfg_ConsumerPollInterval c) \<and>
     1 \<le> sint (cfg_ConsumerBatchSize c) \<and> sint (cfg_ConsumerBatchSize c) \<le> 10"

lemma refuse_if_Nil [simp]: "refuse_if wrong name = [] \<longleftrightarrow> \<not> wrong"
  by (simp add: refuse_if_def)

lemma twenty_seconds: "sint (20 * Second) = 20 * 10 ^ 9"
  by (simp add: Second_def Millisecond_def)

lemma config_validate_Nil: "config_validate c = [] \<longleftrightarrow> usable c"
  unfolding config_validate_def usable_def
  by (auto simp: sless64 sle64 twenty_seconds not_less not_le)

lemma Load_Inr: "Load getenv parse = Inr c \<longleftrightarrow> read_config getenv parse = (c, []) \<and> usable c"
  by (auto simp: Load_def Let_def config_validate_Nil split: prod.splits if_splits)

section \<open>Which configurations load\<close>

definition integer_keys :: "string list" where
  "integer_keys = [''REFERENCE_MAX_ATTEMPTS'', ''CONSUMER_BATCH_SIZE'']"

definition duration_keys :: "string list" where
  "duration_keys = [''REFERENCE_RETRY_BASE_DELAY'', ''REFERENCE_RETRY_MAX_DELAY'', ''REFERENCE_RETRY_LEASE'',
     ''REFERENCE_POLL_INTERVAL'', ''OUTBOX_POLL_INTERVAL'', ''OUTBOX_RETRY_BASE_DELAY'', ''OUTBOX_RETRY_MAX_DELAY'',
     ''OUTBOX_LEASE'', ''CONSUMER_WAIT_TIME'', ''CONSUMER_VISIBILITY_TIMEOUT'', ''CONSUMER_POLL_INTERVAL'']"

lemma intOrDefault_errors: "snd (intOrDefault getenv key fallback) = [] \<longleftrightarrow> getenv key = '''' \<or> ok (Atoi (getenv key))"
  by (simp add: intOrDefault_def split: sum.splits)

lemma durationOrDefault_errors:
  "snd (durationOrDefault getenv parse key fallback) = [] \<longleftrightarrow> getenv key = '''' \<or> parse (getenv key) \<noteq> None"
  by (simp add: durationOrDefault_def split: option.splits)

lemma read_config_errors:
  "snd (read_config getenv parse) = [] \<longleftrightarrow>
     (\<forall>key \<in> set integer_keys. getenv key = '''' \<or> ok (Atoi (getenv key))) \<and>
     (\<forall>key \<in> set duration_keys. getenv key = '''' \<or> parse (getenv key) \<noteq> None)"
  unfolding read_config_def case_prod_unfold Let_def fst_conv snd_conv append_is_Nil_conv
    intOrDefault_errors durationOrDefault_errors integer_keys_def duration_keys_def
  by (simp only: list.set ball_simps simp_thms conj_ac)

text \<open>The configuration loads exactly when every number and duration that is set reads as one and
  the values together are usable: no name or address that is needed is empty, delays and leases are
  positive and in order, and the consumer stays within the limits of the queue.\<close>

theorem load_accepts:
  "Load getenv parse = Inr c \<longleftrightarrow>
     c = fst (read_config getenv parse) \<and> usable c \<and>
     (\<forall>key \<in> set integer_keys. getenv key = '''' \<or> ok (Atoi (getenv key))) \<and>
     (\<forall>key \<in> set duration_keys. getenv key = '''' \<or> parse (getenv key) \<noteq> None)"
  unfolding Load_Inr read_config_errors [symmetric] by (metis fst_conv prod.collapse snd_conv)

text \<open>Only what has no default is set.\<close>

definition minimal_environment :: getenv where
  "minimal_environment key =
     (if key = ''DATABASE_URL'' then ''db'' else if key = ''OIDC_ISSUER_URL'' then ''idp'' else '''')"

lemma minimal_usable: "usable (fst (read_config minimal_environment parse))"
  by (simp add: usable_def read_config_def minimal_environment_def envOrDefault_def intOrDefault_def
      durationOrDefault_def Let_def Second_def Minute_def Millisecond_def)

theorem load_accepts_witness:
  "\<exists>c. Load minimal_environment (\<lambda>_. None) = Inr c \<and> cfg_ConsumerBatchSize c = 10"
proof -
  have "\<forall>key \<in> set (integer_keys @ duration_keys). minimal_environment key = ''''"
    by (simp add: integer_keys_def duration_keys_def minimal_environment_def)
  with load_accepts [of minimal_environment "\<lambda>_. None"] minimal_usable
  have "Load minimal_environment (\<lambda>_. None) = Inr (fst (read_config minimal_environment (\<lambda>_. None)))" by simp
  then show ?thesis
    by (simp add: read_config_def minimal_environment_def intOrDefault_def durationOrDefault_def Let_def)
qed

end
