(* ===== verification/Messages.thy ===== *)
theory Messages
  imports Settlement
begin

text \<open>
  \<open>internal/usecase/process_inbox_message.go\<close>, the operations that arrive through the queue, and
  \<open>publish_outbox.go\<close>, the events that leave through the broker. The broker is the environment:
  a publication succeeds, and is then delivered, or fails with an error.
\<close>

section \<open>process_inbox_message.go\<close>

record InboundMessage =
  msg_MessageID :: string
  msg_Input :: ProcessWagerInput

record InboundResult =
  inr_WagerResult :: WagerResult
  inr_Duplicate :: bool

definition zero_WagerResult :: WagerResult where
  "zero_WagerResult = \<lparr>res_TransactionID = NilID, res_State = OtherState '''', res_FailureCode = '''',
     res_Balance = zero_Money, res_IdempotentReplay = False\<rparr>"

definition take_in_transaction :: "InboundMessage \<Rightarrow> string \<Rightarrow> InboundResult action" where
  "take_in_transaction message payloadHash =
     bind_action (InboxRepository_Find (msg_MessageID message)) (\<lambda>recorded.
       case recorded of
         Some m \<Rightarrow>
           if im_PayloadHash m \<noteq> payloadHash
             then raise_err (ConflictError FailureCodeIdempotencyConflict)
           else return_ok \<lparr>inr_WagerResult = zero_WagerResult\<lparr>res_TransactionID := im_TransactionID m,
             res_IdempotentReplay := True\<rparr>, inr_Duplicate = True\<rparr>
       | None \<Rightarrow>
           bind_action (ProcessWager_Execute (msg_Input message)) (\<lambda>applied.
           bind_action (InboxRepository_Record \<lparr>im_MessageID = msg_MessageID message,
               im_PayloadHash = payloadHash, im_TransactionID = res_TransactionID applied\<rparr>)
             (\<lambda>_. return_ok \<lparr>inr_WagerResult = applied, inr_Duplicate = False\<rparr>)))"

definition ProcessInboxMessage_Execute :: "InboundMessage \<Rightarrow> InboundResult action" where
  "ProcessInboxMessage_Execute message =
     (if msg_MessageID message = '''' then raise_err (ValidationError FailureCodeInvalidInput)
      else bind_action (\<lambda>w. (PayloadHash (env w) (msg_Input message), w)) (\<lambda>payloadHash.
      bind_action (WithinTransaction (take_in_transaction message payloadHash)) (\<lambda>result.
      bind_action (record_metric (MessageTaken (inr_Duplicate result))) (\<lambda>_. return_ok result))))"

section \<open>publish_outbox.go\<close>

record PublicationPolicy =
  pp_BaseDelay :: duration
  pp_MaxDelay :: duration
  pp_Lease :: duration
  pp_BatchSize :: int64

text \<open>
  \<open>EventPublisher.Publish\<close>: nil, and the record is out, or what the broker reported, as a
  transient failure. The records whose delivery the broker acknowledged are kept; the message each
  was sent as is a function of the record, in theory \<open>Messaging\<close>.
\<close>

definition Publish :: "OutboxRecord \<Rightarrow> unit action" where
  "Publish record = (\<lambda>w.
     case env_publisher (env w) (publications w) of
       None \<Rightarrow> (Inr (), w\<lparr>publications := Suc (publications w), published := published w @ [record]\<rparr>)
     | Some e \<Rightarrow>
         (Inl (Wrapped [Sentinel ErrUnavailable, e]), w\<lparr>publications := Suc (publications w)\<rparr>))"

definition record_publication ::
  "PublicationPolicy \<Rightarrow> OutboxRecord \<Rightarrow> err + unit \<Rightarrow> unit action" where
  "record_publication policy record delivery =
     (case delivery of
        Inl _ \<Rightarrow>
          bind_action clock_now (\<lambda>at.
          let attempts = ob_Attempts record + 1 in
          ReschedulePublication (ob_EventID record) attempts
            (time_Add at (backoff (pp_BaseDelay policy) (pp_MaxDelay policy) attempts)))
      | Inr _ \<Rightarrow> bind_action clock_now (\<lambda>at. MarkPublished (ob_EventID record) at))"

definition publish_record :: "PublicationPolicy \<Rightarrow> OutboxRecord \<Rightarrow> err option action" where
  "publish_record policy record =
     attempt (Publish record) (\<lambda>delivery.
     attempt (WithinTransaction (record_publication policy record delivery)) (\<lambda>recorded.
     bind_action clock_now (\<lambda>at.
     bind_action (record_metric (EventPublished (time_Sub at (ob_OccurredAt record)) (ok delivery)))
       (\<lambda>_. return_ok (errors_Join [err_of delivery, err_of recorded])))))"

fun publish_all :: "PublicationPolicy \<Rightarrow> OutboxRecord list \<Rightarrow> err option list action" where
  "publish_all policy [] = return_ok []"
| "publish_all policy (r # rs) =
     bind_action (publish_record policy r) (\<lambda>e.
     bind_action (publish_all policy rs) (\<lambda>es. return_ok (e # es)))"

definition PublishOutbox_Execute :: "PublicationPolicy \<Rightarrow> (nat \<times> err option) action" where
  "PublishOutbox_Execute policy =
     bind_action clock_now (\<lambda>now.
     attempt (WithinTransaction (LeasePending now (time_Add now (pp_Lease policy)) (pp_BatchSize policy)))
       (\<lambda>r.
         case r of
           Inl e \<Rightarrow> return_ok (0, Some e)
         | Inr leased \<Rightarrow>
             bind_action (publish_all policy leased) (\<lambda>errs. return_ok (length leased, errors_Join errs))))"

end
