(* ===== verification/Messaging.thy ===== *)
theory Messaging
  imports Configuration Messages
begin

text \<open>
  \<open>internal/infrastructure/messaging\<close>: the consumer of the wagering queue (\<open>consumer.go\<close>) and the
  messages the publisher sends (\<open>publisher.go\<close>). The queue service is outside: what it answers is
  a parameter indexed by the number of calls made so far, and every call is kept in a log with its
  answer. A failed call may have taken effect. So is \<open>json.Unmarshal\<close> of an envelope, which works
  by reflection, and \<open>uuid.Parse\<close>. Log lines and the deadlines of the two contexts are left out:
  a deadline that expires is a fault of the environment.
\<close>

section \<open>Messages\<close>

record wagerMessage =
  wm_MessageID :: string
  wm_Type :: string
  wm_ProviderID :: string
  wm_ExternalTransactionID :: string
  wm_IdempotencyKey :: string
  wm_PlayerID :: string
  wm_WalletID :: string
  wm_RoundID :: string
  wm_GameID :: string
  wm_Kind :: string
  wm_Amount :: string
  wm_Currency :: string
  wm_ReferenceExternalTransactionID :: string

text \<open>\<open>types.Message\<close>: an absent string is empty, as \<open>aws.ToString\<close> reads it.\<close>

record queue_message =
  qm_MessageId :: string
  qm_ReceiptHandle :: string
  qm_Body :: string
  qm_Attributes :: "(string \<times> string) list"

datatype attribute = TextAttribute string | ReasonAttribute err

record 'body SendMessageInput =
  sm_QueueUrl :: string
  sm_MessageBody :: 'body
  sm_MessageGroupId :: string
  sm_MessageDeduplicationId :: string
  sm_MessageAttributes :: "(string \<times> attribute) list"

record ReceiveMessageInput =
  ri_QueueUrl :: string
  ri_MaxNumberOfMessages :: int32
  ri_WaitTimeSeconds :: int32
  ri_VisibilityTimeout :: int32

datatype queue_call =
    ReceiveCall ReceiveMessageInput
  | SendCall "string SendMessageInput" "err option"
  | DeleteCall string string "err option"

record queue_api =
  qa_Receive :: "nat \<Rightarrow> err + queue_message list"
  qa_Send :: "nat \<Rightarrow> err option"
  qa_Delete :: "nat \<Rightarrow> err option"
  qa_Unmarshal :: "string \<Rightarrow> wagerMessage option"
  qa_uuid_Parse :: "string \<Rightarrow> ID option"

text \<open>The process of a worker: the world its use cases act on and the calls made to the queue.\<close>

record station =
  st_world :: world
  st_log :: "queue_call list"

section \<open>publisher.go\<close>

text \<open>
  The message \<open>Publish\<close> sends for a record. The snapshot that travels as its body is kept as the
  event it is the text of.
\<close>

definition publication_message :: "(ID \<Rightarrow> string) \<Rightarrow> string \<Rightarrow> OutboxRecord \<Rightarrow> Event SendMessageInput" where
  "publication_message uuid_String queueURL rec =
     \<lparr>sm_QueueUrl = queueURL, sm_MessageBody = ob_Payload rec,
      sm_MessageGroupId = uuid_String (ob_AggregateID rec),
      sm_MessageDeduplicationId = uuid_String (ob_EventID rec),
      sm_MessageAttributes = [(''eventType'', TextAttribute (ob_EventType rec)),
        (''eventId'', TextAttribute (uuid_String (ob_EventID rec)))]\<rparr>"

section \<open>consumer.go: the consumer\<close>

record WagerConsumer =
  wc_queueName :: string
  wc_deadLetterName :: string
  wc_queueURL :: string
  wc_deadLetterURL :: string
  wc_waitTime :: duration
  wc_visibilityTimeout :: duration
  wc_batchSize :: int64

definition NewWagerConsumer :: "Config \<Rightarrow> WagerConsumer" where
  "NewWagerConsumer cfg =
     \<lparr>wc_queueName = cfg_WagerQueueName cfg, wc_deadLetterName = cfg_WagerDeadLetterQueueName cfg,
      wc_queueURL = '''', wc_deadLetterURL = '''', wc_waitTime = cfg_ConsumerWaitTime cfg,
      wc_visibilityTimeout = cfg_ConsumerVisibilityTimeout cfg, wc_batchSize = cfg_ConsumerBatchSize cfg\<rparr>"

text \<open>
  \<open>OnStart\<close> ranges over a map from names to the fields that take the addresses, so that two equal
  names leave one entry, the later one. The order of the range is not fixed; it shows only in which
  of two failures is reported.
\<close>

definition resolve_queue :: "(string \<Rightarrow> err + string) \<Rightarrow> string \<Rightarrow> err + string" where
  "resolve_queue getQueueUrl name =
     (case getQueueUrl name of Inl e \<Rightarrow> Inl (Wrapped [e]) | Inr url \<Rightarrow> Inr url)"

definition consumer_OnStart :: "(string \<Rightarrow> err + string) \<Rightarrow> WagerConsumer \<Rightarrow> err + WagerConsumer" where
  "consumer_OnStart getQueueUrl c =
     (if wc_queueName c = wc_deadLetterName c
      then and_then (resolve_queue getQueueUrl (wc_deadLetterName c)) (\<lambda>url. Inr (c\<lparr>wc_deadLetterURL := url\<rparr>))
      else and_then (resolve_queue getQueueUrl (wc_queueName c)) (\<lambda>url.
           and_then (resolve_queue getQueueUrl (wc_deadLetterName c)) (\<lambda>dead.
           Inr (c\<lparr>wc_queueURL := url, wc_deadLetterURL := dead\<rparr>))))"

definition wagerMessageType :: string where "wagerMessageType = ''WagerTransactionRequested''"

definition toInboundMessage :: "queue_api \<Rightarrow> queue_message \<Rightarrow> err + InboundMessage" where
  "toInboundMessage api message =
     (case qa_Unmarshal api (qm_Body message) of
        None \<Rightarrow> Inl (ValidationError FailureCodeInvalidInput)
      | Some body \<Rightarrow>
          if wm_Type body \<noteq> wagerMessageType then Inl (ValidationError FailureCodeInvalidInput)
          else if wm_MessageID body = '''' then Inl (ValidationError FailureCodeInvalidInput)
          else and_then (ParseID (qa_uuid_Parse api) (wm_PlayerID body)) (\<lambda>playerID.
               and_then (ParseID (qa_uuid_Parse api) (wm_WalletID body)) (\<lambda>walletID.
               and_then (ParseExternalKind (wm_Kind body)) (\<lambda>kind.
               and_then (Parse (wm_Amount body) (wm_Currency body)) (\<lambda>amount.
               Inr \<lparr>msg_MessageID = wm_MessageID body,
                 msg_Input = \<lparr>in_ProviderID = wm_ProviderID body,
                   in_ExternalTransactionID = wm_ExternalTransactionID body,
                   in_IdempotencyKey = wm_IdempotencyKey body, in_PlayerID = playerID,
                   in_WalletID = walletID, in_RoundID = wm_RoundID body, in_GameID = wm_GameID body,
                   in_Kind = kind, in_Money = amount,
                   in_ReferenceExternalTransactionID = wm_ReferenceExternalTransactionID body,
                   in_CorrelationID = wm_MessageID body\<rparr>\<rparr>)))))"

definition dead_letter_message :: "WagerConsumer \<Rightarrow> queue_message \<Rightarrow> err \<Rightarrow> string SendMessageInput" where
  "dead_letter_message c message reason =
     \<lparr>sm_QueueUrl = wc_deadLetterURL c, sm_MessageBody = qm_Body message,
      sm_MessageGroupId =
        (case map_of (qm_Attributes message) ''MessageGroupId'' of None \<Rightarrow> '''' | Some g \<Rightarrow> g),
      sm_MessageDeduplicationId = qm_MessageId message,
      sm_MessageAttributes = [(''reason'', ReasonAttribute reason)]\<rparr>"

definition deadLetter ::
  "queue_api \<Rightarrow> WagerConsumer \<Rightarrow> queue_message \<Rightarrow> err \<Rightarrow> station \<Rightarrow> err option \<times> station" where
  "deadLetter api c message reason st =
     (let answer = qa_Send api (length (st_log st)) in
      (answer, st\<lparr>st_log := st_log st @ [SendCall (dead_letter_message c message reason) answer]\<rparr>))"

definition delete ::
  "queue_api \<Rightarrow> WagerConsumer \<Rightarrow> queue_message \<Rightarrow> station \<Rightarrow> err option \<times> station" where
  "delete api c message st =
     (let answer = qa_Delete api (length (st_log st)) in
      (answer, st\<lparr>st_log := st_log st @ [DeleteCall (wc_queueURL c) (qm_ReceiptHandle message) answer]\<rparr>))"

text \<open>The end of \<open>handle\<close>, for a message that was refused or whose operation failed.\<close>

definition handle_failure ::
  "queue_api \<Rightarrow> WagerConsumer \<Rightarrow> queue_message \<Rightarrow> err \<Rightarrow> station \<Rightarrow> err option \<times> station" where
  "handle_failure api c message e st =
     (if errors_Is e (Sentinel ErrUnavailable) then (Some (Wrapped [e]), st)
      else let st0 = st\<lparr>st_world := snd (record_metric MessageDeadLettered (st_world st))\<rparr>;
               (sent, st1) = deadLetter api c message e st0;
               (deleted, st2) = delete api c message st1
           in (errors_Join [sent, deleted], st2))"

definition handle ::
  "queue_api \<Rightarrow> WagerConsumer \<Rightarrow> queue_message \<Rightarrow> station \<Rightarrow> err option \<times> station" where
  "handle api c message st =
     (case toInboundMessage api message of
        Inl e \<Rightarrow> handle_failure api c message e st
      | Inr inbound \<Rightarrow>
          (case ProcessInboxMessage_Execute inbound (st_world st) of
             (Inl e, w) \<Rightarrow> handle_failure api c message e (st\<lparr>st_world := w\<rparr>)
           | (Inr _, w) \<Rightarrow> delete api c message (st\<lparr>st_world := w\<rparr>)))"

fun handle_all ::
  "queue_api \<Rightarrow> WagerConsumer \<Rightarrow> queue_message list \<Rightarrow> station \<Rightarrow> err option list \<times> station" where
  "handle_all api c [] st = ([], st)"
| "handle_all api c (message # messages) st =
     (let (e, st1) = handle api c message st; (es, st2) = handle_all api c messages st1
      in (e # es, st2))"

definition receive_input :: "WagerConsumer \<Rightarrow> ReceiveMessageInput" where
  "receive_input c =
     \<lparr>ri_QueueUrl = wc_queueURL c, ri_MaxNumberOfMessages = to_int32 (wc_batchSize c),
      ri_WaitTimeSeconds = to_int32 (go_div (wc_waitTime c) Second),
      ri_VisibilityTimeout = to_int32 (go_div (wc_visibilityTimeout c) Second)\<rparr>"

definition WagerConsumer_Execute ::
  "queue_api \<Rightarrow> WagerConsumer \<Rightarrow> station \<Rightarrow> (nat \<times> err option) \<times> station" where
  "WagerConsumer_Execute api c st =
     (let st0 = st\<lparr>st_log := st_log st @ [ReceiveCall (receive_input c)]\<rparr> in
      case qa_Receive api (length (st_log st)) of
        Inl e \<Rightarrow> ((0, Some (Wrapped [Sentinel ErrUnavailable, e])), st0)
      | Inr messages \<Rightarrow>
          (case handle_all api c messages st0 of
             (errs, st1) \<Rightarrow> ((length messages, errors_Join errs), st1)))"

end
