(* ===== verification/Units.thy ===== *)
theory Units
  imports Store
begin

text \<open>
  Units of work: what an action may do inside a transaction (\<open>confined\<close>), what a successful one
  did (\<open>does\<close>), how both decompose along the code's sequencing, and the contract of the
  \<open>Transactor\<close> port of \<open>usecase/ports.go\<close> as a locale, with the facts a caller of a unit of work
  rests on, interpreted on \<open>postgres/transactor.go\<close>.
\<close>

section \<open>Confined actions\<close>

definition frame :: "world \<Rightarrow> db \<times> environment \<times> OutboxRecord list" where
  "frame w = (committed w, env w, published w)"

text \<open>
  A confined action touches the committed database only through the transaction it runs in,
  never closes that transaction, publishes nothing, and does nothing in a failed one.
\<close>

definition confined :: "'a action \<Rightarrow> bool" where
  "confined m \<longleftrightarrow>
     (\<forall>w d ab r w'. tx w = Some (d, ab) \<longrightarrow> m w = (r, w') \<longrightarrow>
        frame w' = frame w \<and> (\<exists>d' ab'. tx w' = Some (d', ab') \<and> (ab \<longrightarrow> ab' \<and> d' = d)))"

text \<open>A reader is confined and leaves the database of its transaction as it is.\<close>

definition reader :: "'a action \<Rightarrow> bool" where
  "reader m \<longleftrightarrow>
     (\<forall>w d ab r w'. tx w = Some (d, ab) \<longrightarrow> m w = (r, w') \<longrightarrow>
        frame w' = frame w \<and> (\<exists>ab'. tx w' = Some (d, ab') \<and> (ab \<longrightarrow> ab')))"

definition does :: "'a action \<Rightarrow> world \<Rightarrow> db \<Rightarrow> 'a \<Rightarrow> world \<Rightarrow> db \<Rightarrow> bool" where
  "does m w d a w' d' \<longleftrightarrow>
     m w = (Inr a, w') \<and> tx w = Some (d, False) \<and> tx w' = Some (d', False) \<and> frame w' = frame w"

lemma confinedI:
  assumes "\<And>w d ab r w'. tx w = Some (d, ab) \<Longrightarrow> m w = (r, w') \<Longrightarrow>
    frame w' = frame w \<and> (\<exists>d' ab'. tx w' = Some (d', ab') \<and> (ab \<longrightarrow> ab' \<and> d' = d))"
  shows "confined m"
  using assms unfolding confined_def by blast

lemma confinedD:
  assumes "confined m" and "tx w = Some (d, ab)" and "m w = (r, w')"
  obtains d' ab' where "frame w' = frame w" and "tx w' = Some (d', ab')" and "ab \<longrightarrow> ab' \<and> d' = d"
  using assms unfolding confined_def by blast

lemma readerI:
  assumes "\<And>w d ab r w'. tx w = Some (d, ab) \<Longrightarrow> m w = (r, w') \<Longrightarrow>
    frame w' = frame w \<and> (\<exists>ab'. tx w' = Some (d, ab') \<and> (ab \<longrightarrow> ab'))"
  shows "reader m"
  using assms unfolding reader_def by blast

lemma reader_confined [simp]: "reader m \<Longrightarrow> confined m"
  unfolding reader_def confined_def by (metis option.inject prod.inject)

lemma confined_attempt:
  assumes "confined m" and "\<And>r. confined (f r)"
  shows "confined (attempt m f)"
proof (rule confinedI)
  fix w d ab r w'
  assume w: "tx w = Some (d, ab)" and run: "attempt m f w = (r, w')"
  obtain q w1 where m: "m w = (q, w1)" by fastforce
  with run have f: "f q w1 = (r, w')" by (simp add: attempt_def)
  obtain d1 ab1 where w1: "frame w1 = frame w" "tx w1 = Some (d1, ab1)" "ab \<longrightarrow> ab1 \<and> d1 = d"
    by (rule confinedD [OF assms(1) w m])
  obtain d2 ab2 where "frame w' = frame w1" "tx w' = Some (d2, ab2)" "ab1 \<longrightarrow> ab2 \<and> d2 = d1"
    by (rule confinedD [OF assms(2) w1(2) f])
  with w1 show "frame w' = frame w \<and> (\<exists>d' ab'. tx w' = Some (d', ab') \<and> (ab \<longrightarrow> ab' \<and> d' = d))"
    by auto
qed

lemma reader_attempt:
  assumes "reader m" and "\<And>r. reader (f r)"
  shows "reader (attempt m f)"
proof (rule readerI)
  fix w d ab r w'
  assume w: "tx w = Some (d, ab)" and run: "attempt m f w = (r, w')"
  obtain q w1 where m: "m w = (q, w1)" by fastforce
  with run have f: "f q w1 = (r, w')" by (simp add: attempt_def)
  from assms(1) w m obtain ab1 where "frame w1 = frame w" "tx w1 = Some (d, ab1)" "ab \<longrightarrow> ab1"
    unfolding reader_def by blast
  with assms(2) f show "frame w' = frame w \<and> (\<exists>ab'. tx w' = Some (d, ab') \<and> (ab \<longrightarrow> ab'))"
    unfolding reader_def by metis
qed

lemma reader_basic [simp]:
  "reader (return_ok a)"
  "reader (raise_err e)"
  "reader (of_result r)"
  "reader clock_now"
  "reader NewID"
  "reader (record_metric m)"
  "reader queries"
  "reader draw_sequence"
  "reader (\<lambda>w. (g w, w))"
  by (auto simp: reader_def return_ok_def raise_err_def of_result_def clock_now_def NewID_def
      record_metric_def queries_def draw_sequence_def frame_def)

lemma confined_bind:
  assumes "confined m" and "\<And>a. confined (f a)"
  shows "confined (bind_action m f)"
  unfolding bind_action_def
  by (intro confined_attempt assms(1)) (use assms(2) in \<open>simp split: sum.splits\<close>)

lemma reader_bind:
  assumes "reader m" and "\<And>a. reader (f a)"
  shows "reader (bind_action m f)"
  unfolding bind_action_def
  by (intro reader_attempt assms(1)) (use assms(2) in \<open>simp split: sum.splits\<close>)

lemma confined_statement [simp]: "confined (statement f)"
  by (rule confinedI)
    (auto simp: statement_def next_call_def frame_def split: if_splits option.splits sum.splits prod.splits)

lemma reader_statement [simp]: "reader (statement (read_db f))"
  by (rule readerI)
    (auto simp: statement_def next_call_def frame_def read_db_def
      split: if_splits option.splits sum.splits prod.splits)

lemma reader_query_row [simp]: "reader (query_row (read_db f))"
  unfolding query_row_def by (intro reader_bind reader_statement) (simp split: option.splits)

lemma confined_query_row [simp]: "confined (query_row f)"
  unfolding query_row_def by (intro confined_bind confined_statement) (simp split: option.splits)

lemma confined_translated [simp]: "confined m \<Longrightarrow> confined (translated m)"
  unfolding translated_def by (intro confined_attempt) (simp_all split: sum.splits)

lemma reader_translated [simp]: "reader m \<Longrightarrow> reader (translated m)"
  unfolding translated_def by (intro reader_attempt) (simp_all split: sum.splits)

text \<open>A nested unit of work joins the open transaction.\<close>

lemma confined_WithinTransaction: "confined m \<Longrightarrow> confined (WithinTransaction m)"
  by (rule confinedI) (auto simp: WithinTransaction_def elim!: confinedD)

section \<open>What a successful action did\<close>

lemma does_bindE:
  assumes "does (bind_action m f) w d b w' d'" and "confined m" and "\<And>a. confined (f a)"
  obtains a w1 d1 where "does m w d a w1 d1" and "does (f a) w1 d1 b w' d'"
proof -
  from assms(1) have w: "tx w = Some (d, False)" and run: "bind_action m f w = (Inr b, w')"
    and w': "tx w' = Some (d', False)" by (simp_all add: does_def)
  obtain q w1 where m: "m w = (q, w1)" by fastforce
  with run obtain a where q: "q = Inr a" and f: "f a w1 = (Inr b, w')"
    by (cases q) (simp_all add: bind_action_def attempt_def raise_err_def)
  obtain d1 ab1 where w1: "frame w1 = frame w" "tx w1 = Some (d1, ab1)"
    by (rule confinedD [OF assms(2) w m])
  obtain d2 ab2 where w2: "frame w' = frame w1" "tx w' = Some (d2, ab2)" "ab1 \<longrightarrow> ab2 \<and> d2 = d1"
    by (rule confinedD [OF assms(3) w1(2) f])
  with w' have "\<not> ab1" by auto
  with that [of a w1 d1] w w' w1 w2 m f q show thesis by (simp add: does_def)
qed

lemma does_attemptE:
  assumes "does (attempt m f) w d b w' d'" and "confined m" and "\<And>r. confined (f r)"
  obtains (good) a w1 d1 where "does m w d a w1 d1" and "does (f (Inr a)) w1 d1 b w' d'"
  | (bad) e w1 d1 where "does (f (Inl e)) w1 d1 b w' d'" and "m w = (Inl e, w1)" and "reader m \<longrightarrow> d1 = d"
proof -
  from assms(1) have w: "tx w = Some (d, False)" and run: "attempt m f w = (Inr b, w')"
    and w': "tx w' = Some (d', False)" by (simp_all add: does_def)
  obtain q w1 where m: "m w = (q, w1)" by fastforce
  with run have f: "f q w1 = (Inr b, w')" by (simp add: attempt_def)
  obtain d1 ab1 where w1: "frame w1 = frame w" "tx w1 = Some (d1, ab1)"
    by (rule confinedD [OF assms(2) w m])
  obtain d2 ab2 where w2: "frame w' = frame w1" "tx w' = Some (d2, ab2)" "ab1 \<longrightarrow> ab2 \<and> d2 = d1"
    by (rule confinedD [OF assms(3) w1(2) f])
  with w' have ab1: "\<not> ab1" by auto
  have rd: "reader m \<longrightarrow> d1 = d" using w m w1 unfolding reader_def by fastforce
  show thesis
  proof (cases q)
    case (Inl e)
    with bad [of e w1 d1] w1 w2 w' f m ab1 rd show thesis by (simp add: does_def)
  next
    case (Inr a)
    with good [of a w1 d1] w w1 w2 w' f m ab1 show thesis by (simp add: does_def)
  qed
qed

lemma does_statementE:
  assumes "does (statement f) w d a w' d'"
  obtains "f (the_session w) d = Inr (a, d')"
  using assms
  by (auto simp: does_def statement_def split: if_splits option.splits sum.splits prod.splits)

lemma does_query_rowE:
  assumes "does (query_row f) w d a w' d'"
  obtains "f (the_session w) d = Inr (Some a, d')"
proof -
  from assms obtain r w1 d1 where 1: "does (statement f) w d r w1 d1"
    and 2: "does (case r of None \<Rightarrow> raise_err (Sentinel ErrNoRows) | Some a \<Rightarrow> return_ok a) w1 d1 a w' d'"
    unfolding query_row_def
    by (rule does_bindE) (auto split: option.splits)
  from 2 have "r = Some a" "d' = d1"
    by (auto simp: does_def raise_err_def return_ok_def split: option.splits)
  with 1 that show thesis by (auto elim: does_statementE)
qed

lemma does_translatedE:
  assumes "does (translated m) w d a w' d'" and "confined m"
  obtains "does m w d a w' d'"
  using assms
  by (auto simp: does_def translated_def attempt_def raise_err_def return_ok_def
      split: prod.splits sum.splits)

lemma does_basic [simp]:
  "does (return_ok a) w d b w' d' \<longleftrightarrow> b = a \<and> w' = w \<and> d' = d \<and> tx w = Some (d, False)"
  "\<not> does (raise_err e) w d b w' d'"
  "does (of_result r) w d b w' d' \<longleftrightarrow> r = Inr b \<and> w' = w \<and> d' = d \<and> tx w = Some (d, False)"
  "does queries w d u w' d' \<longleftrightarrow> w' = w \<and> d' = d \<and> tx w = Some (d, False)"
  by (auto simp: does_def return_ok_def raise_err_def of_result_def queries_def)

lemma does_reader: "reader m \<Longrightarrow> does m w d a w' d' \<Longrightarrow> d' = d"
  unfolding reader_def does_def by fastforce

lemma does_env: "does m w d a w' d' \<Longrightarrow> env w' = env w"
  by (simp add: does_def frame_def)

section \<open>The contract of the transactor\<close>

text \<open>
  What \<open>ports.go\<close> promises of \<open>WithinTransaction\<close>: a call inside a transaction joins it; outside
  one, the function's changes are committed at once or not at all, an error means they were not,
  unless the answer to the commit itself was lost.
\<close>

definition answer_lost :: "environment \<Rightarrow> bool" where
  "answer_lost E \<longleftrightarrow> (\<exists>n e. env_fault E n = Some (AnswerLost e))"

definition all_or_nothing :: "'a action \<Rightarrow> world \<Rightarrow> err + 'a \<Rightarrow> world \<Rightarrow> bool" where
  "all_or_nothing fn w r w' \<longleftrightarrow>
     tx w' = None \<and> env w' = env w \<and> published w' = published w \<and>
     (committed w' = committed w \<and> \<not> ok r \<or>
      (\<exists>a w0 w1 d. does fn w0 (committed w) a w1 d \<and> env w0 = env w \<and> committed w' = d \<and>
         (r = Inr a \<or> \<not> ok r \<and> answer_lost (env w))))"

locale transactor =
  fixes within :: "'a action \<Rightarrow> 'a action"
  assumes joins: "tx w \<noteq> None \<Longrightarrow> within fn w = fn w"
    and atomic: "confined fn \<Longrightarrow> tx w = None \<Longrightarrow> within fn w = (r, w') \<Longrightarrow> all_or_nothing fn w r w'"
begin

lemma closes: "confined fn \<Longrightarrow> tx w = None \<Longrightarrow> within fn w = (r, w') \<Longrightarrow>
    tx w' = None \<and> env w' = env w \<and> published w' = published w"
  using atomic unfolding all_or_nothing_def by blast

lemma keeps_invariant:
  assumes "confined fn" and "tx w = None" and "within fn w = (r, w')" and "I (committed w)"
    and "\<And>w0 a w1 d. does fn w0 (committed w) a w1 d \<Longrightarrow> I (committed w) \<Longrightarrow> I d"
  shows "I (committed w')"
  using atomic [OF assms(1-3)] assms(4,5) unfolding all_or_nothing_def by metis

lemma reads_only:
  assumes "reader fn" and "tx w = None" and "within fn w = (r, w')"
  shows "committed w' = committed w"
  using atomic [OF reader_confined [OF assms(1)] assms(2,3)] does_reader [OF assms(1)]
  unfolding all_or_nothing_def by metis

lemma result_committed:
  assumes "confined fn" and "tx w = None" and "within fn w = (Inr a, w')"
  obtains w0 w1 where "does fn w0 (committed w) a w1 (committed w')" and "env w0 = env w"
  using atomic [OF assms] unfolding all_or_nothing_def by auto

end

lemma begin_cases:
  assumes "translated begin_transaction w = (r, w0)" and "tx w = None"
  shows "env w0 = env w \<and> committed w0 = committed w \<and> published w0 = published w \<and>
    (case r of Inl e \<Rightarrow> tx w0 = None | Inr _ \<Rightarrow> tx w0 = Some (committed w, False))"
  using assms
  by (auto simp: translated_def attempt_def begin_transaction_def next_call_def raise_err_def
      return_ok_def split: option.splits)

lemma commit_cases:
  assumes "translated commit_transaction w = (r, w')" and "tx w = Some (d, ab)"
  shows "tx w' = None \<and> env w' = env w \<and> published w' = published w \<and>
    (committed w' = committed w \<and> \<not> ok r \<or> \<not> ab \<and> committed w' = d \<and> (ok r \<or> answer_lost (env w)))"
  using assms
  by (auto simp: translated_def attempt_def commit_transaction_def next_call_def raise_err_def
      return_ok_def answer_lost_def split: option.splits fault.splits if_splits)

lemma WithinTransaction_atomic:
  assumes conf: "confined fn" and w: "tx w = None" and run: "WithinTransaction fn w = (r, w')"
  shows "all_or_nothing fn w r w'"
proof -
  obtain b w0 where beg: "translated begin_transaction w = (b, w0)" by fastforce
  note w0 = begin_cases [OF beg w]
  show ?thesis
  proof (cases b)
    case (Inl e)
    with run w beg w0 show ?thesis by (auto simp: WithinTransaction_def all_or_nothing_def)
  next
    case (Inr u)
    then have t0: "tx w0 = Some (committed w, False)" using w0 by simp
    obtain q w1 where fn: "fn w0 = (q, w1)" by fastforce
    obtain d ab where w1: "frame w1 = frame w0" "tx w1 = Some (d, ab)"
      by (rule confinedD [OF conf t0 fn])
    then have c1: "committed w1 = committed w" "env w1 = env w" "published w1 = published w" using w0 by (simp_all add: frame_def)
    show ?thesis
    proof (cases q)
      case (Inl e)
      with run w beg Inr fn c1 show ?thesis
        by (auto simp: WithinTransaction_def all_or_nothing_def rollback_transaction_def)
    next
      case q: (Inr a)
      obtain c w2 where com: "translated commit_transaction w1 = (c, w2)" by fastforce
      note w2 = commit_cases [OF com w1(2)]
      have res: "w' = rollback_transaction w2" "case c of Inl e \<Rightarrow> r = Inl e | Inr _ \<Rightarrow> r = Inr a"
        using run w beg Inr fn q com by (auto simp: WithinTransaction_def split: sum.splits)
      show ?thesis
      proof (cases "committed w2 = committed w1 \<and> \<not> ok c")
        case True
        then show ?thesis
          using res w2 c1 by (auto simp: all_or_nothing_def rollback_transaction_def split: sum.splits)
      next
        case False
        then have "\<not> ab" "committed w2 = d" "ok c \<or> answer_lost (env w)" using w2 c1 by auto
        moreover from this have "does fn w0 (committed w) a w1 d"
          using fn q t0 w1 by (simp add: does_def)
        moreover have "r = Inr a \<or> \<not> ok r \<and> answer_lost (env w)"
          using res(2) \<open>ok c \<or> answer_lost (env w)\<close> by (auto split: sum.splits)
        ultimately show ?thesis
          using res(1) w2 w0 c1
          unfolding all_or_nothing_def rollback_transaction_def by auto
      qed
    qed
  qed
qed

interpretation pg: transactor WithinTransaction
  by unfold_locales (auto simp: WithinTransaction_def intro: WithinTransaction_atomic)

end
