(* ===== verification/Effects.thy ===== *)
theory Effects
  imports Units Repositories
begin

text \<open>
  What the repositories did when they succeeded: each method is confined to its transaction, the
  queries only read it, and a write leaves exactly the row its statement admitted.
\<close>

section \<open>Admitted rows\<close>

lemma first_failed_None: "first_failed cs r = None \<longleftrightarrow> (\<forall>(c, p) \<in> set cs. p r)"
  by (induction cs r rule: first_failed.induct) auto

lemma first_clash_None: "first_clash us rs r = None \<longleftrightarrow> (\<forall>(c, clash) \<in> set us. \<forall>q \<in> set rs. \<not> clash q r)"
  by (induction us rs r rule: first_clash.induct) auto

lemma admit_Inr:
  "admit checks uniques foreign others r = Inr u \<longleftrightarrow>
     (\<forall>(c, p) \<in> set checks. p r) \<and> (\<forall>(c, clash) \<in> set uniques. \<forall>q \<in> set others. \<not> clash q r) \<and>
     (\<forall>(c, p) \<in> set foreign. p r)"
  unfolding first_failed_None [symmetric] first_clash_None [symmetric]
  by (auto simp: admit_def split: option.splits)

lemma insert_row_Inr:
  "insert_row checks uniques foreign r rs = Inr rs' \<longleftrightarrow>
     rs' = rs @ [r] \<and> admit checks uniques foreign rs r = Inr ()"
  by (auto simp: insert_row_def and_then_Inr_iff)

lemma update_row_Inr:
  "update_row checks uniques foreign P f rs = Inr (n, rs') \<longleftrightarrow>
     (List.find P rs = None \<and> n = 0 \<and> rs' = rs) \<or>
     (\<exists>r. List.find P rs = Some r \<and>
        admit checks uniques foreign (filter (\<lambda>q. \<not> P q) rs) (f r) = Inr () \<and>
        n = count_rows P rs \<and> rs' = update_rows P f rs)"
  by (auto simp: update_row_def and_then_Inr_iff split: option.splits)

section \<open>Confinement\<close>

lemmas confined_rules = confined_bind confined_attempt confined_translated

lemma reader_rehydrateTransaction: "reader m \<Longrightarrow> reader (rehydrateTransaction m)"
  unfolding rehydrateTransaction_def by (intro reader_attempt) (simp_all split: sum.splits)

lemma reader_found_wallet: "reader (found_wallet (read_db f))"
  unfolding found_wallet_def
  by (intro reader_bind reader_attempt reader_basic reader_query_row) (simp split: sum.splits)

lemma reader_repositories [simp]:
  "reader (WalletRepository_Find i)"
  "reader (GetForUpdate i)"
  "reader (HasProcessedReversal i)"
  "reader (FindByIdempotencyKey p k)"
  "reader (FindByExternalID p x)"
  "reader (FindByID i)"
  "reader (InboxRepository_Find m)"
proof -
  show "reader (WalletRepository_Find i)" "reader (GetForUpdate i)"
    by (simp_all add: WalletRepository_Find_def GetForUpdate_def SelectWallet_def
        SelectWalletForUpdate_def reader_found_wallet)
  show "reader (HasProcessedReversal i)"
    unfolding HasProcessedReversal_def ExistsProcessedReversal_def
    by (intro reader_bind reader_translated reader_statement reader_basic)
  show "reader (FindByIdempotencyKey p k)" "reader (FindByExternalID p x)" "reader (FindByID i)"
    unfolding FindByIdempotencyKey_def FindByExternalID_def FindByID_def
      SelectWagerTransactionByIdempotencyKey_def SelectWagerTransactionByExternalID_def
      SelectWagerTransactionByID_def
    by (intro reader_bind reader_rehydrateTransaction reader_query_row reader_basic)+
  show "reader (InboxRepository_Find m)"
    unfolding InboxRepository_Find_def SelectInboxMessage_def
    by (intro reader_bind reader_attempt reader_query_row reader_basic) (simp split: sum.splits)
qed

lemma confined_repositories [simp]:
  "confined (WalletRepository_Create x)"
  "confined (WalletRepository_Reconcile i)"
  "confined (UpdateBalance x v)"
  "confined (TransactionRepository_Create t)"
  "confined (LeasePendingReferences a b n)"
  "confined (UpdatePendingReference t at)"
  "confined (LedgerRepository_Append e)"
  "confined (LedgerRepository_Page i c n)"
  "confined (LeasePending a b n)"
  "confined (MarkPublished i at)"
  "confined (ReschedulePublication i m at)"
  "confined (InboxRepository_Record msg)"
  unfolding WalletRepository_Create_def WalletRepository_Reconcile_def UpdateBalance_def
    TransactionRepository_Create_def LeasePendingReferences_def UpdatePendingReference_def
    LedgerRepository_Append_def LedgerRepository_Page_def LeasePending_def MarkPublished_def
    ReschedulePublication_def InboxRepository_Record_def
  by (intro confined_rules confined_statement confined_query_row reader_confined reader_basic;
      simp split: sum.splits)+

lemma confined_append_event [simp]: "confined (append_event e)"
  unfolding append_event_def
  by (auto split: sum.splits intro!: confined_rules)

lemma confined_append_events [simp]: "confined (append_events es)"
  by (induction es) (auto intro!: confined_rules)

lemma confined_OutboxRepository_Append [simp]: "confined (OutboxRepository_Append es)"
  unfolding OutboxRepository_Append_def by (auto intro!: confined_rules)

section \<open>Effects\<close>

text \<open>
  A write whose errors are all raised: it succeeded exactly when its statement did.
\<close>

lemma does_raisingE:
  assumes "does (attempt m f) w d b w' d'" and "confined m" and "\<And>r. confined (f r)"
    and "\<And>e v v'. f (Inl e) v \<noteq> (Inr b, v')"
  obtains a w1 d1 where "does m w d a w1 d1" and "does (f (Inr a)) w1 d1 b w' d'"
  using assms(1-3)
proof (cases rule: does_attemptE)
  case (bad e w1 d1)
  with assms(4) show ?thesis by (auto simp: does_def)
qed (rule that)

lemma raise_never [simp]: "raise_err e v \<noteq> (Inr b, v')"
  by (simp add: raise_err_def)

lemma does_found_wallet:
  assumes "does (found_wallet (read_db f)) w d x w' d'"
  shows "d' = d \<and> (\<exists>row. f d = Some row \<and> rehydrateWallet row = Inr x)"
proof -
  have "reader (found_wallet (read_db f))" by (rule reader_found_wallet)
  with assms have d: "d' = d" by (rule does_reader [rotated])
  from assms obtain w1 d1 where q: "does (attempt (query_row (read_db f)) (\<lambda>r.
       case r of
         Inl e \<Rightarrow>
           if errors_Is e (Sentinel ErrNoRows) then raise_err (NotFoundError FailureCodeWalletNotFound)
           else raise_err (translate e)
       | Inr row \<Rightarrow> of_result (rehydrateWallet row))) w d x w1 d1"
    unfolding found_wallet_def
    by (elim does_bindE) (auto intro!: confined_rules split: sum.splits)
  then obtain row w2 d2 where "does (query_row (read_db f)) w d row w2 d2" "rehydrateWallet row = Inr x"
    by (rule does_raisingE) (auto split: sum.splits)
  with d show ?thesis by (auto elim!: does_query_rowE simp: read_db_def)
qed

lemma does_wallet_queries:
  "does (GetForUpdate i) w d x w' d' \<Longrightarrow>
     d' = d \<and> (\<exists>row. List.find (\<lambda>r. wr_ID r = i) (wallets d) = Some row \<and> rehydrateWallet row = Inr x)"
  "does (WalletRepository_Find i) w d x w' d' \<Longrightarrow>
     d' = d \<and> (\<exists>row. List.find (\<lambda>r. wr_ID r = i) (wallets d) = Some row \<and> rehydrateWallet row = Inr x)"
  unfolding GetForUpdate_def WalletRepository_Find_def SelectWallet_def SelectWalletForUpdate_def
  by (drule does_found_wallet, blast)+

lemma does_queries_thenE:
  assumes "does (bind_action queries (\<lambda>_. m)) w d a w' d'" and "confined m"
  obtains "does m w d a w' d'"
  using assms by (auto elim!: does_bindE)

lemma does_simple_write:
  assumes "does (bind_action queries (\<lambda>_. attempt (statement f) (\<lambda>r. case r of Inr x \<Rightarrow> g x | Inl e \<Rightarrow> h e))) w d b w' d'"
    and "\<And>x. g x = return_ok b \<or> (\<exists>e. g x = raise_err e)" and "\<And>e. \<exists>e'. h e = raise_err e'"
  shows "\<exists>a. f (the_session w) d = Inr (a, d') \<and> g a = return_ok b"
proof -
  have "confined (case r of Inr x \<Rightarrow> g x | Inl e \<Rightarrow> h e)" for r
    using assms(2,3) by (auto split: sum.splits) (metis reader_basic(1,2) reader_confined)+
  then obtain a w1 d1 where "does (statement f) w d a w1 d1" and g: "does (g a) w1 d1 b w' d'"
    using assms(1)
    by (elim does_queries_thenE does_raisingE)
      (use assms(3) in \<open>auto intro!: confined_rules split: sum.splits; metis raise_never\<close>)+
  moreover have "d1 = d'" "g a = return_ok b" using g assms(2) [of a] by auto
  ultimately show ?thesis by (auto elim!: does_statementE)
qed

lemma does_WalletRepository_Create:
  assumes "does (WalletRepository_Create x) w d u w' d'"
  shows "\<exists>rs. insert_row wallet_checks wallet_uniques [] (wallet_to_row x) (wallets d) = Inr rs \<and>
    d' = d\<lparr>wallets := rs\<rparr>"
proof -
  from assms have "\<exists>a. InsertWallet (wallet_to_row x) (the_session w) d = Inr (a, d') \<and>
      (return_ok () :: unit action) = return_ok u"
    unfolding WalletRepository_Create_def by (rule does_simple_write) auto
  then show ?thesis by (auto simp: InsertWallet_def and_then_Inr_iff split: if_splits)
qed

lemma does_TransactionRepository_Create:
  assumes "does (TransactionRepository_Create t) w d u w' d'"
  shows "\<exists>now rs. insert_row transaction_checks transaction_uniques (transaction_foreign d)
      (inserted_transaction now (transaction_to_params t)) (transactions d) = Inr rs \<and>
    d' = d\<lparr>transactions := rs\<rparr>"
proof -
  from assms have "\<exists>a. InsertWagerTransaction (transaction_to_params t) (the_session w) d = Inr (a, d') \<and>
      (return_ok () :: unit action) = return_ok u"
    unfolding TransactionRepository_Create_def by (rule does_simple_write) auto
  then show ?thesis by (auto simp: InsertWagerTransaction_def and_then_Inr_iff split: if_splits)
qed

lemma does_InboxRepository_Record:
  assumes "does (InboxRepository_Record msg) w d u w' d'"
  shows "\<exists>rs at. insert_row [] inbox_uniques (inbox_foreign d)
      \<lparr>ir_MessageID = im_MessageID msg, ir_PayloadHash = im_PayloadHash msg,
       ir_TransactionID = im_TransactionID msg, ir_ReceivedAt = at\<rparr> (inbox d) = Inr rs \<and>
    d' = d\<lparr>inbox := rs\<rparr>"
proof -
  from assms have "\<exists>a. InsertInboxMessage (im_MessageID msg) (im_PayloadHash msg) (im_TransactionID msg)
      (the_session w) d = Inr (a, d') \<and> (return_ok () :: unit action) = return_ok u"
    unfolding InboxRepository_Record_def by (rule does_simple_write) auto
  then show ?thesis by (auto simp: InsertInboxMessage_def and_then_Inr_iff split: if_splits)
qed

lemma does_UpdateBalance:
  assumes "does (UpdateBalance x v) w d u w' d'"
  shows "\<exists>row rs. List.find (\<lambda>r. wr_ID r = w_id x \<and> wr_Version r = v) (wallets d) = Some row \<and>
    update_row wallet_checks wallet_uniques [] (\<lambda>r. wr_ID r = w_id x \<and> wr_Version r = v)
      (\<lambda>r. r\<lparr>wr_BalanceMinor := minorUnits (w_balance x), wr_Version := w_version x,
         wr_UpdatedAt := w_updatedAt x\<rparr>) (wallets d) = Inr (count_rows (\<lambda>r. wr_ID r = w_id x \<and> wr_Version r = v) (wallets d), rs) \<and>
    d' = d\<lparr>wallets := rs\<rparr>"
proof -
  let ?P = "\<lambda>r. wr_ID r = w_id x \<and> wr_Version r = v"
  from assms have "\<exists>a. UpdateWalletBalance \<lparr>uw_BalanceMinor = minorUnits (w_balance x),
         uw_Version = w_version x, uw_UpdatedAt = w_updatedAt x, uw_ID = w_id x,
         uw_ExpectedVersion = v\<rparr> (the_session w) d = Inr (a, d') \<and>
       (if a = 0 then raise_err (Sentinel ErrConcurrentUpdate) else return_ok ()) = return_ok u"
    unfolding UpdateBalance_def by (rule does_simple_write) auto
  then obtain a rs where a: "a \<noteq> 0" and upd: "update_row wallet_checks wallet_uniques [] ?P
      (\<lambda>r. r\<lparr>wr_BalanceMinor := minorUnits (w_balance x), wr_Version := w_version x,
         wr_UpdatedAt := w_updatedAt x\<rparr>) (wallets d) = Inr (a, rs)" and "d' = d\<lparr>wallets := rs\<rparr>"
    by (auto simp: UpdateWalletBalance_def and_then_Inr_iff raise_err_def return_ok_def fun_eq_iff
        split: if_splits)
  moreover from this obtain row where "List.find ?P (wallets d) = Some row" "a = count_rows ?P (wallets d)"
    by (auto simp: update_row_Inr)
  ultimately show ?thesis by auto
qed

lemma does_LedgerRepository_Append:
  assumes "does (LedgerRepository_Append e) w d u w' d'"
  shows "\<exists>rs. insert_row ledger_checks ledger_uniques (ledger_foreign d) (entry_to_row e) (entries d) = Inr rs \<and>
    d' = d\<lparr>entries := rs\<rparr>"
proof -
  from assms have "does (statement (InsertLedgerEntry (entry_to_row e))) w d u w' d'"
    unfolding LedgerRepository_Append_def
    by (elim does_queries_thenE does_translatedE) simp_all
  then show ?thesis
    by (auto elim!: does_statementE simp: InsertLedgerEntry_def and_then_Inr_iff split: if_splits)
qed

definition pending_params :: "Transaction \<Rightarrow> time \<Rightarrow> UpdatePendingReferenceParams" where
  "pending_params t nextAttemptAt =
     \<lparr>up_State = state_String (t_state t), up_FailureCode = optional (t_failureCode t),
      up_ReferenceTransactionID = ReferenceTransactionID t,
      up_ResultBalanceMinor = map_option minorUnits (t_resultBalance t),
      up_ReferenceAttempts = to_int32 (t_referenceAttempts t),
      up_NextAttemptAt = (if t_state t = StatePendingReference then Some nextAttemptAt else None),
      up_UpdatedAt = t_updatedAt t, up_ID = t_id t\<rparr>"

lemma does_UpdatePendingReference:
  assumes "does (UpdatePendingReference t at) w d u w' d'"
  shows "\<exists>row. List.find (\<lambda>r. tr_ID r = t_id t \<and> tr_State r = ''PENDING_REFERENCE'') (transactions d) = Some row \<and>
    admit transaction_checks transaction_uniques (transaction_foreign d)
      (filter (\<lambda>r. \<not> (tr_ID r = t_id t \<and> tr_State r = ''PENDING_REFERENCE'')) (transactions d))
      (updated_pending (pending_params t at) row) = Inr () \<and>
    d' = d\<lparr>transactions := update_rows (\<lambda>r. tr_ID r = t_id t \<and> tr_State r = ''PENDING_REFERENCE'')
      (updated_pending (pending_params t at)) (transactions d)\<rparr>"
proof -
  from assms have "\<exists>a. UpdatePendingReference_sql (pending_params t at) (the_session w) d = Inr (a, d') \<and>
       (if a = 0 then raise_err (Sentinel ErrConcurrentUpdate) else return_ok ()) = return_ok u"
    unfolding UpdatePendingReference_def pending_params_def by (rule does_simple_write) auto
  then obtain a rs where a: "a \<noteq> 0" and upd: "update_row transaction_checks transaction_uniques
      (transaction_foreign d) (\<lambda>r. tr_ID r = t_id t \<and> tr_State r = ''PENDING_REFERENCE'')
      (updated_pending (pending_params t at)) (transactions d) = Inr (a, rs)"
    and "d' = d\<lparr>transactions := rs\<rparr>"
    by (auto simp: UpdatePendingReference_sql_def and_then_Inr_iff raise_err_def return_ok_def
        fun_eq_iff pending_params_def split: if_splits)
  then show ?thesis by (auto simp: update_row_Inr)
qed

lemma does_rehydrateTransaction:
  assumes "does (rehydrateTransaction (query_row (read_db f))) w d x w' d'"
  shows "d' = d \<and> (case x of None \<Rightarrow> True | Some t \<Rightarrow> \<exists>row. f d = Some row \<and> rehydrate_row row = Inr t)"
proof -
  have "reader (rehydrateTransaction (query_row (read_db f)))"
    by (intro reader_rehydrateTransaction reader_query_row)
  with assms have d: "d' = d" by (rule does_reader [rotated])
  from assms show ?thesis
    unfolding rehydrateTransaction_def
    by (elim does_attemptE)
      (use d in \<open>auto elim!: does_query_rowE simp: read_db_def split: sum.splits if_splits\<close>)
qed

text \<open>A query that found nothing: the row is not there, unless the answer was an error.\<close>

lemma query_row_ErrNoRows:
  assumes "query_row (read_db f) w = (Inl e, w')" and "tx w = Some (d, False)"
    and "errors_Is e (Sentinel ErrNoRows)"
  shows "f d = None"
proof -
  have "\<not> errors_Is (fault_err x) (Sentinel ErrNoRows)" for x
    by (cases x; rename_tac y; case_tac y) auto
  then show ?thesis
    using assms
    by (auto simp: query_row_def bind_action_def attempt_def statement_def read_db_def raise_err_def
        return_ok_def split: option.splits)
qed

lemma does_rehydrateTransaction_None:
  assumes "does (rehydrateTransaction (query_row (read_db f))) w d None w' d'"
  shows "f d = None"
proof -
  have tx: "tx w = Some (d, False)" using assms by (simp add: does_def)
  from assms show ?thesis
    unfolding rehydrateTransaction_def
    by (elim does_attemptE)
      (auto dest: query_row_ErrNoRows [OF _ tx] split: sum.splits if_splits)
qed

lemma does_find:
  assumes "does (bind_action queries (\<lambda>_. rehydrateTransaction (query_row (read_db f)))) w d x w' d'"
  shows "d' = d \<and> (case x of None \<Rightarrow> f d = None | Some t \<Rightarrow> \<exists>row. f d = Some row \<and> rehydrate_row row = Inr t)"
proof -
  from assms have m: "does (rehydrateTransaction (query_row (read_db f))) w d x w' d'"
    by (elim does_queries_thenE) (simp add: reader_rehydrateTransaction)
  show ?thesis
    using does_rehydrateTransaction [OF m] does_rehydrateTransaction_None [of f w d w' d'] m
    by (cases x) auto
qed

lemma does_transaction_queries:
  "does (FindByIdempotencyKey p k) w d x w' d' \<Longrightarrow>
     d' = d \<and> (case x of None \<Rightarrow> List.find (\<lambda>r. tr_ProviderID r = Some p \<and> tr_IdempotencyKey r = Some k) (transactions d) = None
       | Some t \<Rightarrow> \<exists>row. List.find (\<lambda>r. tr_ProviderID r = Some p \<and> tr_IdempotencyKey r = Some k) (transactions d) = Some row \<and>
           rehydrate_row row = Inr t)"
  "does (FindByExternalID p e) w d x w' d' \<Longrightarrow>
     d' = d \<and> (case x of None \<Rightarrow> List.find (\<lambda>r. tr_ProviderID r = Some p \<and> tr_ExternalTransactionID r = Some e) (transactions d) = None
       | Some t \<Rightarrow> \<exists>row. List.find (\<lambda>r. tr_ProviderID r = Some p \<and> tr_ExternalTransactionID r = Some e) (transactions d) = Some row \<and>
           rehydrate_row row = Inr t)"
  "does (FindByID i) w d x w' d' \<Longrightarrow>
     d' = d \<and> (case x of None \<Rightarrow> List.find (\<lambda>r. tr_ID r = i) (transactions d) = None
       | Some t \<Rightarrow> \<exists>row. List.find (\<lambda>r. tr_ID r = i) (transactions d) = Some row \<and> rehydrate_row row = Inr t)"
  unfolding FindByIdempotencyKey_def FindByExternalID_def FindByID_def
    SelectWagerTransactionByIdempotencyKey_def SelectWagerTransactionByExternalID_def
    SelectWagerTransactionByID_def
  by (drule does_find, simp)+

lemma does_HasProcessedReversal:
  assumes "does (HasProcessedReversal i) w d b w' d'"
  shows "d' = d \<and> b = (\<exists>r \<in> set (transactions d). tr_ReferenceTransactionID r = Some i \<and> row_reversed r)"
proof -
  from assms have "does (statement (ExistsProcessedReversal i)) w d b w' d'"
    unfolding HasProcessedReversal_def by (elim does_queries_thenE does_translatedE) simp_all
  then show ?thesis by (auto elim!: does_statementE simp: ExistsProcessedReversal_def read_db_def)
qed

text \<open>The rows the events leave: the snapshots in order, each unpublished and without attempts.\<close>

definition event_row :: "Event \<Rightarrow> outbox_row \<Rightarrow> bool" where
  "event_row e r \<longleftrightarrow>
     or_ID r = ev_ID e \<and> or_AggregateID r = ev_AggregateID e \<and> or_EventType r = ev_Type e \<and>
     or_Payload r = e \<and> or_OccurredAt r = ev_OccurredAt e \<and> or_Attempts r = 0 \<and> or_PublishedAt r = None"

lemma does_append_event:
  assumes "does (append_event e) w d u w' d'"
  shows "\<exists>r. event_row e r \<and> d' = d\<lparr>outbox := outbox d @ [r]\<rparr> \<and>
    (\<forall>q \<in> set (outbox d). or_ID q \<noteq> or_ID r \<and> or_Sequence q \<noteq> or_Sequence r)"
proof -
  from assms obtain p w1 d1 where e: "event_Marshal e = Inr p" and "does draw_sequence w d () w1 d1"
    and "does (translated (statement (InsertOutboxEvent \<lparr>io_ID = ev_ID e, io_AggregateID = ev_AggregateID e,
            io_EventType = ev_Type e, io_Payload = p, io_OccurredAt = ev_OccurredAt e\<rparr>))) w1 d1 u w' d'"
    unfolding append_event_def by (auto split: sum.splits elim!: does_bindE)
  moreover from this have "d1 = d" by (intro does_reader) (rule reader_basic)
  moreover have "p = e" using e by (auto simp: event_Marshal_def)
  ultimately have "does (statement (InsertOutboxEvent \<lparr>io_ID = ev_ID e, io_AggregateID = ev_AggregateID e,
            io_EventType = ev_Type e, io_Payload = e, io_OccurredAt = ev_OccurredAt e\<rparr>)) w1 d u w' d'"
    by (auto elim!: does_translatedE)
  then show ?thesis
    by (elim does_statementE, intro exI [of _ "inserted_event (the_session w1) \<lparr>io_ID = ev_ID e,
        io_AggregateID = ev_AggregateID e, io_EventType = ev_Type e, io_Payload = e,
        io_OccurredAt = ev_OccurredAt e\<rparr>"])
      (auto simp: InsertOutboxEvent_def and_then_Inr_iff insert_row_Inr inserted_event_def event_row_def
        admit_Inr outbox_uniques_def)
qed

lemma does_append_events:
  assumes "does (append_events es) w d u w' d'"
  shows "\<exists>rs. list_all2 event_row es rs \<and> d' = d\<lparr>outbox := outbox d @ rs\<rparr>"
  using assms
proof (induction es arbitrary: w d)
  case Nil
  then show ?case by (auto intro!: exI [of _ "[]"])
next
  case (Cons e es)
  then obtain w1 d1 where "does (append_event e) w d () w1 d1" and es: "does (append_events es) w1 d1 u w' d'"
    by (auto elim!: does_bindE)
  then obtain r where r: "event_row e r" "d1 = d\<lparr>outbox := outbox d @ [r]\<rparr>"
    using does_append_event by blast
  from Cons.IH [OF es] obtain rs where "list_all2 event_row es rs" "d' = d1\<lparr>outbox := outbox d1 @ rs\<rparr>"
    by blast
  with r show ?case by (intro exI [of _ "r # rs"]) simp
qed

lemma does_OutboxRepository_Append:
  assumes "does (OutboxRepository_Append es) w d u w' d'"
  shows "\<exists>rs. list_all2 event_row es rs \<and> d' = d\<lparr>outbox := outbox d @ rs\<rparr>"
  using assms unfolding OutboxRepository_Append_def
  by (elim does_queries_thenE) (auto dest: does_append_events)

lemma does_LeasePendingReferences:
  assumes "does (LeasePendingReferences dueAt leaseUntil limit) w d ps w' d'"
  shows "\<exists>taken. taken = take (nat (sint (to_int32 limit))) (due_references (the_session w) dueAt (transactions d)) \<and>
    ps = map (\<lambda>r. \<lparr>pr_TransactionID = tr_ID r, pr_WalletID = tr_WalletID r\<rparr>) taken \<and>
    d' = d\<lparr>transactions := update_rows (\<lambda>r. tr_ID r \<in> tr_ID ` set taken)
      (\<lambda>r. r\<lparr>tr_NextAttemptAt := Some leaseUntil\<rparr>) (transactions d)\<rparr>"
proof -
  from assms obtain rows w1 d1 where
    "does (statement (LeasePendingReferences_sql leaseUntil dueAt (to_int32 limit))) w d rows w1 d1"
    and "d' = d1" "ps = map (\<lambda>(i, walletID). \<lparr>pr_TransactionID = i, pr_WalletID = walletID\<rparr>) rows"
    unfolding LeasePendingReferences_def
    by (elim does_queries_thenE does_bindE does_translatedE) (auto intro!: confined_rules elim!: does_bindE does_translatedE)
  then show ?thesis
    by (auto elim!: does_statementE simp: LeasePendingReferences_sql_def Let_def split: if_splits)
qed

lemma does_LeasePending:
  assumes "does (LeasePending dueAt leaseUntil limit) w d rs w' d'"
  shows "\<exists>taken. taken = take (nat (sint (to_int32 limit))) (due_events (the_session w) dueAt (outbox d)) \<and>
    rs = map (\<lambda>r. outbox_record (r\<lparr>or_NextAttemptAt := leaseUntil\<rparr>)) taken \<and>
    d' = d\<lparr>outbox := update_rows (\<lambda>r. or_ID r \<in> or_ID ` set taken)
      (\<lambda>r. r\<lparr>or_NextAttemptAt := leaseUntil\<rparr>) (outbox d)\<rparr>"
proof -
  from assms obtain rows w1 d1 where
    "does (statement (LeasePendingOutboxEvents leaseUntil dueAt (to_int32 limit))) w d rows w1 d1"
    and "d' = d1" "rs = map outbox_record rows"
    unfolding LeasePending_def
    by (elim does_queries_thenE does_bindE does_translatedE) (auto intro!: confined_rules elim!: does_bindE does_translatedE)
  then show ?thesis
    by (auto elim!: does_statementE simp: LeasePendingOutboxEvents_def Let_def split: if_splits)
qed

text \<open>The two ways a publication is recorded leave the row untouched once it was published.\<close>

lemma update_rows_none: "List.find P rs = None \<Longrightarrow> update_rows P f rs = rs"
  by (induction rs) (auto split: if_splits)

lemma does_MarkPublished:
  assumes "does (MarkPublished i at) w d u w' d'"
  shows "d' = d\<lparr>outbox := update_rows (\<lambda>r. or_ID r = i \<and> or_PublishedAt r = None)
    (\<lambda>r. r\<lparr>or_PublishedAt := Some at\<rparr>) (outbox d)\<rparr>"
proof -
  from assms obtain n w1 d1 where
    "does (statement (MarkOutboxEventPublished i at)) w d n w1 d1" and "d' = d1"
    unfolding MarkPublished_def
    by (elim does_queries_thenE does_bindE does_translatedE) (auto intro!: confined_rules elim!: does_bindE does_translatedE)
  then show ?thesis
    by (auto elim!: does_statementE simp: MarkOutboxEventPublished_def and_then_Inr_iff update_row_Inr
        update_rows_none)
qed

lemma does_ReschedulePublication:
  assumes "does (ReschedulePublication i n at) w d u w' d'"
  shows "d' = d\<lparr>outbox := update_rows (\<lambda>r. or_ID r = i \<and> or_PublishedAt r = None)
    (\<lambda>r. r\<lparr>or_Attempts := to_int32 n, or_NextAttemptAt := at\<rparr>) (outbox d)\<rparr>"
proof -
  from assms obtain m w1 d1 where
    "does (statement (RescheduleOutboxEvent i (to_int32 n) at)) w d m w1 d1" and "d' = d1"
    unfolding ReschedulePublication_def
    by (elim does_queries_thenE does_bindE does_translatedE) (auto intro!: confined_rules elim!: does_bindE does_translatedE)
  then show ?thesis
    by (auto elim!: does_statementE simp: RescheduleOutboxEvent_def and_then_Inr_iff update_row_Inr
        update_rows_none)
qed

end
