(* ===== verification/Books.thy ===== *)
theory Books
  imports Effects Settlement
begin

text \<open>
  The books: what rows and domain objects say of each other, and the invariant of the financial
  tables. The balance of every wallet is the end of the chain of its ledger entries, every entry
  belongs to exactly one processed operation that moved money and every such operation has its
  entry, and the version of a wallet counts its movements.
\<close>

section \<open>Rows and objects\<close>

lemma NewCurrency_Inr: "NewCurrency s = Inr c \<longleftrightarrow> currency_iso4217 s \<and> c = Currency s"
  by (auto simp: NewCurrency_def currency_iso4217_def currencyCodeLen_def)

lemma currency_iso4217_nonempty [simp]: "currency_iso4217 s \<Longrightarrow> s \<noteq> ''''"
  by (auto simp: currency_iso4217_def)

lemma money_New_Inr [simp]:
  "money_New u c = Inr m \<longleftrightarrow> \<not> currency_IsZero c \<and> m = \<lparr>minorUnits = u, currency = c\<rparr>"
  by (auto simp: money_New_def)

definition wallet_iso :: "Wallet \<Rightarrow> bool" where
  "wallet_iso w = currency_iso4217 (currency_code (wallet_Currency w))"

lemma wallet_to_row_sel [simp]:
  "wr_ID (wallet_to_row w) = w_id w" "wr_PlayerID (wallet_to_row w) = w_playerID w"
  "wr_Currency (wallet_to_row w) = currency_code (wallet_Currency w)"
  "wr_BalanceMinor (wallet_to_row w) = minorUnits (w_balance w)"
  "wr_Version (wallet_to_row w) = w_version w" "wr_CreatedAt (wallet_to_row w) = w_createdAt w"
  "wr_UpdatedAt (wallet_to_row w) = w_updatedAt w"
  by (simp_all add: wallet_to_row_def currency_String_def)

lemma rehydrateWallet_Inr:
  assumes "rehydrateWallet r = Inr w"
  shows "r = wallet_to_row w \<and> wallet_wf w \<and> wallet_iso w"
  using assms
  by (auto simp: rehydrateWallet_def NewCurrency_Inr wallet_Rehydrate_Inr_iff wallet_to_row_def
      wallet_iso_def wallet_Currency_def currency_String_def)

lemma rehydrateWallet_row:
  assumes "wallet_wf w" and "wallet_iso w"
  shows "rehydrateWallet (wallet_to_row w) = Inr w"
proof -
  obtain i p b v c u where w: "w = \<lparr>w_id = i, w_playerID = p, w_balance = b, w_version = v,
    w_createdAt = c, w_updatedAt = u\<rparr>" by (cases w)
  obtain n k where b: "b = \<lparr>minorUnits = n, currency = Currency k\<rparr>"
    by (metis Currency.exhaust Money.cases)
  from assms(2) have "NewCurrency k = Inr (Currency k)" "k \<noteq> ''''"
    by (auto simp: NewCurrency_Inr wallet_iso_def wallet_Currency_def w b)
  with assms(1) show ?thesis
    by (simp add: rehydrateWallet_def wallet_to_row_def w b wallet_Currency_def currency_String_def
        money_New_def currency_IsZero_def wallet_Rehydrate_Inr_iff)
qed

lemma optional_pointed [simp]: "pointed_value (optional s) = s"
  by (simp add: optional_def pointed_value_def)

lemma optional_Some [simp]: "optional s = Some x \<longleftrightarrow> s = x \<and> x \<noteq> ''''"
  by (auto simp: optional_def)

text \<open>A row that stores an operation: the columns \<open>Create\<close> and \<open>UpdatePendingReference\<close> write.\<close>

definition operation_row :: "Transaction \<Rightarrow> time option \<Rightarrow> transaction_row" where
  "operation_row t next_at = (transaction_to_params t)
     \<lparr>tr_ReferenceAttempts := to_int32 (t_referenceAttempts t), tr_NextAttemptAt := next_at\<rparr>"

definition stores :: "transaction_row \<Rightarrow> Transaction \<Rightarrow> bool" where
  "stores r t \<longleftrightarrow>
     r = operation_row t (tr_NextAttemptAt r) \<and> transaction_wf t \<and>
     from_int32 (to_int32 (t_referenceAttempts t)) = t_referenceAttempts t \<and>
     currency_iso4217 (currency_code (currency (t_amount t)))"

lemma operation_row_sel [simp]:
  "tr_ID (operation_row t n) = t_id t" "tr_Kind (operation_row t n) = kind_String (t_kind t)"
  "tr_State (operation_row t n) = state_String (t_state t)"
  "tr_WalletID (operation_row t n) = t_walletID t" "tr_PlayerID (operation_row t n) = t_playerID t"
  "tr_Currency (operation_row t n) = currency_code (currency (t_amount t))"
  "tr_AmountMinor (operation_row t n) = minorUnits (t_amount t)"
  "tr_ProviderID (operation_row t n) = optional (t_providerID t)"
  "tr_ExternalTransactionID (operation_row t n) = optional (t_externalTransactionID t)"
  "tr_IdempotencyKey (operation_row t n) = optional (t_idempotencyKey t)"
  "tr_PayloadHash (operation_row t n) = optional (t_payloadHash t)"
  "tr_RoundID (operation_row t n) = optional (t_roundID t)"
  "tr_GameID (operation_row t n) = optional (t_gameID t)"
  "tr_ReferenceExternalTransactionID (operation_row t n) = optional (t_referenceExternalTransactionID t)"
  "tr_ReferenceTransactionID (operation_row t n) = ReferenceTransactionID t"
  "tr_FailureCode (operation_row t n) = optional (t_failureCode t)"
  "tr_ResultBalanceMinor (operation_row t n) = map_option minorUnits (t_resultBalance t)"
  "tr_CreatedAt (operation_row t n) = t_createdAt t" "tr_UpdatedAt (operation_row t n) = t_updatedAt t"
  "tr_ReferenceAttempts (operation_row t n) = to_int32 (t_referenceAttempts t)"
  "tr_NextAttemptAt (operation_row t n) = n"
  by (simp_all add: operation_row_def transaction_to_params_def currency_String_def)

lemma stores_rehydrate:
  assumes "stores r t"
  shows "rehydrate_row r = Inr t"
proof -
  have wf: "transaction_wf t" and r: "r = operation_row t (tr_NextAttemptAt r)"
    and att: "from_int32 (to_int32 (t_referenceAttempts t)) = t_referenceAttempts t"
    and iso: "currency_iso4217 (currency_code (currency (t_amount t)))"
    using assms by (simp_all add: stores_def)
  have cur: "NewCurrency (tr_Currency r) = Inr (currency (t_amount t))"
    using iso by (subst r) (simp add: NewCurrency_Inr)
  have nz: "\<not> currency_IsZero (currency (t_amount t))"
    using wf by (simp add: transaction_wf_def kind_amount_ok_def)
  have amount: "money_New (tr_AmountMinor r) (currency (t_amount t)) = Inr (t_amount t)"
    using nz by (subst r) simp
  have bal: "(case tr_ResultBalanceMinor r of None \<Rightarrow> Inr None
      | Some units \<Rightarrow> and_then (money_New units (currency (t_amount t))) (\<lambda>balance. Inr (Some balance)))
     = (Inr (t_resultBalance t) :: err + Money option)"
    using wf nz
    by (subst r, cases "t_resultBalance t")
      (auto simp: transaction_wf_defs money_like_def money_New_def)
  have ref: "(case tr_ReferenceTransactionID r of None \<Rightarrow> NilID | Some i \<Rightarrow> i) = t_referenceTransactionID t"
    by (subst r) (simp add: ReferenceTransactionID_def IsNilID_def)
  have kind: "kind_of (tr_Kind r) = t_kind t" "state_of (tr_State r) = t_state t"
    using wf by (subst r, simp add: kind_of_String state_of_String transaction_wf_defs)+
  have rest: "tr_ID r = t_id t" "tr_WalletID r = t_walletID t" "tr_PlayerID r = t_playerID t"
    "pointed_value (tr_ProviderID r) = t_providerID t"
    "pointed_value (tr_ExternalTransactionID r) = t_externalTransactionID t"
    "pointed_value (tr_IdempotencyKey r) = t_idempotencyKey t"
    "pointed_value (tr_PayloadHash r) = t_payloadHash t"
    "pointed_value (tr_RoundID r) = t_roundID t" "pointed_value (tr_GameID r) = t_gameID t"
    "pointed_value (tr_ReferenceExternalTransactionID r) = t_referenceExternalTransactionID t"
    "from_int32 (tr_ReferenceAttempts r) = t_referenceAttempts t"
    "pointed_value (tr_FailureCode r) = t_failureCode t"
    "tr_CreatedAt r = t_createdAt t" "tr_UpdatedAt r = t_updatedAt t"
    using att by (subst r, simp)+
  have "wager_Rehydrate t = Inr t"
    using wf nz by (auto simp: wager_Rehydrate_def and_then_Inr_iff transaction_wf_defs sless64)
  moreover have "\<lparr>t_id = t_id t, t_kind = t_kind t, t_state = t_state t, t_walletID = t_walletID t,
      t_playerID = t_playerID t, t_amount = t_amount t, t_providerID = t_providerID t,
      t_externalTransactionID = t_externalTransactionID t, t_idempotencyKey = t_idempotencyKey
      t, t_payloadHash = t_payloadHash t, t_roundID = t_roundID t, t_gameID = t_gameID t,
      t_referenceExternalTransactionID = t_referenceExternalTransactionID t,
      t_referenceTransactionID = t_referenceTransactionID t, t_referenceAttempts =
      t_referenceAttempts t, t_failureCode = t_failureCode t, t_resultBalance = t_resultBalance
      t, t_createdAt = t_createdAt t, t_updatedAt = t_updatedAt t\<rparr> = t"
    by simp
  ultimately show ?thesis
    by (simp only: rehydrate_row_def cur amount bal ref kind rest and_then_simps)
qed

lemma stores_unique: "stores r t \<Longrightarrow> rehydrate_row r = Inr u \<Longrightarrow> u = t"
  using stores_rehydrate by fastforce

lemma stores_sel:
  assumes "stores r t"
  shows "tr_ID r = t_id t" "tr_Kind r = kind_String (t_kind t)" "tr_State r = state_String (t_state t)"
    "tr_WalletID r = t_walletID t" "tr_Currency r = currency_code (currency (t_amount t))"
    "tr_AmountMinor r = minorUnits (t_amount t)" "tr_ProviderID r = optional (t_providerID t)"
    "tr_ResultBalanceMinor r = map_option minorUnits (t_resultBalance t)"
    "transaction_wf t"
  using assms unfolding stores_def by (metis operation_row_sel)+

section \<open>The invariant of the books\<close>

text \<open>A chain of entries: each starts at the balance the one before it left.\<close>

fun chain :: "int \<Rightarrow> ledger_row list \<Rightarrow> int \<Rightarrow> bool" where
  "chain b [] b' \<longleftrightarrow> b' = b"
| "chain b (l # ls) b' \<longleftrightarrow>
     sint (lr_BalanceBeforeMinor l) = b \<and> sint (lr_BalanceAfterMinor l) = b + row_signed_amount l \<and>
     chain (sint (lr_BalanceAfterMinor l)) ls b'"

lemma chain_append: "chain b (ls @ ms) b' \<longleftrightarrow> (\<exists>c. chain b ls c \<and> chain c ms b')"
  by (induction ls arbitrary: b) auto

lemma chain_sum: "chain b ls b' \<Longrightarrow> b' = b + sum_list (map row_signed_amount ls)"
proof (induction ls arbitrary: b)
  case (Cons l ls)
  then have "b' = (b + row_signed_amount l) + sum_list (map row_signed_amount ls)" by auto
  then show ?case by simp
qed simp

text \<open>The operation an entry belongs to, and the wallet it moved.\<close>

definition moved_money :: "transaction_row \<Rightarrow> bool" where
  "moved_money t \<longleftrightarrow> tr_State t = ''PROCESSED'' \<and> tr_Kind t \<noteq> ''LOSS''"

definition entry_of :: "ledger_row \<Rightarrow> transaction_row \<Rightarrow> bool" where
  "entry_of l t \<longleftrightarrow>
     lr_TransactionID l = tr_ID t \<and> lr_WalletID l = tr_WalletID t \<and> moved_money t \<and>
     lr_AmountMinor l = tr_AmountMinor t \<and> lr_Currency l = tr_Currency t \<and>
     tr_ResultBalanceMinor t = Some (lr_BalanceAfterMinor l) \<and>
     (tr_Kind t = ''BET'' \<longrightarrow> lr_Direction l = ''DEBIT'') \<and>
     (tr_Kind t \<in> {''OPENING'', ''WIN'', ''REFUND''} \<longrightarrow> lr_Direction l = ''CREDIT'')"

definition wallets_inv :: "db \<Rightarrow> bool" where [inv_defs]:
  "wallets_inv d \<longleftrightarrow>
     distinct (map wr_ID (wallets d)) \<and>
     (\<forall>r \<in> set (wallets d). \<exists>w. r = wallet_to_row w \<and> wallet_wf w \<and> wallet_iso w)"

definition transactions_inv :: "db \<Rightarrow> bool" where [inv_defs]:
  "transactions_inv d \<longleftrightarrow>
     distinct (map tr_ID (transactions d)) \<and>
     (\<forall>r \<in> set (transactions d). (\<exists>t. stores r t) \<and> tr_WalletID r \<in> wr_ID ` set (wallets d))"

definition entries_inv :: "db \<Rightarrow> bool" where [inv_defs]:
  "entries_inv d \<longleftrightarrow>
     distinct (map lr_TransactionID (entries d)) \<and>
     (\<forall>l \<in> set (entries d). \<exists>t \<in> set (transactions d). entry_of l t) \<and>
     (\<forall>t \<in> set (transactions d). moved_money t \<longrightarrow> (\<exists>l \<in> set (entries d). entry_of l t))"

definition balances_inv :: "db \<Rightarrow> bool" where [inv_defs]:
  "balances_inv d \<longleftrightarrow>
     (\<forall>r \<in> set (wallets d). chain 0 (wallet_entries d (wr_ID r)) (sint (wr_BalanceMinor r)))"

definition is_opening :: "db \<Rightarrow> ledger_row \<Rightarrow> bool" where
  "is_opening d l \<longleftrightarrow> (\<exists>t \<in> set (transactions d). tr_ID t = lr_TransactionID l \<and> tr_Kind t = ''OPENING'')"

definition versions_inv :: "db \<Rightarrow> bool" where [inv_defs]:
  "versions_inv d \<longleftrightarrow>
     (\<forall>r \<in> set (wallets d). sint (wr_Version r) =
        1 + int (count_rows (\<lambda>l. \<not> is_opening d l) (wallet_entries d (wr_ID r))))"

definition books :: "db \<Rightarrow> bool" where
  "books d \<longleftrightarrow> wallets_inv d \<and> transactions_inv d \<and> entries_inv d \<and> balances_inv d \<and> versions_inv d"

lemma books_find_wallet:
  assumes "books d" and "List.find (\<lambda>r. wr_ID r = i) (wallets d) = Some row" and "rehydrateWallet row = Inr w"
  shows "row \<in> set (wallets d) \<and> row = wallet_to_row w \<and> w_id w = i \<and> wallet_wf w \<and> wallet_iso w"
  using find_SomeD [OF assms(2)] rehydrateWallet_Inr [OF assms(3)] by auto

text \<open>
  How \<open>Create\<close> and \<open>UpdatePendingReference\<close> change the operations: a row that stores \<open>t\<close> comes
  in, in the place of none or of a row that was still waiting, and the others stay.
\<close>

definition saved :: "transaction_row list \<Rightarrow> Transaction \<Rightarrow> transaction_row list \<Rightarrow> bool" where
  "saved rs t rs' \<longleftrightarrow>
     distinct (map tr_ID rs') \<and>
     (\<exists>r \<in> set rs'. stores r t) \<and>
     (\<forall>q \<in> set rs'. stores q t \<or> q \<in> set rs \<and> tr_ID q \<noteq> t_id t) \<and>
     (\<forall>q \<in> set rs. if tr_ID q = t_id t then tr_State q = ''PENDING_REFERENCE'' else q \<in> set rs')"

lemma moved_money_not_pending: "moved_money q \<Longrightarrow> tr_State q \<noteq> ''PENDING_REFERENCE''"
  by (simp add: moved_money_def)

lemma saved_moved: "saved rs t rs' \<Longrightarrow> q \<in> set rs \<Longrightarrow> moved_money q \<Longrightarrow> q \<in> set rs'"
  unfolding saved_def using moved_money_not_pending by metis

lemma saved_new_id: "saved rs t rs' \<Longrightarrow> q \<in> set rs \<Longrightarrow> moved_money q \<Longrightarrow> tr_ID q \<noteq> t_id t"
  unfolding saved_def using moved_money_not_pending by metis

lemma saved_is_opening:
  assumes s: "saved (transactions d) t rs'" and i: "entries_inv d" and l: "l \<in> set (entries d)"
    and dist: "distinct (map tr_ID (transactions d))"
  shows "is_opening (d\<lparr>transactions := rs', wallets := ws, entries := es, outbox := os\<rparr>) l = is_opening d l"
proof -
  obtain q where q: "q \<in> set (transactions d)" "entry_of l q" using i l unfolding entries_inv_def by blast
  then have q': "q \<in> set rs'" using s by (auto simp: entry_of_def intro: saved_moved)
  have dist': "distinct (map tr_ID rs')" using s by (simp add: saved_def)
  have "(\<exists>x \<in> set rs. tr_ID x = lr_TransactionID l \<and> tr_Kind x = ''OPENING'') \<longleftrightarrow> tr_Kind q = ''OPENING''"
    if "distinct (map tr_ID rs)" "q \<in> set rs" for rs
    using that q(2) distinct_key_unique [OF that(1)] by (fastforce simp: entry_of_def)
  from this [OF dist q(1)] this [OF dist' q'] show ?thesis by (simp add: is_opening_def)
qed

text \<open>An operation that moved no money changes nothing else.\<close>

lemma kind_String_LOSS: "kind_IsValid k \<Longrightarrow> kind_String k = ''LOSS'' \<longleftrightarrow> k = KindLoss"
  by (auto simp: kind_IsValid_def)

lemma state_String_iff:
  "state_IsValid s \<Longrightarrow> state_String s = ''PROCESSED'' \<longleftrightarrow> s = StateProcessed"
  "state_IsValid s \<Longrightarrow> state_String s = ''PENDING_REFERENCE'' \<longleftrightarrow> s = StatePendingReference"
  by (auto simp: state_IsValid_def)

lemma stores_moved_money:
  "stores r t \<Longrightarrow> moved_money r \<longleftrightarrow> t_state t = StateProcessed \<and> t_kind t \<noteq> KindLoss"
  using stores_sel(9) [of r t]
  by (auto simp: moved_money_def stores_sel kind_String_LOSS state_String_iff transaction_wf_defs)

lemma saved_transactions_inv:
  assumes "transactions_inv d" and "saved (transactions d) t rs'"
    and "t_walletID t \<in> wr_ID ` set (wallets d)" and "wr_ID ` set (wallets d') = wr_ID ` set (wallets d)"
    and "transactions d' = rs'"
  shows "transactions_inv d'"
  unfolding transactions_inv_def
proof (intro conjI ballI)
  show "distinct (map tr_ID (transactions d'))" using assms(2,5) by (simp add: saved_def)
  fix r assume "r \<in> set (transactions d')"
  then have "stores r t \<or> r \<in> set (transactions d)" using assms(2,5) by (auto simp: saved_def)
  moreover have "tr_WalletID r = t_walletID t" if "stores r t" using that by (rule stores_sel(4))
  ultimately show "\<exists>t. stores r t" and "tr_WalletID r \<in> wr_ID ` set (wallets d')"
    using assms(1,3,4) unfolding transactions_inv_def by auto
qed

lemma books_saved:
  assumes b: "books d" and s: "saved (transactions d) t rs'"
    and wal: "t_walletID t \<in> wr_ID ` set (wallets d)"
    and nm: "\<not> (t_state t = StateProcessed \<and> t_kind t \<noteq> KindLoss)"
  shows "books (d\<lparr>transactions := rs', outbox := os\<rparr>)" (is "books ?d")
proof -
  note inv = b [unfolded books_def]
  have dist: "distinct (map tr_ID (transactions d))" using inv by (simp add: transactions_inv_def)
  have e: "entries_inv ?d"
    unfolding entries_inv_def
  proof (intro conjI ballI impI)
    show "distinct (map lr_TransactionID (entries ?d))" using inv by (simp add: entries_inv_def)
  next
    fix l assume "l \<in> set (entries ?d)"
    then obtain q where "q \<in> set (transactions d)" "entry_of l q" using inv by (auto simp: entries_inv_def)
    moreover from this have "q \<in> set rs'" using s by (auto simp: entry_of_def intro: saved_moved)
    ultimately show "\<exists>t \<in> set (transactions ?d). entry_of l t" by auto
  next
    fix q assume "q \<in> set (transactions ?d)" and m: "moved_money q"
    then have "q \<in> set (transactions d)"
      using s nm stores_moved_money [of q t] by (auto simp: saved_def)
    with m show "\<exists>l \<in> set (entries ?d). entry_of l q" using inv by (auto simp: entries_inv_def)
  qed
  have o: "is_opening ?d l = is_opening d l" if "l \<in> set (entries d)" for l
    using saved_is_opening [OF s _ that dist, where ws = "wallets d" and es = "entries d" and os = os] inv
    by simp
  have "versions_inv ?d"
  proof -
    have "count_rows (\<lambda>l. \<not> is_opening ?d l) (wallet_entries ?d i)
        = count_rows (\<lambda>l. \<not> is_opening d l) (wallet_entries d i)" for i
      unfolding count_rows_def wallet_entries_def using o by (auto intro!: arg_cong [where f = length] filter_cong)
    then show ?thesis using inv by (simp add: versions_inv_def)
  qed
  moreover have "transactions_inv ?d" using inv s wal by (auto intro: saved_transactions_inv)
  moreover have "wallets_inv ?d" "balances_inv ?d"
    using inv by (simp_all add: wallets_inv_def balances_inv_def wallet_entries_def)
  ultimately show ?thesis using e by (simp add: books_def)
qed

text \<open>The one wallet row an update changes.\<close>

lemma update_wallet_rows:
  assumes "distinct (map wr_ID rs)" and "wallet_to_row w \<in> set rs"
  shows "update_rows (\<lambda>r. wr_ID r = w_id w \<and> wr_Version r = w_version w) f rs =
    map (\<lambda>r. if wr_ID r = w_id w then f (wallet_to_row w) else r) rs"
  unfolding update_rows_def
proof (rule map_cong [OF refl])
  fix r assume "r \<in> set rs"
  then have "wr_ID r = w_id w \<Longrightarrow> r = wallet_to_row w"
    using distinct_key_unique [OF assms(1), of r "wallet_to_row w"] assms(2) by simp
  then show "(if wr_ID r = w_id w \<and> wr_Version r = w_version w then f r else r) =
      (if wr_ID r = w_id w then f (wallet_to_row w) else r)" by auto
qed

lemma entry_to_row_sel [simp]:
  "lr_WalletID (entry_to_row e) = entry_walletID e"
  "lr_TransactionID (entry_to_row e) = entry_transactionID e"
  "lr_Direction (entry_to_row e) = direction_String (entry_direction e)"
  "lr_Currency (entry_to_row e) = currency_code (currency (entry_amount e))"
  "lr_AmountMinor (entry_to_row e) = minorUnits (entry_amount e)"
  "lr_BalanceBeforeMinor (entry_to_row e) = minorUnits (entry_balanceBefore e)"
  "lr_BalanceAfterMinor (entry_to_row e) = minorUnits (entry_balanceAfter e)"
  by (simp_all add: entry_to_row_def currency_String_def)

lemma entry_row_arithmetic:
  "entry_wf e \<Longrightarrow> row_signed_amount (entry_to_row e) = signed_amount (entry_direction e) (entry_amount e)"
  "entry_wf e \<Longrightarrow> sint (lr_BalanceAfterMinor (entry_to_row e)) =
     sint (lr_BalanceBeforeMinor (entry_to_row e)) + row_signed_amount (entry_to_row e)"
  by (auto simp: row_signed_amount_def signed_amount_def entry_wf_def direction_IsValid_def money_reading_def)

text \<open>An operation that moved money: its wallet row, its entry and its own row change together.\<close>

definition kind_direction_ok :: "Kind \<Rightarrow> Direction \<Rightarrow> bool" where
  "kind_direction_ok k dir \<longleftrightarrow>
     (k = KindBet \<longrightarrow> dir = Debit) \<and> (k \<in> {KindOpening, KindWin, KindRefund} \<longrightarrow> dir = Credit)"

lemma entry_of_new:
  assumes "stores r t" and "entry_wf e" and "entry_transactionID e = t_id t" and "entry_walletID e = t_walletID t"
    and "entry_amount e = t_amount t" and "t_resultBalance t = Some (entry_balanceAfter e)"
    and "t_state t = StateProcessed" and "t_kind t \<noteq> KindLoss"
    and "kind_direction_ok (t_kind t) (entry_direction e)"
  shows "entry_of (entry_to_row e) r"
proof -
  have "kind_IsValid (t_kind t)" using assms(1) by (simp add: stores_def transaction_wf_def)
  moreover have "moved_money r" using assms(1,7,8) by (simp add: stores_moved_money)
  ultimately show ?thesis
    using assms(3-6,9)
    by (auto simp: entry_of_def stores_sel [OF assms(1)] kind_IsValid_def kind_direction_ok_def)
qed

lemma books_moved_entries:
  assumes b: "books d" and s: "saved (transactions d) t rs'" and new: "\<And>r. stores r t \<Longrightarrow> entry_of l r"
    and l: "lr_TransactionID l = t_id t"
  shows "entries_inv (d\<lparr>transactions := rs', wallets := ws, entries := entries d @ [l], outbox := os\<rparr>)"
    (is "entries_inv ?d")
proof -
  note inv = b [unfolded books_def]
  obtain r where r: "r \<in> set rs'" "stores r t" using s by (auto simp: saved_def)
  have old: "\<exists>q \<in> set (transactions d). entry_of m q" if "m \<in> set (entries d)" for m
    using inv that by (simp add: entries_inv_def)
  show ?thesis
    unfolding entries_inv_def
  proof (intro conjI ballI impI)
    have "lr_TransactionID m \<noteq> t_id t" if "m \<in> set (entries d)" for m
      using old [OF that] saved_new_id [OF s] by (metis entry_of_def)
    then have "t_id t \<notin> lr_TransactionID ` set (entries d)" by force
    then show "distinct (map lr_TransactionID (entries ?d))"
      using inv l by (simp add: entries_inv_def)
  next
    fix m assume "m \<in> set (entries ?d)"
    then consider "m = l" | "m \<in> set (entries d)" by auto
    then show "\<exists>q \<in> set (transactions ?d). entry_of m q"
    proof cases
      case 1
      with r new show ?thesis by auto
    next
      case 2
      with old obtain q where "q \<in> set (transactions d)" "entry_of m q" by blast
      then have "q \<in> set rs'" using s by (auto simp: entry_of_def intro: saved_moved)
      with \<open>entry_of m q\<close> show ?thesis by auto
    qed
  next
    fix q assume "q \<in> set (transactions ?d)" and m: "moved_money q"
    then have "stores q t \<or> q \<in> set (transactions d)" using s by (auto simp: saved_def)
    with m show "\<exists>m \<in> set (entries ?d). entry_of m q"
      using inv new by (auto simp: entries_inv_def)
  qed
qed

lemma books_moved:
  assumes b: "books d" and s: "saved (transactions d) t rs'"
    and w: "wallet_to_row w \<in> set (wallets d)" "wallet_wf w" "wallet_iso w" "t_walletID t = w_id w"
    and mv: "movement w (t_amount t) (t_id t) dir at i e w'"
    and st: "t_state t = StateProcessed" "t_kind t \<noteq> KindLoss" "t_kind t \<noteq> KindOpening"
      "t_resultBalance t = Some (w_balance w')" "kind_direction_ok (t_kind t) dir"
    and v: "1 \<le> sint (w_version w')"
  shows "books (d\<lparr>transactions := rs',
    wallets := map (\<lambda>r. if wr_ID r = w_id w then wallet_to_row w' else r) (wallets d),
    entries := entries d @ [entry_to_row e], outbox := os\<rparr>)" (is "books ?d")
proof -
  note inv = b [unfolded books_def]
  have dist: "distinct (map tr_ID (transactions d))" using inv by (simp add: transactions_inv_def)
  have distw: "distinct (map wr_ID (wallets d))" using inv by (simp add: wallets_inv_def)
  have e: "entry_wf e" "entry_walletID e = w_id w" "entry_transactionID e = t_id t"
    "entry_direction e = dir" "entry_amount e = t_amount t" "entry_balanceBefore e = w_balance w"
    "entry_balanceAfter e = w_balance w'" "w_id w' = w_id w" "w_version w' = w_version w + 1"
    using mv by (simp_all add: movement_def)
  have "w_version w \<noteq> MaxInt64" using v e(9) by (auto simp: MaxInt64_def)
  from movement_wf [OF mv w(2) this] have w': "wallet_wf w'" "sint (w_version w') = sint (w_version w) + 1"
    by simp_all
  have iso': "wallet_iso w'"
    using w(3) movement_balance [OF mv] by (simp add: wallet_iso_def wallet_Currency_def money_like_def)
  have ids: "map wr_ID (wallets ?d) = map wr_ID (wallets d)" using e(8) by simp
  have rowE: "r = wallet_to_row w" if "r \<in> set (wallets d)" "wr_ID r = w_id w" for r
    using distinct_key_unique [OF distw that(1) w(1)] that(2) by simp
  have "wallets_inv ?d"
    unfolding wallets_inv_def ids using inv w' iso' by (auto simp: wallets_inv_def)
  moreover have "transactions_inv ?d"
  proof (rule saved_transactions_inv [OF _ s])
    show "t_walletID t \<in> wr_ID ` set (wallets d)" using w(1,4) by (metis image_eqI wallet_to_row_sel(1))
    show "wr_ID ` set (wallets ?d) = wr_ID ` set (wallets d)"
      using arg_cong [OF ids, of set] by (simp only: set_map)
  qed (use inv in simp_all)
  moreover have "entries_inv ?d"
    using b s by (rule books_moved_entries) (use e st w(4) in \<open>auto intro: entry_of_new\<close>)
  moreover have ents: "wallet_entries ?d j = wallet_entries d j @ (if j = w_id w then [entry_to_row e] else [])" for j
    by (simp add: wallet_entries_def e(2))
  have "balances_inv ?d"
    unfolding balances_inv_def
  proof
    fix r assume "r \<in> set (wallets ?d)"
    then obtain q where q: "q \<in> set (wallets d)" "r = (if wr_ID q = w_id w then wallet_to_row w' else q)" by auto
    have c: "chain 0 (wallet_entries d (wr_ID q)) (sint (wr_BalanceMinor q))"
      using inv q(1) by (simp add: balances_inv_def)
    show "chain 0 (wallet_entries ?d (wr_ID r)) (sint (wr_BalanceMinor r))"
    proof (cases "wr_ID q = w_id w")
      case True
      with q(1) have "q = wallet_to_row w" by (rule rowE)
      with c True q(2) show ?thesis
        using entry_row_arithmetic(2) [OF e(1)]
        by (auto simp: ents chain_append e(6-8) intro!: exI [of _ "sint (minorUnits (w_balance w))"])
    next
      case False
      with c q(2) show ?thesis by (simp add: ents)
    qed
  qed
  moreover have "versions_inv ?d"
  proof -
    have o: "is_opening ?d l = is_opening d l" if "l \<in> set (entries d)" for l
      using saved_is_opening [OF s _ that dist] inv by simp
    have "\<not> is_opening ?d (entry_to_row e)"
    proof
      assume "is_opening ?d (entry_to_row e)"
      then obtain q where q: "q \<in> set rs'" "tr_ID q = t_id t" "tr_Kind q = ''OPENING''"
        by (auto simp: is_opening_def e(3))
      then have "stores q t" using s by (auto simp: saved_def)
      then have "kind_String (t_kind t) = ''OPENING''" "kind_IsValid (t_kind t)"
        using q(3) stores_sel [of q t] by (auto simp: transaction_wf_def)
      with st(3) show False by (auto simp: kind_IsValid_def)
    qed
    moreover have "filter (\<lambda>l. \<not> is_opening ?d l) (wallet_entries d j)
        = filter (\<lambda>l. \<not> is_opening d l) (wallet_entries d j)" for j
      using o by (intro filter_cong) (auto simp: wallet_entries_def)
    ultimately have cnt: "count_rows (\<lambda>l. \<not> is_opening ?d l) (wallet_entries ?d j)
        = count_rows (\<lambda>l. \<not> is_opening d l) (wallet_entries d j) + (if j = w_id w then 1 else 0)" for j
      by (simp add: count_rows_def ents)
    show ?thesis
      unfolding versions_inv_def
    proof
      fix r assume "r \<in> set (wallets ?d)"
      then obtain q where q: "q \<in> set (wallets d)" "r = (if wr_ID q = w_id w then wallet_to_row w' else q)" by auto
      have c: "sint (wr_Version q) = 1 + int (count_rows (\<lambda>l. \<not> is_opening d l) (wallet_entries d (wr_ID q)))"
        using inv q(1) by (simp add: versions_inv_def)
      show "sint (wr_Version r) = 1 + int (count_rows (\<lambda>l. \<not> is_opening ?d l) (wallet_entries ?d (wr_ID r)))"
      proof (cases "wr_ID q = w_id w")
        case True
        with q(1) have "q = wallet_to_row w" by (rule rowE)
        with c True q(2) w'(2) show ?thesis by (simp add: cnt e(8))
      next
        case False
        with c q(2) show ?thesis by (simp add: cnt)
      qed
    qed
  qed
  ultimately show ?thesis by (simp add: books_def)
qed

text \<open>A new wallet: alone when it opens empty, with its OPENING and its credit otherwise.\<close>

lemma books_no_entries:
  assumes "books d" and "i \<notin> wr_ID ` set (wallets d)"
  shows "wallet_entries d i = []"
proof -
  have "lr_WalletID l \<noteq> i" if "l \<in> set (entries d)" for l
    using assms that unfolding books_def entries_inv_def transactions_inv_def by (metis entry_of_def)
  then show ?thesis by (auto simp: wallet_entries_def filter_empty_conv)
qed

lemma books_wallet:
  assumes b: "books d" and w: "wallet_wf w" "wallet_iso w" "w_id w \<notin> wr_ID ` set (wallets d)"
    and z: "minorUnits (w_balance w) = 0" "w_version w = 1"
  shows "books (d\<lparr>wallets := wallets d @ [wallet_to_row w]\<rparr>)" (is "books ?d")
proof -
  note inv = b [unfolded books_def]
  have none: "wallet_entries d (w_id w) = []" by (rule books_no_entries [OF b w(3)])
  have ents: "wallet_entries ?d j = wallet_entries d j" "is_opening ?d = is_opening d" for j
    by (simp_all add: wallet_entries_def is_opening_def fun_eq_iff)
  have "wallets_inv ?d" using inv w by (auto simp: wallets_inv_def)
  moreover have "transactions_inv ?d" using inv by (auto simp: transactions_inv_def)
  moreover have "entries_inv ?d" using inv by (simp add: entries_inv_def)
  moreover have "balances_inv ?d" "versions_inv ?d"
    using inv z none unfolding balances_inv_def versions_inv_def ents by auto
  ultimately show ?thesis by (simp add: books_def)
qed

lemma saved_insert:
  assumes "distinct (map tr_ID rs)" and r: "stores r t" "t_id t \<notin> tr_ID ` set rs"
  shows "saved rs t (rs @ [r])"
proof -
  have "tr_ID q \<noteq> t_id t" if "q \<in> set rs" for q using r(2) that by force
  then show ?thesis using assms(1) r stores_sel(1) [OF r(1)] unfolding saved_def by auto
qed

lemma books_opened:
  assumes b: "books d" and w: "wallet_wf w" "wallet_iso w" "w_id w \<notin> wr_ID ` set (wallets d)" "w_version w = 1"
    and r: "stores r t" "t_id t \<notin> tr_ID ` set (transactions d)"
    and t: "t_kind t = KindOpening" "t_state t = StateProcessed" "t_walletID t = w_id w"
      "t_amount t = w_balance w" "t_resultBalance t = Some (w_balance w)"
    and e: "entry_wf e" "entry_walletID e = w_id w" "entry_transactionID e = t_id t"
      "entry_direction e = Credit" "entry_amount e = w_balance w" "entry_balanceAfter e = w_balance w"
      "minorUnits (entry_balanceBefore e) = 0"
  shows "books (d\<lparr>wallets := wallets d @ [wallet_to_row w], transactions := transactions d @ [r],
    entries := entries d @ [entry_to_row e], outbox := os\<rparr>)" (is "books ?d")
proof -
  note inv = b [unfolded books_def]
  have none: "wallet_entries d (w_id w) = []" by (rule books_no_entries [OF b w(3)])
  have dist: "distinct (map tr_ID (transactions d))" using inv by (simp add: transactions_inv_def)
  have sv: "saved (transactions d) t (transactions d @ [r])" using dist r by (rule saved_insert)
  have ents: "wallet_entries ?d j = wallet_entries d j @ (if j = w_id w then [entry_to_row e] else [])" for j
    by (simp add: wallet_entries_def e(2))
  have old: "wr_ID q \<noteq> w_id w" if "q \<in> set (wallets d)" for q using w(3) that by force
  have "wallets_inv ?d" using inv w by (auto simp: wallets_inv_def)
  moreover have "transactions_inv ?d"
    using inv r stores_sel(1,4) [OF r(1)] t(3) by (auto simp: transactions_inv_def)
  moreover have "entries_inv ?d"
  proof -
    have "entry_of (entry_to_row e) q" if "stores q t" for q
      using that e(1) by (rule entry_of_new) (use e t in \<open>simp_all add: kind_direction_ok_def\<close>)
    from books_moved_entries [OF b sv this, where ws = "wallets d" and os = os] e(3) show ?thesis
      by (simp add: entries_inv_def)
  qed
  moreover have "balances_inv ?d"
    unfolding balances_inv_def
  proof
    fix q assume "q \<in> set (wallets ?d)"
    then consider "q \<in> set (wallets d)" | "q = wallet_to_row w" by auto
    then show "chain 0 (wallet_entries ?d (wr_ID q)) (sint (wr_BalanceMinor q))"
    proof cases
      case 1
      with inv old show ?thesis by (simp add: ents balances_inv_def)
    next
      case 2
      then show ?thesis
        using entry_row_arithmetic(2) [OF e(1)] e(6,7) by (simp add: ents none)
    qed
  qed
  moreover have "versions_inv ?d"
  proof -
    have o: "is_opening ?d l = is_opening d l" if "l \<in> set (entries d)" for l
      using saved_is_opening [OF sv _ that dist] inv by (simp add: is_opening_def)
    have "tr_Kind r = ''OPENING''" using stores_sel(2) [OF r(1)] t(1) by simp
    then have new: "is_opening ?d (entry_to_row e)"
      using stores_sel(1) [OF r(1)] e(3) by (auto simp: is_opening_def)
    have "filter (\<lambda>l. \<not> is_opening ?d l) (wallet_entries d j)
        = filter (\<lambda>l. \<not> is_opening d l) (wallet_entries d j)" for j
      using o by (intro filter_cong) (auto simp: wallet_entries_def)
    then have cnt: "count_rows (\<lambda>l. \<not> is_opening ?d l) (wallet_entries ?d j)
        = count_rows (\<lambda>l. \<not> is_opening d l) (wallet_entries d j)" for j
      using new by (simp add: count_rows_def ents)
    show ?thesis
      using inv w(4) none unfolding versions_inv_def cnt by auto
  qed
  ultimately show ?thesis by (simp add: books_def)
qed

end
