(* ===== verification/Settling.thy ===== *)
theory Settling
  imports Books
begin

text \<open>
  What the use cases that write money did when they committed: the facts about \<open>findReference\<close>,
  \<open>conclude\<close>, \<open>newEvents\<close> and \<open>record\<close> of \<open>usecase/settlement.go\<close>, and that opening a wallet,
  processing an operation and retrying one keep the books.
\<close>

section \<open>Confinement\<close>

lemma reader_refuse_reversed [simp]: "reader (refuse_reversed t r)"
  unfolding refuse_reversed_def by (auto intro!: reader_attempt split: sum.splits)

lemma reader_check_reference [simp]: "reader (check_reference t r)"
  unfolding check_reference_def by (auto split: option.splits sum.splits)

lemma reader_findReference [simp]: "reader (findReference t)"
  unfolding findReference_def by (auto intro!: reader_attempt split: sum.splits)

lemma reader_find_and_apply [simp]: "reader (find_and_apply w t at)"
  unfolding find_and_apply_def
  by (auto intro!: reader_bind split: sum.splits prod.splits)

lemma reader_newEvents [simp]: "reader (newEvents t w e c at)"
  unfolding newEvents_def by (auto intro!: reader_bind split: option.splits)

lemma reader_findReplay [simp]: "reader (findReplay t)"
  unfolding findReplay_def by (auto intro!: reader_bind split: option.splits)

lemma confined_record_settlement [simp]:
  "(\<And>u. confined (save u)) \<Longrightarrow> confined (record_settlement w v t e es save)"
  unfolding record_settlement_def by (auto intro!: confined_rules split: option.splits)

lemma confined_process_in_transaction [simp]: "confined (process_in_transaction t c at)"
  unfolding process_in_transaction_def
  by (auto intro!: confined_rules split: option.splits prod.splits)

lemma confined_retry_in_transaction [simp]: "confined (retry_in_transaction policy p at)"
  unfolding retry_in_transaction_def
  by (auto intro!: confined_rules split: option.splits prod.splits)

lemma confined_open_in_transaction [simp]: "confined (open_in_transaction w c at)"
  unfolding open_in_transaction_def by (auto intro!: confined_rules)

section \<open>The reference\<close>

text \<open>What an operation looks like after \<open>findReference\<close>: at most its reference is resolved.\<close>

definition resolved_from :: "Transaction \<Rightarrow> Transaction \<Rightarrow> bool" where
  "resolved_from t t' \<longleftrightarrow> (\<exists>i. t' = t\<lparr>t_referenceTransactionID := i\<rparr>)"

lemma resolved_from_refl [simp]: "resolved_from t t"
  unfolding resolved_from_def by (rule exI [of _ "t_referenceTransactionID t"]) simp

lemma resolved_from_sel:
  assumes "resolved_from t t'"
  shows "t_id t' = t_id t" "t_kind t' = t_kind t" "t_state t' = t_state t" "t_walletID t' = t_walletID t"
    "t_amount t' = t_amount t" "t_referenceAttempts t' = t_referenceAttempts t"
    "t_providerID t' = t_providerID t" "t_externalTransactionID t' = t_externalTransactionID t"
    "t_idempotencyKey t' = t_idempotencyKey t" "t_payloadHash t' = t_payloadHash t"
    "transaction_wf t' = transaction_wf t"
    "t_referenceExternalTransactionID t' = t_referenceExternalTransactionID t"
proof -
  obtain i where "t' = t\<lparr>t_referenceTransactionID := i\<rparr>" using assms by (auto simp: resolved_from_def)
  then show "t_id t' = t_id t" "t_kind t' = t_kind t" "t_state t' = t_state t" "t_walletID t' = t_walletID t"
    "t_amount t' = t_amount t" "t_referenceAttempts t' = t_referenceAttempts t"
    "t_providerID t' = t_providerID t" "t_externalTransactionID t' = t_externalTransactionID t"
    "t_idempotencyKey t' = t_idempotencyKey t" "t_payloadHash t' = t_payloadHash t"
    "transaction_wf t' = transaction_wf t"
    "t_referenceExternalTransactionID t' = t_referenceExternalTransactionID t"
    by (simp_all add: transaction_wf_defs)
qed

text \<open>The reference \<open>findReference\<close> answers with: stored, concluded, agreeing, not yet reversed.\<close>

definition good_reference :: "db \<Rightarrow> Transaction \<Rightarrow> Transaction option \<Rightarrow> bool" where
  "good_reference d t q \<longleftrightarrow>
     (case q of
        None \<Rightarrow> t_referenceExternalTransactionID t = ''''
      | Some r \<Rightarrow>
          (\<exists>row \<in> set (transactions d). rehydrate_row row = Inr r) \<and>
          t_state r = StateProcessed \<and> t_kind r \<in> set (referableKinds (t_kind t)) \<and>
          t_walletID r = t_walletID t \<and> t_referenceTransactionID t = t_id r \<and>
          (IsReversal (t_kind t) \<longrightarrow> t_amount r = t_amount t \<and>
             \<not> (\<exists>x \<in> set (transactions d). tr_ReferenceTransactionID x = Some (t_id r) \<and> row_reversed x)))"

lemma does_refuse_reversed:
  assumes "does (refuse_reversed t r) w d (q, t') w' d'"
  shows "t' = t \<and> (case q of Inl e \<Rightarrow> True | Inr x \<Rightarrow> x = Some r \<and>
    (IsReversal (t_kind t) \<longrightarrow>
      \<not> (\<exists>y \<in> set (transactions d). tr_ReferenceTransactionID y = Some (t_id r) \<and> row_reversed y)))"
proof (cases "IsReversal (t_kind t)")
  case False
  with assms show ?thesis by (simp add: refuse_reversed_def)
next
  case True
  with assms show ?thesis
    unfolding refuse_reversed_def
    by (simp, elim does_attemptE)
      (auto split: sum.splits if_splits dest!: does_HasProcessedReversal)
qed

lemma does_check_reference:
  assumes "does (check_reference t found) w d (q, t') w' d'"
    and "\<And>r. found = Some r \<Longrightarrow> \<exists>row \<in> set (transactions d). rehydrate_row row = Inr r"
  shows "resolved_from t t' \<and> (case q of Inl e \<Rightarrow> True | Inr r \<Rightarrow> good_reference d t' r)"
proof (cases found)
  case None
  with assms(1) show ?thesis by (simp add: check_reference_def)
next
  case (Some r)
  show ?thesis
  proof (cases "ResolveReference t (Some r)")
    case (Inl e)
    with assms(1) Some show ?thesis by (auto simp: check_reference_def split: if_splits)
  next
    case (Inr u)
    then have u: "resolved_from t u" "t_state r = StateProcessed" "t_kind r \<in> set (referableKinds (t_kind u))"
      "t_walletID r = t_walletID u" "t_referenceTransactionID u = t_id r"
      "IsReversal (t_kind u) \<longrightarrow> t_amount r = t_amount u"
      by (auto simp: ResolveReference_Inr_iff resolved_from_def)
    then have "does (refuse_reversed u r) w d (q, t') w' d'"
      using assms(1) Some Inr by (simp add: check_reference_def IsTerminal_def)
    with u assms(2) [OF Some] show ?thesis
      by (auto dest!: does_refuse_reversed simp: good_reference_def split: sum.splits)
  qed
qed

lemma does_findReference:
  assumes "does (findReference t) w d (q, t') w' d'"
  shows "d' = d \<and> resolved_from t t' \<and> (case q of Inl e \<Rightarrow> True | Inr r \<Rightarrow> good_reference d t' r)"
proof (cases "t_referenceExternalTransactionID t = ''''")
  case True
  with assms show ?thesis by (simp add: findReference_def good_reference_def)
next
  case False
  have d: "d' = d" using does_reader [OF reader_findReference assms] .
  from False assms have "does (attempt (FindByExternalID (t_providerID t) (t_referenceExternalTransactionID t))
      (\<lambda>r. case r of Inl e \<Rightarrow> return_ok (Inl e, t) | Inr found \<Rightarrow> check_reference t found)) w d (q, t') w' d'"
    by (simp add: findReference_def)
  then show ?thesis
  proof (rule does_attemptE)
    fix found w1 d1
    assume f: "does (FindByExternalID (t_providerID t) (t_referenceExternalTransactionID t)) w d found w1 d1"
      and k: "does (case Inr found of Inl e \<Rightarrow> return_ok (Inl e, t) | Inr found \<Rightarrow> check_reference t found)
        w1 d1 (q, t') w' d'"
    have "\<exists>row \<in> set (transactions d). rehydrate_row row = Inr r" if "found = Some r" for r
      using does_transaction_queries(2) [OF f] that find_SomeD by fastforce
    moreover have "d1 = d" using does_transaction_queries(2) [OF f] by blast
    ultimately show ?thesis using k d does_check_reference by simp
  qed (use d in \<open>auto split: sum.splits\<close>)
qed

section \<open>Applying and concluding\<close>

lemma does_find_and_apply:
  assumes "does (find_and_apply w t at) v d (outcome, entry, w', t') v' d'"
  shows "d' = d \<and> resolved_from t t' \<and>
    (case outcome of
       Some e \<Rightarrow> entry = None \<and> w' = w
     | None \<Rightarrow> \<exists>q i. good_reference d t' q \<and> wallet_Apply w (Some t') q at i = Inr (entry, w'))"
proof -
  have d: "d' = d" using does_reader [OF reader_find_and_apply assms] .
  from assms obtain q u v1 d1 where f: "does (findReference t) v d (q, u) v1 d1"
    and k: "does (case q of Inl e \<Rightarrow> return_ok (Some e, None, w, u)
      | Inr q \<Rightarrow> bind_action NewID (\<lambda>i. case wallet_Apply w (Some u) q at i of
          Inl e \<Rightarrow> return_ok (Some e, None, w, u)
        | Inr (entry, w') \<Rightarrow> return_ok (None, entry, w', u))) v1 d1 (outcome, entry, w', t') v' d'"
    unfolding find_and_apply_def
    by (elim does_bindE) (auto intro!: confined_rules split: sum.splits prod.splits)
  note ref = does_findReference [OF f]
  show ?thesis
  proof (cases q)
    case (Inl e)
    with k ref d show ?thesis by simp
  next
    case (Inr r)
    with k obtain i v2 d2 where "does (case wallet_Apply w (Some u) r at i of
          Inl e \<Rightarrow> return_ok (Some e, None, w, u)
        | Inr (entry, w') \<Rightarrow> return_ok (None, entry, w', u)) v2 d2 (outcome, entry, w', t') v' d'"
      by (simp, elim does_bindE) (auto split: sum.splits prod.splits)
    with ref Inr d show ?thesis by (auto split: sum.splits) blast
  qed
qed

lemma conclude_Inr:
  assumes "conclude t w outcome at = Inr t'"
  shows "wager_step t t' \<and>
    (case outcome of
       None \<Rightarrow> money_like (w_balance w) (t_amount t) \<and> at \<noteq> 0 \<and>
         t_state t \<in> {StatePending, StatePendingReference} \<and>
         t' = t\<lparr>t_state := StateProcessed, t_updatedAt := at, t_resultBalance := Some (w_balance w)\<rparr>
     | Some e \<Rightarrow> t_state t' \<in> {StatePendingReference, StateRejected} \<and>
         t_referenceAttempts t' = t_referenceAttempts t)"
  using assms
  by (auto simp: conclude_def mark_iffs split: option.splits if_splits intro: wager_step.intros)

text \<open>The events of a concluded operation: its outcome, then the balance when it moved.\<close>

definition outcome_type :: "State \<Rightarrow> string" where
  "outcome_type s =
     (if s = StatePendingReference then TypeWagerTransactionPendingReference
      else if s = StateRejected then TypeWagerTransactionRejected
      else TypeWagerTransactionProcessed)"

definition events_of :: "Transaction \<Rightarrow> Wallet \<Rightarrow> Entry option \<Rightarrow> string \<Rightarrow> time \<Rightarrow> Event list \<Rightarrow> bool" where
  "events_of t w entry c at es \<longleftrightarrow>
     (\<exists>i. (if t_state t = StatePendingReference
             then NewWagerTransactionPendingReference i (Some t) c at
           else if t_state t = StateRejected then NewWagerTransactionRejected i (Some t) c at
           else NewWagerTransactionProcessed i (Some t) c at) = Inr (hd es)) \<and>
     (case entry of
        None \<Rightarrow> length es = 1
      | Some e \<Rightarrow> length es = 2 \<and> (\<exists>j. NewWalletBalanceChanged j (Some w) (Some e) c at = Inr (es ! 1)))"

lemma does_newEvents:
  assumes "does (newEvents t w entry c at) v d es v' d'"
  shows "d' = d \<and> events_of t w entry c at es"
proof -
  have "d' = d" using does_reader [OF reader_newEvents assms] .
  with assms show ?thesis
    unfolding newEvents_def events_of_def
    by (elim does_bindE) (auto intro!: reader_confined reader_bind split: option.splits elim!: does_bindE)
qed

section \<open>Recording\<close>

lemma does_record_settlement:
  assumes "does (record_settlement w lv t entry es save) v d u v' d'" and "\<And>x. confined (save x)"
  obtains v1 d1 os where "does (save t) v d () v1 d1" and "list_all2 event_row es os"
    and "case entry of
        None \<Rightarrow> d' = d1\<lparr>outbox := outbox d1 @ os\<rparr>
      | Some e \<Rightarrow> \<exists>v2 d2 v3 v4 d3. does (UpdateBalance w lv) v2 d1 () v3 d2 \<and>
          does (LedgerRepository_Append e) v3 d2 () v4 d3 \<and> d' = d3\<lparr>outbox := outbox d3 @ os\<rparr>"
proof -
  from assms(1) obtain v1 d1 v2 d2 where s: "does (save t) v d () v1 d1"
    and m: "does (case entry of None \<Rightarrow> return_ok ()
        | Some e \<Rightarrow> bind_action (UpdateBalance w lv) (\<lambda>_. LedgerRepository_Append e)) v1 d1 () v2 d2"
    and o: "does (OutboxRepository_Append es) v2 d2 u v' d'"
    unfolding record_settlement_def
    by (elim does_bindE) (use assms(2) in \<open>auto intro!: confined_rules split: option.splits\<close>)
  from does_OutboxRepository_Append [OF o] obtain os where "list_all2 event_row es os"
    "d' = d2\<lparr>outbox := outbox d2 @ os\<rparr>" by blast
  then show thesis
    using that [OF s] m by (cases entry) (auto elim!: does_bindE, blast)
qed

section \<open>Saving the operation\<close>

lemma int32_zero [simp]: "from_int32 (to_int32 0) = 0"
  by (simp add: from_int32_def to_int32_def)

lemma sint32_of_int:
  "- 2147483648 \<le> i \<Longrightarrow> i \<le> 2147483647 \<Longrightarrow> sint (word_of_int i :: int32) = i"
  by (simp add: signed_of_int signed_take_bit_int_eq_self)

lemma sint32_succ:
  assumes "0 \<le> sint (x :: int32)" and "0 \<le> sint (x + 1)"
  shows "sint (x + 1) = sint x + 1"
proof -
  have "sint x < 2147483648" using sint_less [of x] by simp
  moreover have "sint x \<noteq> 2147483647"
  proof
    assume "sint x = 2147483647"
    moreover have "word_of_int (sint x) = x" by simp
    ultimately have "x = word_of_int 2147483647" by simp
    with assms(2) show False by simp
  qed
  ultimately have "- 2147483648 \<le> sint x + 1" "sint x + 1 < 2147483648" using assms(1) by simp_all
  then have "sint (word_of_int (sint x + 1) :: int32) = sint x + 1" by (intro sint32_of_int) simp_all
  moreover have "word_of_int (sint x + 1) = x + 1" by simp
  ultimately show ?thesis by (simp only:)
qed

lemma attempt_fits:
  assumes "from_int32 (to_int32 a) = a" and "0 \<le> sint a" and "0 \<le>s to_int32 (a + 1)"
  shows "from_int32 (to_int32 (a + 1)) = a + 1"
proof -
  define x where "x = to_int32 a"
  have a: "a = word_of_int (sint x)" using assms(1) by (simp add: x_def from_int32_def)
  have cast: "to_int32 (word_of_int k) = word_of_int k" for k
    unfolding to_int32_def by transfer simp
  have a1: "a + 1 = word_of_int (sint x + 1)" by (subst a) simp
  then have x1: "to_int32 (a + 1) = x + 1" by (simp only: cast) simp
  have "sint a = sint x"
    unfolding a using sint_less [of x] sint_greater_eq [of x] by (intro sint64_of_int) simp_all
  then have "sint (x + 1) = sint x + 1"
    using sint32_succ [of x] assms(2,3) x1 by (simp add: word_sle_eq)
  then have "a + 1 = word_of_int (sint (x + 1))" using a1 by (simp only:)
  then have "a + 1 = from_int32 (x + 1)" by (simp add: from_int32_def)
  then show ?thesis unfolding x1 by (rule sym)
qed

lemma inserted_operation_row:
  "t_referenceAttempts t = 0 \<Longrightarrow> inserted_transaction now (transaction_to_params t) =
     operation_row t (if tr_State (transaction_to_params t) = ''PENDING_REFERENCE'' then Some now else None)"
  by (simp add: inserted_transaction_def operation_row_def to_int32_def)

text \<open>The first unique index of every table is its primary key.\<close>

lemma admitted_fresh:
  "admit checks ((c, \<lambda>q r. key q = key r) # us) fs others r = Inr () \<Longrightarrow> key r \<notin> key ` set others"
  by (force simp: admit_Inr)

lemma admitted_foreign: "admit checks us ((c, p) # fs) others r = Inr () \<Longrightarrow> p r"
  by (simp add: admit_Inr)

lemma does_Create_stored:
  assumes "does (TransactionRepository_Create t) v d u v' d'" and "distinct (map tr_ID (transactions d))"
    and "transaction_wf t" and "t_referenceAttempts t = 0"
    and "currency_iso4217 (currency_code (currency (t_amount t)))"
  shows "\<exists>r. stores r t \<and> t_id t \<notin> tr_ID ` set (transactions d) \<and>
    t_walletID t \<in> wr_ID ` set (wallets d) \<and> d' = d\<lparr>transactions := transactions d @ [r]\<rparr> \<and>
    saved (transactions d) t (transactions d @ [r]) \<and>
    (\<forall>(name, clash) \<in> set transaction_uniques. \<forall>q \<in> set (transactions d). \<not> clash q r)"
proof -
  from does_TransactionRepository_Create [OF assms(1)] obtain now rs where
    ins: "insert_row transaction_checks transaction_uniques (transaction_foreign d)
      (inserted_transaction now (transaction_to_params t)) (transactions d) = Inr rs"
    and rs: "d' = d\<lparr>transactions := rs\<rparr>" by blast
  define n where "n = (if tr_State (transaction_to_params t) = ''PENDING_REFERENCE'' then Some now else None)"
  have adm: "admit transaction_checks transaction_uniques (transaction_foreign d) (transactions d)
      (operation_row t n) = Inr ()" and d': "d' = d\<lparr>transactions := transactions d @ [operation_row t n]\<rparr>"
    using ins rs unfolding inserted_operation_row [OF assms(4)] n_def [symmetric] insert_row_Inr by simp_all
  have st: "stores (operation_row t n) t" using assms(3-5) by (simp add: stores_def)
  have fresh: "t_id t \<notin> tr_ID ` set (transactions d)"
    using admitted_fresh [OF adm [unfolded transaction_uniques_def]] by simp
  have "t_walletID t \<in> wr_ID ` set (wallets d)"
    using admitted_foreign [OF adm [unfolded transaction_foreign_def]] by force
  moreover have "saved (transactions d) t (transactions d @ [operation_row t n])"
    using assms(2) st fresh by (rule saved_insert)
  moreover have "\<forall>(name, clash) \<in> set transaction_uniques. \<forall>q \<in> set (transactions d). \<not> clash q (operation_row t n)"
    using adm unfolding admit_Inr by blast
  ultimately show ?thesis using st fresh d' by blast
qed

lemma updated_operation_row:
  assumes "same_request t0 t"
  shows "updated_pending (pending_params t at) (operation_row t0 n) =
    operation_row t (up_NextAttemptAt (pending_params t at))"
  using assms
  by (simp add: updated_pending_def operation_row_def transaction_to_params_def pending_params_def
      same_request_def)

lemma does_Update_saved:
  assumes upd: "does (UpdatePendingReference t at) v d u v' d'" and b: "books d"
    and row: "row0 \<in> set (transactions d)" "rehydrate_row row0 = Inr t0"
    and same: "same_request t0 t" and wf: "transaction_wf t"
    and att: "t_referenceAttempts t = t_referenceAttempts t0 \<or> t_referenceAttempts t = t_referenceAttempts t0 + 1"
  shows "\<exists>r rs'. stores r t \<and> rs' = map (\<lambda>q. if tr_ID q = t_id t then r else q) (transactions d) \<and>
    d' = d\<lparr>transactions := rs'\<rparr> \<and> saved (transactions d) t rs' \<and>
    tr_State row0 = ''PENDING_REFERENCE'' \<and> tr_ID row0 = t_id t \<and>
    (\<forall>(name, clash) \<in> set transaction_uniques. \<forall>q \<in> set (transactions d). tr_ID q \<noteq> t_id t \<longrightarrow> \<not> clash q r)"
proof -
  let ?P = "\<lambda>r. tr_ID r = t_id t \<and> tr_State r = ''PENDING_REFERENCE''"
  let ?f = "updated_pending (pending_params t at)"
  let ?n = "up_NextAttemptAt (pending_params t at)"
  have dist: "distinct (map tr_ID (transactions d))" using b by (simp add: books_def transactions_inv_def)
  obtain x where "stores row0 x" using b row(1) by (auto simp: books_def transactions_inv_def)
  with row(2) have st0: "stores row0 t0" using stores_unique by blast
  then have id0: "tr_ID row0 = t_id t" using same stores_sel(1) by (simp add: same_request_def)
  from does_UpdatePendingReference [OF upd] obtain r where
    find: "List.find ?P (transactions d) = Some r" and
    adm: "admit transaction_checks transaction_uniques (transaction_foreign d)
      (filter (\<lambda>r. \<not> ?P r) (transactions d)) (?f r) = Inr ()" and
    d': "d' = d\<lparr>transactions := update_rows ?P ?f (transactions d)\<rparr>" by blast
  from find_SomeD [OF find] have r: "r \<in> set (transactions d)" "?P r" by auto
  then have r0: "r = row0" using distinct_key_unique [OF dist r(1) row(1)] id0 by simp
  have P: "?P q \<longleftrightarrow> tr_ID q = t_id t" if "q \<in> set (transactions d)" for q
    using distinct_key_unique [OF dist that r(1)] r(2) by auto
  have new: "?f row0 = operation_row t ?n"
    using updated_operation_row [OF same] st0 unfolding stores_def by metis
  have "0 \<le>s to_int32 (t_referenceAttempts t)"
    using adm unfolding r0 new by (simp add: admit_Inr transaction_checks_def)
  moreover have "0 \<le> sint (t_referenceAttempts t0)" using stores_sel(9) [OF st0] by (simp add: transaction_wf_def)
  moreover have "from_int32 (to_int32 (t_referenceAttempts t0)) = t_referenceAttempts t0"
    using st0 by (simp add: stores_def)
  ultimately have "from_int32 (to_int32 (t_referenceAttempts t)) = t_referenceAttempts t"
    using att attempt_fits [of "t_referenceAttempts t0"] by metis
  moreover have "currency_iso4217 (currency_code (currency (t_amount t)))"
    using st0 same by (simp add: stores_def same_request_def)
  ultimately have st: "stores (operation_row t ?n) t" using wf by (simp add: stores_def)
  define rs' where "rs' = update_rows ?P ?f (transactions d)"
  have rs': "rs' = map (\<lambda>q. if tr_ID q = t_id t then operation_row t ?n else q) (transactions d)"
    unfolding rs'_def update_rows_def
  proof (rule map_cong [OF refl])
    fix q assume q: "q \<in> set (transactions d)"
    then have "tr_ID q = t_id t \<Longrightarrow> q = row0"
      using distinct_key_unique [OF dist q row(1)] id0 by simp
    with P [OF q] new show "(if ?P q then ?f q else q) = (if tr_ID q = t_id t then operation_row t ?n else q)"
      by auto
  qed
  have "map tr_ID rs' = map tr_ID (transactions d)" unfolding rs' by simp
  then have "saved (transactions d) t rs'"
    unfolding saved_def
  proof (intro conjI)
    show "\<exists>r \<in> set rs'. stores r t" unfolding rs' using st row(1) id0 by force
    show "\<forall>q \<in> set rs'. stores q t \<or> q \<in> set (transactions d) \<and> tr_ID q \<noteq> t_id t"
      unfolding rs' using st by auto
    show "\<forall>q \<in> set (transactions d). if tr_ID q = t_id t then tr_State q = ''PENDING_REFERENCE'' else q \<in> set rs'"
      unfolding rs' using P by (auto simp: image_iff)
  qed (use dist in simp)
  moreover have "\<forall>(name, clash) \<in> set transaction_uniques. \<forall>q \<in> set (transactions d).
      tr_ID q \<noteq> t_id t \<longrightarrow> \<not> clash q (operation_row t ?n)"
    using adm unfolding r0 new admit_Inr by fastforce
  moreover have "d' = d\<lparr>transactions := rs'\<rparr>" using d' by (simp add: rs'_def)
  ultimately show ?thesis using st rs' r r0 by blast
qed

section \<open>The books are kept\<close>

text \<open>
  What \<open>Execute\<close> and \<open>retry\<close> decide for an operation \<open>t\<close> on the wallet \<open>w\<close> they loaded: it is
  processed, with the entry and the wallet \<open>Apply\<close> gave, or it waits or is rejected and nothing
  moves.
\<close>

definition decided :: "db \<Rightarrow> Wallet \<Rightarrow> Transaction \<Rightarrow> time \<Rightarrow> Transaction \<Rightarrow> Entry option \<Rightarrow> Wallet \<Rightarrow> bool" where
  "decided d w t at t'' entry w' \<longleftrightarrow>
     (\<exists>t'. resolved_from t t' \<and> wager_step t' t'' \<and>
        ((\<exists>q i. good_reference d t' q \<and> wallet_Apply w (Some t') q at i = Inr (entry, w')) \<and>
           t'' = t'\<lparr>t_state := StateProcessed, t_updatedAt := at, t_resultBalance := Some (w_balance w')\<rparr>
         \<or> t_state t'' \<in> {StatePendingReference, StateRejected} \<and> entry = None \<and> w' = w))"

lemma decided_request:
  assumes "decided d w t at t'' entry w'" and "transaction_wf t"
  shows "same_request t t'' \<and> transaction_wf t''"
proof -
  obtain t' where "resolved_from t t'" and step: "wager_step t' t''"
    using assms(1) by (auto simp: decided_def)
  then have "same_request t t'" "transaction_wf t'"
    using assms(2) resolved_from_sel(11) by (auto simp: resolved_from_def same_request_def)
  with step wager_step_same_request [OF step] wager_step_keeps_wf [OF step] show ?thesis
    by (auto intro: same_request_trans)
qed

lemma decided_moves:
  assumes "decided d w t at t'' (Some e) w'"
  shows "\<exists>dir i. movement w (t_amount t'') (t_id t'') dir at i e w' \<and> t_state t'' = StateProcessed \<and>
    t_walletID t'' = w_id w \<and> t_kind t'' \<noteq> KindLoss \<and> t_resultBalance t'' = Some (w_balance w') \<and>
    (t_kind t'' \<noteq> KindOpening \<longrightarrow> kind_direction_ok (t_kind t'') dir)"
proof -
  obtain t' q i where app: "wallet_Apply w (Some t') q at i = Inr (Some e, w')"
    and t'': "t'' = t'\<lparr>t_state := StateProcessed, t_updatedAt := at, t_resultBalance := Some (w_balance w')\<rparr>"
    using assms by (auto simp: decided_def)
  then obtain dir where "operation_direction t' q = Some dir" "movement w (t_amount t') (t_id t') dir at i e w'"
    "t_walletID t' = w_id w"
    using wallet_Apply_Inr [OF app] by (auto simp: operation_fits_def split: option.splits)
  then show ?thesis
    unfolding t'' by (intro exI [of _ dir] exI [of _ i])
      (auto simp: operation_direction_def kind_direction_ok_def split: if_splits)
qed

lemma decided_still:
  assumes "decided d w t at t'' None w'"
  shows "\<not> (t_state t'' = StateProcessed \<and> t_kind t'' \<noteq> KindLoss)"
proof (cases "t_state t'' = StateProcessed")
  case True
  then obtain t' q i where app: "wallet_Apply w (Some t') q at i = Inr (None, w')"
    and t'': "t'' = t'\<lparr>t_state := StateProcessed, t_updatedAt := at, t_resultBalance := Some (w_balance w')\<rparr>"
    using assms by (auto simp: decided_def)
  then show ?thesis
    using wallet_Apply_Inr [OF app] by (auto simp: operation_direction_def split: option.splits if_splits)
qed simp

text \<open>The wallet row after the update, when the books held.\<close>

lemma does_UpdateBalance_row:
  assumes upd: "does (UpdateBalance w' (w_version w)) v d u v' d'"
    and dist: "distinct (map wr_ID (wallets d))" and row: "wallet_to_row w \<in> set (wallets d)"
    and mv: "movement w m tid dir at i e w'"
  shows "d' = d\<lparr>wallets := map (\<lambda>r. if wr_ID r = w_id w then wallet_to_row w' else r) (wallets d)\<rparr> \<and>
    1 \<le> sint (w_version w')"
proof -
  have w': "w_id w' = w_id w" "w_playerID w' = w_playerID w" "w_createdAt w' = w_createdAt w"
    "wallet_Currency w' = wallet_Currency w"
    using mv movement_balance [OF mv] by (simp_all add: movement_def money_like_def wallet_Currency_def)
  let ?P = "\<lambda>r. wr_ID r = w_id w \<and> wr_Version r = w_version w"
  let ?f = "\<lambda>r. r\<lparr>wr_BalanceMinor := minorUnits (w_balance w'), wr_Version := w_version w',
    wr_UpdatedAt := w_updatedAt w'\<rparr>"
  have new: "?f (wallet_to_row w) = wallet_to_row w'"
    using w' by (simp add: wallet_to_row_def)
  from does_UpdateBalance [OF upd] obtain r rs where
    find: "List.find ?P (wallets d) = Some r" and
    ur: "update_row wallet_checks wallet_uniques [] ?P ?f (wallets d) = Inr (count_rows ?P (wallets d), rs)"
    and d': "d' = d\<lparr>wallets := rs\<rparr>" using w'(1) by auto
  have "r = wallet_to_row w"
    using find_SomeD [OF find] distinct_key_unique [OF dist _ row] by simp
  then have "admit wallet_checks wallet_uniques [] (filter (\<lambda>q. \<not> ?P q) (wallets d)) (wallet_to_row w') = Inr ()"
    and rs: "rs = update_rows ?P ?f (wallets d)"
    using ur find new by (auto simp: update_row_Inr)
  then have "1 \<le> sint (w_version w')" by (simp add: admit_Inr wallet_checks_def sle64)
  with d' rs update_wallet_rows [OF dist row, of ?f] new show ?thesis by simp
qed

text \<open>The database after a settlement whose operation was saved as \<open>rs\<close>.\<close>

lemma settled_books:
  assumes b: "books d" and s: "saved (transactions d) t'' rs"
    and w: "wallet_to_row w \<in> set (wallets d)" "wallet_wf w" "wallet_iso w"
    and t: "t_walletID t'' \<in> wr_ID ` set (wallets d)" "t_kind t'' \<noteq> KindOpening"
    and dec: "decided d0 w t at t'' entry w'"
    and eff: "case entry of
        None \<Rightarrow> d' = d\<lparr>transactions := rs, outbox := os\<rparr>
      | Some e \<Rightarrow> d' = d\<lparr>transactions := rs,
            wallets := map (\<lambda>r. if wr_ID r = w_id w then wallet_to_row w' else r) (wallets d),
            entries := entries d @ [entry_to_row e], outbox := os\<rparr> \<and> 1 \<le> sint (w_version w')"
  shows "books d'"
proof (cases entry)
  case None
  then show ?thesis using books_saved [OF b s t(1) decided_still] dec eff by simp
next
  case (Some e)
  then obtain dir i where mv: "movement w (t_amount t'') (t_id t'') dir at i e w'" and
    "t_state t'' = StateProcessed" "t_kind t'' \<noteq> KindLoss" "t_resultBalance t'' = Some (w_balance w')"
    "kind_direction_ok (t_kind t'') dir" and own: "t_walletID t'' = w_id w"
    using decided_moves dec t(2) by blast
  then show ?thesis
    using books_moved [OF b s w own mv] t(2) eff Some by simp
qed

lemma does_record_books:
  assumes r: "does (record_settlement w' (w_version w) t'' entry es save) v d u v' d'"
    and conf: "\<And>x. confined (save x)"
    and sv: "\<forall>v v1 d1. does (save t'') v d () v1 d1 \<longrightarrow>
      (\<exists>rs. d1 = d\<lparr>transactions := rs\<rparr> \<and> saved (transactions d) t'' rs)"
    and b: "books d" and w: "wallet_to_row w \<in> set (wallets d)"
    and dec: "decided d0 w t at t'' entry w'"
  shows "\<exists>rs os. saved (transactions d) t'' rs \<and> list_all2 event_row es os \<and>
    (case entry of
        None \<Rightarrow> d' = d\<lparr>transactions := rs, outbox := outbox d @ os\<rparr>
      | Some e \<Rightarrow> d' = d\<lparr>transactions := rs,
            wallets := map (\<lambda>r. if wr_ID r = w_id w then wallet_to_row w' else r) (wallets d),
            entries := entries d @ [entry_to_row e], outbox := outbox d @ os\<rparr> \<and> 1 \<le> sint (w_version w'))"
proof -
  obtain v1 d1 os where s: "does (save t'') v d () v1 d1" and es: "list_all2 event_row es os"
    and m: "case entry of
        None \<Rightarrow> d' = d1\<lparr>outbox := outbox d1 @ os\<rparr>
      | Some e \<Rightarrow> \<exists>v2 d2 v3 v4 d3. does (UpdateBalance w' (w_version w)) v2 d1 () v3 d2 \<and>
          does (LedgerRepository_Append e) v3 d2 () v4 d3 \<and> d' = d3\<lparr>outbox := outbox d3 @ os\<rparr>"
    by (rule does_record_settlement [OF r conf])
  obtain rs where d1: "d1 = d\<lparr>transactions := rs\<rparr>" and sd: "saved (transactions d) t'' rs"
    using sv s by blast
  show ?thesis
  proof (cases entry)
    case None
    with m d1 sd es show ?thesis by auto
  next
    case (Some e)
    then obtain v2 d2 v3 v4 d3 where u: "does (UpdateBalance w' (w_version w)) v2 d1 () v3 d2"
      and a: "does (LedgerRepository_Append e) v3 d2 () v4 d3" and d': "d' = d3\<lparr>outbox := outbox d3 @ os\<rparr>"
      using m by auto
    obtain dir i where mv: "movement w (t_amount t'') (t_id t'') dir at i e w'"
      using decided_moves dec Some by blast
    have "distinct (map wr_ID (wallets d1))" "wallet_to_row w \<in> set (wallets d1)"
      using b w d1 by (simp_all add: books_def wallets_inv_def)
    from does_UpdateBalance_row [OF u this mv] does_LedgerRepository_Append [OF a] d' d1 sd es Some
    show ?thesis by (auto simp: insert_row_Inr)
  qed
qed

section \<open>Processing an operation\<close>

lemma does_findReplay:
  assumes "does (findReplay t) v d p v' d'"
  shows "d' = d \<and>
    (case p of
       Some u \<Rightarrow> t_payloadHash u = t_payloadHash t \<and>
         (\<exists>row. List.find (\<lambda>r. tr_ProviderID r = Some (t_providerID t) \<and>
            tr_IdempotencyKey r = Some (t_idempotencyKey t)) (transactions d) = Some row \<and> rehydrate_row row = Inr u)
     | None \<Rightarrow>
         List.find (\<lambda>r. tr_ProviderID r = Some (t_providerID t) \<and>
            tr_IdempotencyKey r = Some (t_idempotencyKey t)) (transactions d) = None \<and>
         List.find (\<lambda>r. tr_ProviderID r = Some (t_providerID t) \<and>
            tr_ExternalTransactionID r = Some (t_externalTransactionID t)) (transactions d) = None)"
proof -
  have d: "d' = d" using does_reader [OF reader_findReplay assms] .
  from assms obtain q v1 d1 where f: "does (FindByIdempotencyKey (t_providerID t) (t_idempotencyKey t)) v d q v1 d1"
    and k: "does (case q of
         Some p \<Rightarrow>
           if t_payloadHash p \<noteq> t_payloadHash t
             then raise_err (ConflictError FailureCodeIdempotencyConflict)
           else return_ok (Some p)
       | None \<Rightarrow>
           bind_action (FindByExternalID (t_providerID t) (t_externalTransactionID t)) (\<lambda>found.
             case found of
               Some _ \<Rightarrow> raise_err (ConflictError FailureCodeIdempotencyConflict)
             | None \<Rightarrow> return_ok None)) v1 d1 p v' d'"
    unfolding findReplay_def
    by (elim does_bindE) (auto intro!: confined_rules split: option.splits)
  note key = does_transaction_queries(1) [OF f]
  show ?thesis
  proof (cases q)
    case (Some u)
    with k d key show ?thesis by (auto split: if_splits)
  next
    case None
    with k obtain x v2 d2 where e: "does (FindByExternalID (t_providerID t) (t_externalTransactionID t)) v1 d1 x v2 d2"
      and "x = None \<and> p = None"
      by (simp, elim does_bindE) (auto split: option.splits)
    with None d key does_transaction_queries(2) [OF e] show ?thesis by auto
  qed
qed

text \<open>
  What a committed \<open>Execute\<close> did: answer with the recorded operation and change nothing, or
  decide the new one and record it with its events and, when money moved, the wallet and the entry.
\<close>

definition replayed :: "db \<Rightarrow> Transaction \<Rightarrow> WagerResult \<Rightarrow> bool" where
  "replayed d t r \<longleftrightarrow>
     (\<exists>p row. r = newWagerResult p True \<and> t_payloadHash p = t_payloadHash t \<and>
        List.find (\<lambda>q. tr_ProviderID q = Some (t_providerID t) \<and>
          tr_IdempotencyKey q = Some (t_idempotencyKey t)) (transactions d) = Some row \<and>
        rehydrate_row row = Inr p)"

definition recorded ::
  "db \<Rightarrow> Wallet \<Rightarrow> Transaction \<Rightarrow> Entry option \<Rightarrow> Wallet \<Rightarrow> string \<Rightarrow> time \<Rightarrow> db \<Rightarrow> bool" where
  "recorded d w t'' entry w' c at d' \<longleftrightarrow>
     (\<exists>es rs os. events_of t'' w' entry c at es \<and> list_all2 event_row es os \<and> saved (transactions d) t'' rs \<and>
        (case entry of
           None \<Rightarrow> d' = d\<lparr>transactions := rs, outbox := outbox d @ os\<rparr>
         | Some e \<Rightarrow> d' = d\<lparr>transactions := rs,
               wallets := map (\<lambda>r. if wr_ID r = w_id w then wallet_to_row w' else r) (wallets d),
               entries := entries d @ [entry_to_row e], outbox := outbox d @ os\<rparr> \<and> 1 \<le> sint (w_version w')))"

definition applied :: "db \<Rightarrow> Transaction \<Rightarrow> string \<Rightarrow> time \<Rightarrow> WagerResult \<Rightarrow> db \<Rightarrow> bool" where
  "applied d t c at r d' \<longleftrightarrow>
     (\<exists>w t'' entry w'. wallet_to_row w \<in> set (wallets d) \<and> wallet_wf w \<and> wallet_iso w \<and>
        w_id w = t_walletID t \<and> decided d w t at t'' entry w' \<and> r = newWagerResult t'' False \<and>
        recorded d w t'' entry w' c at d' \<and>
        (\<forall>q \<in> set (transactions d). tr_ProviderID q = Some (t_providerID t) \<longrightarrow>
           tr_IdempotencyKey q \<noteq> Some (t_idempotencyKey t) \<and>
           tr_ExternalTransactionID q \<noteq> Some (t_externalTransactionID t)))"

lemma resolved_attempts: "resolved_from t t' \<Longrightarrow> wager_step t' t'' \<Longrightarrow> t_state t = StatePending \<Longrightarrow>
    t_referenceAttempts t'' = t_referenceAttempts t"
proof -
  assume "resolved_from t t'" "wager_step t' t''" "t_state t = StatePending"
  then have "t_state t' = StatePending" "t_referenceAttempts t' = t_referenceAttempts t"
    using resolved_from_sel by metis+
  with \<open>wager_step t' t''\<close> show ?thesis
    by cases (auto simp: mark_iffs elim!: RecordMissingReference_cases)
qed

lemma decided_intro:
  assumes "resolved_from t t'" and "conclude t' w' outcome at = Inr t''"
    and "case outcome of
       Some e \<Rightarrow> entry = None \<and> w' = w
     | None \<Rightarrow> \<exists>q i. good_reference d t' q \<and> wallet_Apply w (Some t') q at i = Inr (entry, w')"
  shows "decided d w t at t'' entry w'"
  unfolding decided_def
  by (rule exI [of _ t']) (use assms conclude_Inr [OF assms(2)] in \<open>auto split: option.splits\<close>)

lemma does_process:
  assumes run: "does (process_in_transaction t c at) v d r v' d'" and b: "books d"
    and t: "transaction_wf t" "t_state t = StatePending" "t_referenceAttempts t = 0"
    and iso: "currency_iso4217 (currency_code (currency (t_amount t)))"
  shows "d' = d \<and> replayed d t r \<or> applied d t c at r d'"
proof -
  from run obtain w v1 d1 p v2 d2 where g: "does (GetForUpdate (t_walletID t)) v d w v1 d1"
    and f: "does (findReplay t) v1 d1 p v2 d2"
    and k: "does (case p of Some p \<Rightarrow> return_ok (newWagerResult p True)
       | None \<Rightarrow>
           bind_action (find_and_apply w t at) (\<lambda>(outcome, entry, w', t').
           bind_action (of_result (conclude t' w' outcome at)) (\<lambda>t''.
           bind_action (newEvents t'' w' entry c at) (\<lambda>events.
           bind_action (record_settlement w' (w_version w) t'' entry events TransactionRepository_Create)
             (\<lambda>_. return_ok (newWagerResult t'' False)))))) v2 d2 r v' d'"
    unfolding process_in_transaction_def
    by (elim does_bindE) (auto intro!: confined_rules split: option.splits prod.splits)
  from does_wallet_queries(1) [OF g] obtain row where d1: "d1 = d"
    and row: "List.find (\<lambda>r. wr_ID r = t_walletID t) (wallets d) = Some row" "rehydrateWallet row = Inr w" by blast
  have w: "wallet_to_row w \<in> set (wallets d)" "w_id w = t_walletID t" "wallet_wf w" "wallet_iso w"
    using books_find_wallet [OF b row] by auto
  note rep = does_findReplay [OF f]
  have d2: "d2 = d" using rep d1 by simp
  show ?thesis
  proof (cases p)
    case (Some u)
    with k rep d1 d2 show ?thesis unfolding replayed_def by auto
  next
    case None
    with k d2 obtain outcome entry w' t' v3 d3 t'' v4 d4 es v5 d5 v6 d6 where
      fa: "does (find_and_apply w t at) v2 d (outcome, entry, w', t') v3 d3" and
      con: "conclude t' w' outcome at = Inr t''" "d4 = d3" and
      ev: "does (newEvents t'' w' entry c at) v4 d4 es v5 d5" and
      rec: "does (record_settlement w' (w_version w) t'' entry es TransactionRepository_Create) v5 d5 () v6 d6" and
      res: "r = newWagerResult t'' False" "d' = d6"
      by (auto elim!: does_bindE intro!: confined_rules split: prod.splits)
    note fa' = does_find_and_apply [OF fa] and ev' = does_newEvents [OF ev]
    have dec: "decided d w t at t'' entry w'" using decided_intro con(1) fa' by blast
    have t'': "transaction_wf t''" "same_request t t''" using decided_request [OF dec t(1)] by auto
    have att: "t_referenceAttempts t'' = 0"
      using fa' conclude_Inr [OF con(1)] resolved_attempts t(2,3) by metis
    have dist: "distinct (map tr_ID (transactions d))" using b by (simp add: books_def transactions_inv_def)
    have sv: "\<forall>x y d1'. does (TransactionRepository_Create t'') x d () y d1' \<longrightarrow>
        (\<exists>rs. d1' = d\<lparr>transactions := rs\<rparr> \<and> saved (transactions d) t'' rs)"
    proof (intro allI impI)
      fix x y d1' assume "does (TransactionRepository_Create t'') x d () y d1'"
      from does_Create_stored [OF this dist t''(1) att] iso t''(2)
      show "\<exists>rs. d1' = d\<lparr>transactions := rs\<rparr> \<and> saved (transactions d) t'' rs"
        unfolding same_request_def by metis
    qed
    have "d5 = d" "events_of t'' w' entry c at es" using fa' ev' con(2) by simp_all
    with does_record_books [OF rec [unfolded \<open>d5 = d\<close>] confined_repositories(4) sv b w(1) dec]
    have "recorded d w t'' entry w' c at d'"
      unfolding recorded_def res(2) by blast
    moreover have "\<forall>q \<in> set (transactions d). tr_ProviderID q = Some (t_providerID t) \<longrightarrow>
         tr_IdempotencyKey q \<noteq> Some (t_idempotencyKey t) \<and>
         tr_ExternalTransactionID q \<noteq> Some (t_externalTransactionID t)"
      using rep None d1 by (auto simp: find_None_iff)
    ultimately show ?thesis using w dec res(1) unfolding applied_def by blast
  qed
qed

lemma applied_books:
  assumes "applied d t c at r d'" and "books d" and "transaction_wf t" and "t_kind t \<noteq> KindOpening"
  shows "books d'"
proof -
  obtain w t'' entry w' where w: "wallet_to_row w \<in> set (wallets d)" "wallet_wf w" "wallet_iso w"
    "w_id w = t_walletID t" and dec: "decided d w t at t'' entry w'" and rec: "recorded d w t'' entry w' c at d'"
    using assms(1) unfolding applied_def by blast
  have "t_walletID t'' \<in> wr_ID ` set (wallets d)" "t_kind t'' \<noteq> KindOpening"
    using decided_request [OF dec assms(3)] w(1,4) assms(4)
    by (auto simp: same_request_def) (metis image_eqI wallet_to_row_sel(1))
  with rec show ?thesis
    unfolding recorded_def using settled_books [OF assms(2) _ w(1-3) _ _ dec] by blast
qed

section \<open>Retrying an operation\<close>

definition retried :: "db \<Rightarrow> environment \<Rightarrow> PendingReference \<Rightarrow> time \<Rightarrow> State \<Rightarrow> db \<Rightarrow> bool" where
  "retried d E p at s d' \<longleftrightarrow>
     (\<exists>t row w t'' entry w'.
        List.find (\<lambda>r. tr_ID r = pr_TransactionID p) (transactions d) = Some row \<and> rehydrate_row row = Inr t \<and>
        t_state t = StatePendingReference \<and> wallet_to_row w \<in> set (wallets d) \<and> wallet_wf w \<and> wallet_iso w \<and>
        decided d w t at t'' entry w' \<and> s = t_state t'' \<and>
        (if s = StatePendingReference
         then entry = None \<and> (\<exists>rs. saved (transactions d) t'' rs \<and> d' = d\<lparr>transactions := rs\<rparr>)
         else recorded d w t'' entry w' (retry_correlation E (t_id t'')) at d'))"

text \<open>What \<open>retry\<close> does with the outcome: another attempt is counted when the reference is still missing.\<close>

definition retry_outcome :: "ReferenceRetryPolicy \<Rightarrow> Transaction \<Rightarrow> Wallet \<Rightarrow> err option \<Rightarrow> time \<Rightarrow> err + Transaction" where
  "retry_outcome policy t w outcome at =
     (case outcome of
        None \<Rightarrow> conclude t w None at
      | Some e \<Rightarrow>
          if errors_Is e (Sentinel ErrReferencePending)
            then (case RecordMissingReference t (rp_MaxAttempts policy) at of
                    (Inl x, _) \<Rightarrow> Inl x
                  | (Inr _, t'') \<Rightarrow> Inr t'')
          else conclude t w (Some e) at)"

lemma retry_outcome_Inr:
  assumes "retry_outcome policy t' w' outcome at = Inr t''"
    and "case outcome of
       Some e \<Rightarrow> entry = None \<and> w' = w
     | None \<Rightarrow> \<exists>q i. good_reference d t' q \<and> wallet_Apply w (Some t') q at i = Inr (entry, w')"
    and "resolved_from t t'"
  shows "decided d w t at t'' entry w' \<and>
    (t_referenceAttempts t'' = t_referenceAttempts t \<or> t_referenceAttempts t'' = t_referenceAttempts t + 1)"
proof (cases "\<exists>e. outcome = Some e \<and> errors_Is e (Sentinel ErrReferencePending)")
  case True
  then obtain u where r: "RecordMissingReference t' (rp_MaxAttempts policy) at = (Inr u, t'')"
    and en: "entry = None" "w' = w"
    using assms(1,2) by (auto simp: retry_outcome_def split: prod.splits sum.splits)
  then have "wager_step t' t''" by (auto intro: wager_step.missing)
  moreover have "t_state t'' \<in> {StatePendingReference, StateRejected} \<and>
      t_referenceAttempts t'' = t_referenceAttempts t' + 1"
    using r by (cases rule: RecordMissingReference_cases) auto
  ultimately show ?thesis
    using assms(3) en resolved_from_sel(6) [OF assms(3)] unfolding decided_def by auto
next
  case False
  then have c: "conclude t' w' outcome at = Inr t''"
    using assms(1) by (auto simp: retry_outcome_def split: option.splits if_splits)
  have "t_referenceAttempts t'' = t_referenceAttempts t'"
    using conclude_Inr [OF c] by (auto split: option.splits)
  with decided_intro [OF assms(3) c assms(2)] resolved_from_sel(6) [OF assms(3)] show ?thesis by simp
qed

lemma does_retry:
  assumes run: "does (retry_in_transaction policy p at) v d s v' d'" and b: "books d"
  shows "d' = d \<or> retried d (env v) p at s d'"
proof -
  from run obtain w v1 d1 found v2 d2 where g: "does (GetForUpdate (pr_WalletID p)) v d w v1 d1"
    and f: "does (FindByID (pr_TransactionID p)) v1 d1 found v2 d2"
    and k: "does (case found of
         None \<Rightarrow> return_ok (OtherState '''')
       | Some t \<Rightarrow>
           if t_state t \<noteq> StatePendingReference then return_ok (t_state t)
           else
             bind_action (find_and_apply w t at) (\<lambda>(outcome, entry, w', t').
             bind_action (of_result (retry_outcome policy t' w' outcome at)) (\<lambda>t''.
             if t_state t'' = StatePendingReference
               then bind_action (UpdatePendingReference t''
                   (time_Add at (policy_delay policy (t_referenceAttempts t''))))
                 (\<lambda>_. return_ok (t_state t''))
             else
               bind_action (\<lambda>v. (Inr (retry_correlation (env v) (t_id t'')), v)) (\<lambda>correlationID.
               bind_action (newEvents t'' w' entry correlationID at) (\<lambda>events.
               bind_action (record_settlement w' (w_version w) t'' entry events
                   (\<lambda>u. UpdatePendingReference u zero_time))
                 (\<lambda>_. return_ok (t_state t''))))))) v2 d2 s v' d'"
    unfolding retry_in_transaction_def retry_outcome_def [symmetric]
    by (elim does_bindE) (auto intro!: confined_rules split: option.splits prod.splits)
  from does_wallet_queries(1) [OF g] obtain wrow where d1: "d1 = d"
    and wrow: "List.find (\<lambda>r. wr_ID r = pr_WalletID p) (wallets d) = Some wrow" "rehydrateWallet wrow = Inr w" by blast
  have w: "wallet_to_row w \<in> set (wallets d)" "wallet_wf w" "wallet_iso w"
    using books_find_wallet [OF b wrow] by auto
  have env2: "env v2 = env v" using does_env [OF g] does_env [OF f] by simp
  note fnd = does_transaction_queries(3) [OF f]
  have d2: "d2 = d" using fnd d1 by simp
  show ?thesis
  proof (cases "\<exists>t. found = Some t \<and> t_state t = StatePendingReference")
    case False
    with k d2 show ?thesis by (auto split: option.splits if_splits)
  next
    case True
    then obtain t row where t: "found = Some t" "t_state t = StatePendingReference"
      and row: "List.find (\<lambda>r. tr_ID r = pr_TransactionID p) (transactions d) = Some row" "rehydrate_row row = Inr t"
      using fnd d1 by auto
    have mem: "row \<in> set (transactions d)" using find_SomeD [OF row(1)] by simp
    then obtain t0 where "stores row t0" using b by (auto simp: books_def transactions_inv_def)
    then have wf: "transaction_wf t" using stores_unique row(2) stores_sel(9) by blast
    from k t d2 obtain outcome entry w' t' v3 d3 t'' v4 d4 where
      fa: "does (find_and_apply w t at) v2 d (outcome, entry, w', t') v3 d3" and
      out: "retry_outcome policy t' w' outcome at = Inr t''" "d4 = d3" "v4 = v3" and
      rest: "does (if t_state t'' = StatePendingReference
               then bind_action (UpdatePendingReference t''
                   (time_Add at (policy_delay policy (t_referenceAttempts t''))))
                 (\<lambda>_. return_ok (t_state t''))
             else
               bind_action (\<lambda>v. (Inr (retry_correlation (env v) (t_id t'')), v)) (\<lambda>correlationID.
               bind_action (newEvents t'' w' entry correlationID at) (\<lambda>events.
               bind_action (record_settlement w' (w_version w) t'' entry events
                   (\<lambda>u. UpdatePendingReference u zero_time))
                 (\<lambda>_. return_ok (t_state t''))))) v4 d4 s v' d'"
      by (auto elim!: does_bindE intro!: confined_rules split: prod.splits if_splits)
    note fa' = does_find_and_apply [OF fa]
    have dec: "decided d w t at t'' entry w'" and
      att: "t_referenceAttempts t'' = t_referenceAttempts t \<or> t_referenceAttempts t'' = t_referenceAttempts t + 1"
      using retry_outcome_Inr [OF out(1)] fa' by blast+
    note req = decided_request [OF dec wf]
    have sv: "\<forall>x y d1'. does (UpdatePendingReference t'' nx) x d () y d1' \<longrightarrow>
        (\<exists>rs. d1' = d\<lparr>transactions := rs\<rparr> \<and> saved (transactions d) t'' rs)" for nx
      using does_Update_saved [OF _ b mem row(2) _ _ att] req by blast
    have d4: "d4 = d" using fa' out by simp
    have "if s = StatePendingReference
         then entry = None \<and> (\<exists>rs. saved (transactions d) t'' rs \<and> d' = d\<lparr>transactions := rs\<rparr>)
         else recorded d w t'' entry w' (retry_correlation (env v) (t_id t'')) at d'" and "s = t_state t''"
    proof -
      show s: "s = t_state t''"
        using rest by (auto elim!: does_bindE intro!: confined_rules split: if_splits)
      show "if s = StatePendingReference
         then entry = None \<and> (\<exists>rs. saved (transactions d) t'' rs \<and> d' = d\<lparr>transactions := rs\<rparr>)
         else recorded d w t'' entry w' (retry_correlation (env v) (t_id t'')) at d'"
      proof (cases "t_state t'' = StatePendingReference")
        case True
        have "entry = None" using dec True by (cases entry) (auto dest: decided_moves)
        moreover from rest True d4 obtain y d5 where
          "does (UpdatePendingReference t'' (time_Add at (policy_delay policy (t_referenceAttempts t'')))) v4 d () y d5" "d' = d5"
          by (auto elim!: does_bindE)
        ultimately show ?thesis using sv s True by simp blast
      next
        case False
        with rest d4 obtain c v5 d5 es v6 d6 v7 d7 where
          c: "does (\<lambda>v. (Inr (retry_correlation (env v) (t_id t'')), v)) v4 d c v5 d5" and
          ev: "does (newEvents t'' w' entry c at) v5 d5 es v6 d6" and
          rec: "does (record_settlement w' (w_version w) t'' entry es (\<lambda>u. UpdatePendingReference u zero_time)) v6 d6 () v7 d7"
          and "d' = d7"
          by (auto elim!: does_bindE intro!: confined_rules)
        have "d5 = d" "c = retry_correlation (env v) (t_id t'')"
          using c does_env [OF fa] env2 out(3) by (auto simp: does_def)
        with does_newEvents [OF ev] have "d6 = d" "events_of t'' w' entry (retry_correlation (env v) (t_id t'')) at es"
          by simp_all
        with does_record_books [OF rec [unfolded \<open>d6 = d\<close>] confined_repositories(6) sv b w(1) dec] \<open>d' = d7\<close> s False
        show ?thesis unfolding recorded_def by auto
      qed
    qed
    with row t w dec show ?thesis unfolding retried_def by blast
  qed
qed

lemma retried_books:
  assumes "retried d E p at s d'" and b: "books d"
  shows "books d'"
proof -
  obtain t row w t'' entry w' where row: "List.find (\<lambda>r. tr_ID r = pr_TransactionID p) (transactions d) = Some row"
    "rehydrate_row row = Inr t" "t_state t = StatePendingReference"
    and w: "wallet_to_row w \<in> set (wallets d)" "wallet_wf w" "wallet_iso w"
    and dec: "decided d w t at t'' entry w'"
    and d': "if s = StatePendingReference
         then entry = None \<and> (\<exists>rs. saved (transactions d) t'' rs \<and> d' = d\<lparr>transactions := rs\<rparr>)
         else recorded d w t'' entry w' (retry_correlation E (t_id t'')) at d'"
    using assms(1) unfolding retried_def by blast
  have mem: "row \<in> set (transactions d)" using find_SomeD [OF row(1)] by simp
  then obtain t0 where "stores row t0" using b by (auto simp: books_def transactions_inv_def)
  then have st: "stores row t" using stores_unique row(2) by blast
  have wf: "transaction_wf t" by (rule stores_sel(9) [OF st])
  have "t_walletID t'' = tr_WalletID row" "t_kind t'' = t_kind t"
    using decided_request [OF dec wf] stores_sel(4) [OF st] by (simp_all add: same_request_def)
  moreover have "t_kind t \<noteq> KindOpening" using open_state_wf [OF wf] row(3) by simp
  ultimately have own: "t_walletID t'' \<in> wr_ID ` set (wallets d)" "t_kind t'' \<noteq> KindOpening"
    using b mem by (simp_all add: books_def transactions_inv_def)
  show ?thesis
  proof (cases "s = StatePendingReference")
    case True
    with d' obtain rs where "saved (transactions d) t'' rs" "d' = d\<lparr>transactions := rs\<rparr>" "entry = None" by auto
    with books_saved [OF b _ own(1), of rs "outbox d"] decided_still [of d w t at t'' w'] dec show ?thesis by simp
  next
    case False
    with d' show ?thesis
      unfolding recorded_def using settled_books [OF b _ w own dec] by auto
  qed
qed

section \<open>Opening a wallet\<close>

lemma OpeningLedgerEntry_Inr:
  assumes "OpeningLedgerEntry w tid at j = Inr e"
  shows "entry_wf e \<and> entry_walletID e = w_id w \<and> entry_transactionID e = tid \<and> entry_direction e = Credit \<and>
    entry_amount e = w_balance w \<and> entry_balanceAfter e = w_balance w \<and> minorUnits (entry_balanceBefore e) = 0"
proof -
  obtain z where "money_Zero (wallet_Currency w) = Inr z"
    and new: "NewEntry j (w_id w) tid Credit (w_balance w) z (w_balance w) at = Inr e"
    using assms by (auto simp: OpeningLedgerEntry_def split: if_splits)
  then have "minorUnits z = 0" by (simp add: money_Zero_def)
  with new show ?thesis by (auto simp: NewEntry_Inr_iff)
qed

definition opened :: "db \<Rightarrow> Wallet \<Rightarrow> string \<Rightarrow> time \<Rightarrow> db \<Rightarrow> bool" where
  "opened d w c at d' \<longleftrightarrow>
     wallet_iso w \<and> w_id w \<notin> wr_ID ` set (wallets d) \<and>
     (\<forall>r \<in> set (wallets d). \<not> (wr_PlayerID r = w_playerID w \<and> wr_Currency r = currency_code (wallet_Currency w))) \<and>
     (if money_IsPositive (w_balance w)
      then \<exists>i opening r j e es os. NewOpening i (w_id w) (w_playerID w) (w_balance w) at = Inr opening \<and>
         OpeningLedgerEntry w (t_id opening) at j = Inr e \<and> stores r opening \<and>
         t_id opening \<notin> tr_ID ` set (transactions d) \<and>
         events_of opening w (Some e) c at es \<and> list_all2 event_row es os \<and>
         d' = d\<lparr>wallets := wallets d @ [wallet_to_row w], transactions := transactions d @ [r],
            entries := entries d @ [entry_to_row e], outbox := outbox d @ os\<rparr>
      else d' = d\<lparr>wallets := wallets d @ [wallet_to_row w]\<rparr>)"

lemma opened_books:
  assumes "opened d w c at d'" and b: "books d" and w: "wallet_wf w" "w_version w = 1"
  shows "books d'"
proof (cases "money_IsPositive (w_balance w)")
  case False
  then have "minorUnits (w_balance w) = 0"
    using w(1) by (simp add: wallet_wf_def money_sign_readings money_reading_def)
  with False assms show ?thesis by (simp add: opened_def books_wallet)
next
  case True
  with assms(1) obtain i otx r j e os where new: "NewOpening i (w_id w) (w_playerID w) (w_balance w) at = Inr otx"
    and e: "OpeningLedgerEntry w (t_id otx) at j = Inr e" and r: "stores r otx"
    "t_id otx \<notin> tr_ID ` set (transactions d)" and iso: "wallet_iso w" "w_id w \<notin> wr_ID ` set (wallets d)"
    and d': "d' = d\<lparr>wallets := wallets d @ [wallet_to_row w], transactions := transactions d @ [r],
            entries := entries d @ [entry_to_row e], outbox := outbox d @ os\<rparr>"
    unfolding opened_def by auto
  have "t_kind otx = KindOpening" "t_state otx = StateProcessed" "t_walletID otx = w_id w"
    "t_amount otx = w_balance w" "t_resultBalance otx = Some (w_balance w)"
    using new by (auto simp: NewOpening_def)
  with OpeningLedgerEntry_Inr [OF e] show ?thesis
    unfolding d' using books_opened [OF b w(1) iso w(2) r] by simp
qed

lemma does_open:
  assumes run: "does (open_in_transaction w c at) v d u v' d'" and b: "books d" and w: "wallet_wf w"
  shows "opened d w c at d'"
proof -
  from run obtain v1 d1 where cr: "does (WalletRepository_Create w) v d () v1 d1"
    and k: "does (if \<not> money_IsPositive (w_balance w) then return_ok ()
       else
         bind_action NewID (\<lambda>i.
         bind_action (of_result (NewOpening i (w_id w) (w_playerID w) (w_balance w) at)) (\<lambda>otx.
         bind_action (TransactionRepository_Create otx) (\<lambda>_.
         bind_action NewID (\<lambda>j.
         bind_action (of_result (OpeningLedgerEntry w (t_id otx) at j)) (\<lambda>credit.
         bind_action (LedgerRepository_Append credit) (\<lambda>_.
         bind_action NewID (\<lambda>k.
         bind_action (of_result (NewWagerTransactionProcessed k (Some otx) c at)) (\<lambda>processed.
         bind_action NewID (\<lambda>l.
         bind_action (of_result (NewWalletBalanceChanged l (Some w) (Some credit) c at)) (\<lambda>balanceChanged.
         OutboxRepository_Append [processed, balanceChanged]))))))))))) v1 d1 u v' d'"
    unfolding open_in_transaction_def
    by (elim does_bindE) (auto intro!: confined_rules)
  from does_WalletRepository_Create [OF cr] have
    adm: "admit wallet_checks wallet_uniques [] (wallets d) (wallet_to_row w) = Inr ()"
    and d1: "d1 = d\<lparr>wallets := wallets d @ [wallet_to_row w]\<rparr>"
    by (auto simp: insert_row_Inr)
  have base: "wallet_iso w" "w_id w \<notin> wr_ID ` set (wallets d)"
    "\<forall>r \<in> set (wallets d). \<not> (wr_PlayerID r = w_playerID w \<and> wr_Currency r = currency_code (wallet_Currency w))"
    using adm admitted_fresh [OF adm [unfolded wallet_uniques_def]]
    by (simp_all add: admit_Inr wallet_checks_def wallet_uniques_def wallet_iso_def)
  show ?thesis
  proof (cases "money_IsPositive (w_balance w)")
    case False
    with k base d1 show ?thesis by (simp add: opened_def)
  next
    case True
    have idle: "d2 = d1'" if "does NewID x d1' i y d2" for x d1' i y d2
      using that by (rule does_reader [OF reader_basic(5)])
    from k True obtain i otx x1 x2 e2 j credit x3 x4 e4 processed balanceChanged k1 l x5 where
      new: "NewOpening i (w_id w) (w_playerID w) (w_balance w) at = Inr otx" and
      tc: "does (TransactionRepository_Create otx) x1 d1 () x2 e2" and
      en: "OpeningLedgerEntry w (t_id otx) at j = Inr credit" and
      la: "does (LedgerRepository_Append credit) x3 e2 () x4 e4" and
      ev: "NewWagerTransactionProcessed k1 (Some otx) c at = Inr processed"
        "NewWalletBalanceChanged l (Some w) (Some credit) c at = Inr balanceChanged" and
      ob: "does (OutboxRepository_Append [processed, balanceChanged]) x5 e4 u v' d'"
      by (simp, elim does_bindE) (auto intro!: confined_rules dest!: idle)
    have op: "t_kind otx = KindOpening" "t_state otx = StateProcessed" "t_amount otx = w_balance w"
      "t_referenceAttempts otx = 0"
      using new by (auto simp: NewOpening_def)
    have b1: "distinct (map tr_ID (transactions d1))" using b d1 by (simp add: books_def transactions_inv_def)
    have "currency_iso4217 (currency_code (currency (t_amount otx)))"
      using base(1) op by (simp add: wallet_iso_def wallet_Currency_def)
    from does_Create_stored [OF tc b1 NewOpening_wf [OF new] op(4) this] obtain r where
      r: "stores r otx" "t_id otx \<notin> tr_ID ` set (transactions d1)"
      "e2 = d1\<lparr>transactions := transactions d1 @ [r]\<rparr>" by blast
    from does_LedgerRepository_Append [OF la] have e4: "e4 = e2\<lparr>entries := entries e2 @ [entry_to_row credit]\<rparr>"
      by (auto simp: insert_row_Inr)
    from does_OutboxRepository_Append [OF ob] obtain os where
      os: "list_all2 event_row [processed, balanceChanged] os" "d' = e4\<lparr>outbox := outbox e4 @ os\<rparr>" by blast
    have "events_of otx w (Some credit) c at [processed, balanceChanged]"
      using ev op(2) by (auto simp: events_of_def)
    moreover have "d' = d\<lparr>wallets := wallets d @ [wallet_to_row w], transactions := transactions d @ [r],
        entries := entries d @ [entry_to_row credit], outbox := outbox d @ os\<rparr>"
      using r(3) os(2) e4 d1 by simp
    moreover have "t_id otx \<notin> tr_ID ` set (transactions d)" using r(2) d1 by simp
    ultimately show ?thesis
      unfolding opened_def using True base new en r(1) os(1) by (simp only: simp_thms if_True) blast
  qed
qed

end
