(* ===== verification/Reads.thy ===== *)
theory Reads
  imports Settlement
begin

text \<open>
  \<open>internal/usecase/read_transaction.go\<close> and \<open>read_wallet.go\<close>: the queries, which run in a
  transaction but change nothing.
\<close>

section \<open>read_transaction.go\<close>

definition find_for_provider :: "string \<Rightarrow> Transaction option action \<Rightarrow> Transaction action" where
  "find_for_provider providerID lookup =
     WithinTransaction (bind_action lookup (\<lambda>found.
       case found of
         None \<Rightarrow> raise_err (NotFoundError FailureCodeTransactionNotFound)
       | Some t \<Rightarrow>
           if t_providerID t \<noteq> providerID then raise_err (NotFoundError FailureCodeTransactionNotFound)
           else return_ok t))"

definition ReadTransaction_ByID :: "string \<Rightarrow> ID \<Rightarrow> Transaction action" where
  "ReadTransaction_ByID providerID transactionID = find_for_provider providerID (FindByID transactionID)"

definition ReadTransaction_ByExternalID :: "string \<Rightarrow> string \<Rightarrow> Transaction action" where
  "ReadTransaction_ByExternalID providerID externalTransactionID =
     find_for_provider providerID (FindByExternalID providerID externalTransactionID)"

section \<open>read_wallet.go\<close>

definition defaultLedgerPageSize :: int64 where "defaultLedgerPageSize = 50"
definition maxLedgerPageSize :: int64 where "maxLedgerPageSize = 200"

record LedgerPage =
  lp_Entries :: "Entry list"
  lp_NextCursor :: "LedgerCursor option"

record ReconciliationResult =
  rr_WalletID :: ID
  rr_Stored :: Money
  rr_Calculated :: Money
  rr_Difference :: Money
  rr_Consistent :: bool
  rr_CheckedEntries :: int64

definition ReadWallet_Wallet :: "ID \<Rightarrow> Wallet action" where
  "ReadWallet_Wallet walletID = WithinTransaction (WalletRepository_Find walletID)"

text \<open>A page holds one entry less than what was read when there is a next page.\<close>

definition cut_page :: "int64 \<Rightarrow> Entry list \<Rightarrow> LedgerPage" where
  "cut_page limit es =
     (if nat (sint limit) < length es
      then let last_entry = es ! (nat (sint limit) - 1) in
        \<lparr>lp_Entries = take (nat (sint limit)) es,
         lp_NextCursor = Some (entry_createdAt last_entry, entry_id last_entry)\<rparr>
      else \<lparr>lp_Entries = es, lp_NextCursor = None\<rparr>)"

definition ReadWallet_Ledger :: "ID \<Rightarrow> LedgerCursor option \<Rightarrow> int64 \<Rightarrow> LedgerPage action" where
  "ReadWallet_Ledger walletID cursor limit =
     (if limit <s 0 \<or> maxLedgerPageSize <s limit
      then raise_err (ValidationError FailureCodeInvalidInput)
      else let size = (if limit = 0 then defaultLedgerPageSize else limit) in
        WithinTransaction (
          bind_action (WalletRepository_Find walletID) (\<lambda>_.
          bind_action (LedgerRepository_Page walletID cursor (size + 1)) (\<lambda>es.
          return_ok (cut_page size es)))))"

definition ReadWallet_Reconcile :: "ID \<Rightarrow> ReconciliationResult action" where
  "ReadWallet_Reconcile walletID =
     bind_action (WithinTransaction (
       bind_action (WalletRepository_Reconcile walletID) (\<lambda>r.
       bind_action (of_result (money_Sub (rc_Stored r) (rc_Calculated r))) (\<lambda>difference.
       return_ok \<lparr>rr_WalletID = walletID, rr_Stored = rc_Stored r, rr_Calculated = rc_Calculated r,
         rr_Difference = difference, rr_Consistent = money_IsZero difference,
         rr_CheckedEntries = rc_CheckedEntries r\<rparr>)))) (\<lambda>result.
     bind_action (record_metric (ReconciliationChecked (rr_Consistent result)))
       (\<lambda>_. return_ok result))"

end
