(* ===== verification/History.thy ===== *)
theory History
  imports Settling Messages Reads
begin

text \<open>
  What every commit may do to the database, whatever the use case: a locale for relations that
  each writing statement of \<open>sqlcgen\<close> respects, under which every repository, unit of work and
  use case respects them too; interpreted on the constraints of the schema, which always hold, and
  on history: nothing recorded is lost, changed after it is final, or reassigned.
\<close>

section \<open>Actions that move the database along a relation\<close>

definition moves :: "(db \<Rightarrow> db \<Rightarrow> bool) \<Rightarrow> 'a action \<Rightarrow> bool" where
  "moves R m \<longleftrightarrow>
     (\<forall>w d ab r w'. tx w = Some (d, ab) \<longrightarrow> m w = (r, w') \<longrightarrow>
        (\<exists>d' ab'. tx w' = Some (d', ab') \<and> R d d'))"

lemma movesI:
  assumes "\<And>w d ab r w'. tx w = Some (d, ab) \<Longrightarrow> m w = (r, w') \<Longrightarrow> \<exists>d' ab'. tx w' = Some (d', ab') \<and> R d d'"
  shows "moves R m"
  using assms unfolding moves_def by blast

lemma movesD: "moves R m \<Longrightarrow> tx w = Some (d, ab) \<Longrightarrow> m w = (r, w') \<Longrightarrow> \<exists>d' ab'. tx w' = Some (d', ab') \<and> R d d'"
  unfolding moves_def by blast

lemma does_moves: "moves R m \<Longrightarrow> does m w d a w' d' \<Longrightarrow> R d d'"
  unfolding moves_def does_def by fastforce

lemma moves_WithinTransaction: "moves R m \<Longrightarrow> moves R (WithinTransaction m)"
  by (rule movesI) (auto simp: WithinTransaction_def dest: movesD)

text \<open>A statement that respects a relation.\<close>

definition writes :: "(db \<Rightarrow> db \<Rightarrow> bool) \<Rightarrow> 'a sql \<Rightarrow> bool" where
  "writes R f \<longleftrightarrow> (\<forall>s d a d'. f s d = Inr (a, d') \<longrightarrow> R d d')"

locale change =
  fixes R :: "db \<Rightarrow> db \<Rightarrow> bool"
  assumes stay: "R d d" and trans: "R d e \<Longrightarrow> R e f \<Longrightarrow> R d f"
    and wallet_statements: "writes R (InsertWallet x)" "writes R (UpdateWalletBalance u)"
    and transaction_statements: "writes R (InsertWagerTransaction t)"
      "writes R (LeasePendingReferences_sql a b n)" "writes R (UpdatePendingReference_sql p)"
    and ledger_statements: "writes R (InsertLedgerEntry l)"
    and outbox_statements: "writes R (InsertOutboxEvent o')" "writes R (LeasePendingOutboxEvents a b n)"
      "writes R (MarkOutboxEventPublished i a)" "writes R (RescheduleOutboxEvent i n a)"
    and inbox_statements: "writes R (InsertInboxMessage m h i)"
begin

lemma reader_moves: "reader m \<Longrightarrow> moves R m"
  by (rule movesI) (metis reader_def stay)

lemma moves_attempt:
  assumes "moves R m" and "\<And>r. moves R (f r)"
  shows "moves R (attempt m f)"
proof (rule movesI)
  fix w d ab r w'
  assume w: "tx w = Some (d, ab)" and run: "attempt m f w = (r, w')"
  obtain q w1 where m: "m w = (q, w1)" by fastforce
  obtain d1 ab1 where w1: "tx w1 = Some (d1, ab1)" "R d d1" using movesD [OF assms(1) w m] by blast
  have "f q w1 = (r, w')" using run m by (simp add: attempt_def)
  from movesD [OF assms(2) w1(1) this] w1(2) trans
  show "\<exists>d' ab'. tx w' = Some (d', ab') \<and> R d d'" by blast
qed

lemma moves_bind: "moves R m \<Longrightarrow> (\<And>a. moves R (f a)) \<Longrightarrow> moves R (bind_action m f)"
  unfolding bind_action_def
  by (intro moves_attempt) (auto intro: reader_moves split: sum.splits)

lemma moves_statement: "writes R f \<Longrightarrow> moves R (statement f)"
  by (rule movesI)
    (auto simp: statement_def next_call_def writes_def stay
      split: if_splits option.splits sum.splits prod.splits)

lemma moves_translated: "moves R m \<Longrightarrow> moves R (translated m)"
  unfolding translated_def by (intro moves_attempt) (auto intro: reader_moves split: sum.splits)

lemmas moves_rules = moves_bind moves_attempt moves_translated moves_statement
  wallet_statements transaction_statements ledger_statements outbox_statements inbox_statements

lemma moves_repositories:
  "moves R (WalletRepository_Create x)"
  "moves R (UpdateBalance x v)"
  "moves R (TransactionRepository_Create t)"
  "moves R (LeasePendingReferences a b k)"
  "moves R (UpdatePendingReference t a)"
  "moves R (LedgerRepository_Append e)"
  "moves R (LeasePending a b k)"
  "moves R (MarkPublished i a)"
  "moves R (ReschedulePublication i k a)"
  "moves R (InboxRepository_Record msg)"
  unfolding WalletRepository_Create_def UpdateBalance_def
    TransactionRepository_Create_def LeasePendingReferences_def UpdatePendingReference_def
    LedgerRepository_Append_def LeasePending_def MarkPublished_def
    ReschedulePublication_def InboxRepository_Record_def
  by (intro moves_rules reader_moves reader_basic; auto intro: reader_moves split: sum.splits)+

lemma moves_append_event: "moves R (append_event e)"
  unfolding append_event_def by (auto intro!: moves_rules intro: reader_moves split: sum.splits)

lemma moves_append_events: "moves R (append_events es)"
  by (induction es) (auto intro!: moves_rules moves_append_event intro: reader_moves)

lemma moves_OutboxRepository_Append: "moves R (OutboxRepository_Append es)"
  unfolding OutboxRepository_Append_def
  by (auto intro!: moves_rules moves_append_events intro: reader_moves)

lemmas moves_ports = moves_repositories moves_OutboxRepository_Append

lemmas moves_readers = reader_basic [THEN reader_moves] reader_repositories [THEN reader_moves]
  reader_find_and_apply [THEN reader_moves] reader_newEvents [THEN reader_moves]
  reader_findReplay [THEN reader_moves]

lemma moves_record_settlement:
  "(\<And>u. moves R (save u)) \<Longrightarrow> moves R (record_settlement w v t e es save)"
  unfolding record_settlement_def
  by (auto intro!: moves_rules moves_ports moves_readers split: option.splits)

lemma moves_units:
  "moves R (process_in_transaction t c at)"
  "moves R (open_in_transaction w c at)"
  "moves R (retry_in_transaction policy p at)"
  "moves R (record_publication pp rec delivery)"
proof -
  show "moves R (process_in_transaction t c at)"
    unfolding process_in_transaction_def
    by (auto intro!: moves_bind moves_record_settlement moves_ports moves_readers split: option.splits)
  show "moves R (open_in_transaction w c at)"
    unfolding open_in_transaction_def
    by (auto intro!: moves_bind moves_ports moves_readers)
  show "moves R (retry_in_transaction policy p at)"
    unfolding retry_in_transaction_def
    by (auto intro!: moves_bind moves_record_settlement moves_ports moves_readers split: option.splits)
  show "moves R (record_publication pp rec delivery)"
    unfolding record_publication_def
    by (auto intro!: moves_bind moves_ports moves_readers simp: Let_def split: sum.splits)
qed

lemma moves_ProcessWager_Execute: "moves R (ProcessWager_Execute input)"
  unfolding ProcessWager_Execute_def
  by (auto intro!: moves_bind moves_attempt moves_WithinTransaction moves_units
      moves_readers split: sum.splits)

lemma moves_take_in_transaction: "moves R (take_in_transaction message hash)"
  unfolding take_in_transaction_def
  by (auto intro!: moves_bind moves_ProcessWager_Execute moves_ports moves_readers split: option.splits)

text \<open>A unit of work at the top moves what is committed, whatever it answered.\<close>

lemma committed_moves:
  assumes "confined fn" and "moves R fn" and "tx w = None" and "WithinTransaction fn w = (r, w')"
  shows "R (committed w) (committed w')"
  using pg.atomic [OF assms(1,3,4)] does_moves [OF assms(2)] stay
  unfolding all_or_nothing_def by metis

end

section \<open>The constraints of the schema\<close>

definition valid_rows :: "'r checks \<Rightarrow> 'r uniques \<Rightarrow> 'r list \<Rightarrow> bool" where
  "valid_rows checks uniques rs \<longleftrightarrow>
     (\<forall>r \<in> set rs. first_failed checks r = None) \<and>
     (\<forall>(c, clash) \<in> set uniques. sorted_wrt (\<lambda>q r. \<not> clash q r) rs)"

definition symmetric_clashes :: "'r uniques \<Rightarrow> bool" where
  "symmetric_clashes uniques \<longleftrightarrow> (\<forall>(c, clash) \<in> set uniques. \<forall>q r. clash q r \<longrightarrow> clash r q)"

lemma valid_rows_Nil [simp]: "valid_rows checks uniques []"
  by (simp add: valid_rows_def)

lemma insert_row_valid:
  assumes "insert_row checks uniques fs r rs = Inr rs'" and "valid_rows checks uniques rs"
  shows "valid_rows checks uniques rs' \<and> rs' = rs @ [r] \<and> first_failed fs r = None"
  using assms
  by (auto simp: insert_row_Inr admit_Inr valid_rows_def sorted_wrt_append first_failed_None)

text \<open>An update by primary key: the row it picks is the only one.\<close>

lemma find_split:
  assumes "List.find P rs = Some r"
  obtains xs ys where "rs = xs @ r # ys" and "\<forall>x \<in> set xs. \<not> P x" and "P r"
  using assms by (auto simp: find_Some_iff) (metis id_take_nth_drop in_set_conv_nth
      length_take less_imp_le_nat min.absorb2 nth_take order_less_trans that)

lemma update_row_valid:
  assumes "update_row checks uniques fs P f rs = Inr (n, rs')" and v: "valid_rows checks uniques rs"
    and key: "(c, \<lambda>q r. key q = key r) \<in> set uniques" and P: "\<And>q. P q \<Longrightarrow> key q = i"
    and sym: "symmetric_clashes uniques"
  shows "valid_rows checks uniques rs' \<and> (rs' = rs \<or> (\<exists>r xs ys. rs = xs @ r # ys \<and> P r \<and>
    rs' = xs @ f r # ys \<and> first_failed fs (f r) = None \<and> (\<forall>q \<in> set xs \<union> set ys. key q \<noteq> i)))"
proof (cases "List.find P rs")
  case None
  with assms(1) v show ?thesis by (auto simp: update_row_def)
next
  case (Some r)
  obtain xs ys where rs: "rs = xs @ r # ys" and xs: "\<forall>x \<in> set xs. \<not> P x" and r: "P r"
    by (rule find_split [OF Some])
  have "sorted_wrt (\<lambda>q r. key q \<noteq> key r) rs" using v key by (force simp: valid_rows_def)
  then have uniq: "\<forall>q \<in> set xs \<union> set ys. key q \<noteq> i"
    using P [OF r] by (auto simp: rs sorted_wrt_append)
  then have no: "\<forall>q \<in> set xs \<union> set ys. \<not> P q" using P by blast
  then have "update_rows P f rs = xs @ f r # ys"
    using r by (simp add: rs update_rows_def map_idI)
  then have rs': "rs' = xs @ f r # ys" and adm: "admit checks uniques fs (filter (\<lambda>q. \<not> P q) rs) (f r) = Inr ()"
    using assms(1) Some by (auto simp: update_row_def)
  have "filter (\<lambda>q. \<not> P q) rs = xs @ ys" using no r by (simp add: rs filter_id_conv)
  with adm have ok: "first_failed checks (f r) = None" "first_failed fs (f r) = None"
    "\<forall>(c, clash) \<in> set uniques. \<forall>q \<in> set xs \<union> set ys. \<not> clash q (f r)"
    by (auto simp: admit_Inr first_failed_None)
  have "valid_rows checks uniques rs'"
    using v ok sym unfolding valid_rows_def symmetric_clashes_def rs' rs
    by (fastforce simp: sorted_wrt_append)
  with rs rs' r ok(2) uniq show ?thesis by blast
qed

text \<open>An update in place of columns no constraint reads.\<close>

lemma update_rows_valid:
  assumes "valid_rows checks uniques rs"
    and "\<And>r. first_failed checks r = None \<Longrightarrow> first_failed checks (f r) = None"
    and "\<And>c clash q r. (c, clash) \<in> set uniques \<Longrightarrow>
      clash (f q) r = clash q r \<and> clash q (f r) = clash q r"
  shows "valid_rows checks uniques (update_rows P f rs)"
proof -
  have "sorted_wrt (\<lambda>q r. \<not> clash q r) (update_rows P f rs)" if "(c, clash) \<in> set uniques" for c clash
  proof -
    have "sorted_wrt (\<lambda>q r. \<not> clash q r) rs" using assms(1) that by (auto simp: valid_rows_def)
    moreover have "clash (if P q then f q else q) (if P r then f r else r) = clash q r" for q r
      using assms(3) [OF that] by simp
    ultimately show ?thesis by (simp add: update_rows_def sorted_wrt_map)
  qed
  with assms(1,2) show ?thesis by (auto simp: valid_rows_def update_rows_def)
qed

lemma symmetric_schema [simp]:
  "symmetric_clashes wallet_uniques" "symmetric_clashes transaction_uniques"
  "symmetric_clashes ledger_uniques" "symmetric_clashes outbox_uniques" "symmetric_clashes inbox_uniques"
  by (auto simp: symmetric_clashes_def wallet_uniques_def transaction_uniques_def ledger_uniques_def
      outbox_uniques_def inbox_uniques_def same_value_def dest: sym)

definition constraints :: "db \<Rightarrow> bool" where
  "constraints d \<longleftrightarrow>
     valid_rows wallet_checks wallet_uniques (wallets d) \<and>
     valid_rows transaction_checks transaction_uniques (transactions d) \<and>
     valid_rows ledger_checks ledger_uniques (entries d) \<and>
     valid_rows outbox_checks outbox_uniques (outbox d) \<and>
     valid_rows [] inbox_uniques (inbox d) \<and>
     (\<forall>r \<in> set (transactions d). first_failed (transaction_foreign d) r = None) \<and>
     (\<forall>r \<in> set (entries d). first_failed (ledger_foreign d) r = None) \<and>
     (\<forall>r \<in> set (inbox d). first_failed (inbox_foreign d) r = None)"

lemma sorted_wrt_keys: "sorted_wrt (\<lambda>q r. key q \<noteq> key r) rs \<longleftrightarrow> distinct (map key rs)"
  by (induction rs) (auto simp: image_iff)

lemma constraints_keys:
  assumes "constraints d"
  shows "distinct (map wr_ID (wallets d))" "distinct (map tr_ID (transactions d))"
    "distinct (map or_ID (outbox d))" "distinct (map or_Sequence (outbox d))"
  using assms
  by (auto simp: constraints_def valid_rows_def wallet_uniques_def transaction_uniques_def
      outbox_uniques_def sorted_wrt_keys)

lemma foreign_None:
  "first_failed (transaction_foreign d) r = None \<longleftrightarrow> tr_WalletID r \<in> wr_ID ` set (wallets d) \<and>
     (\<forall>i. tr_ReferenceTransactionID r = Some i \<longrightarrow> i = tr_ID r \<or> i \<in> tr_ID ` set (transactions d))"
  "first_failed (ledger_foreign d) l = None \<longleftrightarrow>
     lr_WalletID l \<in> wr_ID ` set (wallets d) \<and> lr_TransactionID l \<in> tr_ID ` set (transactions d)"
  "first_failed (inbox_foreign d) m = None \<longleftrightarrow> ir_TransactionID m \<in> tr_ID ` set (transactions d)"
  by (auto simp: first_failed_None transaction_foreign_def ledger_foreign_def inbox_foreign_def
      image_iff eq_commute split: option.splits)

section \<open>History\<close>

text \<open>A table grows: its rows stay, as far as \<open>P\<close> says, and new ones come after them.\<close>

definition grown :: "('r \<Rightarrow> 'r \<Rightarrow> bool) \<Rightarrow> 'r list \<Rightarrow> 'r list \<Rightarrow> bool" where
  "grown P xs ys \<longleftrightarrow> (\<exists>zs us. ys = zs @ us \<and> list_all2 P xs zs)"

lemma grown_all: "list_all2 P xs ys \<Longrightarrow> grown P xs ys"
  unfolding grown_def by (metis append_Nil2)

lemma grown_refl: "(\<And>x. P x x) \<Longrightarrow> grown P xs xs"
  by (intro grown_all) (auto intro: list.rel_refl)

lemma grown_insert: "(\<And>x. P x x) \<Longrightarrow> grown P xs (xs @ [x])"
  unfolding grown_def by (rule exI [of _ xs]) (auto intro: list.rel_refl)

lemma grown_trans:
  assumes "grown P xs ys" and "grown P ys zs" and "\<And>x y z. P x y \<Longrightarrow> P y z \<Longrightarrow> P x z"
  shows "grown P xs zs"
proof -
  obtain a b where ys: "ys = a @ b" "list_all2 P xs a" using assms(1) unfolding grown_def by blast
  obtain c e where zs: "zs = c @ e" "list_all2 P ys c" using assms(2) unfolding grown_def by blast
  then obtain c1 c2 where c: "c = c1 @ c2" "list_all2 P a c1" by (auto simp: ys list_all2_append1)
  have "list_all2 P xs c1" using list_all2_trans [of P P P, OF _ ys(2) c(2)] assms(3) by blast
  with zs c show ?thesis unfolding grown_def by auto
qed

lemma grown_update_rows:
  assumes "\<And>x. P x x" and "\<And>x. x \<in> set xs \<Longrightarrow> Q x \<Longrightarrow> P x (f x)"
  shows "grown P xs (update_rows Q f xs)"
  using assms by (intro grown_all) (auto simp: update_rows_def list_all2_conv_all_nth)

lemma grown_replace:
  assumes "\<And>x. P x x" and "P x y"
  shows "grown P (xs @ x # ys) (xs @ y # ys)"
  using assms by (intro grown_all list_all2_appendI) (auto intro: list.rel_refl)

lemma grown_rows:
  assumes "grown P xs ys" and "x \<in> set xs"
  shows "\<exists>y \<in> set ys. P x y"
proof -
  obtain zs us where ys: "ys = zs @ us" "list_all2 P xs zs" using assms(1) unfolding grown_def by blast
  obtain i where "i < length xs" "xs ! i = x" using assms(2) by (auto simp: in_set_conv_nth)
  then have "P x (zs ! i)" "zs ! i \<in> set zs" using ys(2) by (auto simp: list_all2_conv_all_nth)
  with ys(1) show ?thesis by auto
qed

lemma grown_keys:
  assumes "grown P xs ys" and "\<And>x y. P x y \<Longrightarrow> key y = key x"
  shows "key ` set xs \<subseteq> key ` set ys"
proof
  fix k assume "k \<in> key ` set xs"
  then obtain x where x: "x \<in> set xs" "k = key x" by blast
  with grown_rows [OF assms(1)] assms(2) show "k \<in> key ` set ys" by (metis imageI)
qed

definition kept_wallet :: "wallet_row \<Rightarrow> wallet_row \<Rightarrow> bool" where
  "kept_wallet r r' \<longleftrightarrow> wr_ID r' = wr_ID r \<and> wr_PlayerID r' = wr_PlayerID r \<and>
     wr_Currency r' = wr_Currency r \<and> wr_CreatedAt r' = wr_CreatedAt r"

text \<open>What was asked for, and never changes.\<close>

definition row_request :: "transaction_row \<Rightarrow> transaction_row" where
  "row_request r = r\<lparr>tr_State := '''', tr_FailureCode := None, tr_ReferenceTransactionID := None,
     tr_ResultBalanceMinor := None, tr_ReferenceAttempts := 0, tr_NextAttemptAt := None, tr_UpdatedAt := 0\<rparr>"

lemma row_request_sel [simp]:
  "tr_ID (row_request r) = tr_ID r" "tr_Kind (row_request r) = tr_Kind r"
  "tr_WalletID (row_request r) = tr_WalletID r" "tr_ProviderID (row_request r) = tr_ProviderID r"
  "tr_ExternalTransactionID (row_request r) = tr_ExternalTransactionID r"
  "tr_IdempotencyKey (row_request r) = tr_IdempotencyKey r" "tr_PayloadHash (row_request r) = tr_PayloadHash r"
  by (simp_all add: row_request_def)

definition kept_operation :: "transaction_row \<Rightarrow> transaction_row \<Rightarrow> bool" where
  "kept_operation r r' \<longleftrightarrow>
     row_request r' = row_request r \<and> (tr_State r \<noteq> ''PENDING_REFERENCE'' \<longrightarrow> r' = r)"

text \<open>An event keeps all but the columns of its delivery, and once published keeps everything.\<close>

definition kept_event :: "outbox_row \<Rightarrow> outbox_row \<Rightarrow> bool" where
  "kept_event r r' \<longleftrightarrow>
     r' = r\<lparr>or_Attempts := or_Attempts r', or_NextAttemptAt := or_NextAttemptAt r', or_PublishedAt := or_PublishedAt r'\<rparr> \<and>
     (or_PublishedAt r \<noteq> None \<longrightarrow> r' = r)"

definition extends :: "db \<Rightarrow> db \<Rightarrow> bool" where
  "extends d d' \<longleftrightarrow>
     grown kept_wallet (wallets d) (wallets d') \<and>
     grown kept_operation (transactions d) (transactions d') \<and>
     grown (=) (entries d) (entries d') \<and>
     grown kept_event (outbox d) (outbox d') \<and>
     grown (=) (inbox d) (inbox d')"

lemma kept_refl [simp]: "kept_wallet w w" "kept_operation t t" "kept_event e e"
  by (simp_all add: kept_wallet_def kept_operation_def kept_event_def)

lemma kept_trans:
  "kept_wallet a b \<Longrightarrow> kept_wallet b c \<Longrightarrow> kept_wallet a c"
  "kept_operation r s \<Longrightarrow> kept_operation s t \<Longrightarrow> kept_operation r t"
  "kept_event x y \<Longrightarrow> kept_event y z \<Longrightarrow> kept_event x z"
  by (auto simp: kept_wallet_def kept_operation_def)
    (cases x; cases y; cases z; auto simp: kept_event_def)

lemma extends_refl [simp]: "extends d d"
  by (simp add: extends_def grown_refl)

lemma extends_trans: "extends d e \<Longrightarrow> extends e f \<Longrightarrow> extends d f"
  unfolding extends_def
  by (intro conjI; elim conjE; erule (1) grown_trans; auto intro: kept_trans)

text \<open>A change of one table that grows it.\<close>

lemma extends_table:
  "grown kept_wallet (wallets d) ws \<Longrightarrow> extends d (d\<lparr>wallets := ws\<rparr>)"
  "grown kept_operation (transactions d) ts \<Longrightarrow> extends d (d\<lparr>transactions := ts\<rparr>)"
  "grown (=) (entries d) es \<Longrightarrow> extends d (d\<lparr>entries := es\<rparr>)"
  "grown kept_event (outbox d) os \<Longrightarrow> extends d (d\<lparr>outbox := os\<rparr>)"
  "grown (=) (inbox d) is \<Longrightarrow> extends d (d\<lparr>inbox := is\<rparr>)"
  by (simp_all add: extends_def grown_refl)

text \<open>The foreign keys of the rows that stay hold on.\<close>

lemma extends_keys:
  assumes "extends d d'"
  shows "wr_ID ` set (wallets d) \<subseteq> wr_ID ` set (wallets d')"
    and "tr_ID ` set (transactions d) \<subseteq> tr_ID ` set (transactions d')"
proof -
  have "tr_ID y = tr_ID x" if "kept_operation x y" for x y
    using that unfolding kept_operation_def row_request_def by (cases x; cases y) simp
  with assms show "wr_ID ` set (wallets d) \<subseteq> wr_ID ` set (wallets d')"
    "tr_ID ` set (transactions d) \<subseteq> tr_ID ` set (transactions d')"
    unfolding extends_def by (auto simp: kept_wallet_def elim!: grown_keys [THEN subsetD] intro: imageI)
qed

lemma extends_foreign:
  assumes "extends d d'"
  shows "first_failed (transaction_foreign d) r = None \<Longrightarrow> first_failed (transaction_foreign d') r = None"
    and "first_failed (ledger_foreign d) l = None \<Longrightarrow> first_failed (ledger_foreign d') l = None"
    and "first_failed (inbox_foreign d) m = None \<Longrightarrow> first_failed (inbox_foreign d') m = None"
  using extends_keys [OF assms] unfolding foreign_None by blast+

definition lawful :: "db \<Rightarrow> db \<Rightarrow> bool" where
  "lawful d d' \<longleftrightarrow> (constraints d \<longrightarrow> constraints d' \<and> extends d d')"

lemma lawful_extends:
  assumes "extends d d'"
    and "constraints d \<Longrightarrow> valid_rows wallet_checks wallet_uniques (wallets d') \<and>
     valid_rows transaction_checks transaction_uniques (transactions d') \<and>
     valid_rows ledger_checks ledger_uniques (entries d') \<and>
     valid_rows outbox_checks outbox_uniques (outbox d') \<and>
     valid_rows [] inbox_uniques (inbox d') \<and>
     (\<forall>r \<in> set (transactions d'). first_failed (transaction_foreign d) r = None) \<and>
     (\<forall>r \<in> set (entries d'). first_failed (ledger_foreign d) r = None) \<and>
     (\<forall>r \<in> set (inbox d'). first_failed (inbox_foreign d) r = None)"
  shows "lawful d d'"
  using assms extends_foreign [OF assms(1)] unfolding lawful_def constraints_def by blast

lemma lawful_tables:
  "valid_rows wallet_checks wallet_uniques ws \<Longrightarrow> grown kept_wallet (wallets d) ws \<Longrightarrow>
     lawful d (d\<lparr>wallets := ws\<rparr>)"
  "valid_rows transaction_checks transaction_uniques ts \<Longrightarrow> grown kept_operation (transactions d) ts \<Longrightarrow>
     \<forall>r \<in> set ts. first_failed (transaction_foreign d) r = None \<Longrightarrow> lawful d (d\<lparr>transactions := ts\<rparr>)"
  "valid_rows ledger_checks ledger_uniques es \<Longrightarrow> grown (=) (entries d) es \<Longrightarrow>
     \<forall>r \<in> set es. first_failed (ledger_foreign d) r = None \<Longrightarrow> lawful d (d\<lparr>entries := es\<rparr>)"
  "valid_rows outbox_checks outbox_uniques os \<Longrightarrow> grown kept_event (outbox d) os \<Longrightarrow> lawful d (d\<lparr>outbox := os\<rparr>)"
  "valid_rows [] inbox_uniques is \<Longrightarrow> grown (=) (inbox d) is \<Longrightarrow>
     \<forall>r \<in> set is. first_failed (inbox_foreign d) r = None \<Longrightarrow> lawful d (d\<lparr>inbox := is\<rparr>)"
  by (rule lawful_extends; simp add: extends_table constraints_def)+

lemma constraintsD:
  assumes "constraints d"
  shows "valid_rows wallet_checks wallet_uniques (wallets d)"
    "valid_rows transaction_checks transaction_uniques (transactions d)"
    "valid_rows ledger_checks ledger_uniques (entries d)"
    "valid_rows outbox_checks outbox_uniques (outbox d)"
    "valid_rows [] inbox_uniques (inbox d)"
    "r \<in> set (transactions d) \<Longrightarrow> first_failed (transaction_foreign d) r = None"
    "l \<in> set (entries d) \<Longrightarrow> first_failed (ledger_foreign d) l = None"
    "m \<in> set (inbox d) \<Longrightarrow> first_failed (inbox_foreign d) m = None"
  using assms by (simp_all add: constraints_def)

lemma lawfulI: "(constraints d \<Longrightarrow> lawful d d') \<Longrightarrow> lawful d d'"
  by (auto simp: lawful_def)

lemma lawful_insert:
  "insert_row wallet_checks wallet_uniques [] x (wallets d) = Inr ws \<Longrightarrow> lawful d (d\<lparr>wallets := ws\<rparr>)"
  "insert_row transaction_checks transaction_uniques (transaction_foreign d) t (transactions d) = Inr ts \<Longrightarrow>
     lawful d (d\<lparr>transactions := ts\<rparr>)"
  "insert_row ledger_checks ledger_uniques (ledger_foreign d) l (entries d) = Inr es \<Longrightarrow>
     lawful d (d\<lparr>entries := es\<rparr>)"
  "insert_row outbox_checks outbox_uniques [] e (outbox d) = Inr os \<Longrightarrow> lawful d (d\<lparr>outbox := os\<rparr>)"
  "insert_row [] inbox_uniques (inbox_foreign d) m (inbox d) = Inr is \<Longrightarrow> lawful d (d\<lparr>inbox := is\<rparr>)"
  by (rule lawfulI, drule insert_row_valid, erule constraintsD,
      rule lawful_tables; clarsimp simp: constraintsD grown_insert)+

lemma lawful_inserts:
  "writes lawful (InsertWallet x)" "writes lawful (InsertWagerTransaction t)"
  "writes lawful (InsertLedgerEntry l)" "writes lawful (InsertOutboxEvent o')"
  "writes lawful (InsertInboxMessage m h i)"
  unfolding writes_def InsertWallet_def InsertWagerTransaction_def InsertLedgerEntry_def
    InsertOutboxEvent_def InsertInboxMessage_def
  by (clarsimp split: if_splits, erule lawful_insert)+

text \<open>An update by primary key, as the change of one table.\<close>

lemma update_row_grown:
  assumes "update_row checks uniques fs P f rs = Inr (n, rs')" and "valid_rows checks uniques rs"
    and "(c, \<lambda>q r. key q = key r) \<in> set uniques" and "\<And>q. P q \<Longrightarrow> key q = i"
    and "symmetric_clashes uniques" and K: "\<And>q. K q q" "\<And>q. P q \<Longrightarrow> K q (f q)"
  shows "valid_rows checks uniques rs' \<and> grown K rs rs' \<and>
    (\<forall>r \<in> set rs'. r \<in> set rs \<or> first_failed fs r = None)"
proof -
  have v: "valid_rows checks uniques rs'" and
    "rs' = rs \<or> (\<exists>r xs ys. rs = xs @ r # ys \<and> P r \<and> rs' = xs @ f r # ys \<and> first_failed fs (f r) = None)"
    using update_row_valid [OF assms(1-3) _ assms(5), of i] assms(4) by blast+
  then consider "rs' = rs" | r xs ys where "rs = xs @ r # ys" "P r" "rs' = xs @ f r # ys"
    "first_failed fs (f r) = None" by blast
  then show ?thesis
  proof cases
    case 2
    moreover have "grown K rs rs'" using 2 K by (simp add: grown_replace)
    ultimately show ?thesis using v by auto
  qed (use v K in \<open>simp add: grown_refl\<close>)
qed

lemma lawful_update:
  "update_row wallet_checks wallet_uniques [] P f (wallets d) = Inr (n, ws) \<Longrightarrow>
     (\<And>q. P q \<Longrightarrow> wr_ID q = i) \<Longrightarrow> (\<And>q. P q \<Longrightarrow> kept_wallet q (f q)) \<Longrightarrow> lawful d (d\<lparr>wallets := ws\<rparr>)"
  "update_row transaction_checks transaction_uniques (transaction_foreign d) Q g (transactions d) = Inr (n, ts) \<Longrightarrow>
     (\<And>q. Q q \<Longrightarrow> tr_ID q = i) \<Longrightarrow> (\<And>q. Q q \<Longrightarrow> kept_operation q (g q)) \<Longrightarrow> lawful d (d\<lparr>transactions := ts\<rparr>)"
  "update_row outbox_checks outbox_uniques [] R h (outbox d) = Inr (n, os) \<Longrightarrow>
     (\<And>q. R q \<Longrightarrow> or_ID q = i) \<Longrightarrow> (\<And>q. R q \<Longrightarrow> kept_event q (h q)) \<Longrightarrow> lawful d (d\<lparr>outbox := os\<rparr>)"
proof -
  have key: "(''wallets_pkey'', \<lambda>q r. wr_ID q = wr_ID r) \<in> set wallet_uniques"
    "(''wager_transactions_pkey'', \<lambda>q r. tr_ID q = tr_ID r) \<in> set transaction_uniques"
    "(''outbox_events_pkey'', \<lambda>q r. or_ID q = or_ID r) \<in> set outbox_uniques"
    by (simp_all add: wallet_uniques_def transaction_uniques_def outbox_uniques_def)
  note grown = update_row_grown [OF _ constraintsD(1) key(1), where i = i and K = kept_wallet]
    update_row_grown [OF _ constraintsD(2) key(2), where i = i and K = kept_operation]
    update_row_grown [OF _ constraintsD(4) key(3), where i = i and K = kept_event]
  show "update_row wallet_checks wallet_uniques [] P f (wallets d) = Inr (n, ws) \<Longrightarrow>
     (\<And>q. P q \<Longrightarrow> wr_ID q = i) \<Longrightarrow> (\<And>q. P q \<Longrightarrow> kept_wallet q (f q)) \<Longrightarrow> lawful d (d\<lparr>wallets := ws\<rparr>)"
    by (rule lawfulI, drule (1) grown(1); simp add: lawful_tables)
  show "update_row transaction_checks transaction_uniques (transaction_foreign d) Q g (transactions d) = Inr (n, ts) \<Longrightarrow>
     (\<And>q. Q q \<Longrightarrow> tr_ID q = i) \<Longrightarrow> (\<And>q. Q q \<Longrightarrow> kept_operation q (g q)) \<Longrightarrow> lawful d (d\<lparr>transactions := ts\<rparr>)"
    by (rule lawfulI, drule (1) grown(2); simp?) (blast intro: lawful_tables constraintsD)
  show "update_row outbox_checks outbox_uniques [] R h (outbox d) = Inr (n, os) \<Longrightarrow>
     (\<And>q. R q \<Longrightarrow> or_ID q = i) \<Longrightarrow> (\<And>q. R q \<Longrightarrow> kept_event q (h q)) \<Longrightarrow> lawful d (d\<lparr>outbox := os\<rparr>)"
    by (rule lawfulI, drule (1) grown(3); simp add: lawful_tables)
qed

lemma lawful_updates:
  "writes lawful (UpdateWalletBalance u)" "writes lawful (UpdatePendingReference_sql p)"
  "writes lawful (MarkOutboxEventPublished i a)" "writes lawful (RescheduleOutboxEvent i n a)"
  unfolding writes_def UpdateWalletBalance_def UpdatePendingReference_sql_def
    MarkOutboxEventPublished_def RescheduleOutboxEvent_def
  by (safe elim!: and_then_InrE,
      auto intro: lawful_update [where i = "uw_ID u"] lawful_update [where i = "up_ID p"] lawful_update [where i = i]
        simp: kept_wallet_def kept_operation_def row_request_def updated_pending_def kept_event_def)

text \<open>A lease moves the next attempt of rows that wait.\<close>

lemma lawful_leases:
  "writes lawful (LeasePendingReferences_sql a b n)" "writes lawful (LeasePendingOutboxEvents a b n)"
  unfolding writes_def
proof (safe)
  fix s d ps d' assume run: "LeasePendingReferences_sql a b n s d = Inr (ps, d')"
  define taken where "taken = take (nat (sint n)) (due_references s b (transactions d))"
  define ts where "ts = update_rows (\<lambda>r. tr_ID r \<in> tr_ID ` set taken)
    (\<lambda>r. r\<lparr>tr_NextAttemptAt := Some a\<rparr>) (transactions d)"
  have d': "d' = d\<lparr>transactions := ts\<rparr>"
    using run by (auto simp: LeasePendingReferences_sql_def Let_def taken_def ts_def split: if_splits)
  have waiting: "r \<in> set (transactions d) \<and> tr_State r = ''PENDING_REFERENCE''" if "r \<in> set taken" for r
    using set_take_subset that by (fastforce simp: taken_def due_references_def)
  show "lawful d d'"
    unfolding d'
  proof (rule lawfulI)
    assume c: "constraints d"
    note dist = constraints_keys(2) [OF c]
    have "grown kept_operation (transactions d) ts"
      unfolding ts_def
    proof (rule grown_update_rows)
      fix x assume x: "x \<in> set (transactions d)" "tr_ID x \<in> tr_ID ` set taken"
      then obtain r where "r \<in> set taken" "tr_ID x = tr_ID r" by blast
      with waiting x(1) distinct_key_unique [OF dist x(1)] have "tr_State x = ''PENDING_REFERENCE''" by metis
      then show "kept_operation x (x\<lparr>tr_NextAttemptAt := Some a\<rparr>)"
        by (simp add: kept_operation_def row_request_def)
    qed simp
    moreover have "valid_rows transaction_checks transaction_uniques ts"
      unfolding ts_def using constraintsD(2) [OF c]
      by (rule update_rows_valid)
        (auto simp: transaction_checks_def transaction_uniques_def row_origin_def row_is_reversal_def
          row_reversed_def split: if_splits)
    moreover have "\<forall>r \<in> set ts. first_failed (transaction_foreign d) r = None"
      using constraintsD(6) [OF c] by (fastforce simp: ts_def update_rows_def foreign_None)
    ultimately show "lawful d (d\<lparr>transactions := ts\<rparr>)" by (intro lawful_tables)
  qed
next
  fix s d ps d' assume run: "LeasePendingOutboxEvents a b n s d = Inr (ps, d')"
  define taken where "taken = take (nat (sint n)) (due_events s b (outbox d))"
  define os where "os = update_rows (\<lambda>r. or_ID r \<in> or_ID ` set taken)
    (\<lambda>r. r\<lparr>or_NextAttemptAt := a\<rparr>) (outbox d)"
  have d': "d' = d\<lparr>outbox := os\<rparr>"
    using run by (auto simp: LeasePendingOutboxEvents_def Let_def taken_def os_def split: if_splits)
  have waiting: "r \<in> set (outbox d) \<and> or_PublishedAt r = None" if "r \<in> set taken" for r
    using set_take_subset that by (fastforce simp: taken_def due_events_def outbox_head_def)
  show "lawful d d'"
    unfolding d'
  proof (rule lawfulI)
    assume c: "constraints d"
    note dist = constraints_keys(3) [OF c]
    have "grown kept_event (outbox d) os"
      unfolding os_def
    proof (rule grown_update_rows)
      fix x assume x: "x \<in> set (outbox d)" "or_ID x \<in> or_ID ` set taken"
      then obtain r where "r \<in> set taken" "or_ID x = or_ID r" by blast
      with waiting x(1) distinct_key_unique [OF dist x(1)] have "or_PublishedAt x = None" by metis
      then show "kept_event x (x\<lparr>or_NextAttemptAt := a\<rparr>)" by (simp add: kept_event_def)
    qed simp
    moreover have "valid_rows outbox_checks outbox_uniques os"
      unfolding os_def using constraintsD(4) [OF c]
      by (rule update_rows_valid) (auto simp: outbox_checks_def outbox_uniques_def split: if_splits)
    ultimately show "lawful d (d\<lparr>outbox := os\<rparr>)" by (intro lawful_tables)
  qed
qed

lemma lawful_trans: "lawful d e \<Longrightarrow> lawful e f \<Longrightarrow> lawful d f"
  unfolding lawful_def using extends_trans by blast

interpretation schema: change lawful
  by unfold_locales (auto intro: lawful_inserts lawful_updates lawful_leases lawful_trans,
      simp add: lawful_def)

end
