(* ===== verification/System.thy ===== *)
theory System
  imports History
begin

text \<open>
  The use cases as a whole: how each call runs, the part before its transaction, the unit of
  work and the part after it, and what the database looks like when it committed.
\<close>

section \<open>Calls outside a transaction\<close>

definition idle :: "world \<Rightarrow> world \<Rightarrow> bool" where
  "idle w w' \<longleftrightarrow> committed w' = committed w \<and> tx w' = tx w \<and> env w' = env w \<and> published w' = published w"

lemma idle_refl [simp]: "idle w w"
  by (simp add: idle_def)

lemma idle_trans: "idle u v \<Longrightarrow> idle v w \<Longrightarrow> idle u w"
  by (simp add: idle_def)

lemma idle_updates [simp]:
  "idle w (w\<lparr>instants := n\<rparr>)" "idle w (w\<lparr>identifiers := n\<rparr>)" "idle w (w\<lparr>metrics := ms\<rparr>)"
  "idle w (w\<lparr>instants := n, identifiers := m\<rparr>)" "idle w (w\<lparr>instants := n, metrics := ms\<rparr>)"
  by (simp_all add: idle_def)

lemma ProcessWager_run:
  assumes "ProcessWager_Execute input w = (r, w')"
  obtains (refused) "idle w w'" and "\<not> ok r"
  | (ran) hash i at t w1 w2 where "PayloadHash (env w) input = Inr hash" and "in_CorrelationID input \<noteq> ''''"
      and "NewExternal (new_external_params input hash i at) = Inr t" and "idle w w1"
      and "WithinTransaction (process_in_transaction t (in_CorrelationID input) at) w1 = (r, w2)"
      and "idle w2 w'"
proof (cases "in_CorrelationID input = ''''")
  case True
  with assms refused show thesis by (auto simp: ProcessWager_Execute_def raise_err_def)
next
  case False
  show thesis
  proof (cases "PayloadHash (env w) input")
    case (Inl e)
    with False assms refused show thesis
      by (auto simp: ProcessWager_Execute_def bind_action_def attempt_def raise_err_def)
  next
    case (Inr hash)
    define at i where "at = env_clock (env w) (instants w)" and "i = env_NewID (env w) (identifiers w)"
    define w1 where "w1 = w\<lparr>instants := Suc (instants w), identifiers := Suc (identifiers w)\<rparr>"
    have w1: "idle w w1" by (simp add: w1_def)
    show thesis
    proof (cases "NewExternal (new_external_params input hash i at)")
      case (Inl e)
      with False Inr assms w1 have "r = Inl e \<and> w' = w1"
        by (simp add: ProcessWager_Execute_def bind_action_def attempt_def raise_err_def clock_now_def
            NewID_def of_result_def at_def i_def w1_def)
      with w1 refused show thesis by simp
    next
      case t: (Inr t)
      obtain q w2 where run: "WithinTransaction (process_in_transaction t (in_CorrelationID input) at) w1 = (q, w2)"
        by fastforce
      have "r = q \<and> idle w2 w'"
        using False Inr assms t run
        by (auto simp: ProcessWager_Execute_def bind_action_def attempt_def raise_err_def clock_now_def
            NewID_def of_result_def at_def i_def w1_def return_ok_def record_metric_def
            split: sum.splits if_splits)
      with ran [OF Inr False t w1] run show thesis by blast
    qed
  qed
qed

lemma OpenWallet_run:
  assumes "OpenWallet_Execute input w = (r, w')"
  obtains (refused) "idle w w'" and "\<not> ok r"
  | (ran) i at x q w1 where "wallet_Open i (ow_PlayerID input) (ow_InitialBalance input) at = Inr x"
      and "idle w w1" and "ow_CorrelationID input \<noteq> ''''"
      and "WithinTransaction (open_in_transaction x (ow_CorrelationID input) at) w1 = (q, w')"
      and "r = and_then q (\<lambda>_. Inr x)"
proof (cases "ow_CorrelationID input = ''''")
  case True
  with assms refused show thesis by (auto simp: OpenWallet_Execute_def raise_err_def)
next
  case False
  define at i where "at = env_clock (env w) (instants w)" and "i = env_NewID (env w) (identifiers w)"
  define w1 where "w1 = w\<lparr>instants := Suc (instants w), identifiers := Suc (identifiers w)\<rparr>"
  have w1: "idle w w1" by (simp add: w1_def)
  show thesis
  proof (cases "wallet_Open i (ow_PlayerID input) (ow_InitialBalance input) at")
    case (Inl e)
    with False assms w1 have "r = Inl e \<and> w' = w1"
      by (simp add: OpenWallet_Execute_def bind_action_def attempt_def raise_err_def clock_now_def
          NewID_def of_result_def at_def i_def w1_def)
    with w1 refused show thesis by simp
  next
    case x: (Inr x)
    obtain q w2 where run: "WithinTransaction (open_in_transaction x (ow_CorrelationID input) at) w1 = (q, w2)"
      by fastforce
    have "r = and_then q (\<lambda>_. Inr x) \<and> w' = w2"
      using False assms x run
      by (auto simp: OpenWallet_Execute_def bind_action_def attempt_def raise_err_def clock_now_def
          NewID_def of_result_def at_def i_def w1_def return_ok_def split: sum.splits)
    with ran [OF x w1 False] run show thesis by blast
  qed
qed

lemma ProcessInboxMessage_run:
  assumes "ProcessInboxMessage_Execute message w = (r, w')"
  obtains (refused) "idle w w'" and "\<not> ok r"
  | (ran) hash w2 where "PayloadHash (env w) (msg_Input message) = Inr hash" and "msg_MessageID message \<noteq> ''''"
      and "WithinTransaction (take_in_transaction message hash) w = (r, w2)" and "idle w2 w'"
proof (cases "msg_MessageID message = ''''")
  case True
  with assms refused show thesis by (auto simp: ProcessInboxMessage_Execute_def raise_err_def)
next
  case False
  show thesis
  proof (cases "PayloadHash (env w) (msg_Input message)")
    case (Inl e)
    with False assms refused show thesis
      by (auto simp: ProcessInboxMessage_Execute_def bind_action_def attempt_def raise_err_def)
  next
    case (Inr hash)
    obtain q w2 where run: "WithinTransaction (take_in_transaction message hash) w = (q, w2)" by fastforce
    have "r = q \<and> idle w2 w'"
      using False Inr assms run
      by (auto simp: ProcessInboxMessage_Execute_def bind_action_def attempt_def raise_err_def
          return_ok_def record_metric_def split: sum.splits)
    with ran [OF Inr False] run show thesis by blast
  qed
qed

section \<open>What each unit of work did\<close>

lemma confined_ProcessWager_Execute [simp]: "confined (ProcessWager_Execute input)"
  unfolding ProcessWager_Execute_def
  by (auto intro!: confined_rules confined_WithinTransaction split: sum.splits)

lemma confined_take_in_transaction [simp]: "confined (take_in_transaction message hash)"
  unfolding take_in_transaction_def by (auto intro!: confined_rules split: option.splits)

lemma confined_record_publication [simp]: "confined (record_publication policy record delivery)"
  unfolding record_publication_def by (auto intro!: confined_rules simp: Let_def split: sum.splits)

text \<open>
  An input as the handlers build it: its money comes from the constructors of \<open>money\<close>, whose
  currencies are either absent or three capital letters.
\<close>

definition constructed :: "Money \<Rightarrow> bool" where
  "constructed m \<longleftrightarrow> currency_code (currency m) = '''' \<or> currency_iso4217 (currency_code (currency m))"

lemma NewExternal_facts:
  assumes "NewExternal (new_external_params input hash i at) = Inr t" and "constructed (in_Money input)"
  shows "transaction_wf t \<and> t_state t = StatePending \<and> t_referenceAttempts t = 0 \<and> t_kind t \<noteq> KindOpening \<and>
    currency_iso4217 (currency_code (currency (t_amount t))) \<and> t_providerID t = in_ProviderID input \<and>
    t_idempotencyKey t = in_IdempotencyKey input \<and> t_externalTransactionID t = in_ExternalTransactionID input \<and>
    t_payloadHash t = hash \<and> t_walletID t = in_WalletID input \<and> t_kind t = in_Kind input \<and>
    t_amount t = in_Money input \<and> t_id t = i"
proof -
  have wf: "transaction_wf t" "t_state t = StatePending" "IsExternal (t_kind t)"
    using NewExternal_wf [OF assms(1)] by simp_all
  have eqs: "t_referenceAttempts t = 0" "t_amount t = in_Money input" "t_providerID t = in_ProviderID input"
    "t_idempotencyKey t = in_IdempotencyKey input" "t_externalTransactionID t = in_ExternalTransactionID input"
    "t_payloadHash t = hash" "t_walletID t = in_WalletID input" "t_kind t = in_Kind input" "t_id t = i"
    using assms(1) by (auto simp: NewExternal_def new_external_params_def split: if_splits)
  have "currency_code (currency (t_amount t)) \<noteq> ''''"
    using wf(1) by (simp add: transaction_wf_def kind_amount_ok_def currency_IsZero_def)
  with wf eqs assms(2) show ?thesis by (auto simp: IsExternal_def constructed_def)
qed

text \<open>A committed \<open>Execute\<close> of an operation, at the top or joined to the consumer's transaction.\<close>

definition executed :: "environment \<Rightarrow> db \<Rightarrow> ProcessWagerInput \<Rightarrow> WagerResult \<Rightarrow> db \<Rightarrow> bool" where
  "executed E d input r d' \<longleftrightarrow>
     (\<exists>hash i at t. PayloadHash E input = Inr hash \<and>
        NewExternal (new_external_params input hash i at) = Inr t \<and>
        (d' = d \<and> replayed d t r \<or> applied d t (in_CorrelationID input) at r d'))"

lemma does_ProcessWager:
  assumes run: "does (ProcessWager_Execute input) v d r v' d'" and "books d" and "constructed (in_Money input)"
  shows "executed (env v) d input r d'"
proof -
  from run have ex: "ProcessWager_Execute input v = (Inr r, v')" and tx: "tx v = Some (d, False)"
    "tx v' = Some (d', False)" by (simp_all add: does_def)
  from ex show ?thesis
  proof (cases rule: ProcessWager_run)
    case (ran hash i at t w1 w2)
    have w1: "tx w1 = Some (d, False)" "frame w1 = frame v" using ran(4) tx by (simp_all add: idle_def frame_def)
    have w2: "tx w2 = Some (d', False)" "frame w2 = frame v'"
      using ran(6) tx by (simp_all add: idle_def frame_def)
    have "process_in_transaction t (in_CorrelationID input) at w1 = (Inr r, w2)"
      using ran(5) w1 by (simp add: pg.joins)
    then have "does (process_in_transaction t (in_CorrelationID input) at) w1 d r w2 d'"
      using w1 w2 run by (simp add: does_def)
    from does_process [OF this assms(2)] NewExternal_facts [OF ran(3) assms(3)] ran(1,3)
    show ?thesis unfolding executed_def by blast
  qed simp
qed

lemma executed_books:
  assumes "executed E d input r d'" and "books d" and "constructed (in_Money input)"
  shows "books d'"
  using assms(1) unfolding executed_def
  using applied_books assms(2) NewExternal_facts [OF _ assms(3)] by blast

lemma books_outside [simp]:
  "books (d\<lparr>outbox := os\<rparr>) = books d"
  "books (d\<lparr>inbox := is\<rparr>) = books d"
  by (simp_all add: books_def inv_defs wallet_entries_def is_opening_def)

text \<open>A message taken in: recorded already, or its operation executed and the message recorded.\<close>

definition taken_in :: "environment \<Rightarrow> db \<Rightarrow> InboundMessage \<Rightarrow> string \<Rightarrow> InboundResult \<Rightarrow> db \<Rightarrow> bool" where
  "taken_in E d message hash r d' \<longleftrightarrow>
     (\<exists>row. List.find (\<lambda>m. ir_MessageID m = msg_MessageID message) (inbox d) = Some row \<and>
        ir_PayloadHash row = hash \<and> d' = d \<and> inr_Duplicate r \<and>
        res_TransactionID (inr_WagerResult r) = ir_TransactionID row) \<or>
     (List.find (\<lambda>m. ir_MessageID m = msg_MessageID message) (inbox d) = None \<and> \<not> inr_Duplicate r \<and>
      (\<exists>d1 at. executed E d (msg_Input message) (inr_WagerResult r) d1 \<and>
         d' = d1\<lparr>inbox := inbox d1 @ [\<lparr>ir_MessageID = msg_MessageID message, ir_PayloadHash = hash,
           ir_TransactionID = res_TransactionID (inr_WagerResult r), ir_ReceivedAt = at\<rparr>]\<rparr>))"

lemma read_db_applied: "read_db f s d = Inr (x, d') \<longleftrightarrow> f d = x \<and> d' = d"
  by (auto simp: read_db_def)

lemma does_InboxRepository_Find:
  assumes "does (InboxRepository_Find i) v d x v' d'"
  shows "d' = d \<and>
    (case x of
       None \<Rightarrow> List.find (\<lambda>m. ir_MessageID m = i) (inbox d) = None
     | Some m \<Rightarrow> \<exists>row. List.find (\<lambda>m. ir_MessageID m = i) (inbox d) = Some row \<and>
         m = \<lparr>im_MessageID = ir_MessageID row, im_PayloadHash = ir_PayloadHash row,
           im_TransactionID = ir_TransactionID row\<rparr>)"
proof -
  have d: "d' = d" using does_reader [OF reader_repositories(7) assms] .
  have tx: "tx v = Some (d, False)" using assms by (simp add: does_def)
  from assms have "does (attempt (query_row (SelectInboxMessage i)) (\<lambda>r.
       case r of
         Inl e \<Rightarrow>
           if errors_Is e (Sentinel ErrNoRows) then return_ok None else raise_err (translate e)
       | Inr row \<Rightarrow> return_ok (Some \<lparr>im_MessageID = ir_MessageID row,
           im_PayloadHash = ir_PayloadHash row, im_TransactionID = ir_TransactionID row\<rparr>))) v d x v' d'"
    unfolding InboxRepository_Find_def
    by (elim does_queries_thenE) (auto intro!: confined_rules split: sum.splits)
  then show ?thesis
    by (elim does_attemptE)
      (use d tx in \<open>auto elim!: does_query_rowE simp: read_db_applied SelectInboxMessage_def
        dest: query_row_ErrNoRows split: sum.splits if_splits\<close>)
qed

lemma does_take:
  assumes run: "does (take_in_transaction message hash) v d r v' d'" and b: "books d"
    and inp: "constructed (in_Money (msg_Input message))"
  shows "taken_in (env v) d message hash r d'"
proof -
  from run obtain found v1 d1 where f: "does (InboxRepository_Find (msg_MessageID message)) v d found v1 d1"
    and k: "does (case found of
         Some m \<Rightarrow>
           if im_PayloadHash m \<noteq> hash
             then raise_err (ConflictError FailureCodeIdempotencyConflict)
           else return_ok \<lparr>inr_WagerResult = zero_WagerResult\<lparr>res_TransactionID := im_TransactionID m,
             res_IdempotentReplay := True\<rparr>, inr_Duplicate = True\<rparr>
       | None \<Rightarrow>
           bind_action (ProcessWager_Execute (msg_Input message)) (\<lambda>applied.
           bind_action (InboxRepository_Record \<lparr>im_MessageID = msg_MessageID message,
               im_PayloadHash = hash, im_TransactionID = res_TransactionID applied\<rparr>)
             (\<lambda>_. return_ok \<lparr>inr_WagerResult = applied, inr_Duplicate = False\<rparr>))) v1 d1 r v' d'"
    unfolding take_in_transaction_def
    by (elim does_bindE) (auto intro!: confined_rules split: option.splits)
  note fnd = does_InboxRepository_Find [OF f]
  show ?thesis
  proof (cases found)
    case (Some m)
    with k fnd show ?thesis by (auto simp: taken_in_def split: if_splits)
  next
    case None
    with k fnd obtain a v2 d2 v3 d3 where p: "does (ProcessWager_Execute (msg_Input message)) v1 d a v2 d2"
      and i: "does (InboxRepository_Record \<lparr>im_MessageID = msg_MessageID message,
               im_PayloadHash = hash, im_TransactionID = res_TransactionID a\<rparr>) v2 d2 () v3 d3"
      and r: "r = \<lparr>inr_WagerResult = a, inr_Duplicate = False\<rparr>" "d' = d3"
      by (auto elim!: does_bindE intro!: confined_rules)
    have "executed (env v) d (msg_Input message) a d2"
      using does_ProcessWager [OF p b inp] does_env [OF f] by simp
    with does_InboxRepository_Record [OF i] fnd None r show ?thesis
      unfolding taken_in_def by (auto simp: insert_row_Inr)
  qed
qed

lemma taken_in_books:
  "taken_in E d message hash r d' \<Longrightarrow> books d \<Longrightarrow> constructed (in_Money (msg_Input message)) \<Longrightarrow> books d'"
  unfolding taken_in_def using executed_books by fastforce

text \<open>Leasing an operation that waits leaves the books as they are.\<close>

lemma stores_rescheduled: "stores r t \<Longrightarrow> stores (r\<lparr>tr_NextAttemptAt := n\<rparr>) t"
  unfolding stores_def operation_row_def by (metis (no_types) transaction_row.select_convs(21)
      transaction_row.surjective transaction_row.update_convs(20,21))

lemma books_map:
  assumes "books d" and st: "\<And>r t. stores r t \<Longrightarrow> stores (g r) t"
    and g: "\<And>r. tr_ID (g r) = tr_ID r" "\<And>r. tr_Kind (g r) = tr_Kind r" "\<And>r. tr_WalletID (g r) = tr_WalletID r"
      "\<And>l r. entry_of l (g r) = entry_of l r" "\<And>r. moved_money (g r) = moved_money r"
  shows "books (d\<lparr>transactions := map g (transactions d)\<rparr>)" (is "books ?d")
proof -
  note inv = assms(1) [unfolded books_def]
  have "wallets_inv ?d" using inv by (simp add: wallets_inv_def)
  moreover have "transactions_inv ?d"
  proof -
    have "\<exists>t. stores (g r) t" if "\<exists>t. stores r t" for r using that st by blast
    with inv g(1,3) show ?thesis by (auto simp: transactions_inv_def o_def)
  qed
  moreover have "entries_inv ?d" using inv g(4,5) by (simp add: entries_inv_def)
  moreover have op: "is_opening ?d l = is_opening d l" for l
    using g(1,2) by (simp add: is_opening_def)
  moreover have "balances_inv ?d" "versions_inv ?d"
    using inv op by (simp_all add: balances_inv_def versions_inv_def wallet_entries_def)
  ultimately show ?thesis by (simp add: books_def)
qed

lemma books_rescheduled:
  assumes "books d"
  shows "books (d\<lparr>transactions := update_rows P (\<lambda>r. r\<lparr>tr_NextAttemptAt := n\<rparr>) (transactions d)\<rparr>)"
  unfolding update_rows_def
  by (rule books_map [OF assms]) (auto simp: entry_of_def moved_money_def intro: stores_rescheduled)

end
