(* ===== verification/Reachable.thy ===== *)
theory Reachable
  imports System
begin

text \<open>
  The system: every use case as a step on the world, the states reachable from an empty
  database, and what holds in all of them. A step is one unit of work or a call that makes one;
  the two use cases that work through a batch are sequences of such steps, so that other steps
  can come between the items of a batch.
\<close>

section \<open>Steps\<close>

text \<open>The record the publisher carries: the columns of the event it leased.\<close>

definition record_of :: "db \<Rightarrow> OutboxRecord \<Rightarrow> bool" where
  "record_of d rec \<longleftrightarrow> (\<exists>row \<in> set (outbox d). ob_EventID rec = or_ID row \<and>
     ob_AggregateID rec = or_AggregateID row \<and> ob_EventType rec = or_EventType row \<and>
     ob_OccurredAt rec = or_OccurredAt row \<and> ob_Payload rec = or_Payload row)"

inductive step :: "world \<Rightarrow> world \<Rightarrow> bool" where
  step_open: "OpenWallet_Execute input w = (r, w') \<Longrightarrow> step w w'"
| step_process: "ProcessWager_Execute input w = (r, w') \<Longrightarrow> constructed (in_Money input) \<Longrightarrow> step w w'"
| step_take: "ProcessInboxMessage_Execute message w = (r, w') \<Longrightarrow>
    constructed (in_Money (msg_Input message)) \<Longrightarrow> step w w'"
| step_lease: "WithinTransaction (LeasePendingReferences dueAt leaseUntil limit) w = (r, w') \<Longrightarrow> step w w'"
| step_retry: "retry policy pending w = (r, w') \<Longrightarrow> step w w'"
| step_lease_events: "WithinTransaction (LeasePending dueAt leaseUntil limit) w = (r, w') \<Longrightarrow> step w w'"
| step_publish: "publish_record publication record w = (r, w') \<Longrightarrow> record_of (committed w) record \<Longrightarrow> step w w'"
| step_read_transaction: "find_for_provider providerID lookup w = (r, w') \<Longrightarrow> reader lookup \<Longrightarrow> step w w'"
| step_read_wallet: "ReadWallet_Wallet i w = (r, w') \<Longrightarrow> step w w'"
| step_read_ledger: "ReadWallet_Ledger i cursor limit w = (r, w') \<Longrightarrow> step w w'"
| step_reconcile: "ReadWallet_Reconcile i w = (r, w') \<Longrightarrow> step w w'"
| step_idle: "idle w w' \<Longrightarrow> step w w'"

definition empty_db :: db where
  "empty_db = \<lparr>wallets = [], transactions = [], entries = [], outbox = [], inbox = []\<rparr>"

definition initial :: "world \<Rightarrow> bool" where
  "initial w \<longleftrightarrow> committed w = empty_db \<and> tx w = None \<and> published w = []"

inductive reachable :: "world \<Rightarrow> bool" where
  reach_initial: "initial w \<Longrightarrow> reachable w"
| reach_step: "reachable w \<Longrightarrow> step w w' \<Longrightarrow> reachable w'"

inductive steps :: "world \<Rightarrow> world \<Rightarrow> bool" where
  steps_refl [simp]: "steps w w"
| steps_step: "steps w w' \<Longrightarrow> step w' w'' \<Longrightarrow> steps w w''"

lemma steps_one: "step w w' \<Longrightarrow> steps w w'"
  by (rule steps_step [OF steps_refl])

lemma steps_trans: "steps v w \<Longrightarrow> steps u v \<Longrightarrow> steps u w"
  by (induction rule: steps.induct) (auto intro: steps_step)

lemma reachable_steps: "steps w w' \<Longrightarrow> reachable w \<Longrightarrow> reachable w'"
  by (induction rule: steps.induct) (auto intro: reach_step)

section \<open>Steps as units of work\<close>

text \<open>
  Every step is at most one unit of work, with calls outside a transaction around it. The unit
  is one of those that write, or a reader.
\<close>

definition ran :: "'a action \<Rightarrow> world \<Rightarrow> world \<Rightarrow> bool" where
  "ran fn w w' \<longleftrightarrow> (\<exists>w1 r w2. idle w w1 \<and> WithinTransaction fn w1 = (r, w2) \<and> idle w2 w')"

lemma ranI: "WithinTransaction fn w = (r, w') \<Longrightarrow> ran fn w w'"
  unfolding ran_def using idle_refl by blast

lemma ran_frame:
  assumes "ran fn w w'" and "confined fn" and "tx w = None"
  shows "tx w' = None \<and> env w' = env w \<and> published w' = published w \<and>
    (committed w' = committed w \<or>
     (\<exists>a w0 w1. does fn w0 (committed w) a w1 (committed w') \<and> env w0 = env w))"
proof -
  obtain w1 r w2 where w1: "idle w w1" and run: "WithinTransaction fn w1 = (r, w2)" and w2: "idle w2 w'"
    using assms(1) unfolding ran_def by blast
  have "tx w1 = None" using w1 assms(3) by (simp add: idle_def)
  from pg.atomic [OF assms(2) this run] w1 w2 show ?thesis
    unfolding all_or_nothing_def idle_def by auto
qed

lemma ran_moves:
  assumes "ran fn w w'" and "confined fn" and "moves lawful fn" and "tx w = None"
  shows "lawful (committed w) (committed w')"
  using ran_frame [OF assms(1,2,4)] does_moves [OF assms(3)] schema.stay by metis

section \<open>How each step ran\<close>

lemma publish_record_run:
  assumes "publish_record policy record w = (r, w')"
  obtains w1 delivery where "ran (record_publication policy record delivery) w1 w'"
    and "committed w1 = committed w" "tx w1 = tx w" "env w1 = env w"
    and "published w1 = published w @ (if ok delivery then [record] else [])"
proof -
  obtain delivery w1 where p: "Publish record w = (delivery, w1)" by fastforce
  obtain recorded w2 where u: "WithinTransaction (record_publication policy record delivery) w1 = (recorded, w2)"
    by fastforce
  have "idle w2 w'"
    using assms p u
    by (auto simp: publish_record_def attempt_def bind_action_def clock_now_def record_metric_def
        return_ok_def idle_def)
  then have "ran (record_publication policy record delivery) w1 w'"
    using u idle_refl unfolding ran_def by blast
  with that p show thesis by (auto simp: Publish_def split: option.splits)
qed

lemma retry_run: "retry policy pending w = (r, w') \<Longrightarrow> \<exists>at. ran (retry_in_transaction policy pending at) w w'"
  unfolding retry_def ran_def bind_action_def attempt_def clock_now_def
  using idle_refl idle_updates(1) by fastforce

text \<open>The readers, as units that change nothing.\<close>

lemma reader_WalletRepository_Reconcile [simp]: "reader (WalletRepository_Reconcile i)"
proof -
  have "reader (statement (SelectWalletReconciliation i))"
    by (rule readerI)
      (auto simp: statement_def next_call_def frame_def SelectWalletReconciliation_def
        split: if_splits option.splits sum.splits prod.splits)
  then show ?thesis
    unfolding WalletRepository_Reconcile_def query_row_def
    by (intro reader_bind reader_attempt reader_basic; simp split: sum.splits option.splits)
qed

lemma reader_LedgerRepository_Page [simp]: "reader (LedgerRepository_Page i c n)"
proof -
  have "reader (statement (SelectLedgerPage i c (to_int32 n)))"
    by (rule readerI)
      (auto simp: statement_def next_call_def frame_def SelectLedgerPage_def
        split: if_splits option.splits sum.splits prod.splits)
  then show ?thesis
    unfolding LedgerRepository_Page_def
    by (intro reader_bind reader_translated reader_basic; simp)
qed

lemma ran_reader: "ran fn w w' \<Longrightarrow> reader fn \<Longrightarrow> tx w = None \<Longrightarrow> idle w w'"
  using ran_frame [OF _ reader_confined, of fn w w'] does_reader [of fn] unfolding idle_def by metis

lemma ReadWallet_run:
  "ReadWallet_Wallet i w = (r, w') \<Longrightarrow> tx w = None \<Longrightarrow> idle w w'"
  "ReadWallet_Ledger i cursor limit w = (q, w') \<Longrightarrow> tx w = None \<Longrightarrow> idle w w'"
  "ReadWallet_Reconcile i w = (s, w') \<Longrightarrow> tx w = None \<Longrightarrow> idle w w'"
  "find_for_provider p lookup w = (t, w') \<Longrightarrow> reader lookup \<Longrightarrow> tx w = None \<Longrightarrow> idle w w'"
proof -
  show "ReadWallet_Wallet i w = (r, w') \<Longrightarrow> tx w = None \<Longrightarrow> idle w w'"
    unfolding ReadWallet_Wallet_def by (erule ran_reader [OF ranI]) simp_all
  show "tx w = None \<Longrightarrow> idle w w'" if "ReadWallet_Ledger i cursor limit w = (q, w')"
    using that unfolding ReadWallet_Ledger_def
    by (auto simp: raise_err_def Let_def split: if_splits
        intro!: ran_reader [OF ranI] reader_bind)
  show "find_for_provider p lookup w = (t, w') \<Longrightarrow> reader lookup \<Longrightarrow> tx w = None \<Longrightarrow> idle w w'"
    unfolding find_for_provider_def
    by (erule ran_reader [OF ranI]) (auto intro!: reader_bind split: option.splits)
  assume run: "ReadWallet_Reconcile i w = (s, w')" and "tx w = None"
  obtain q w1 where u: "WithinTransaction (
       bind_action (WalletRepository_Reconcile i) (\<lambda>r.
       bind_action (of_result (money_Sub (rc_Stored r) (rc_Calculated r))) (\<lambda>difference.
       return_ok \<lparr>rr_WalletID = i, rr_Stored = rc_Stored r, rr_Calculated = rc_Calculated r,
         rr_Difference = difference, rr_Consistent = money_IsZero difference,
         rr_CheckedEntries = rc_CheckedEntries r\<rparr>))) w = (q, w1)" by fastforce
  then have "idle w w1" using \<open>tx w = None\<close> by (auto intro!: ran_reader [OF ranI] reader_bind)
  moreover have "idle w1 w'"
    using run u by (auto simp: ReadWallet_Reconcile_def bind_action_def attempt_def raise_err_def
        record_metric_def return_ok_def split: sum.splits)
  ultimately show "idle w w'" by (rule idle_trans)
qed

lemma ProcessWager_ran:
  assumes "ProcessWager_Execute input w = (r, w')"
  shows "idle w w' \<or> (\<exists>t c at. ran (process_in_transaction t c at) w w')"
  using assms by (cases rule: ProcessWager_run) (unfold ran_def, blast+)

section \<open>What a step changed\<close>

definition delivers :: "OutboxRecord \<Rightarrow> outbox_row \<Rightarrow> bool" where
  "delivers rec row \<longleftrightarrow> ob_EventID rec = or_ID row \<and> ob_AggregateID rec = or_AggregateID row \<and>
     ob_EventType rec = or_EventType row \<and> ob_OccurredAt rec = or_OccurredAt row \<and>
     ob_Payload rec = or_Payload row"

lemma record_of_delivers: "record_of d rec \<longleftrightarrow> (\<exists>row \<in> set (outbox d). delivers rec row)"
  by (simp add: record_of_def delivers_def)

text \<open>The database a step leaves, from the one it found, in an environment and given what was published.\<close>

inductive changed :: "environment \<Rightarrow> OutboxRecord list \<Rightarrow> db \<Rightarrow> db \<Rightarrow> bool" for E pubs where
  changed_none: "changed E pubs d d"
| changed_opened: "opened d x c at d' \<Longrightarrow> wallet_wf x \<Longrightarrow> w_version x = 1 \<Longrightarrow> changed E pubs d d'"
| changed_executed: "executed E d input r d' \<Longrightarrow> constructed (in_Money input) \<Longrightarrow> changed E pubs d d'"
| changed_taken: "taken_in E d message hash q d' \<Longrightarrow> constructed (in_Money (msg_Input message)) \<Longrightarrow>
    changed E pubs d d'"
| changed_leased: "d' = d\<lparr>transactions := update_rows P (\<lambda>r. r\<lparr>tr_NextAttemptAt := n\<rparr>) (transactions d)\<rparr> \<Longrightarrow>
    changed E pubs d d'"
| changed_retried: "retried d E p at s d' \<Longrightarrow> changed E pubs d d'"
| changed_delivery: "d' = d\<lparr>outbox := update_rows P f (outbox d)\<rparr> \<Longrightarrow>
    (\<And>r. r \<in> set (outbox d) \<Longrightarrow> P r \<Longrightarrow> or_PublishedAt (f r) \<noteq> or_PublishedAt r \<Longrightarrow>
       \<exists>rec \<in> set pubs. delivers rec (f r)) \<Longrightarrow>
    (\<And>rec r. delivers rec (f r) = delivers rec r) \<Longrightarrow>
    changed E pubs d d'"

lemma changed_books: "changed E pubs d d' \<Longrightarrow> books d \<Longrightarrow> books d'"
proof (cases rule: changed.cases, assumption)
  show "books d'" if "d' = d\<lparr>transactions := update_rows P (\<lambda>r. r\<lparr>tr_NextAttemptAt := n\<rparr>) (transactions d)\<rparr>"
    "books d" for P n
    using that by (simp add: books_rescheduled)
qed (auto intro: opened_books executed_books taken_in_books retried_books)

lemma ran_changed:
  assumes "ran fn w w'" and "confined fn" and "tx w = None"
    and "\<And>a w0 w1. does fn w0 (committed w) a w1 (committed w') \<Longrightarrow> env w0 = env w \<Longrightarrow>
      changed (env w) pubs (committed w) (committed w')"
  shows "changed (env w) pubs (committed w) (committed w')"
  using ran_frame [OF assms(1-3)] assms(4) changed_none by metis

lemma idle_changed: "idle w w' \<Longrightarrow> changed E pubs (committed w) (committed w')"
  by (simp add: idle_def changed_none)

lemma wallet_Open_wf: "wallet_Open i p m at = Inr x \<Longrightarrow> wallet_wf x \<and> w_version x = 1"
  by (auto simp: wallet_Open_def wallet_Rehydrate_Inr_iff initialVersion_def)

lemma does_record_publication:
  assumes "does (record_publication policy record delivery) w d u w' d'"
  shows "\<exists>f. d' = d\<lparr>outbox := update_rows (\<lambda>r. or_ID r = ob_EventID record \<and> or_PublishedAt r = None) f (outbox d)\<rparr> \<and>
    (\<forall>rec r. delivers rec (f r) = delivers rec r) \<and>
    (\<not> ok delivery \<longrightarrow> (\<forall>r. or_PublishedAt (f r) = or_PublishedAt r))"
proof (cases delivery)
  case (Inl e)
  with assms obtain at n a v where "does (ReschedulePublication (ob_EventID record) n at) v d u w' d'"
    by (auto simp: record_publication_def Let_def elim!: does_bindE dest!: does_reader [OF reader_basic(4)])
  from does_ReschedulePublication [OF this] Inl show ?thesis by (auto simp: delivers_def)
next
  case (Inr x)
  with assms obtain at v where "does (MarkPublished (ob_EventID record) at) v d u w' d'"
    by (auto simp: record_publication_def elim!: does_bindE dest!: does_reader [OF reader_basic(4)])
  from does_MarkPublished [OF this] Inr show ?thesis by (auto simp: delivers_def)
qed

lemma publish_changed:
  assumes run: "publish_record policy record w = (r, w')" and rec: "record_of (committed w) record"
    and w: "tx w = None" "constraints (committed w)"
  shows "tx w' = None \<and> env w' = env w \<and> published w' \<in> {published w, published w @ [record]} \<and>
    changed (env w) (published w') (committed w) (committed w')"
proof -
  obtain w1 delivery where ran: "ran (record_publication policy record delivery) w1 w'"
    and w1: "committed w1 = committed w" "tx w1 = tx w" "env w1 = env w"
      "published w1 = published w @ (if ok delivery then [record] else [])"
    using publish_record_run [OF run] .
  note fr = ran_frame [OF ran confined_record_publication, unfolded w1, OF w(1)]
  obtain row where row: "row \<in> set (outbox (committed w))" "delivers record row"
    using rec unfolding record_of_delivers by blast
  have same: "x = row" if "x \<in> set (outbox (committed w))" "or_ID x = ob_EventID record" for x
    using distinct_key_unique [OF constraints_keys(3) [OF w(2)] that(1) row(1)] row(2) that(2)
    by (simp add: delivers_def)
  have "changed (env w) (published w') (committed w) (committed w')"
  proof -
    have "changed (env w) (published w') (committed w) (committed w')"
      if d: "does (record_publication policy record delivery) v (committed w) a v' (committed w')" for v a v'
    proof -
      obtain f where f: "committed w' = (committed w)\<lparr>outbox :=
          update_rows (\<lambda>r. or_ID r = ob_EventID record \<and> or_PublishedAt r = None) f (outbox (committed w))\<rparr>"
        and keep: "\<forall>rec r. delivers rec (f r) = delivers rec r"
        and pub: "\<not> ok delivery \<longrightarrow> (\<forall>r. or_PublishedAt (f r) = or_PublishedAt r)"
        using does_record_publication [OF d] by blast
      show ?thesis
      proof (rule changed_delivery [OF f])
        fix x assume x: "x \<in> set (outbox (committed w))"
          "or_ID x = ob_EventID record \<and> or_PublishedAt x = None" "or_PublishedAt (f x) \<noteq> or_PublishedAt x"
        then have "ok delivery" "x = row" using pub same by auto
        with fr keep row(2) show "\<exists>rec \<in> set (published w'). delivers rec (f x)" by auto
      qed (use keep in simp)
    qed
    with fr show ?thesis using changed_none by metis
  qed
  with fr show ?thesis by auto
qed

lemma step_changed:
  assumes "step w w'" and w: "tx w = None" "books (committed w)" "constraints (committed w)"
  shows "tx w' = None \<and> env w' = env w \<and>
    (\<exists>rs. published w' = published w @ rs \<and> (\<forall>rec \<in> set rs. record_of (committed w) rec)) \<and>
    changed (env w) (published w') (committed w) (committed w')"
  using assms(1)
proof cases
  case (step_open input r)
  then show ?thesis
  proof (cases rule: OpenWallet_run)
    case (ran i at x q w1)
    then have r: "ran (open_in_transaction x (ow_CorrelationID input) at) w w'"
      using idle_refl unfolding ran_def by blast
    have "changed (env w) (published w') (committed w) (committed w')"
    proof (rule ran_changed [OF r _ w(1)])
      fix a v0 v1
      assume "does (open_in_transaction x (ow_CorrelationID input) at) v0 (committed w) a v1 (committed w')"
      from does_open [OF this w(2)] wallet_Open_wf [OF ran(1)]
      show "changed (env w) (published w') (committed w) (committed w')" by (blast intro: changed_opened)
    qed simp
    with ran_frame [OF r _ w(1)] show ?thesis by simp
  qed (use w in \<open>auto simp: idle_def changed_none\<close>)
next
  case (step_process input r)
  then show ?thesis
  proof (cases rule: ProcessWager_run)
    case (ran hash i at t w1 w2)
    then have r: "ran (process_in_transaction t (in_CorrelationID input) at) w w'"
      using idle_refl unfolding ran_def by blast
    have "changed (env w) (published w') (committed w) (committed w')"
    proof (rule ran_changed [OF r _ w(1)])
      fix a v0 v1 assume d: "does (process_in_transaction t (in_CorrelationID input) at) v0 (committed w) a v1 (committed w')"
      from NewExternal_facts [OF ran(3) step_process(2)] does_process [OF d w(2)] ran(1,3)
      have "executed (env w) (committed w) input a (committed w')" unfolding executed_def by blast
      with step_process(2) show "changed (env w) (published w') (committed w) (committed w')"
        by (blast intro: changed_executed)
    qed simp
    with ran_frame [OF r _ w(1)] show ?thesis by simp
  qed (use w in \<open>auto simp: idle_def changed_none\<close>)
next
  case (step_take message r)
  then show ?thesis
  proof (cases rule: ProcessInboxMessage_run)
    case (ran hash w2)
    then have r: "ran (take_in_transaction message hash) w w'"
      using idle_refl unfolding ran_def by blast
    have "changed (env w) (published w') (committed w) (committed w')"
      by (rule ran_changed [OF r _ w(1)])
        (use does_take [OF _ w(2) step_take(2)] step_take(2) in \<open>fastforce intro: changed_taken\<close>)+
    with ran_frame [OF r _ w(1)] show ?thesis by simp
  qed (use w in \<open>auto simp: idle_def changed_none\<close>)
next
  case (step_lease dueAt leaseUntil limit r)
  then have r: "ran (LeasePendingReferences dueAt leaseUntil limit) w w'" by (auto intro: ranI)
  have "changed (env w) (published w') (committed w) (committed w')"
    by (rule ran_changed [OF r _ w(1)])
      (auto dest!: does_LeasePendingReferences intro: changed_leased)
  with ran_frame [OF r _ w(1)] show ?thesis by simp
next
  case (step_retry policy pending r)
  then obtain at where r: "ran (retry_in_transaction policy pending at) w w'" using retry_run by blast
  have "changed (env w) (published w') (committed w) (committed w')"
  proof (rule ran_changed [OF r _ w(1)])
    fix a v0 v1 assume d: "does (retry_in_transaction policy pending at) v0 (committed w) a v1 (committed w')"
      and "env v0 = env w"
    from does_retry [OF d w(2)] this(2) show "changed (env w) (published w') (committed w) (committed w')"
      by (metis changed_none changed_retried)
  qed simp
  with ran_frame [OF r _ w(1)] show ?thesis by simp
next
  case (step_lease_events dueAt leaseUntil limit r)
  then have r: "ran (LeasePending dueAt leaseUntil limit) w w'" by (auto intro: ranI)
  have "changed (env w) (published w') (committed w) (committed w')"
    by (rule ran_changed [OF r _ w(1)]) (auto dest!: does_LeasePending intro: changed_delivery simp: delivers_def)
  with ran_frame [OF r _ w(1)] show ?thesis by simp
next
  case (step_publish publication rec r)
  from publish_changed [OF step_publish w(1,3)] step_publish(2) show ?thesis by auto
next
  case step_idle
  then show ?thesis using w(1) by (simp add: idle_def changed_none)
qed (use w(1) in \<open>auto dest!: ReadWallet_run simp: idle_def changed_none\<close>)

lemma step_lawful:
  assumes "step w w'" and w: "tx w = None"
  shows "lawful (committed w) (committed w')"
proof -
  have idle: "lawful (committed v) (committed v')" if "idle v v'" for v v'
    using that schema.stay by (simp add: idle_def)
  note units = ran_moves [OF _ _ _ w]
  from assms(1) show ?thesis
  proof cases
    case (step_open input r)
    then show ?thesis
    proof (cases rule: OpenWallet_run)
      case (ran i at x q w1)
      then have "ran (open_in_transaction x (ow_CorrelationID input) at) w w'"
        using idle_refl unfolding ran_def by blast
      then show ?thesis by (rule units) (simp_all add: schema.moves_units)
    qed (rule idle)
  next
    case (step_process input r)
    then show ?thesis
      using idle units [OF _ confined_process_in_transaction schema.moves_units(1)]
      by (metis ProcessWager_ran)
  next
    case (step_take message r)
    then show ?thesis
    proof (cases rule: ProcessInboxMessage_run)
      case (ran hash w2)
      then have "ran (take_in_transaction message hash) w w'" using idle_refl unfolding ran_def by blast
      then show ?thesis by (rule units) (simp_all add: schema.moves_take_in_transaction)
    qed (rule idle)
  next
    case (step_lease dueAt leaseUntil limit r)
    then show ?thesis by (intro units [OF ranI]) (auto intro: schema.moves_repositories)
  next
    case (step_retry policy pending r)
    then show ?thesis
      using units [OF _ confined_retry_in_transaction schema.moves_units(3)] by (metis retry_run)
  next
    case (step_lease_events dueAt leaseUntil limit r)
    then show ?thesis by (intro units [OF ranI]) (auto intro: schema.moves_repositories)
  next
    case (step_publish publication rec r)
    then obtain w1 delivery where "ran (record_publication publication rec delivery) w1 w'"
      "committed w1 = committed w" "tx w1 = tx w" by (metis publish_record_run)
    with ran_moves [OF _ confined_record_publication schema.moves_units(4), of publication rec delivery w1 w'] w
    show ?thesis by simp
  qed (use w idle in \<open>auto dest!: ReadWallet_run\<close>)
qed

section \<open>What holds in every reachable state\<close>

definition delivered :: "world \<Rightarrow> bool" where
  "delivered w \<longleftrightarrow>
     (\<forall>r \<in> set (outbox (committed w)). or_PublishedAt r \<noteq> None \<longrightarrow> (\<exists>rec \<in> set (published w). delivers rec r))"

lemma event_rows_unpublished: "list_all2 event_row es os \<Longrightarrow> r \<in> set os \<Longrightarrow> or_PublishedAt r = None"
  by (auto simp: list_all2_conv_all_nth in_set_conv_nth event_row_def)

text \<open>The outbox a unit of work left: the events before, and new ones nobody published.\<close>

lemma recorded_outbox: "recorded d w t e w' c at d' \<Longrightarrow> \<exists>os. outbox d' = outbox d @ os \<and> (\<forall>r \<in> set os. or_PublishedAt r = None)"
  unfolding recorded_def by (auto dest: event_rows_unpublished split: option.splits)

lemma executed_outbox: "executed E d input r d' \<Longrightarrow> \<exists>os. outbox d' = outbox d @ os \<and> (\<forall>r \<in> set os. or_PublishedAt r = None)"
  unfolding executed_def applied_def by (auto dest: recorded_outbox)

lemma changed_outbox:
  assumes "changed E pubs d d'" and "r \<in> set (outbox d')" and "or_PublishedAt r \<noteq> None"
  shows "(\<exists>q \<in> set (outbox d). or_PublishedAt q \<noteq> None \<and> (\<forall>rec. delivers rec q = delivers rec r)) \<or>
    (\<exists>rec \<in> set pubs. delivers rec r)"
proof -
  have old: ?thesis if "r \<in> set (outbox d)" using that assms(3) by blast
  then have new: ?thesis if "\<exists>os. outbox d' = outbox d @ os \<and> (\<forall>r \<in> set os. or_PublishedAt r = None)"
    using that assms(2,3) by auto
  from assms(1) show ?thesis
  proof cases
    case changed_opened
    then show ?thesis by (intro new) (auto simp: opened_def dest: event_rows_unpublished split: if_splits)
  next
    case changed_executed
    then show ?thesis by (intro new) (rule executed_outbox)
  next
    case (changed_taken message hash q)
    then show ?thesis by (intro new) (auto simp: taken_in_def dest: executed_outbox)
  next
    case changed_retried
    then show ?thesis by (intro new) (auto simp: retried_def dest: recorded_outbox split: if_splits)
  next
    case (changed_delivery P f)
    then obtain q where q: "q \<in> set (outbox d)" "r = (if P q then f q else q)"
      using assms(2) by (auto simp: update_rows_def)
    then show ?thesis
      using changed_delivery(2) [OF q(1)] changed_delivery(3) assms(3) by (cases "P q") fastforce+
  qed (use assms(2) old in auto)
qed

lemma constraints_empty [simp]: "constraints empty_db"
  by (simp add: constraints_def empty_db_def)

lemma books_empty [simp]: "books empty_db"
  by (simp add: books_def inv_defs empty_db_def)

lemma reachable_inv:
  "reachable w \<Longrightarrow> tx w = None \<and> books (committed w) \<and> constraints (committed w) \<and> delivered w"
proof (induction rule: reachable.induct)
  case (reach_initial w)
  moreover have "outbox empty_db = []" by (simp add: empty_db_def)
  ultimately show ?case by (simp add: initial_def delivered_def)
next
  case (reach_step w w')
  then have w: "tx w = None" "books (committed w)" "constraints (committed w)" "delivered w" by simp_all
  note ch = step_changed [OF reach_step(2) w(1-3)]
  have "books (committed w')" using ch changed_books w(2) by blast
  moreover have "constraints (committed w')"
    using step_lawful [OF reach_step(2) w(1)] w(3) by (simp add: lawful_def)
  moreover have "delivered w'"
    unfolding delivered_def
  proof (intro ballI impI)
    fix r assume "r \<in> set (outbox (committed w'))" "or_PublishedAt r \<noteq> None"
    then show "\<exists>rec \<in> set (published w'). delivers rec r"
      using ch changed_outbox [of "env w" "published w'" "committed w" "committed w'" r] w(4)
      unfolding delivered_def by fastforce
  qed
  ultimately show ?case using ch by simp
qed

text \<open>And what was published is in the outbox.\<close>

lemma kept_event_delivers: "kept_event q r \<Longrightarrow> delivers rec q \<Longrightarrow> delivers rec r"
proof -
  assume "kept_event q r"
  then have eq: "r = q\<lparr>or_Attempts := or_Attempts r, or_NextAttemptAt := or_NextAttemptAt r,
      or_PublishedAt := or_PublishedAt r\<rparr>" unfolding kept_event_def by blast
  show "delivers rec q \<Longrightarrow> delivers rec r" by (subst eq) (simp add: delivers_def)
qed

lemma record_stays:
  assumes "extends d d'" and "record_of d rec"
  shows "record_of d' rec"
proof -
  obtain q where q: "q \<in> set (outbox d)" "delivers rec q" using assms(2) unfolding record_of_delivers by blast
  have "grown kept_event (outbox d) (outbox d')" using assms(1) by (simp add: extends_def)
  then obtain r where "r \<in> set (outbox d')" "kept_event q r" using grown_rows [OF _ q(1)] by metis
  with q(2) kept_event_delivers show ?thesis unfolding record_of_delivers by blast
qed

lemma reachable_published: "reachable w \<Longrightarrow> rec \<in> set (published w) \<Longrightarrow> record_of (committed w) rec"
proof (induction rule: reachable.induct)
  case (reach_step w w')
  note inv = reachable_inv [OF reach_step(1)]
  have "extends (committed w) (committed w')"
    using step_lawful [OF reach_step(2)] inv by (simp add: lawful_def)
  moreover have "record_of (committed w) rec"
    using step_changed [OF reach_step(2)] inv reach_step.IH reach_step.prems by auto
  ultimately show ?case by (rule record_stays)
qed (simp add: initial_def)

end
