(* ===== verification/Outcomes.thy ===== *)
theory Outcomes
  imports Reachable
begin

text \<open>
  What a caller can rely on: the outcome of one call from a reachable state, the recorded
  operation that a replay answers with, and the facts about single tables that the guarantees of
  the whole system rest on.
\<close>

section \<open>One call\<close>

lemma ran_outcome:
  assumes "WithinTransaction fn w1 = (r, w2)" and "confined fn" and "tx w = None"
    and "idle w w1" and "idle w2 w'"
  shows "committed w' = committed w \<and> \<not> ok r \<or>
    (\<exists>a w0 v. does fn w0 (committed w) a v (committed w') \<and> env w0 = env w \<and>
       (r = Inr a \<or> \<not> ok r \<and> answer_lost (env w)))"
proof -
  have "tx w1 = None" "committed w1 = committed w" "env w1 = env w" "committed w2 = committed w'"
    using assms(3-5) by (simp_all add: idle_def)
  with pg.atomic [OF assms(2) _ assms(1)] show ?thesis unfolding all_or_nothing_def by metis
qed

lemma process_outcome:
  assumes run: "ProcessWager_Execute input w = (r, w')" and w: "reachable w"
    and inp: "constructed (in_Money input)"
  shows "committed w' = committed w \<and> \<not> ok r \<or>
    (\<exists>a. executed (env w) (committed w) input a (committed w') \<and> (r = Inr a \<or> \<not> ok r \<and> answer_lost (env w)))"
proof -
  note inv = reachable_inv [OF w]
  from run show ?thesis
  proof (cases rule: ProcessWager_run)
    case (ran hash i at t w1 w2)
    have ex: "executed (env w) (committed w) input a (committed w')"
      if "does (process_in_transaction t (in_CorrelationID input) at) w0 (committed w) a v (committed w')" for a w0 v
      using that NewExternal_facts [OF ran(3) inp] does_process [OF that] inv ran(1,3)
      unfolding executed_def by blast
    from ran_outcome [OF ran(5) _ _ ran(4,6)] inv ex show ?thesis by fastforce
  qed (simp add: idle_def)
qed

lemma take_outcome:
  assumes run: "ProcessInboxMessage_Execute message w = (r, w')" and w: "reachable w"
    and inp: "constructed (in_Money (msg_Input message))"
  shows "committed w' = committed w \<and> \<not> ok r \<or>
    (\<exists>hash a. PayloadHash (env w) (msg_Input message) = Inr hash \<and>
       taken_in (env w) (committed w) message hash a (committed w') \<and> (r = Inr a \<or> \<not> ok r \<and> answer_lost (env w)))"
proof -
  note inv = reachable_inv [OF w]
  from run show ?thesis
  proof (cases rule: ProcessInboxMessage_run)
    case (ran hash w2)
    have ex: "taken_in (env w) (committed w) message hash a (committed w')"
      if "does (take_in_transaction message hash) w0 (committed w) a v (committed w')" "env w0 = env w" for a w0 v
      using does_take [OF that(1) _ inp] inv that(2) by simp
    from ran_outcome [OF ran(3) _ _ idle_refl ran(4)] inv ex ran(1) show ?thesis by fastforce
  qed (simp add: idle_def)
qed

section \<open>The recorded operation\<close>

text \<open>The row under an idempotency key, whatever became of it since.\<close>

definition keyed :: "ProcessWagerInput \<Rightarrow> string \<Rightarrow> ID \<Rightarrow> transaction_row \<Rightarrow> bool" where
  "keyed input hash i r \<longleftrightarrow> tr_ID r = i \<and> tr_ProviderID r = Some (in_ProviderID input) \<and>
     tr_IdempotencyKey r = Some (in_IdempotencyKey input) \<and> tr_PayloadHash r = Some hash"

lemma row_request_keyed: "row_request r' = row_request r \<Longrightarrow> keyed input hash i r' = keyed input hash i r"
  unfolding keyed_def row_request_def by (cases r; cases r') simp

lemma sorted_wrt_unique:
  assumes "sorted_wrt (\<lambda>q r. \<not> P q r) rs" and "q \<in> set rs" "r \<in> set rs" "P q r" "P r q"
  shows "q = r"
  using assms by (induction rs) auto

lemma valid_rows_unique:
  assumes "valid_rows checks uniques rs" and "symmetric_clashes uniques" and "(c, clash) \<in> set uniques"
    and "q \<in> set rs" "r \<in> set rs" "clash q r"
  shows "q = r"
proof (rule sorted_wrt_unique)
  show "sorted_wrt (\<lambda>q r. \<not> clash q r) rs" using assms(1,3) unfolding valid_rows_def by blast
  show "clash r q" using assms(2,3,6) unfolding symmetric_clashes_def by blast
qed (fact assms)+

lemma valid_rows_sorted:
  "valid_rows checks uniques rs \<Longrightarrow> (c, clash) \<in> set uniques \<Longrightarrow> sorted_wrt (\<lambda>q r. \<not> clash q r) rs"
  unfolding valid_rows_def by blast

lemma valid_rows_check: "valid_rows checks uniques rs \<Longrightarrow> r \<in> set rs \<Longrightarrow> (c, p) \<in> set checks \<Longrightarrow> p r"
  unfolding valid_rows_def first_failed_None by blast

lemma constraints_origin: "constraints d \<Longrightarrow> r \<in> set (transactions d) \<Longrightarrow> row_origin r"
  by (rule valid_rows_check [OF constraintsD(2), where c = "''wager_transactions_origin''"])
    (simp_all add: transaction_checks_def)

lemma transaction_clashes:
  "(transactionsProviderIdempotencyKey, \<lambda>q r. tr_Kind q \<noteq> ''OPENING'' \<and> tr_Kind r \<noteq> ''OPENING'' \<and>
     same_value (tr_ProviderID q) (tr_ProviderID r) \<and>
     same_value (tr_IdempotencyKey q) (tr_IdempotencyKey r)) \<in> set transaction_uniques"
  "(transactionsOneReversalPerRef, \<lambda>q r. row_reversed q \<and> row_reversed r \<and>
     same_value (tr_ReferenceTransactionID q) (tr_ReferenceTransactionID r)) \<in> set transaction_uniques"
  by (simp_all add: transaction_uniques_def)

lemma keys_unique:
  assumes c: "constraints d" and q: "q \<in> set (transactions d)" "tr_ProviderID q = Some p" "tr_IdempotencyKey q = Some k"
    and r: "r \<in> set (transactions d)" "tr_ProviderID r = Some p" "tr_IdempotencyKey r = Some k"
  shows "q = r"
proof -
  have "tr_Kind q \<noteq> ''OPENING''" "tr_Kind r \<noteq> ''OPENING''"
    using constraints_origin [OF c q(1)] constraints_origin [OF c r(1)] q r by (auto simp: row_origin_def)
  with valid_rows_unique [OF constraintsD(2) [OF c] symmetric_schema(2) transaction_clashes(1) q(1) r(1)] q r
  show ?thesis by (simp add: same_value_def)
qed

lemma stores_keyed:
  assumes "stores r t" and "t_providerID t = in_ProviderID input" "t_idempotencyKey t = in_IdempotencyKey input"
    and "t_payloadHash t = hash" and "in_ProviderID input \<noteq> ''''" "in_IdempotencyKey input \<noteq> ''''" "hash \<noteq> ''''"
  shows "keyed input hash (t_id t) r"
proof -
  obtain n where r: "r = operation_row t n" using assms(1) unfolding stores_def by blast
  show ?thesis using assms(2-) by (simp add: keyed_def r optional_def)
qed

lemma executed_keyed:
  assumes ex: "executed E d input a d'" and inp: "constructed (in_Money input)" and b: "books d"
  obtains hash r where "PayloadHash E input = Inr hash" and "r \<in> set (transactions d')"
    and "keyed input hash (res_TransactionID a) r"
proof -
  obtain hash i at t where h: "PayloadHash E input = Inr hash"
    and t: "NewExternal (new_external_params input hash i at) = Inr t"
    and eff: "d' = d \<and> replayed d t a \<or> applied d t (in_CorrelationID input) at a d'"
    using ex unfolding executed_def by blast
  note f = NewExternal_facts [OF t inp]
  have ne: "in_ProviderID input \<noteq> ''''" "in_IdempotencyKey input \<noteq> ''''" "hash \<noteq> ''''"
    using f by (auto simp: transaction_wf_defs)
  from eff show thesis
  proof
    assume "d' = d \<and> replayed d t a"
    then obtain p row where d: "d' = d" and p: "a = newWagerResult p True" "t_payloadHash p = t_payloadHash t"
      and row: "List.find (\<lambda>q. tr_ProviderID q = Some (t_providerID t) \<and>
          tr_IdempotencyKey q = Some (t_idempotencyKey t)) (transactions d) = Some row" "rehydrate_row row = Inr p"
      unfolding replayed_def by blast
    note in_row = find_SomeD [OF row(1)]
    obtain u where "stores row u" using b in_row by (auto simp: books_def transactions_inv_def)
    then have st: "stores row p" using stores_unique [OF _ row(2)] by simp
    then obtain n where "row = operation_row p n" unfolding stores_def by blast
    then have "t_providerID p = in_ProviderID input" "t_idempotencyKey p = in_IdempotencyKey input"
      using in_row f by auto
    from stores_keyed [OF st this, of hash] have "keyed input hash (res_TransactionID a) row"
      using p f ne by (simp add: newWagerResult_def)
    with that h d in_row show thesis by blast
  next
    assume "applied d t (in_CorrelationID input) at a d'"
    then obtain w t'' entry w' where dec: "decided d w t at t'' entry w'" and a: "a = newWagerResult t'' False"
      and rec: "recorded d w t'' entry w' (in_CorrelationID input) at d'"
      unfolding applied_def by blast
    from rec obtain r where r: "r \<in> set (transactions d')" "stores r t''"
      unfolding recorded_def saved_def by (auto split: option.splits)
    have same: "same_request t t''" using decided_request [OF dec] f by simp
    have "keyed input hash (res_TransactionID a) r"
      using stores_keyed [OF r(2), of input hash] a same f ne
      by (simp add: newWagerResult_def same_request_def)
    with that h r(1) show thesis by blast
  qed
qed

text \<open>Executing an operation that is recorded changes nothing and names the recorded one.\<close>

lemma executed_again:
  assumes ex: "executed E d input a d'" and inp: "constructed (in_Money input)" and c: "constraints d" and b: "books d"
    and row: "r \<in> set (transactions d)" "keyed input hash i r"
  shows "d' = d \<and> PayloadHash E input = Inr hash \<and> res_TransactionID a = i \<and> res_IdempotentReplay a"
proof -
  obtain h j at t where h: "PayloadHash E input = Inr h"
    and t: "NewExternal (new_external_params input h j at) = Inr t"
    and eff: "d' = d \<and> replayed d t a \<or> applied d t (in_CorrelationID input) at a d'"
    using ex unfolding executed_def by blast
  note f = NewExternal_facts [OF t inp]
  have "\<not> applied d t (in_CorrelationID input) at a d'"
    using row f unfolding applied_def keyed_def by auto
  with eff have d: "d' = d" and rep: "replayed d t a" by auto
  have "res_IdempotentReplay a" using rep by (auto simp: replayed_def newWagerResult_def)
  obtain h' q where q: "PayloadHash E input = Inr h'" "q \<in> set (transactions d)"
    "keyed input h' (res_TransactionID a) q"
    using executed_keyed [OF ex inp b] unfolding d .
  have "q = r" using keys_unique [OF c q(2) _ _ row(1)] q(3) row(2) by (simp add: keyed_def)
  with q row d \<open>res_IdempotentReplay a\<close> show ?thesis by (simp add: keyed_def)
qed

text \<open>The row stays under its key in every later state.\<close>

lemma steps_lawful: "steps w w' \<Longrightarrow> reachable w \<Longrightarrow> extends (committed w) (committed w')"
proof (induction rule: steps.induct)
  case (steps_step w w' w'')
  then have "reachable w'" using reachable_steps by blast
  then have "extends (committed w') (committed w'')"
    using step_lawful [OF steps_step(2)] reachable_inv by (simp add: lawful_def)
  with steps_step show ?case using extends_trans by blast
qed simp

lemma keyed_stays:
  assumes "extends d d'" and "r \<in> set (transactions d)" and "keyed input hash i r"
  obtains r' where "r' \<in> set (transactions d')" and "keyed input hash i r'"
proof -
  have "grown kept_operation (transactions d) (transactions d')" using assms(1) by (simp add: extends_def)
  then obtain r' where r': "r' \<in> set (transactions d')" "kept_operation r r'"
    using grown_rows [OF _ assms(2)] by metis
  have "row_request r' = row_request r" using r'(2) unfolding kept_operation_def by blast
  then have "keyed input hash i r'" using row_request_keyed assms(3) by blast
  with that r'(1) show thesis by blast
qed

lemma message_stays:
  "extends d d' \<Longrightarrow> m \<in> set (inbox d) \<Longrightarrow> m \<in> set (inbox d')"
  unfolding extends_def using grown_rows [of "(=)" "inbox d" "inbox d'" m] by blast

section \<open>What an executed operation did to the books\<close>

text \<open>Nothing moved, or one wallet did, by the amount of its one new entry.\<close>

definition unmoved :: "db \<Rightarrow> db \<Rightarrow> bool" where
  "unmoved d d' \<longleftrightarrow> wallets d' = wallets d \<and> entries d' = entries d"

definition one_movement :: "db \<Rightarrow> ID \<Rightarrow> Kind \<Rightarrow> Money \<Rightarrow> ID \<Rightarrow> int64 \<Rightarrow> db \<Rightarrow> bool" where
  "one_movement d walletID kind amount operation balance d' \<longleftrightarrow>
     (\<exists>dir r r' l. kind_direction_ok kind dir \<and> direction_IsValid dir \<and> r \<in> set (wallets d) \<and> wr_ID r = walletID \<and>
        wr_ID r' = walletID \<and> wr_PlayerID r' = wr_PlayerID r \<and> wr_Currency r' = wr_Currency r \<and>
        wr_Version r' = wr_Version r + 1 \<and> wr_BalanceMinor r' = balance \<and>
        sint balance = sint (wr_BalanceMinor r) + signed_amount dir amount \<and>
        wallets d' = map (\<lambda>q. if wr_ID q = walletID then r' else q) (wallets d) \<and>
        entries d' = entries d @ [l] \<and> lr_TransactionID l = operation \<and> lr_WalletID l = walletID \<and>
        lr_AmountMinor l = minorUnits amount \<and> lr_Direction l = direction_String dir)"

lemma recorded_unmoved: "recorded d w t'' None w' c at d' \<Longrightarrow> unmoved d d'"
  by (auto simp: recorded_def unmoved_def)

lemma recorded_movement:
  assumes "recorded d w t'' (Some e) w' c at d'" and "decided d0 w t at t'' (Some e) w'"
    and "wallet_to_row w \<in> set (wallets d)" and "t_kind t'' \<noteq> KindOpening"
  shows "one_movement d (t_walletID t'') (t_kind t'') (t_amount t'') (t_id t'') (minorUnits (w_balance w')) d'"
proof -
  obtain dir i where mv: "movement w (t_amount t'') (t_id t'') dir at i e w'" and k: "kind_direction_ok (t_kind t'') dir"
    and tw: "t_walletID t'' = w_id w" using decided_moves [OF assms(2)] assms(4) by blast
  have e: "direction_IsValid dir" "entry_wf e" "entry_amount e = t_amount t''" "entry_direction e = dir"
    using mv by (auto simp: movement_def entry_wf_def)
  have bal: "money_reading (w_balance w') = money_reading (w_balance w) + signed_amount dir (t_amount t'')"
    and cur: "wallet_Currency w' = wallet_Currency w"
    using movement_balance [OF mv] by (auto simp: money_like_def wallet_Currency_def)
  show ?thesis
    unfolding one_movement_def
  proof (intro exI conjI)
    show "wallets d' = map (\<lambda>q. if wr_ID q = t_walletID t'' then wallet_to_row w' else q) (wallets d)"
      "entries d' = entries d @ [entry_to_row e]"
      using assms(1) tw by (auto simp: recorded_def)
    show "wallet_to_row w \<in> set (wallets d)" by fact
    show "kind_direction_ok (t_kind t'') dir" by fact
  qed (use mv e bal cur tw in \<open>auto simp: movement_def entry_to_row_def money_reading_def\<close>)
qed

text \<open>The events of an operation, by their types.\<close>

definition outcome_events :: "ID \<Rightarrow> State \<Rightarrow> bool \<Rightarrow> string \<Rightarrow> db \<Rightarrow> db \<Rightarrow> bool" where
  "outcome_events walletID s money_moved c d d' \<longleftrightarrow>
     (\<exists>os. outbox d' = outbox d @ os \<and>
        map or_EventType os = outcome_type s # (if money_moved then [TypeWalletBalanceChanged] else []) \<and>
        (\<forall>r \<in> set os. or_AggregateID r = walletID \<and> or_PublishedAt r = None \<and>
           ev_CorrelationID (or_Payload r) = c))"

lemma event_row_sel: "event_row e r \<Longrightarrow> or_EventType r = ev_Type e \<and> or_AggregateID r = ev_AggregateID e \<and>
    or_PublishedAt r = None \<and> or_Payload r = e"
  by (simp add: event_row_def)

lemma new_event_facts:
  "NewWagerTransactionProcessed i (Some t) c at = Inr e \<Longrightarrow>
     ev_Type e = TypeWagerTransactionProcessed \<and> ev_AggregateID e = t_walletID t \<and> ev_CorrelationID e = c"
  "NewWagerTransactionRejected i (Some t) c at = Inr e \<Longrightarrow>
     ev_Type e = TypeWagerTransactionRejected \<and> ev_AggregateID e = t_walletID t \<and> ev_CorrelationID e = c"
  "NewWagerTransactionPendingReference i (Some t) c at = Inr e \<Longrightarrow>
     ev_Type e = TypeWagerTransactionPendingReference \<and> ev_AggregateID e = t_walletID t \<and> ev_CorrelationID e = c"
  "NewWalletBalanceChanged i (Some w) (Some l) c at = Inr e \<Longrightarrow>
     ev_Type e = TypeWalletBalanceChanged \<and> ev_AggregateID e = w_id w \<and> ev_CorrelationID e = c"
  by (auto simp: newEvent_def NewWagerTransactionProcessed_def NewWagerTransactionRejected_def
      NewWagerTransactionPendingReference_def NewWalletBalanceChanged_def requireTransaction_Inr
      split: if_splits option.splits)

lemma recorded_events:
  assumes "recorded d w t'' entry w' c at d'" and "\<And>e. entry = Some e \<Longrightarrow> w_id w' = t_walletID t''"
  shows "outcome_events (t_walletID t'') (t_state t'') (entry \<noteq> None) c d d'"
proof -
  obtain es os where ev: "events_of t'' w' entry c at es" and rows: "list_all2 event_row es os"
    and d': "outbox d' = outbox d @ os"
    using assms(1) by (auto simp: recorded_def split: option.splits)
  have hd: "ev_Type (hd es) = outcome_type (t_state t'') \<and> ev_AggregateID (hd es) = t_walletID t'' \<and>
      ev_CorrelationID (hd es) = c"
    using ev by (auto simp: events_of_def outcome_type_def dest!: new_event_facts split: if_splits)
  show ?thesis
  proof (cases entry)
    case None
    then obtain x where "es = [x]" using ev by (auto simp: events_of_def length_Suc_conv)
    with rows hd d' None show ?thesis
      by (auto simp: outcome_events_def list_all2_Cons1 dest!: event_row_sel)
  next
    case (Some e)
    then obtain x y where es: "es = [x, y]" using ev by (auto simp: events_of_def length_Suc_conv numeral_2_eq_2)
    moreover have "ev_Type y = TypeWalletBalanceChanged \<and> ev_AggregateID y = t_walletID t'' \<and> ev_CorrelationID y = c"
      using ev Some assms(2) by (auto simp: events_of_def es dest!: new_event_facts(4))
    ultimately show ?thesis
      using rows hd d' Some by (auto simp: outcome_events_def list_all2_Cons1 dest!: event_row_sel)
  qed
qed

lemma executed_effect:
  assumes "executed E d input a d'" and inp: "constructed (in_Money input)" and b: "books d"
  shows "if res_IdempotentReplay a then d' = d
    else let money_moved = (res_State a = StateProcessed \<and> in_Kind input \<noteq> KindLoss) in
      (if money_moved
       then one_movement d (in_WalletID input) (in_Kind input) (in_Money input) (res_TransactionID a)
         (minorUnits (res_Balance a)) d'
       else unmoved d d') \<and>
      outcome_events (in_WalletID input) (res_State a) money_moved (in_CorrelationID input) d d'"
proof -
  obtain hash i at t where t: "NewExternal (new_external_params input hash i at) = Inr t"
    and eff: "d' = d \<and> replayed d t a \<or> applied d t (in_CorrelationID input) at a d'"
    using assms(1) unfolding executed_def by blast
  note f = NewExternal_facts [OF t inp]
  from eff show ?thesis
  proof
    assume "d' = d \<and> replayed d t a"
    then show ?thesis by (auto simp: replayed_def newWagerResult_def)
  next
    assume "applied d t (in_CorrelationID input) at a d'"
    then obtain w t'' entry w' where w: "wallet_to_row w \<in> set (wallets d)"
      and dec: "decided d w t at t'' entry w'" and a: "a = newWagerResult t'' False"
      and rec: "recorded d w t'' entry w' (in_CorrelationID input) at d'"
      unfolding applied_def by blast
    have same: "t_walletID t'' = in_WalletID input" "t_kind t'' = in_Kind input" "t_amount t'' = in_Money input"
      "t_id t'' = t_id t" using decided_request [OF dec] f by (auto simp: same_request_def)
    have res: "res_State a = t_state t''" "res_TransactionID a = t_id t''" "\<not> res_IdempotentReplay a"
      using a by (simp_all add: newWagerResult_def)
    show ?thesis
    proof (cases entry)
      case None
      with decided_still dec have "\<not> (t_state t'' = StateProcessed \<and> t_kind t'' \<noteq> KindLoss)" by blast
      with recorded_unmoved recorded_events [OF rec] rec None res same show ?thesis by (auto simp: Let_def)
    next
      case (Some e)
      then obtain dir j where mv: "movement w (t_amount t'') (t_id t'') dir at j e w'"
        and st: "t_state t'' = StateProcessed" "t_kind t'' \<noteq> KindLoss" "t_walletID t'' = w_id w"
        "t_resultBalance t'' = Some (w_balance w')"
        using decided_moves dec by blast
      have "res_Balance a = w_balance w'" using a st(4) by (simp add: newWagerResult_def)
      moreover have "w_id w' = t_walletID t''" using mv st(3) by (simp add: movement_def)
      moreover have "t_kind t'' \<noteq> KindOpening" using f same(2) by auto
      ultimately show ?thesis
        using recorded_movement [OF rec [unfolded Some] dec [unfolded Some] w] recorded_events [OF rec] Some res same st(1,2)
        by simp
    qed
  qed
qed

section \<open>Messages taken in\<close>

lemma taken_in_recorded:
  assumes "taken_in E d message hash a d'"
  obtains m where "m \<in> set (inbox d')" and "ir_MessageID m = msg_MessageID message"
    and "ir_TransactionID m = res_TransactionID (inr_WagerResult a)"
proof -
  have "\<exists>m \<in> set (inbox d'). ir_MessageID m = msg_MessageID message \<and>
      ir_TransactionID m = res_TransactionID (inr_WagerResult a)"
    using assms unfolding taken_in_def by (auto dest!: find_SomeD)
  with that show thesis by blast
qed

lemma taken_in_again:
  assumes "taken_in E d message hash b d'" and "m \<in> set (inbox d)" and "ir_MessageID m = msg_MessageID message"
    and c: "constraints d"
  shows "d' = d \<and> inr_Duplicate b \<and> res_TransactionID (inr_WagerResult b) = ir_TransactionID m"
proof -
  have "List.find (\<lambda>m. ir_MessageID m = msg_MessageID message) (inbox d) \<noteq> None"
    using assms(2,3) by (auto simp: find_None_iff)
  then obtain row where row: "List.find (\<lambda>m. ir_MessageID m = msg_MessageID message) (inbox d) = Some row"
    and eff: "d' = d" "inr_Duplicate b" "res_TransactionID (inr_WagerResult b) = ir_TransactionID row"
    using assms(1) unfolding taken_in_def by auto
  have "(inboxMessagesPrimaryKey, \<lambda>q r. ir_MessageID q = ir_MessageID r) \<in> set inbox_uniques"
    by (simp add: inbox_uniques_def)
  from valid_rows_unique [OF constraintsD(5) [OF c] symmetric_schema(5) this, of row m] find_SomeD [OF row] assms(2,3)
  have "row = m" by simp
  with eff show ?thesis by simp
qed

text \<open>A message that was taken in has no further effect, however often and whenever it comes again.\<close>

lemma taken_in_once:
  assumes "reachable w" and "constructed (in_Money (msg_Input message))"
    and "ProcessInboxMessage_Execute message w = (Inr a, w1)" and "steps w1 w2"
    and "ProcessInboxMessage_Execute message w2 = (r, w3)"
  shows "committed w3 = committed w2 \<and>
    (\<forall>b. r = Inr b \<longrightarrow> inr_Duplicate b \<and>
       res_TransactionID (inr_WagerResult b) = res_TransactionID (inr_WagerResult a))"
proof -
  obtain hash where first: "taken_in (env w) (committed w) message hash a (committed w1)"
    using take_outcome [OF assms(3,1,2)] by auto
  have w1: "reachable w1" using reach_step [OF assms(1) step_take [OF assms(3,2)]] .
  have w2: "reachable w2" using reachable_steps [OF assms(4) w1] .
  obtain m where m: "m \<in> set (inbox (committed w1))" "ir_MessageID m = msg_MessageID message"
    "ir_TransactionID m = res_TransactionID (inr_WagerResult a)" using taken_in_recorded [OF first] .
  have m2: "m \<in> set (inbox (committed w2))" using message_stays [OF steps_lawful [OF assms(4) w1] m(1)] .
  have again: "committed w3 = committed w2 \<and> inr_Duplicate b \<and>
      res_TransactionID (inr_WagerResult b) = ir_TransactionID m"
    if "taken_in (env w2) (committed w2) message h b (committed w3)" for h b
    using taken_in_again [OF that m2 m(2)] reachable_inv [OF w2] by simp
  from take_outcome [OF assms(5) w2 assms(2)] again m(3) show ?thesis by fastforce
qed

section \<open>What the books say of a wallet, an operation and a reversal\<close>

lemma books_balances:
  assumes b: "books d" "constraints d" and r: "r \<in> set (wallets d)"
  shows "0 \<le> sint (wr_BalanceMinor r) \<and>
    sint (wr_BalanceMinor r) = rebuilt_balance d (wr_ID r) \<and>
    chain 0 (wallet_entries d (wr_ID r)) (sint (wr_BalanceMinor r)) \<and>
    sint (wr_Version r) = 1 + int (count_rows (\<lambda>l. \<not> is_opening d l) (wallet_entries d (wr_ID r)))"
proof -
  note inv = b(1) [unfolded books_def]
  have c: "chain 0 (wallet_entries d (wr_ID r)) (sint (wr_BalanceMinor r))"
    using inv r by (simp add: balances_inv_def)
  moreover have "0 \<le>s wr_BalanceMinor r"
    by (rule valid_rows_check [OF constraintsD(1) [OF b(2)] r, where c = "''wallets_balance_non_negative''"])
      (simp add: wallet_checks_def)
  ultimately show ?thesis
    using inv r chain_sum [OF c] by (simp add: versions_inv_def rebuilt_balance_def sle64)
qed

lemma constraints_one_reversal:
  assumes c: "constraints d"
  shows "distinct (map tr_ReferenceTransactionID (filter row_reversed (transactions d))) \<and>
    None \<notin> tr_ReferenceTransactionID ` set (filter row_reversed (transactions d))"
proof -
  have ref: "tr_ReferenceTransactionID r \<noteq> None" if "r \<in> set (filter row_reversed (transactions d))" for r
  proof -
    have "\<not> row_is_reversal r \<or> tr_State r \<noteq> ''PROCESSED'' \<or> tr_ReferenceTransactionID r \<noteq> None"
      by (rule valid_rows_check [OF constraintsD(2) [OF c], where c = "''wager_transactions_processed_reversal_resolved''"])
        (use that in \<open>simp_all add: transaction_checks_def\<close>)
    with that show ?thesis by (simp add: row_reversed_def)
  qed
  have "sorted_wrt (\<lambda>q r. \<not> (row_reversed q \<and> row_reversed r \<and>
      same_value (tr_ReferenceTransactionID q) (tr_ReferenceTransactionID r))) (transactions d)"
    using valid_rows_sorted [OF constraintsD(2) [OF c] transaction_clashes(2)] .
  then have "sorted_wrt (\<lambda>q r. tr_ReferenceTransactionID q \<noteq> tr_ReferenceTransactionID r)
      (filter row_reversed (transactions d))"
    by (intro sorted_wrt_mono_rel [OF _ sorted_wrt_filter]) (use ref in \<open>auto simp: same_value_def\<close>)
  with ref show ?thesis by (force simp: sorted_wrt_keys)
qed

end
