(* ===== verification/Batches.thy ===== *)
theory Batches
  imports Outcomes
begin

text \<open>
  The two use cases of the workers, \<open>resolve_pending_references.go\<close> and \<open>publish_outbox.go\<close>, as
  sequences of steps, so that what holds of reachable states holds during and after a batch; the
  order in which events leave; and the delays between attempts.
\<close>

section \<open>Batches are sequences of steps\<close>

lemma steps_idle: "idle w w' \<Longrightarrow> steps w w'"
  by (rule steps_one [OF step_idle])

lemma observe_idle: "\<exists>w2. observe q w1 = (Inr (), w2) \<and> idle w1 w2"
  by (auto simp: observe_def record_metric_def return_ok_def split: sum.splits)

lemma retry_all_steps: "retry_all policy ps w = (r, w') \<Longrightarrow> steps w w'"
proof (induction ps arbitrary: w r w')
  case (Cons p ps)
  obtain q w1 where q: "retry policy p w = (q, w1)" by fastforce
  obtain w2 where o: "observe q w1 = (Inr (), w2)" "idle w1 w2" using observe_idle by blast
  obtain es w3 where es: "retry_all policy ps w2 = (es, w3)" by fastforce
  have "idle w3 w'"
    using Cons.prems q o(1) es
    by (auto simp: attempt_def bind_action_def raise_err_def return_ok_def idle_def split: sum.splits)
  with Cons.IH [OF es] step_retry [OF q] o(2) show ?case
    by (meson steps_idle steps_one steps_trans)
qed (simp add: return_ok_def)

lemma resolve_steps:
  assumes "ResolvePendingReferences_Execute policy w = (r, w')"
  shows "steps w w'"
proof -
  define now where "now = env_clock (env w) (instants w)"
  define w0 where "w0 = w\<lparr>instants := Suc (instants w)\<rparr>"
  have w0: "steps w w0" by (rule steps_idle) (simp add: w0_def)
  obtain q w1 where q: "WithinTransaction (LeasePendingReferences now (time_Add now (rp_Lease policy))
      (rp_BatchSize policy)) w0 = (q, w1)" by fastforce
  have w1: "steps w w1" using w0 step_lease [OF q] by (rule steps_step)
  show ?thesis
  proof (cases q)
    case (Inl e)
    with assms q w1 show ?thesis
      by (simp add: ResolvePendingReferences_Execute_def bind_action_def attempt_def clock_now_def
          return_ok_def now_def w0_def)
  next
    case (Inr leased)
    obtain es w2 where es: "retry_all policy leased w1 = (es, w2)" by fastforce
    with assms q Inr have "w' = w2"
      by (auto simp: ResolvePendingReferences_Execute_def bind_action_def attempt_def clock_now_def
          return_ok_def raise_err_def now_def w0_def split: sum.splits)
    with w1 retry_all_steps [OF es] show ?thesis by (auto intro: steps_trans)
  qed
qed

lemma publish_all_steps:
  "publish_all policy rs w = (r, w') \<Longrightarrow> reachable w \<Longrightarrow> \<forall>rec \<in> set rs. record_of (committed w) rec \<Longrightarrow> steps w w'"
proof (induction rs arbitrary: w r w')
  case (Cons rec rs)
  obtain q w1 where q: "publish_record policy rec w = (q, w1)" by fastforce
  have st: "step w w1" by (rule step_publish [OF q]) (use Cons.prems in simp)
  obtain es w2 where es: "publish_all policy rs w1 = (es, w2)" by fastforce
  have w1: "reachable w1" using Cons.prems(2) st by (rule reach_step)
  have "\<forall>rec \<in> set rs. record_of (committed w1) rec"
    using Cons.prems(3) record_stays [OF steps_lawful [OF steps_one [OF st] Cons.prems(2)]] by simp
  then have "steps w w2" using Cons.IH [OF es w1] steps_one [OF st] by (blast intro: steps_trans)
  moreover have "w' = w1 \<or> w' = w2"
    using Cons.prems(1) q es
    by (auto simp: bind_action_def attempt_def raise_err_def return_ok_def split: sum.splits)
  ultimately show ?case using steps_one [OF st] by blast
qed (simp add: return_ok_def)

text \<open>What the lease answers with, and the database it leaves.\<close>

lemma lease_outcome:
  assumes run: "WithinTransaction (LeasePending dueAt leaseUntil limit) w = (Inr rs, w')" and w: "reachable w"
  obtains s taken where "taken = take (nat (sint (to_int32 limit))) (due_events s dueAt (outbox (committed w)))"
    and "rs = map (\<lambda>r. outbox_record (r\<lparr>or_NextAttemptAt := leaseUntil\<rparr>)) taken"
    and "committed w' = (committed w)\<lparr>outbox := update_rows (\<lambda>r. or_ID r \<in> or_ID ` set taken)
      (\<lambda>r. r\<lparr>or_NextAttemptAt := leaseUntil\<rparr>) (outbox (committed w))\<rparr>"
proof -
  have "tx w = None" using reachable_inv [OF w] by simp
  from pg.result_committed [OF _ this run] obtain w0 w1 where
    "does (LeasePending dueAt leaseUntil limit) w0 (committed w) rs w1 (committed w')"
    using \<open>tx w = None\<close> by (metis confined_repositories(9))
  from does_LeasePending [OF this] that show thesis by blast
qed

lemma due_events_set: "set (due_events s dueAt rs) \<subseteq> {r \<in> set rs. outbox_head rs r \<and> or_NextAttemptAt r \<le> dueAt}"
  by (auto simp: due_events_def)

lemma publish_steps:
  assumes run: "PublishOutbox_Execute policy w = (r, w')" and w: "reachable w"
  shows "steps w w'"
proof -
  define now where "now = env_clock (env w) (instants w)"
  define w0 where "w0 = w\<lparr>instants := Suc (instants w)\<rparr>"
  have w0: "steps w w0" by (rule steps_idle) (simp add: w0_def)
  obtain q w1 where q: "WithinTransaction (LeasePending now (time_Add now (pp_Lease policy)) (pp_BatchSize policy)) w0
      = (q, w1)" by fastforce
  have w1: "steps w w1" using w0 step_lease_events [OF q] by (rule steps_step)
  show ?thesis
  proof (cases q)
    case (Inl e)
    with run q w1 show ?thesis
      by (simp add: PublishOutbox_Execute_def bind_action_def attempt_def clock_now_def
          return_ok_def now_def w0_def)
  next
    case (Inr leased)
    obtain es w2 where es: "publish_all policy leased w1 = (es, w2)" by fastforce
    have r: "reachable w0" "reachable w1" using w w0 w1 reachable_steps by blast+
    have "record_of (committed w1) rec" if rec: "rec \<in> set leased" for rec
    proof -
      obtain s taken where t: "taken = take (nat (sint (to_int32 (pp_BatchSize policy)))) (due_events s now (outbox (committed w0)))"
        and l: "leased = map (\<lambda>r. outbox_record (r\<lparr>or_NextAttemptAt := time_Add now (pp_Lease policy)\<rparr>)) taken"
        and d: "committed w1 = (committed w0)\<lparr>outbox := update_rows (\<lambda>r. or_ID r \<in> or_ID ` set taken)
          (\<lambda>r. r\<lparr>or_NextAttemptAt := time_Add now (pp_Lease policy)\<rparr>) (outbox (committed w0))\<rparr>"
        using lease_outcome [OF q [unfolded Inr] r(1)] by blast
      obtain x where x: "x \<in> set taken" "rec = outbox_record (x\<lparr>or_NextAttemptAt := time_Add now (pp_Lease policy)\<rparr>)"
        using rec l by auto
      have "x \<in> set (outbox (committed w0))" using x(1) t due_events_set by (fastforce dest: in_set_takeD)
      then have "x\<lparr>or_NextAttemptAt := time_Add now (pp_Lease policy)\<rparr> \<in> set (outbox (committed w1))"
        using x(1) by (force simp: d update_rows_def image_iff)
      moreover have "delivers rec (x\<lparr>or_NextAttemptAt := time_Add now (pp_Lease policy)\<rparr>)"
        by (simp add: x(2) delivers_def outbox_record_def)
      ultimately show ?thesis unfolding record_of_delivers by blast
    qed
    with publish_all_steps [OF es r(2)] have "steps w1 w2" by blast
    moreover have "w' = w2"
      using run q Inr es
      by (auto simp: PublishOutbox_Execute_def bind_action_def attempt_def clock_now_def
          return_ok_def raise_err_def now_def w0_def split: sum.splits)
    ultimately show ?thesis using w1 by (auto intro: steps_trans)
  qed
qed

section \<open>The order of events\<close>

lemma outbox_head_first:
  "outbox_head rs r \<Longrightarrow> q \<in> set rs \<Longrightarrow> outbox_head rs q \<Longrightarrow> or_AggregateID q = or_AggregateID r \<Longrightarrow>
     \<not> or_Sequence q < or_Sequence r"
  by (auto simp: outbox_head_def)

lemma outbox_heads_distinct:
  assumes c: "constraints d" and t: "set taken \<subseteq> {r \<in> set (outbox d). outbox_head (outbox d) r}" "distinct taken"
  shows "distinct (map or_AggregateID taken)"
proof -
  have "q = r" if "q \<in> set taken" "r \<in> set taken" "or_AggregateID q = or_AggregateID r" for q r
  proof -
    have q: "q \<in> set (outbox d)" "outbox_head (outbox d) q" and r: "r \<in> set (outbox d)" "outbox_head (outbox d) r"
      using that(1,2) t(1) by blast+
    have "\<not> or_Sequence q < or_Sequence r" "\<not> or_Sequence r < or_Sequence q"
      using outbox_head_first [OF r(2) q] outbox_head_first [OF q(2) r] that(3) by simp_all
    then have "or_Sequence q = or_Sequence r" by simp
    with distinct_key_unique [OF constraints_keys(4) [OF c]] that t(1) show ?thesis by blast
  qed
  then show ?thesis using t(2) by (auto simp: distinct_map inj_on_def)
qed

lemma lease_order_facts:
  assumes run: "WithinTransaction (LeasePending dueAt leaseUntil limit) w = (Inr rs, w')" and w: "reachable w"
  shows "distinct (map ob_AggregateID rs) \<and> length rs \<le> nat (sint (to_int32 limit)) \<and>
    (\<forall>rec \<in> set rs. \<exists>row \<in> set (outbox (committed w)). delivers rec row \<and>
       or_NextAttemptAt row \<le> dueAt \<and> outbox_head (outbox (committed w)) row)"
proof -
  have c: "constraints (committed w)" using reachable_inv [OF w] by simp
  obtain s taken where t: "taken = take (nat (sint (to_int32 limit))) (due_events s dueAt (outbox (committed w)))"
    and rs: "rs = map (\<lambda>r. outbox_record (r\<lparr>or_NextAttemptAt := leaseUntil\<rparr>)) taken"
    using lease_outcome [OF run w] by metis
  have sub: "r \<in> set (outbox (committed w)) \<and> outbox_head (outbox (committed w)) r \<and> or_NextAttemptAt r \<le> dueAt"
    if "r \<in> set taken" for r
    using that due_events_set unfolding t by (blast dest: in_set_takeD)
  have "distinct (outbox (committed w))" using constraints_keys(3) [OF c] by (simp add: distinct_map)
  then have "distinct taken" by (simp add: t due_events_def)
  with outbox_heads_distinct [OF c] sub have "distinct (map or_AggregateID taken)" by blast
  moreover have "map ob_AggregateID rs = map or_AggregateID taken" by (simp add: rs outbox_record_def o_def)
  moreover have "length rs \<le> nat (sint (to_int32 limit))" by (simp add: rs t)
  moreover have "\<exists>row \<in> set (outbox (committed w)). delivers rec row \<and>
       or_NextAttemptAt row \<le> dueAt \<and> outbox_head (outbox (committed w)) row" if "rec \<in> set rs" for rec
    using that sub by (auto simp: rs delivers_def outbox_record_def intro!: bexI)
  ultimately show ?thesis by metis
qed

section \<open>Delays between attempts\<close>

lemma go_div_2: "0 \<le> sint m \<Longrightarrow> sint (go_div m 2) = sint m div 2"
proof -
  assume m: "0 \<le> sint m"
  have "sint (go_div m 2) = sint (word_of_int (sint m div 2) :: int64)"
  proof (cases "sint m = 0")
    case False
    with m show ?thesis by (simp add: go_div_def sgn_if)
  qed (simp add: go_div_def)
  also have "\<dots> = sint m div 2" using m sint64_upper [of m] by (intro sint64_of_int) linarith+
  finally show ?thesis .
qed

lemma backoff_loop_exact:
  "0 \<le> sint d \<Longrightarrow> 0 \<le> sint m \<Longrightarrow> sint (backoff_loop n d m) =
     (if 0 < n \<and> sint m div 2 \<le> sint d * 2 ^ (n - 1) then sint m else min (sint d * 2 ^ n) (sint m))"
proof (induction n d m rule: backoff_loop.induct)
  case (1 d m)
  then show ?case by (simp add: min64_def sless64)
next
  case (2 n d m)
  show ?case
  proof (cases "sint m div 2 \<le> sint d")
    case True
    moreover have "sint d \<le> sint d * 2 ^ n" using 2(2) by (simp add: mult_le_cancel_left1)
    ultimately show ?thesis using 2 by (simp add: sle64 go_div_2)
  next
    case False
    then have d2: "sint (d * 2) = sint d * 2"
      using 2(2,3) sint64_upper [of m] by (subst sint64_times) auto
    have "\<not> go_div m 2 \<le>s d" using False 2(3) by (simp add: sle64 go_div_2)
    with 2 d2 have "sint (backoff_loop (Suc n) d m) =
      (if 0 < n \<and> sint m div 2 \<le> sint d * 2 * 2 ^ (n - 1) then sint m else min (sint d * 2 * 2 ^ n) (sint m))"
      by simp
    with False show ?thesis by (cases n) (simp_all add: mult.assoc)
  qed
qed

lemma backoff_closed_form:
  assumes "0 \<le> sint base" and "0 \<le> sint maximum" and "1 \<le> sint attempts"
  shows "sint (backoff base maximum attempts) =
    (let n = nat (sint attempts - 1) in
     if 0 < n \<and> sint maximum div 2 \<le> sint base * 2 ^ (n - 1) then sint maximum
     else min (sint base * 2 ^ n) (sint maximum))"
proof -
  have "sint (attempts - 1) = sint attempts - 1"
    using assms(3) sint64_upper [of attempts] by (subst sint64_minus) simp_all
  then show ?thesis using backoff_loop_exact [OF assms(1,2)] by (simp add: backoff_def Let_def)
qed

lemma backoff_between:
  assumes "0 \<le> sint base" and "sint base \<le> sint maximum" and "1 \<le> sint attempts"
  shows "sint base \<le> sint (backoff base maximum attempts) \<and> sint (backoff base maximum attempts) \<le> sint maximum"
proof -
  define n where "n = nat (sint attempts - 1)"
  have "sint base * 1 \<le> sint base * 2 ^ n" using assms(1) by (intro mult_left_mono) simp_all
  with backoff_closed_form [OF assms(1) _ assms(3), of maximum] assms(1,2) show ?thesis
    unfolding Let_def n_def [symmetric] by auto
qed



end
