(* ===== verification/Reading.thy ===== *)
theory Reading
  imports Outcomes
begin

text \<open>
  What the queries of \<open>read_wallet.go\<close> and \<open>read_transaction.go\<close> answer: the reconciliation of a
  reachable state, the pages of a ledger, and who sees an operation.
\<close>

section \<open>Reconciliation\<close>

lemma does_Reconcile:
  assumes "does (WalletRepository_Reconcile i) v d r v' d'"
  shows "d' = d \<and> (\<exists>row c. List.find (\<lambda>x. wr_ID x = i) (wallets d) = Some row \<and>
    r = \<lparr>rc_Stored = \<lparr>minorUnits = wr_BalanceMinor row, currency = c\<rparr>,
      rc_Calculated = \<lparr>minorUnits = word_of_int (rebuilt_balance d i), currency = c\<rparr>,
      rc_CheckedEntries = of_nat (length (wallet_entries d i))\<rparr> \<and>
    fits64 (rebuilt_balance d i) \<and> \<not> currency_IsZero c)"
proof -
  have d: "d' = d" using does_reader [OF reader_WalletRepository_Reconcile assms] .
  have conf: "confined (query_row (SelectWalletReconciliation i))" by simp
  from assms have "does (attempt (query_row (SelectWalletReconciliation i)) (\<lambda>r.
       case r of
         Inl e \<Rightarrow>
           if errors_Is e (Sentinel ErrNoRows) then raise_err (NotFoundError FailureCodeWalletNotFound)
           else raise_err (translate e)
       | Inr row \<Rightarrow> of_result (
           and_then (NewCurrency (rec_Currency row)) (\<lambda>c.
           and_then (money_New (rec_BalanceMinor row) c) (\<lambda>stored.
           and_then (money_New (rec_RebuiltMinor row) c) (\<lambda>calculated.
           Inr \<lparr>rc_Stored = stored, rc_Calculated = calculated,
             rc_CheckedEntries = rec_CheckedEntries row\<rparr>)))))) v d r v' d'"
    unfolding WalletRepository_Reconcile_def
    by (elim does_queries_thenE) (auto intro!: confined_rules split: sum.splits)
  then obtain row v1 d1 where q: "does (query_row (SelectWalletReconciliation i)) v d row v1 d1"
    and o: "and_then (NewCurrency (rec_Currency row)) (\<lambda>c.
           and_then (money_New (rec_BalanceMinor row) c) (\<lambda>stored.
           and_then (money_New (rec_RebuiltMinor row) c) (\<lambda>calculated.
           Inr \<lparr>rc_Stored = stored, rc_Calculated = calculated,
             rc_CheckedEntries = rec_CheckedEntries row\<rparr>))) = Inr r"
    by (elim does_attemptE) (auto intro!: confined_rules split: sum.splits if_splits)
  from q obtain s where "SelectWalletReconciliation i s d = Inr (Some row, d1)" by (rule does_query_rowE)
  with o d show ?thesis
    by (auto simp: SelectWalletReconciliation_def split: option.splits if_splits)
qed

lemma reconcile_facts:
  assumes "reachable w" and run: "ReadWallet_Reconcile i w = (Inr r, w')"
  shows "committed w' = committed w \<and> rr_Consistent r \<and> rr_Stored r = rr_Calculated r \<and>
    minorUnits (rr_Difference r) = 0 \<and>
    (\<exists>row \<in> set (wallets (committed w)). wr_ID row = i \<and> minorUnits (rr_Stored r) = wr_BalanceMinor row \<and>
       sint (minorUnits (rr_Calculated r)) = rebuilt_balance (committed w) i)"
proof -
  note inv = reachable_inv [OF assms(1)]
  let ?unit = "bind_action (WalletRepository_Reconcile i) (\<lambda>r.
       bind_action (of_result (money_Sub (rc_Stored r) (rc_Calculated r))) (\<lambda>difference.
       return_ok \<lparr>rr_WalletID = i, rr_Stored = rc_Stored r, rr_Calculated = rc_Calculated r,
         rr_Difference = difference, rr_Consistent = money_IsZero difference,
         rr_CheckedEntries = rc_CheckedEntries r\<rparr>))"
  obtain q w1 where u: "WithinTransaction ?unit w = (q, w1)" by fastforce
  with run have q: "q = Inr r" and same: "committed w' = committed w1"
    by (auto simp: ReadWallet_Reconcile_def bind_action_def attempt_def raise_err_def
        record_metric_def return_ok_def split: sum.splits)
  have rd: "reader ?unit" by (auto intro!: reader_bind)
  have w1: "committed w1 = committed w" using pg.reads_only [OF rd _ u] inv by simp
  obtain v v' where "does ?unit v (committed w) r v' (committed w1)"
    using pg.result_committed [OF reader_confined [OF rd] _ u [unfolded q]] inv by metis
  then obtain rc diff v1 d1 where rc: "does (WalletRepository_Reconcile i) v (committed w) rc v1 d1"
    and sub: "money_Sub (rc_Stored rc) (rc_Calculated rc) = Inr diff"
    and r: "r = \<lparr>rr_WalletID = i, rr_Stored = rc_Stored rc, rr_Calculated = rc_Calculated rc,
         rr_Difference = diff, rr_Consistent = money_IsZero diff, rr_CheckedEntries = rc_CheckedEntries rc\<rparr>"
    by (auto elim!: does_bindE intro!: confined_rules)
  obtain row c where row: "List.find (\<lambda>x. wr_ID x = i) (wallets (committed w)) = Some row"
    and rcs: "rc_Stored rc = \<lparr>minorUnits = wr_BalanceMinor row, currency = c\<rparr>"
      "rc_Calculated rc = \<lparr>minorUnits = word_of_int (rebuilt_balance (committed w) i), currency = c\<rparr>"
    using does_Reconcile [OF rc] by auto
  have in_row: "row \<in> set (wallets (committed w))" "wr_ID row = i" using find_SomeD [OF row] by simp_all
  then have bal: "sint (wr_BalanceMinor row) = rebuilt_balance (committed w) i"
    using inv chain_sum unfolding books_def balances_inv_def rebuilt_balance_def by fastforce
  then have "word_of_int (rebuilt_balance (committed w) i) = wr_BalanceMinor row"
    by (metis word_of_int_sint64)
  with rcs have eq: "rc_Stored rc = rc_Calculated rc" by simp
  with sub have "minorUnits diff = 0" by (auto simp: money_Sub_def split: if_splits)
  with w1 same r eq in_row bal rcs show ?thesis
    by (auto simp: money_IsZero_def intro!: bexI [of _ row])
qed

section \<open>Pages\<close>

text \<open>The order of a ledger: by instant, then by identifier.\<close>

definition entry_before :: "ledger_row \<Rightarrow> ledger_row \<Rightarrow> bool" where
  "entry_before q r \<longleftrightarrow> lr_CreatedAt q < lr_CreatedAt r \<or> lr_CreatedAt q = lr_CreatedAt r \<and> lr_ID q < lr_ID r"

lemma insort_lexicographic:
  assumes "sorted_wrt (\<lambda>q r. f q < f r \<or> f q = f r \<and> g q \<le> g r) ys" and "\<forall>y \<in> set ys. g x \<le> g y"
  shows "sorted_wrt (\<lambda>q r. f q < f r \<or> f q = f r \<and> g q \<le> g r) (insort_key (f :: 'a \<Rightarrow> 'b :: linorder) x ys)"
  using assms by (induction ys) (auto simp: set_insort_key not_le)

lemma sort_lexicographic:
  fixes f :: "'a \<Rightarrow> 'b :: linorder" and g :: "'a \<Rightarrow> 'c :: linorder"
  shows "sorted (map g xs) \<Longrightarrow> sorted_wrt (\<lambda>q r. f q < f r \<or> f q = f r \<and> g q \<le> g r) (sort_key f xs)"
  by (induction xs) (auto intro!: insort_lexicographic)

lemma ledger_order_sorted:
  assumes "distinct (map lr_ID rs)"
  shows "sorted_wrt entry_before (ledger_order rs)"
proof -
  have "sorted_wrt (\<lambda>q r. lr_CreatedAt q < lr_CreatedAt r \<or> lr_CreatedAt q = lr_CreatedAt r \<and> lr_ID q \<le> lr_ID r)
      (ledger_order rs)"
    unfolding ledger_order_def by (intro sort_lexicographic sorted_sort_key)
  moreover have "distinct (map lr_ID (ledger_order rs))"
    using assms by (auto simp: ledger_order_def distinct_map inj_on_def)
  then have "sorted_wrt (\<lambda>q r. lr_ID q \<noteq> lr_ID r) (ledger_order rs)" by (simp add: sorted_wrt_keys)
  ultimately show ?thesis
    unfolding sorted_wrt_iff_nth_less entry_before_def by (metis order_le_imp_less_or_eq)
qed

lemma set_ledger_order [simp]: "set (ledger_order rs) = set rs"
  by (simp add: ledger_order_def)

lemma filter_ledger_order: "filter P (ledger_order rs) = ledger_order (filter P rs)"
  by (simp add: ledger_order_def filter_sort)

text \<open>What is left of a ledger after a cursor.\<close>

definition rest_of_ledger :: "db \<Rightarrow> ID \<Rightarrow> LedgerCursor option \<Rightarrow> ledger_row list" where
  "rest_of_ledger d walletID cursor = ledger_order (filter (after_cursor cursor) (wallet_entries d walletID))"

lemma filter_after_drop:
  "sorted_wrt entry_before rs \<Longrightarrow> k < length rs \<Longrightarrow>
     filter (after_cursor (Some (lr_CreatedAt (rs ! k), lr_ID (rs ! k)))) rs = drop (Suc k) rs"
proof (induction rs arbitrary: k)
  case (Cons r rs)
  show ?case
  proof (cases k)
    case 0
    with Cons.prems show ?thesis by (auto simp: after_cursor_def entry_before_def filter_id_conv)
  next
    case (Suc j)
    then have "entry_before r (rs ! j)" using Cons.prems by simp
    then have "\<not> after_cursor (Some (lr_CreatedAt (rs ! j), lr_ID (rs ! j))) r"
      by (auto simp: after_cursor_def entry_before_def)
    with Cons Suc show ?thesis by simp
  qed
qed simp

lemma after_cursor_trans:
  "after_cursor c q \<Longrightarrow> after_cursor (Some (lr_CreatedAt q, lr_ID q)) r \<Longrightarrow> after_cursor c r"
  by (auto simp: after_cursor_def split: option.splits)

lemma rest_after_page:
  assumes ids: "distinct (map lr_ID (entries d))" and k: "k < length (rest_of_ledger d i c)"
    and q: "q = rest_of_ledger d i c ! k"
  shows "rest_of_ledger d i (Some (lr_CreatedAt q, lr_ID q)) = drop (Suc k) (rest_of_ledger d i c)"
proof -
  let ?c' = "Some (lr_CreatedAt q, lr_ID q)"
  have "distinct (map lr_ID (filter (after_cursor c) (wallet_entries d i)))"
    using ids by (auto simp: wallet_entries_def distinct_map intro: inj_on_subset)
  then have srt: "sorted_wrt entry_before (rest_of_ledger d i c)"
    unfolding rest_of_ledger_def by (rule ledger_order_sorted)
  have "q \<in> set (rest_of_ledger d i c)" using k q by simp
  then have "after_cursor c q" by (simp add: rest_of_ledger_def)
  then have "filter (after_cursor ?c') (filter (after_cursor c) (wallet_entries d i))
      = filter (after_cursor ?c') (wallet_entries d i)"
    by (auto simp: filter_filter intro!: filter_cong intro: after_cursor_trans)
  then have "rest_of_ledger d i ?c' = filter (after_cursor ?c') (rest_of_ledger d i c)"
    by (simp add: rest_of_ledger_def filter_ledger_order)
  with filter_after_drop [OF srt k] q show ?thesis by simp
qed

lemma does_Page:
  assumes "does (LedgerRepository_Page i c n) v d es v' d'"
  shows "map_results entry_of_row (take (nat (sint (to_int32 n))) (rest_of_ledger d i c)) = Inr es"
proof -
  from assms obtain rows v1 d1 where
    s: "does (statement (SelectLedgerPage i c (to_int32 n))) v d rows v1 d1" and
    "map_results entry_of_row rows = Inr es"
    unfolding LedgerRepository_Page_def
    by (elim does_queries_thenE does_bindE does_translatedE)
      (auto intro!: confined_rules elim!: does_bindE does_translatedE)
  with s show ?thesis
    by (auto elim!: does_statementE simp: SelectLedgerPage_def rest_of_ledger_def split: if_splits)
qed

lemma map_results_length: "map_results f xs = Inr ys \<Longrightarrow> length ys = length xs"
  by (induction xs arbitrary: ys) auto

lemma map_results_nth: "map_results f xs = Inr ys \<Longrightarrow> k < length xs \<Longrightarrow> f (xs ! k) = Inr (ys ! k)"
proof (induction xs arbitrary: ys k)
  case (Cons x xs)
  then show ?case by (cases k) auto
qed simp

lemma map_results_take: "map_results f xs = Inr ys \<Longrightarrow> map_results f (take n xs) = Inr (take n ys)"
proof (induction xs arbitrary: ys n)
  case (Cons x xs)
  then show ?case by (cases n) auto
qed simp

lemma entry_of_row_keys: "entry_of_row row = Inr e \<Longrightarrow> entry_id e = lr_ID row \<and> entry_createdAt e = lr_CreatedAt row"
  by (auto simp: entry_of_row_def NewEntry_Inr_iff)

lemma to_int32_sint:
  assumes "0 \<le> sint n" and "sint n \<le> 2147483647"
  shows "sint (to_int32 n) = sint n"
proof -
  have "to_int32 n = word_of_int (sint n)"
    unfolding to_int32_def ucast_eq sint64_uint [OF assms(1)] ..
  with assms sint32_of_int [of "sint n"] show ?thesis by simp
qed

text \<open>A page is the next rows, and its cursor leads to the rows after it.\<close>

lemma ledger_page_facts:
  assumes w: "reachable w" and run: "ReadWallet_Ledger i c limit w = (Inr page, w')"
  shows "let size = nat (sint (if limit = 0 then 50 else limit)); rest = rest_of_ledger (committed w) i c in
    1 \<le> size \<and> size \<le> 200 \<and> map_results entry_of_row (take size rest) = Inr (lp_Entries page) \<and>
    (case lp_NextCursor page of
       None \<Rightarrow> length rest \<le> size
     | Some c' \<Rightarrow> rest_of_ledger (committed w) i (Some c') = drop size rest \<and> size < length rest)"
proof -
  note inv = reachable_inv [OF w]
  define s where "s = (if limit = 0 then 50 else limit)"
  have lim: "\<not> limit <s 0" "\<not> maxLedgerPageSize <s limit"
    using run by (auto simp: ReadWallet_Ledger_def raise_err_def split: if_splits)
  have s: "1 \<le> sint s" "sint s \<le> 200"
  proof -
    have lo: "0 \<le> sint limit" and hi: "sint limit \<le> 200" using lim by (simp_all add: sless64 maxLedgerPageSize_def)
    have "1 \<le> sint limit" if "limit \<noteq> 0"
    proof -
      have "sint limit \<noteq> 0" using that by simp
      with lo show ?thesis by linarith
    qed
    with hi show "1 \<le> sint s" "sint s \<le> 200" by (simp_all add: s_def)
  qed
  let ?unit = "bind_action (WalletRepository_Find i) (\<lambda>_.
          bind_action (LedgerRepository_Page i c (s + 1)) (\<lambda>es. return_ok (cut_page s es)))"
  have "WithinTransaction ?unit w = (Inr page, w')"
    using run lim unfolding ReadWallet_Ledger_def Let_def defaultLedgerPageSize_def s_def
    by (simp only: if_False de_Morgan_disj simp_thms)
  moreover have "confined ?unit" by (auto intro!: confined_rules)
  ultimately obtain v v' where "does ?unit v (committed w) page v' (committed w')"
    using pg.result_committed inv by metis
  then obtain es v1 v2 d2 where p: "does (LedgerRepository_Page i c (s + 1)) v1 (committed w) es v2 d2"
    and page: "page = cut_page s es"
    by (auto elim!: does_bindE intro!: confined_rules dest!: does_reader [OF reader_repositories(1)])
  have "sint (s + 1) = sint s + 1" using s by (subst sint64_plus) simp_all
  then have n: "nat (sint (to_int32 (s + 1))) = Suc (nat (sint s))"
    using s by (simp add: to_int32_sint)
  let ?rest = "rest_of_ledger (committed w) i c" and ?k = "nat (sint s)"
  have es: "map_results entry_of_row (take (Suc ?k) ?rest) = Inr es" using does_Page [OF p] n by simp
  have k: "1 \<le> ?k" "?k \<le> 200" using s by linarith+
  have len: "length es = min (Suc ?k) (length ?rest)" using map_results_length [OF es] by simp
  have ids: "distinct (map lr_ID (entries (committed w)))"
    using inv by (auto simp: constraints_def valid_rows_def ledger_uniques_def sorted_wrt_keys)
  show ?thesis
  proof (cases "?k < length es")
    case False
    then have "length ?rest \<le> ?k" using len by simp
    with es page False k show ?thesis by (simp add: cut_page_def Let_def s_def [symmetric])
  next
    case True
    then have long: "?k < length ?rest" using len by simp
    have j: "?k - 1 < length ?rest" "?k - 1 < Suc ?k" using s long by simp_all
    have "entry_of_row (take (Suc ?k) ?rest ! (?k - 1)) = Inr (es ! (?k - 1))"
      using map_results_nth [OF es, of "?k - 1"] j by simp
    then have "entry_of_row (?rest ! (?k - 1)) = Inr (es ! (?k - 1))" using j by simp
    then have keys: "entry_id (es ! (?k - 1)) = lr_ID (?rest ! (?k - 1))"
      "entry_createdAt (es ! (?k - 1)) = lr_CreatedAt (?rest ! (?k - 1))" using entry_of_row_keys by simp_all
    have "map_results entry_of_row (take ?k ?rest) = Inr (take ?k es)"
      using map_results_take [OF es, of ?k] by (simp add: min_def)
    moreover have "rest_of_ledger (committed w) i (Some (lr_CreatedAt (?rest ! (?k - 1)), lr_ID (?rest ! (?k - 1))))
        = drop ?k ?rest"
      using rest_after_page [OF ids j(1) refl] s by simp
    ultimately show ?thesis
      using page True keys k long by (simp add: cut_page_def Let_def s_def [symmetric])
  qed
qed

section \<open>Who sees an operation\<close>

lemma find_for_provider_facts:
  assumes "tx w = None" and "reader lookup" and "find_for_provider p lookup w = (Inr t, w')"
  shows "committed w' = committed w \<and> t_providerID t = p \<and>
    (\<exists>v v1. does lookup v (committed w) (Some t) v1 (committed w))"
proof -
  let ?unit = "bind_action lookup (\<lambda>found.
       case found of
         None \<Rightarrow> raise_err (NotFoundError FailureCodeTransactionNotFound)
       | Some t \<Rightarrow>
           if t_providerID t \<noteq> p then raise_err (NotFoundError FailureCodeTransactionNotFound)
           else return_ok t)"
  have run: "WithinTransaction ?unit w = (Inr t, w')" using assms(3) by (simp add: find_for_provider_def)
  have rd: "reader ?unit" using assms(2) by (auto intro!: reader_bind split: option.splits)
  have same: "committed w' = committed w" using pg.reads_only [OF rd assms(1) run] .
  obtain v v' where d: "does ?unit v (committed w) t v' (committed w')"
    by (rule pg.result_committed [OF reader_confined [OF rd] assms(1) run])
  obtain a v1 d1 where l: "does lookup v (committed w) a v1 d1"
    and "does (case a of
         None \<Rightarrow> raise_err (NotFoundError FailureCodeTransactionNotFound)
       | Some t \<Rightarrow>
           if t_providerID t \<noteq> p then raise_err (NotFoundError FailureCodeTransactionNotFound)
           else return_ok t) v1 d1 t v' (committed w')"
    using d by (rule does_bindE) (use assms(2) in \<open>auto split: option.splits\<close>)
  then have "a = Some t" "t_providerID t = p" by (auto split: option.splits if_splits)
  moreover have "d1 = committed w" using does_reader [OF assms(2) l] .
  ultimately show ?thesis using same l by blast
qed

lemma read_transaction_facts:
  assumes "reachable w" and "ReadTransaction_ByID p i w = (Inr t, w')"
  shows "committed w' = committed w \<and> t_providerID t = p \<and>
    (\<exists>row \<in> set (transactions (committed w)). tr_ID row = i \<and> stores row t)"
proof -
  note inv = reachable_inv [OF assms(1)]
  have "tx w = None" using inv by simp
  from find_for_provider_facts [OF this reader_repositories(6) assms(2) [unfolded ReadTransaction_ByID_def]]
  have f: "committed w' = committed w \<and> t_providerID t = p"
    and ex: "\<exists>v v1. does (FindByID i) v (committed w) (Some t) v1 (committed w)" by simp_all
  from ex obtain row where row: "List.find (\<lambda>r. tr_ID r = i) (transactions (committed w)) = Some row"
    "rehydrate_row row = Inr t" by (auto dest!: does_transaction_queries)
  note in_row = find_SomeD [OF row(1)]
  then obtain u where "stores row u" using inv by (auto simp: books_def transactions_inv_def)
  with stores_unique [OF _ row(2)] have "stores row t" by metis
  with f in_row show ?thesis by blast
qed

end
