(* ===== verification/Consuming.thy ===== *)
theory Consuming
  imports Messaging Batches Reading
begin

text \<open>
  The consumer on top of the use case it calls: every round of it is a sequence of steps of the
  system, a message leaves the queue only when it was taken in or could not be, and a second
  delivery of a message that was taken in changes nothing.
\<close>

section \<open>Amounts and envelopes\<close>

lemma Parse_Inr: "Parse amount code = Inr m \<Longrightarrow> constructed m \<and> 0 \<le> sint (minorUnits m)"
  using parseMinorUnits_sound [of amount False] amount_value_nonneg
  by (fastforce simp: Parse_def money_parse_def constructed_def NewCurrency_Inr signed_value_def)

lemma ParseID_Inr: "ParseID uuid_Parse s = Inr i \<longleftrightarrow> uuid_Parse s = Some i \<and> i \<noteq> NilID"
  by (auto simp: ParseID_def split: option.splits if_splits)

lemma ParseExternalKind_Inr: "ParseExternalKind s = Inr k \<longleftrightarrow> k = kind_of s \<and> kind_IsValid k \<and> IsExternal k"
  by (auto simp: ParseExternalKind_def Let_def split: if_splits)

definition envelope_of :: "queue_api \<Rightarrow> queue_message \<Rightarrow> InboundMessage \<Rightarrow> bool" where
  "envelope_of api message m \<longleftrightarrow>
     (\<exists>body. qa_Unmarshal api (qm_Body message) = Some body \<and> wm_Type body = wagerMessageType \<and>
        msg_MessageID m = wm_MessageID body \<and> in_CorrelationID (msg_Input m) = wm_MessageID body \<and>
        in_ProviderID (msg_Input m) = wm_ProviderID body) \<and>
     msg_MessageID m \<noteq> '''' \<and> in_PlayerID (msg_Input m) \<noteq> NilID \<and> in_WalletID (msg_Input m) \<noteq> NilID \<and>
     IsExternal (in_Kind (msg_Input m)) \<and> 0 \<le> sint (minorUnits (in_Money (msg_Input m))) \<and>
     constructed (in_Money (msg_Input m))"

lemma toInboundMessage_Inr: "toInboundMessage api message = Inr m \<Longrightarrow> envelope_of api message m"
  by (auto simp: toInboundMessage_def envelope_of_def ParseID_Inr ParseExternalKind_Inr dest!: Parse_Inr
      split: option.splits if_splits)


section \<open>One message\<close>

lemma record_metric_idle: "idle w (snd (record_metric m w))"
  by (simp add: record_metric_def)

lemma handle_failure_cases:
  assumes "handle_failure api c message e st = (r, st')"
  obtains (transient) "errors_Is e (Sentinel ErrUnavailable)" and "st' = st" and "r = Some (Wrapped [e])"
  | (permanent) sent deleted where "\<not> errors_Is e (Sentinel ErrUnavailable)"
      and "idle (st_world st) (st_world st')" and "r = errors_Join [sent, deleted]"
      and "st_log st' = st_log st @ [SendCall (dead_letter_message c message e) sent,
        DeleteCall (wc_queueURL c) (qm_ReceiptHandle message) deleted]"
  using assms record_metric_idle
  by (auto simp: handle_failure_def deadLetter_def delete_def Let_def split: if_splits)

lemma handle_cases:
  assumes "handle api c message st = (r, st')"
  obtains (refused) e where "toInboundMessage api message = Inl e"
      and "handle_failure api c message e st = (r, st')"
  | (failed) inbound e w where "toInboundMessage api message = Inr inbound"
      and "ProcessInboxMessage_Execute inbound (st_world st) = (Inl e, w)"
      and "handle_failure api c message e (st\<lparr>st_world := w\<rparr>) = (r, st')"
  | (taken) inbound a where "toInboundMessage api message = Inr inbound"
      and "ProcessInboxMessage_Execute inbound (st_world st) = (Inr a, st_world st')"
      and "st_log st' = st_log st @ [DeleteCall (wc_queueURL c) (qm_ReceiptHandle message) r]"
  using assms
  by (auto simp: handle_def delete_def Let_def split: sum.splits prod.splits)

lemma handle_steps:
  assumes "handle api c message st = (r, st')"
  shows "steps (st_world st) (st_world st')"
  using assms
proof (cases rule: handle_cases)
  case (refused e)
  from refused(2) show ?thesis
    by (cases rule: handle_failure_cases) (auto intro: steps_one step_idle)
next
  case (failed inbound e w)
  have "step (st_world st) w"
    using step_take [OF failed(2)] toInboundMessage_Inr [OF failed(1)] by (simp add: envelope_of_def)
  moreover from failed(3) have "w = st_world st' \<or> step w (st_world st')"
    by (cases rule: handle_failure_cases) (auto intro: step_idle)
  ultimately show ?thesis using steps_one steps_step by metis
next
  case (taken inbound a)
  then show ?thesis
    using step_take [OF taken(2)] toInboundMessage_Inr [OF taken(1)]
    by (auto simp: envelope_of_def intro: steps_one)
qed

lemma handle_all_steps:
  "handle_all api c messages st = (es, st') \<Longrightarrow> steps (st_world st) (st_world st')"
proof (induction messages arbitrary: st es st')
  case (Cons message messages)
  obtain e st1 where h: "handle api c message st = (e, st1)" by fastforce
  obtain es' st2 where rest: "handle_all api c messages st1 = (es', st2)" by fastforce
  with Cons.prems h have "st' = st2" by simp
  then show ?case using steps_trans [OF Cons.IH [OF rest] handle_steps [OF h]] by simp
qed simp

lemma Execute_steps:
  "WagerConsumer_Execute api c st = (r, st') \<Longrightarrow> steps (st_world st) (st_world st')"
  by (auto simp: WagerConsumer_Execute_def Let_def split: sum.splits prod.splits dest!: handle_all_steps)

section \<open>What became of a message\<close>

lemma toInboundMessage_Inl:
  "toInboundMessage api message = Inl e \<Longrightarrow> CodeOf e \<noteq> None \<and> \<not> errors_Is e (Sentinel ErrUnavailable)"
  by (auto simp: toInboundMessage_def and_then_Inl_iff ParseID_def ParseExternalKind_def Let_def
      Parse_def money_parse_def NewCurrency_def dest!: parseMinorUnits_Inl split: option.splits if_splits)

text \<open>
  A message is left alone, with an error, when its operation may still succeed; it is deleted when
  it was taken in, and only then; otherwise it is sent to the dead letter queue and deleted.
\<close>

definition left_alone :: "station \<Rightarrow> err option \<Rightarrow> station \<Rightarrow> bool" where
  "left_alone st r st' \<longleftrightarrow> st_log st' = st_log st \<and>
     (\<exists>e. r = Some (Wrapped [e]) \<and> errors_Is e (Sentinel ErrUnavailable))"

definition acknowledged :: "queue_api \<Rightarrow> WagerConsumer \<Rightarrow> queue_message \<Rightarrow> station \<Rightarrow> err option \<Rightarrow> station \<Rightarrow> bool" where
  "acknowledged api c message st r st' \<longleftrightarrow>
     st_log st' = st_log st @ [DeleteCall (wc_queueURL c) (qm_ReceiptHandle message) r] \<and>
     (\<exists>m hash a. toInboundMessage api message = Inr m \<and>
        taken_in (env (st_world st)) (committed (st_world st)) m hash a (committed (st_world st')))"

definition dead_lettered :: "WagerConsumer \<Rightarrow> queue_message \<Rightarrow> station \<Rightarrow> err option \<Rightarrow> station \<Rightarrow> bool" where
  "dead_lettered c message st r st' \<longleftrightarrow>
     (\<exists>e sent deleted. \<not> errors_Is e (Sentinel ErrUnavailable) \<and> r = errors_Join [sent, deleted] \<and>
        st_log st' = st_log st @ [SendCall (dead_letter_message c message e) sent,
          DeleteCall (wc_queueURL c) (qm_ReceiptHandle message) deleted])"

lemma handle_outcome:
  assumes "handle api c message st = (r, st')" and "reachable (st_world st)"
  shows "acknowledged api c message st r st' \<or>
    (left_alone st r st' \<or> dead_lettered c message st r st') \<and>
    (committed (st_world st') = committed (st_world st) \<or> answer_lost (env (st_world st)))"
  using assms(1)
proof (cases rule: handle_cases)
  case (refused e)
  from refused(2) show ?thesis
    by (cases rule: handle_failure_cases) (auto simp: left_alone_def dead_lettered_def idle_def)
next
  case (failed inbound e w)
  have w: "committed w = committed (st_world st) \<or> answer_lost (env (st_world st))"
    using take_outcome [OF failed(2) assms(2)] toInboundMessage_Inr [OF failed(1)] by (auto simp: envelope_of_def)
  from failed(3) show ?thesis
    by (cases rule: handle_failure_cases) (use w in \<open>auto simp: left_alone_def dead_lettered_def idle_def\<close>)
next
  case (taken inbound a)
  then show ?thesis
    using take_outcome [OF taken(2) assms(2)] toInboundMessage_Inr [OF taken(1)]
    by (auto simp: acknowledged_def envelope_of_def)
qed

section \<open>A batch\<close>

fun answer_of :: "queue_call \<Rightarrow> err option" where
  "answer_of (SendCall input answer) = answer"
| "answer_of (DeleteCall url receipt answer) = answer"
| "answer_of (ReceiveCall input) = None"

definition transient :: "err option \<Rightarrow> bool" where
  "transient r \<longleftrightarrow> (\<exists>e. r = Some e \<and> errors_Is e (Sentinel ErrUnavailable))"

lemma errors_Join_None [simp]: "errors_Join es = None \<longleftrightarrow> (\<forall>e \<in> set es. e = None)"
  by (induction es) (auto simp: errors_Join_def List.map_filter_def split: list.splits)

lemma transient_Join: "transient (errors_Join es) \<longleftrightarrow> (\<exists>e \<in> set es. transient e)"
proof -
  have "transient (errors_Join es) \<longleftrightarrow> (\<exists>e \<in> set (List.map_filter (\<lambda>e. e) es). errors_Is e (Sentinel ErrUnavailable))"
    unfolding errors_Join_def transient_def by (cases "List.map_filter (\<lambda>e. e) es") auto
  also have "\<dots> \<longleftrightarrow> (\<exists>e \<in> set es. transient e)"
    unfolding transient_def by (auto simp: List.map_filter_def image_iff)
  finally show ?thesis .
qed

text \<open>
  The calls made with the outcome \<open>r\<close>: answered without error when it is none, and with the removal
  of the message among them unless the message is to come again.
\<close>

definition removed :: "WagerConsumer \<Rightarrow> queue_message \<Rightarrow> err option \<Rightarrow> queue_call list \<Rightarrow> bool" where
  "removed c message r cs \<longleftrightarrow>
     (\<exists>answer. DeleteCall (wc_queueURL c) (qm_ReceiptHandle message) answer \<in> set cs) \<or> transient r"

definition untroubled :: "err option \<Rightarrow> queue_call list \<Rightarrow> bool" where
  "untroubled r cs \<longleftrightarrow> (r = None \<longrightarrow> (\<forall>call \<in> set cs. answer_of call = None))"

lemma handle_calls:
  assumes "handle api c message st = (r, st')"
  shows "\<exists>cs. st_log st' = st_log st @ cs \<and> removed c message r cs \<and> untroubled r cs"
proof -
  have failure: "\<exists>cs. st_log st' = st_log st0 @ cs \<and> removed c message r cs \<and> untroubled r cs"
    if "handle_failure api c message e st0 = (r, st')" for e st0
    using that
    by (cases rule: handle_failure_cases) (auto simp: removed_def untroubled_def transient_def)
  from assms show ?thesis
  proof (cases rule: handle_cases)
    case (failed inbound e w)
    then show ?thesis using failure [of e "st\<lparr>st_world := w\<rparr>"] by simp
  qed (use failure in \<open>auto simp: removed_def untroubled_def\<close>)
qed

lemma handle_all_calls:
  "handle_all api c messages st = (es, st') \<Longrightarrow>
     length es = length messages \<and>
     (\<exists>cs. st_log st' = st_log st @ cs \<and> untroubled (errors_Join es) cs \<and>
        (\<forall>message \<in> set messages. removed c message (errors_Join es) cs))"
proof (induction messages arbitrary: st es st')
  case (Cons message messages)
  obtain e st1 where h: "handle api c message st = (e, st1)" by fastforce
  obtain es' st2 where rest: "handle_all api c messages st1 = (es', st2)" by fastforce
  have eqs: "es = e # es'" "st' = st2" using Cons.prems h rest by simp_all
  obtain cs where cs: "st_log st1 = st_log st @ cs" "removed c message e cs" "untroubled e cs"
    using handle_calls [OF h] by blast
  obtain more where more: "length es' = length messages" "st_log st2 = st_log st1 @ more"
    "untroubled (errors_Join es') more" "\<forall>m \<in> set messages. removed c m (errors_Join es') more"
    using Cons.IH [OF rest] by blast
  have "untroubled (errors_Join es) (cs @ more)"
    using cs(3) more(3) by (auto simp: untroubled_def eqs)
  moreover have "\<forall>m \<in> set (message # messages). removed c m (errors_Join es) (cs @ more)"
    using cs(2) more(4) by (auto simp: removed_def eqs transient_Join)
  ultimately show ?case using cs(1) more(1,2) eqs by simp
qed (simp add: untroubled_def)

end
