(* ===== verification/Workers.thy ===== *)
theory Workers
  imports Consuming
begin

text \<open>
  How the workers run: the policies \<open>cmd/workers/main.go\<close> builds from the configuration, and the
  loop of \<open>worker/poller.go\<close>, a state machine driven by its channel and its timer. A poller keeps
  whatever its job keeps.
\<close>

section \<open>cmd/workers/main.go\<close>

definition pendingReferenceBatchSize :: int64 where "pendingReferenceBatchSize = 50"
definition outboxBatchSize :: int64 where "outboxBatchSize = 100"

text \<open>\<open>time.Now().UTC().Truncate(time.Microsecond)\<close>, on the nanoseconds since the first instant.\<close>

definition newClock :: "time \<Rightarrow> time" where
  "newClock t = t - t mod 1000"

definition newReferenceRetryPolicy :: "Config \<Rightarrow> ReferenceRetryPolicy" where
  "newReferenceRetryPolicy cfg =
     \<lparr>rp_MaxAttempts = cfg_ReferenceMaxAttempts cfg, rp_BaseDelay = cfg_ReferenceRetryBaseDelay cfg,
      rp_MaxDelay = cfg_ReferenceRetryMaxDelay cfg, rp_Lease = cfg_ReferenceRetryLease cfg,
      rp_BatchSize = pendingReferenceBatchSize\<rparr>"

definition newPublicationPolicy :: "Config \<Rightarrow> PublicationPolicy" where
  "newPublicationPolicy cfg =
     \<lparr>pp_BaseDelay = cfg_OutboxRetryBaseDelay cfg, pp_MaxDelay = cfg_OutboxRetryMaxDelay cfg,
      pp_Lease = cfg_OutboxLease cfg, pp_BatchSize = outboxBatchSize\<rparr>"

section \<open>poller.go\<close>

text \<open>
  A round of a job takes items and changes what the job works on. The goroutine waits at its
  \<open>select\<close> until it is done; \<open>due\<close> is the duration the timer was last set to. What happens is the
  closing of the channel \<open>stopping\<close>, a round, once the timer has fired, and the return. Where both
  the channel and the timer are ready the choice of the \<open>select\<close> is not fixed, so that a round is
  possible also while stopping.
\<close>

record 's poller =
  po_state :: 's
  po_due :: duration
  po_stopping :: bool
  po_done :: bool

datatype poll_event = Close | Round nat | Return

definition newPoller :: "duration \<Rightarrow> 's \<Rightarrow> 's poller" where
  "newPoller interval s = \<lparr>po_state = s, po_due = interval, po_stopping = False, po_done = False\<rparr>"

type_synonym 's job = "'s \<Rightarrow> nat \<times> 's"

inductive poll :: "'s job \<Rightarrow> duration \<Rightarrow> 's poller \<Rightarrow> poll_event \<Rightarrow> 's poller \<Rightarrow> bool" for job interval where
  poll_close: "\<not> po_stopping p \<Longrightarrow> poll job interval p Close (p\<lparr>po_stopping := True\<rparr>)"
| poll_return: "\<not> po_done p \<Longrightarrow> po_stopping p \<Longrightarrow> poll job interval p Return (p\<lparr>po_done := True\<rparr>)"
| poll_round: "\<not> po_done p \<Longrightarrow> job (po_state p) = (taken, s) \<Longrightarrow>
    poll job interval p (Round taken)
      (p\<lparr>po_state := s, po_due := (if 0 < taken then 0 else interval)\<rparr>)"

inductive polls :: "'s job \<Rightarrow> duration \<Rightarrow> 's poller \<Rightarrow> poll_event list \<Rightarrow> 's poller \<Rightarrow> bool" for job interval where
  polls_none: "polls job interval p [] p"
| polls_more: "polls job interval p es p' \<Longrightarrow> poll job interval p' e p'' \<Longrightarrow> polls job interval p (es @ [e]) p''"

text \<open>The three jobs of the module: the batches of the use cases and the rounds of the consumer.\<close>

definition job_of :: "(nat \<times> err option) action \<Rightarrow> station job" where
  "job_of m = (\<lambda>st. case m (st_world st) of
     (Inl _, w) \<Rightarrow> (0, st\<lparr>st_world := w\<rparr>)
   | (Inr (taken, _), w) \<Rightarrow> (taken, st\<lparr>st_world := w\<rparr>))"

definition consumer_job :: "queue_api \<Rightarrow> WagerConsumer \<Rightarrow> station job" where
  "consumer_job api c = (\<lambda>st. case WagerConsumer_Execute api c st of ((taken, _), st') \<Rightarrow> (taken, st'))"

definition module_jobs :: "Config \<Rightarrow> queue_api \<Rightarrow> WagerConsumer \<Rightarrow> (station job \<times> duration) list" where
  "module_jobs cfg api c =
     [(job_of (ResolvePendingReferences_Execute (newReferenceRetryPolicy cfg)), cfg_ReferencePollInterval cfg),
      (job_of (PublishOutbox_Execute (newPublicationPolicy cfg)), cfg_OutboxPollInterval cfg),
      (consumer_job api c, cfg_ConsumerPollInterval cfg)]"

section \<open>Rounds\<close>

text \<open>
  What the poller relies on of a job, the \<open>job\<close> interface of \<open>poller.go\<close>: a round moves what the
  job works on along a preorder, and along it the job may go on.
\<close>

locale background_job =
  fixes run :: "'s job" and ready :: "'s \<Rightarrow> bool" and leads :: "'s \<Rightarrow> 's \<Rightarrow> bool"
  assumes round_leads: "ready s \<Longrightarrow> run s = (taken, s') \<Longrightarrow> leads s s'"
    and leads_refl: "leads s s"
    and leads_trans: "leads s t \<Longrightarrow> leads t u \<Longrightarrow> leads s u"
    and leads_ready: "ready s \<Longrightarrow> leads s t \<Longrightarrow> ready t"
begin

lemma poll_leads: "poll run interval p e p' \<Longrightarrow> ready (po_state p) \<Longrightarrow> leads (po_state p) (po_state p')"
  by (induction rule: poll.induct) (simp_all add: leads_refl round_leads)

lemma polls_lead: "polls run interval p es p' \<Longrightarrow> ready (po_state p) \<Longrightarrow> leads (po_state p) (po_state p')"
proof (induction rule: polls.induct)
  case (polls_more p es p' e p'')
  then have "leads (po_state p) (po_state p')" by simp
  with polls_more.prems poll_leads [OF polls_more.hyps(2)] show ?case
    by (blast intro: leads_trans leads_ready)
qed (rule leads_refl)

end

text \<open>The three jobs, whose rounds are steps of the system.\<close>

abbreviation station_ready :: "station \<Rightarrow> bool" where
  "station_ready st \<equiv> reachable (st_world st)"

abbreviation station_steps :: "station \<Rightarrow> station \<Rightarrow> bool" where
  "station_steps st st' \<equiv> steps (st_world st) (st_world st')"

lemma station_preorder:
  "station_steps s t \<Longrightarrow> station_steps t u \<Longrightarrow> station_steps s u"
  "station_ready s \<Longrightarrow> station_steps s t \<Longrightarrow> station_ready t"
  by (blast intro: steps_trans reachable_steps)+

lemma job_of_steps:
  assumes "\<And>w r w'. reachable w \<Longrightarrow> m w = (r, w') \<Longrightarrow> steps w w'"
    and "station_ready st" and "job_of m st = (taken, st')"
  shows "station_steps st st'"
  using assms(1) [OF assms(2)] assms(3) by (auto simp: job_of_def split: prod.splits sum.splits)

interpretation retries: background_job "job_of (ResolvePendingReferences_Execute policy)" station_ready station_steps
  for policy
  by unfold_locales (auto intro: job_of_steps resolve_steps station_preorder)

interpretation publishing: background_job "job_of (PublishOutbox_Execute policy)" station_ready station_steps
  for policy
  by unfold_locales (auto intro: job_of_steps publish_steps station_preorder)

interpretation consumption: background_job "consumer_job api c" station_ready station_steps
  for api c
  by unfold_locales (auto simp: consumer_job_def intro: Execute_steps station_preorder split: prod.splits)

lemma polls_steps:
  assumes "polls job interval p es p'" and "(job, interval) \<in> set (module_jobs cfg api c)"
    and "reachable (st_world (po_state p))"
  shows "steps (st_world (po_state p)) (st_world (po_state p'))"
  using assms retries.polls_lead publishing.polls_lead consumption.polls_lead
  by (auto simp: module_jobs_def)

text \<open>The rounds of a run, and the last of them.\<close>

definition rounds :: "poll_event list \<Rightarrow> nat list" where
  "rounds es = List.map_filter (\<lambda>e. case e of Round taken \<Rightarrow> Some taken | _ \<Rightarrow> None) es"

lemma rounds_simps [simp]:
  "rounds [] = []" "rounds (es @ [Round taken]) = rounds es @ [taken]"
  "rounds (es @ [Close]) = rounds es" "rounds (es @ [Return]) = rounds es"
  by (simp_all add: rounds_def List.map_filter_def)

lemma polls_due:
  "polls job interval p es p' \<Longrightarrow>
     po_due p' = (if rounds es = [] then po_due p else if 0 < last (rounds es) then 0 else interval)"
  by (induction rule: polls.induct) (auto elim!: poll.cases)

lemma polls_done: "polls job interval p es p' \<Longrightarrow> \<not> po_done p \<Longrightarrow> po_done p' \<Longrightarrow> Return \<in> set es \<and> po_stopping p'"
  by (induction rule: polls.induct) (auto elim!: poll.cases)

end
