(* ===== verification/Scenario.thy ===== *)
theory Scenario
  imports Batches Reading
begin

text \<open>
  A small run of the system in an environment without faults, on which the theorems that speak of
  reachable states are applied: a wallet opened with 5.00 BRL, a bet of 2.00, and the same bet
  through the queue.
\<close>

text \<open>In the place of the hash, four bytes of the text, where these operations have their amount.\<close>

definition checksum :: "string \<Rightarrow> string" where "checksum s = take 4 (drop 75 s)"

definition calm :: environment where
  "calm = \<lparr>env_fault = (\<lambda>_. None), env_clock = (\<lambda>n. 100 + min (int n) 1000), env_NewID = (\<lambda>n. 1000 + of_nat n),
     env_server_now = (\<lambda>n. 50 + int n), env_held = (\<lambda>_. {}), env_publisher = (\<lambda>_. None),
     env_uuid_String = (\<lambda>i. if i = 7 then ''7'' else ''w''), env_sha256 = checksum\<rparr>"

definition start :: world where
  "start = \<lparr>committed = empty_db, tx = None, sequence = 0, env = calm, begun = 0, calls = 0, instants = 0,
     identifiers = 0, publications = 0, metrics = [], published = []\<rparr>"

definition brl :: "int64 \<Rightarrow> Money" where "brl n = \<lparr>minorUnits = n, currency = Currency ''BRL''\<rparr>"

definition opening_input :: OpenWalletInput where
  "opening_input = \<lparr>ow_PlayerID = 7, ow_InitialBalance = brl 500, ow_CorrelationID = ''c''\<rparr>"

definition opened_world :: world where "opened_world = snd (OpenWallet_Execute opening_input start)"

definition bet :: ProcessWagerInput where
  "bet = \<lparr>in_ProviderID = ''p'', in_ExternalTransactionID = ''x1'', in_IdempotencyKey = ''k1'', in_PlayerID = 7,
    in_WalletID = 1000, in_RoundID = ''r'', in_GameID = ''g'', in_Kind = KindBet, in_Money = brl 200,
    in_ReferenceExternalTransactionID = '''', in_CorrelationID = ''c''\<rparr>"

text \<open>The same key with another amount.\<close>

definition other_bet :: ProcessWagerInput where "other_bet = bet\<lparr>in_Money := brl 201\<rparr>"

definition bet_world :: world where "bet_world = snd (ProcessWager_Execute bet opened_world)"

definition bet_message :: InboundMessage where
  "bet_message = \<lparr>msg_MessageID = ''c'', msg_Input = bet\<rparr>"

lemma bet_constructed [simp]: "constructed (in_Money bet)" "constructed (in_Money other_bet)"
  by code_simp+

lemma other_bet_hash: "PayloadHash calm bet \<noteq> PayloadHash calm other_bet"
  by code_simp

lemma reachable_start: "reachable start"
  by (rule reach_initial) (simp add: initial_def start_def)

lemma step_opened: "step start opened_world"
  unfolding opened_world_def by (rule step_open, rule prod.collapse [symmetric])

lemma reachable_opened: "reachable opened_world"
  using reachable_start step_opened by (rule reach_step)

lemma step_bet: "step opened_world bet_world"
  unfolding bet_world_def by (rule step_process, rule prod.collapse [symmetric]) simp

lemma reachable_bet: "reachable bet_world"
  using reachable_opened step_bet by (rule reach_step)

lemma env_worlds [simp]: "env start = calm" "env opened_world = calm" "env bet_world = calm"
proof -
  show "env start = calm" by (simp add: start_def)
  then show "env opened_world = calm"
    using step_changed [OF step_opened] reachable_inv [OF reachable_start] by simp
  then show "env bet_world = calm"
    using step_changed [OF step_bet] reachable_inv [OF reachable_opened] by simp
qed

lemma opened_rows:
  "map wr_BalanceMinor (wallets (committed opened_world)) = [500] \<and>
   length (entries (committed opened_world)) = 1 \<and> length (outbox (committed opened_world)) = 2"
  by code_simp

lemma bet_ok: "case ProcessWager_Execute bet opened_world of
    (Inl e, w) \<Rightarrow> False
  | (Inr r, w) \<Rightarrow> res_State r = StateProcessed \<and> \<not> res_IdempotentReplay r"
  by code_simp

lemma bet_run: "\<exists>a. ProcessWager_Execute bet opened_world = (Inr a, bet_world)"
proof -
  obtain r w' where run: "ProcessWager_Execute bet opened_world = (r, w')" by fastforce
  with bet_ok obtain a where "r = Inr a" by (cases r) auto
  with run show ?thesis by (simp add: bet_world_def)
qed

lemma bet_row: "\<exists>hash i. PayloadHash calm bet = Inr hash \<and>
    (\<exists>r \<in> set (transactions (committed bet_world)). keyed bet hash i r)"
proof -
  obtain a where run: "ProcessWager_Execute bet opened_world = (Inr a, bet_world)" using bet_run by blast
  have "executed calm (committed opened_world) bet a (committed bet_world)"
    using process_outcome [OF run reachable_opened] by simp
  then show ?thesis using executed_keyed reachable_inv [OF reachable_opened] bet_constructed(1) by metis
qed

definition message_world :: world where
  "message_world = snd (ProcessInboxMessage_Execute bet_message opened_world)"

lemma bet_message_ok: "case ProcessInboxMessage_Execute bet_message opened_world of
    (Inl e, w) \<Rightarrow> False | (Inr r, w) \<Rightarrow> \<not> inr_Duplicate r"
  by code_simp

lemma message_run: "\<exists>a. ProcessInboxMessage_Execute bet_message opened_world = (Inr a, message_world)"
proof -
  obtain r w' where run: "ProcessInboxMessage_Execute bet_message opened_world = (r, w')" by fastforce
  with bet_message_ok obtain a where "r = Inr a" by (cases r) auto
  with run show ?thesis by (simp add: message_world_def)
qed

text \<open>The two events of the opening, published.\<close>

definition publication_policy :: PublicationPolicy where
  "publication_policy = \<lparr>pp_BaseDelay = 1, pp_MaxDelay = 8, pp_Lease = 20, pp_BatchSize = 10\<rparr>"

definition published_world :: world where
  "published_world = snd (PublishOutbox_Execute publication_policy opened_world)"

lemma published_rows: "\<exists>r \<in> set (outbox (committed published_world)). or_PublishedAt r \<noteq> None"
proof -
  have "list_ex (\<lambda>r. or_PublishedAt r \<noteq> None) (outbox (committed published_world))" by code_simp
  then show ?thesis by (simp add: list_ex_iff)
qed

lemma reachable_published_world: "reachable published_world"
  unfolding published_world_def
  using reachable_steps [OF publish_steps [OF prod.collapse [symmetric] reachable_opened] reachable_opened] .

lemma lease_ok: "case WithinTransaction (LeasePending 1000 2000 10) opened_world of
    (Inl e, w) \<Rightarrow> False | (Inr rs, w) \<Rightarrow> length rs = 1"
  by code_simp

lemma reconcile_ok: "ok (fst (ReadWallet_Reconcile 1000 opened_world))"
  by code_simp

lemma ledger_ok: "ok (fst (ReadWallet_Ledger 1000 None 1 opened_world))"
  by code_simp

lemma read_ok: "ok (fst (ReadTransaction_ByID '''' 1001 opened_world))"
  by code_simp

end
