(* ===== verification/Queue_Guarantees.thy ===== *)
theory Queue_Guarantees
  imports Workers Scenario
begin

text \<open>
  What holds of the consumer, the publisher and the workers together with the system they run on,
  each applied to the small run of \<open>Scenario\<close>.
\<close>

section \<open>A queue\<close>

text \<open>One envelope, which every body is read as: the bet of the scenario.\<close>

definition bet_envelope :: wagerMessage where
  "bet_envelope = \<lparr>wm_MessageID = ''c'', wm_Type = ''WagerTransactionRequested'', wm_ProviderID = ''p'',
     wm_ExternalTransactionID = ''x1'', wm_IdempotencyKey = ''k1'', wm_PlayerID = ''7'', wm_WalletID = ''w'',
     wm_RoundID = ''r'', wm_GameID = ''g'', wm_Kind = ''BET'', wm_Amount = ''2.00'', wm_Currency = ''BRL'',
     wm_ReferenceExternalTransactionID = ''''\<rparr>"

definition bet_delivery :: queue_message where
  "bet_delivery = \<lparr>qm_MessageId = ''q1'', qm_ReceiptHandle = ''h1'', qm_Body = ''bet'', qm_Attributes = []\<rparr>"

definition sample_api :: queue_api where
  "sample_api = \<lparr>qa_Receive = (\<lambda>_. Inr [bet_delivery]), qa_Send = (\<lambda>_. None), qa_Delete = (\<lambda>_. None),
     qa_Unmarshal = (\<lambda>body. if body = ''bet'' then Some bet_envelope else None),
     qa_uuid_Parse = (\<lambda>s. if s = ''7'' then Some 7 else if s = ''w'' then Some 1000 else None)\<rparr>"

definition sample_consumer :: WagerConsumer where
  "sample_consumer = \<lparr>wc_queueName = ''wagers'', wc_deadLetterName = ''dead'', wc_queueURL = ''/wagers'',
     wc_deadLetterURL = ''/dead'', wc_waitTime = 20 * Second, wc_visibilityTimeout = 30 * Second,
     wc_batchSize = 10\<rparr>"

definition sample_station :: station where
  "sample_station = \<lparr>st_world = opened_world, st_log = []\<rparr>"

lemma bet_delivery_read: "toInboundMessage sample_api bet_delivery = Inr bet_message"
  by code_simp

definition handled_station :: station where
  "handled_station = snd (handle sample_api sample_consumer bet_delivery sample_station)"

lemma bet_handled:
  "handle sample_api sample_consumer bet_delivery sample_station = (None, handled_station)"
  "st_world handled_station = message_world"
  "st_log handled_station = [DeleteCall ''/wagers'' ''h1'' None]"
proof -
  obtain a where run: "ProcessInboxMessage_Execute bet_message opened_world = (Inr a, message_world)"
    using message_run by blast
  have "handle sample_api sample_consumer bet_delivery sample_station =
      (None, \<lparr>st_world = message_world, st_log = [DeleteCall ''/wagers'' ''h1'' None]\<rparr>)"
    unfolding handle_def bet_delivery_read
    by (simp add: sample_station_def run delete_def Let_def sample_api_def sample_consumer_def bet_delivery_def)
  then show "handle sample_api sample_consumer bet_delivery sample_station = (None, handled_station)"
    "st_world handled_station = message_world"
    "st_log handled_station = [DeleteCall ''/wagers'' ''h1'' None]"
    by (simp_all add: handled_station_def)
qed

section \<open>The consumer\<close>



text \<open>C35. A message may come any number of times: once its operation was committed, handling it again,
  after whatever else happened, leaves the database as it is, even when deleting it failed the first
  time.\<close>

theorem redelivery_harmless:
  assumes "reachable (st_world st)" and "handle api c message st = (r, st1)"
    and "st_log st1 = st_log st @ [DeleteCall (wc_queueURL c) (qm_ReceiptHandle message) r]"
    and "steps (st_world st1) (st_world st2)" and "qm_Body again = qm_Body message"
    and "handle api c again st2 = (r', st3)"
  shows "committed (st_world st3) = committed (st_world st2)"
proof -
  obtain inbound a where first: "toInboundMessage api message = Inr inbound"
    "ProcessInboxMessage_Execute inbound (st_world st) = (Inr a, st_world st1)"
    using assms(2)
  proof (cases rule: handle_cases)
    case (refused e)
    from refused(2) show ?thesis by (cases rule: handle_failure_cases) (use assms(3) in auto)
  next
    case (failed inbound e w)
    from failed(3) show ?thesis by (cases rule: handle_failure_cases) (use assms(3) in auto)
  qed (rule that)
  have same: "toInboundMessage api again = Inr inbound"
    using first(1) assms(5) by (simp add: toInboundMessage_def)
  have inp: "constructed (in_Money (msg_Input inbound))"
    using toInboundMessage_Inr [OF same] by (simp add: envelope_of_def)
  note once = taken_in_once [OF assms(1) inp first(2) assms(4)]
  from assms(6) show ?thesis
  proof (cases rule: handle_cases)
    case (failed inbound' e w)
    from failed(3) show ?thesis
      by (cases rule: handle_failure_cases) (use once [of _ w] failed(1,2) same in \<open>auto simp: idle_def\<close>)
  qed (use once same in auto)
qed

theorem redelivery_harmless_witness:
  "committed (st_world (snd (handle sample_api sample_consumer (bet_delivery\<lparr>qm_ReceiptHandle := ''h2''\<rparr>)
     handled_station))) = committed message_world"
proof -
  have r: "reachable (st_world sample_station)" by (simp add: sample_station_def reachable_opened)
  have log: "st_log handled_station = st_log sample_station @
      [DeleteCall (wc_queueURL sample_consumer) (qm_ReceiptHandle bet_delivery) None]"
    by (simp add: bet_handled sample_station_def sample_consumer_def bet_delivery_def)
  from redelivery_harmless [OF r bet_handled(1) log steps_refl _ prod.collapse [symmetric],
      of "bet_delivery\<lparr>qm_ReceiptHandle := ''h2''\<rparr>"]
  show ?thesis by (simp add: bet_handled(2))
qed

text \<open>A round attends to every message it received: it reports how many there were, and each was
  deleted from the queue or left for another delivery, with an error that says so. A round without
  error deleted them all, and no call it made failed.\<close>

theorem batch_attended:
  assumes "qa_Receive api (length (st_log st)) = Inr messages"
    and "WagerConsumer_Execute api c st = ((n, r), st')"
  shows "n = length messages \<and>
    (\<exists>cs. st_log st' = st_log st @ ReceiveCall (receive_input c) # cs \<and>
       (\<forall>message \<in> set messages.
          (\<exists>answer. DeleteCall (wc_queueURL c) (qm_ReceiptHandle message) answer \<in> set cs) \<or> transient r) \<and>
       (r = None \<longrightarrow> (\<forall>call \<in> set cs. answer_of call = None)))"
proof -
  let ?st0 = "st\<lparr>st_log := st_log st @ [ReceiveCall (receive_input c)]\<rparr>"
  obtain es st1 where h: "handle_all api c messages ?st0 = (es, st1)" by fastforce
  from handle_all_calls [OF h] assms h show ?thesis
    by (auto simp: WagerConsumer_Execute_def Let_def removed_def untroubled_def)
qed

theorem batch_attended_witness:
  "fst (fst (WagerConsumer_Execute sample_api sample_consumer sample_station)) = 1"
proof -
  have "qa_Receive sample_api (length (st_log sample_station)) = Inr [bet_delivery]" by (simp add: sample_api_def)
  moreover obtain n r st' where run: "WagerConsumer_Execute sample_api sample_consumer sample_station = ((n, r), st')"
    by (metis prod.exhaust)
  ultimately show ?thesis using batch_attended [OF _ run, of "[bet_delivery]"] run by simp
qed

text \<open>A message that cannot be read is a permanent failure: it is sent to the dead letter queue and
  deleted in the same breath, the deletion whatever the dead letter queue answered, and both errors
  are reported. The database is not touched.\<close>

theorem unreadable_message:
  assumes "toInboundMessage api message = Inl e"
  shows "let n = length (st_log st); (r, st') = handle api c message st in
    r = errors_Join [qa_Send api n, qa_Delete api (Suc n)] \<and>
    st_log st' = st_log st @ [SendCall (dead_letter_message c message e) (qa_Send api n),
      DeleteCall (wc_queueURL c) (qm_ReceiptHandle message) (qa_Delete api (Suc n))] \<and>
    committed (st_world st') = committed (st_world st)"
  using assms toInboundMessage_Inl [OF assms]
  by (simp add: handle_def handle_failure_def deadLetter_def delete_def record_metric_def Let_def)

text \<open>The dead letter queue refuses the message, and it is gone from both queues.\<close>

theorem unreadable_message_witness:
  "let api = sample_api\<lparr>qa_Send := \<lambda>_. Some OtherError\<rparr>; message = bet_delivery\<lparr>qm_Body := ''?''\<rparr>;
     (r, st') = handle api sample_consumer message sample_station in
   r = Some (Wrapped [OtherError]) \<and>
   map answer_of (st_log st') = [Some OtherError, None] \<and>
   committed (st_world st') = committed opened_world"
proof -
  let ?api = "sample_api\<lparr>qa_Send := \<lambda>_. Some OtherError\<rparr>"
  let ?message = "bet_delivery\<lparr>qm_Body := ''?''\<rparr>"
  have "toInboundMessage ?api ?message = Inl (ValidationError FailureCodeInvalidInput)"
    by (simp add: toInboundMessage_def sample_api_def)
  from unreadable_message [OF this, of sample_station sample_consumer] show ?thesis
    by (auto simp: Let_def sample_api_def sample_station_def errors_Join_def List.map_filter_def split: prod.splits)
qed

section \<open>The publisher\<close>

text \<open>What the queue needs to deduplicate and to order: two messages ever published carry the same
  deduplication identifier exactly when they are of the same event, and then they are the same message
  to the last byte; they are in the same group exactly when they are of the same wallet.\<close>

theorem publications_deduplicate:
  assumes "reachable w" and "inj uuid_String"
    and "r1 \<in> set (published w)" and "r2 \<in> set (published w)"
  shows "let m1 = publication_message uuid_String queueURL r1; m2 = publication_message uuid_String queueURL r2 in
    (sm_MessageDeduplicationId m1 = sm_MessageDeduplicationId m2 \<longleftrightarrow> ob_EventID r1 = ob_EventID r2) \<and>
    (sm_MessageDeduplicationId m1 = sm_MessageDeduplicationId m2 \<longrightarrow> m1 = m2) \<and>
    (sm_MessageGroupId m1 = sm_MessageGroupId m2 \<longleftrightarrow> ob_AggregateID r1 = ob_AggregateID r2)"
proof -
  obtain q1 q2 where q: "q1 \<in> set (outbox (committed w))" "delivers r1 q1"
    "q2 \<in> set (outbox (committed w))" "delivers r2 q2"
    using reachable_published [OF assms(1)] assms(3,4) unfolding record_of_delivers by metis
  have "distinct (map or_ID (outbox (committed w)))"
    using reachable_inv [OF assms(1)] constraints_keys(3) by blast
  then have "q1 = q2" if "ob_EventID r1 = ob_EventID r2"
    using distinct_key_unique [OF _ q(1,3), of or_ID] that q(2,4) by (simp add: delivers_def)
  with q(2,4) assms(2) show ?thesis
    by (auto simp: publication_message_def delivers_def Let_def inj_eq)
qed

theorem publications_deduplicate_witness:
  "\<exists>rec \<in> set (published published_world).
     sm_MessageGroupId (publication_message (\<lambda>i. replicate (unat i) (CHR ''x'')) ''/events'' rec) =
     replicate (unat (ob_AggregateID rec)) (CHR ''x'')"
proof -
  have inj: "inj (\<lambda>i :: ID. replicate (unat i) (CHR ''x''))"
    by (auto intro!: injI dest!: arg_cong [where f = length] simp: word_unat_eq_iff)
  obtain rec where rec: "rec \<in> set (published published_world)"
    using published_rows reachable_inv [OF reachable_published_world] unfolding delivered_def by blast
  from publications_deduplicate [OF reachable_published_world inj rec rec] rec show ?thesis
    by (auto simp: publication_message_def)
qed

section \<open>The workers\<close>

text \<open>A poller only ever runs its job: whatever rounds it makes, of the retries, the publications or
  the consumer, and however it is stopped, the system has only taken steps.\<close>

theorem pollers_take_steps:
  assumes "(job, interval) \<in> set (module_jobs cfg api c)" and "reachable (st_world (po_state p))"
    and "polls job interval p es p'"
  shows "steps (st_world (po_state p)) (st_world (po_state p'))"
  by (rule polls_steps [OF assms(3,1,2)])

definition default_config :: Config where
  "default_config = fst (read_config minimal_environment (\<lambda>_. None))"

theorem pollers_take_steps_witness:
  "steps opened_world (st_world (snd (consumer_job sample_api sample_consumer sample_station)))"
proof -
  obtain taken st' where job: "consumer_job sample_api sample_consumer sample_station = (taken, st')" by fastforce
  let ?p = "newPoller (cfg_ConsumerPollInterval default_config) sample_station"
  have run: "polls (consumer_job sample_api sample_consumer) (cfg_ConsumerPollInterval default_config) ?p ([] @ [Round taken])
      (?p\<lparr>po_state := st', po_due := (if 0 < taken then 0 else cfg_ConsumerPollInterval default_config)\<rparr>)"
    by (rule polls_more [OF polls_none poll_round]) (simp_all add: newPoller_def job)
  have job_in: "(consumer_job sample_api sample_consumer, cfg_ConsumerPollInterval default_config) \<in>
      set (module_jobs default_config sample_api sample_consumer)" by (simp add: module_jobs_def)
  have "reachable (st_world (po_state ?p))" by (simp add: newPoller_def sample_station_def reachable_opened)
  from pollers_take_steps [OF job_in this run] have "steps (st_world sample_station) (st_world st')"
    by (simp add: newPoller_def)
  moreover have "st_world sample_station = opened_world" by (simp add: sample_station_def)
  ultimately show ?thesis by (simp add: job)
qed

text \<open>The wait before the next round is none after a round that took something and the interval
  otherwise; the poller is done only when it was told to stop. But being told to stop does not keep
  rounds from being made: while the job finds work, any number of them may still come.\<close>

theorem poller_pace:
  assumes "polls job interval (newPoller interval s) es p"
  shows "po_due p = (if rounds es \<noteq> [] \<and> 0 < last (rounds es) then 0 else interval) \<and>
    (po_done p \<longrightarrow> po_stopping p \<and> Return \<in> set es) \<and>
    (\<not> po_done p \<longrightarrow> (\<exists>more p'. polls job interval p more p' \<and> length (rounds more) = n))"
proof (intro conjI impI)
  show "po_due p = (if rounds es \<noteq> [] \<and> 0 < last (rounds es) then 0 else interval)"
    using polls_due [OF assms] by (simp add: newPoller_def)
  show "po_stopping p" "Return \<in> set es" if "po_done p"
    using polls_done [OF assms _ that] by (simp_all add: newPoller_def)
  show "\<exists>more p'. polls job interval p more p' \<and> length (rounds more) = n" if "\<not> po_done p"
  proof -
    have "\<exists>more p'. polls job interval p more p' \<and> length (rounds more) = n \<and> \<not> po_done p'"
    proof (induction n)
      case 0
      show ?case using polls_none that by (intro exI [of _ "[]"]) auto
    next
      case (Suc n)
      then obtain more p' where m: "polls job interval p more p'" "length (rounds more) = n" "\<not> po_done p'" by blast
      obtain taken s' where "job (po_state p') = (taken, s')" by fastforce
      from polls_more [OF m(1) poll_round [where job = job and interval = interval and p = p', OF m(3) this]] m(2,3)
      show ?case by (intro exI [of _ "more @ [Round taken]"]) auto
    qed
    then show ?thesis by blast
  qed
qed

text \<open>A poller told to stop, whose job always finds one item.\<close>

theorem poller_pace_witness:
  "\<exists>more p'. polls (\<lambda>s :: unit. (1, s)) 5 ((newPoller 5 ())\<lparr>po_stopping := True\<rparr>) more p' \<and> length (rounds more) = 3"
proof -
  have "polls (\<lambda>s. (1, s)) 5 (newPoller 5 ()) ([] @ [Close]) ((newPoller 5 ())\<lparr>po_stopping := True\<rparr>)"
    by (rule polls_more [OF polls_none poll_close]) (simp add: newPoller_def)
  from poller_pace [OF this, of 3] show ?thesis by (simp add: newPoller_def)
qed

text \<open>What a configuration that loads makes of the workers: every delay before another attempt lies
  between the base and the maximum that were configured, and so does not vanish; every lease lasts;
  a receive asks for one to ten messages and waits for at most twenty seconds. A visibility timeout
  below a second, which loads, becomes 0.\<close>

theorem configured_workers:
  assumes "Load getenv parse = Inr cfg" and "1 \<le> sint attempts"
  shows "let retry_delay = policy_delay (newReferenceRetryPolicy cfg) attempts;
      publication_delay = backoff (pp_BaseDelay (newPublicationPolicy cfg)) (pp_MaxDelay (newPublicationPolicy cfg)) attempts;
      receive = receive_input (NewWagerConsumer cfg) in
    0 < sint retry_delay \<and> sint (cfg_ReferenceRetryBaseDelay cfg) \<le> sint retry_delay \<and>
    sint retry_delay \<le> sint (cfg_ReferenceRetryMaxDelay cfg) \<and>
    0 < sint publication_delay \<and> sint (cfg_OutboxRetryBaseDelay cfg) \<le> sint publication_delay \<and>
    sint publication_delay \<le> sint (cfg_OutboxRetryMaxDelay cfg) \<and>
    0 < sint (rp_Lease (newReferenceRetryPolicy cfg)) \<and> 0 < sint (pp_Lease (newPublicationPolicy cfg)) \<and>
    1 \<le> sint (ri_MaxNumberOfMessages receive) \<and> sint (ri_MaxNumberOfMessages receive) \<le> 10 \<and>
    0 \<le> sint (ri_WaitTimeSeconds receive) \<and> sint (ri_WaitTimeSeconds receive) \<le> 20 \<and>
    (sint (cfg_ConsumerVisibilityTimeout cfg) < 10 ^ 9 \<longrightarrow> ri_VisibilityTimeout receive = 0)"
proof -
  have u: "usable cfg" using assms(1) by (simp add: Load_Inr)
  note delays = backoff_between [OF _ _ assms(2)]
  have second: "sint Second = 10 ^ 9" by (simp add: Second_def Millisecond_def)
  have seconds: "sint (go_div d Second) = sint d div 10 ^ 9" if "0 \<le> sint d" for d
  proof -
    have "0 \<le> sint d div 10 ^ 9" "sint d div 10 ^ 9 \<le> sint d"
      using that by (simp_all add: pos_imp_zdiv_nonneg_iff)
    then have "sint (word_of_int (sint d div 10 ^ 9) :: int64) = sint d div 10 ^ 9"
      using sint64_upper [of d] by (intro sint64_of_int) simp_all
    with that show ?thesis by (simp add: go_div_def second sgn_if)
  qed
  have "sint (ri_MaxNumberOfMessages (receive_input (NewWagerConsumer cfg))) = sint (cfg_ConsumerBatchSize cfg)"
    using u by (simp add: receive_input_def NewWagerConsumer_def usable_def to_int32_sint)
  moreover have "0 \<le> sint (ri_WaitTimeSeconds (receive_input (NewWagerConsumer cfg))) \<and>
      sint (ri_WaitTimeSeconds (receive_input (NewWagerConsumer cfg))) \<le> 20"
  proof -
    have "0 \<le> sint (cfg_ConsumerWaitTime cfg)" "sint (cfg_ConsumerWaitTime cfg) \<le> 20 * 10 ^ 9"
      using u by (simp_all add: usable_def)
    then have "0 \<le> sint (cfg_ConsumerWaitTime cfg) div 10 ^ 9" "sint (cfg_ConsumerWaitTime cfg) div 10 ^ 9 \<le> 20"
      by auto
    moreover have "sint (go_div (cfg_ConsumerWaitTime cfg) Second) = sint (cfg_ConsumerWaitTime cfg) div 10 ^ 9"
      using u seconds by (simp add: usable_def)
    ultimately show ?thesis by (simp add: receive_input_def NewWagerConsumer_def to_int32_sint)
  qed
  moreover have "ri_VisibilityTimeout (receive_input (NewWagerConsumer cfg)) = 0"
    if "sint (cfg_ConsumerVisibilityTimeout cfg) < 10 ^ 9"
  proof -
    have "sint (go_div (cfg_ConsumerVisibilityTimeout cfg) Second) = 0"
      using that u seconds [of "cfg_ConsumerVisibilityTimeout cfg"] by (simp add: usable_def)
    then show ?thesis by (simp add: receive_input_def NewWagerConsumer_def to_int32_def)
  qed
  ultimately show ?thesis
    using u delays [of "cfg_ReferenceRetryBaseDelay cfg" "cfg_ReferenceRetryMaxDelay cfg"]
      delays [of "cfg_OutboxRetryBaseDelay cfg" "cfg_OutboxRetryMaxDelay cfg"]
    by (simp add: Let_def usable_def policy_delay_def newReferenceRetryPolicy_def newPublicationPolicy_def)
qed

text \<open>Half a second of visibility.\<close>

theorem configured_workers_witness:
  "\<exists>cfg. Load (minimal_environment(''CONSUMER_VISIBILITY_TIMEOUT'' := ''500ms'')) (\<lambda>_. Some (500 * Millisecond)) = Inr cfg \<and>
     ri_VisibilityTimeout (receive_input (NewWagerConsumer cfg)) = 0"
proof -
  let ?getenv = "minimal_environment(''CONSUMER_VISIBILITY_TIMEOUT'' := ''500ms'')"
  obtain cfg where cfg: "Load ?getenv (\<lambda>_. Some (500 * Millisecond)) = Inr cfg"
    and v: "cfg_ConsumerVisibilityTimeout cfg = 500 * Millisecond"
    by (simp add: Load_Inr read_config_def minimal_environment_def intOrDefault_def durationOrDefault_def
        envOrDefault_def Let_def usable_def Second_def Minute_def Millisecond_def)
  have "sint (500 * Millisecond) = 500000000" by (simp add: Millisecond_def)
  with configured_workers [OF cfg, of 1] v cfg show ?thesis by (auto simp: Let_def)
qed

end
