(* ===== verification/Http.thy ===== *)
theory Http
  imports Encoding Reads
begin

text \<open>
  \<open>internal/infrastructure/httpserver\<close>, the parts its handlers share: requests and responses,
  \<open>response.go\<close>, the guards of \<open>middleware.go\<close>, and the caller of \<open>auth/verifier.go\<close>. A request is
  what \<open>net/http\<close> hands over, an absent header or parameter empty; a response carries the value its
  body encodes. What works by reflection or is a third party's is a parameter: the reading of a JSON
  value into a struct, with what it leaves unread, identifiers and instants as text, the verifier of
  tokens. Log lines and the wording of errors are left out.
\<close>

section \<open>auth/verifier.go\<close>

definition RoleWalletOperator :: string where "RoleWalletOperator = ''wallet-operator''"
definition RoleGameProvider :: string where "RoleGameProvider = ''game-provider''"

record Principal =
  pr_Roles :: "string list"
  pr_ProviderID :: string

definition HasRole :: "Principal \<Rightarrow> string \<Rightarrow> bool" where
  "HasRole p role = (role \<in> set (pr_Roles p))"

text \<open>The claims of a token: the realm roles and the provider.\<close>

type_synonym claims = "string list \<times> string"

definition Verify :: "(string \<Rightarrow> err + 'token) \<Rightarrow> ('token \<Rightarrow> err + claims) \<Rightarrow> string \<Rightarrow> err + Principal" where
  "Verify oidc_Verify token_Claims rawToken =
     (case oidc_Verify rawToken of
        Inl e \<Rightarrow> Inl (Wrapped [Sentinel ErrInvalidToken, e])
      | Inr token \<Rightarrow>
          (case token_Claims token of
             Inl e \<Rightarrow> Inl (Wrapped [Sentinel ErrInvalidToken, e])
           | Inr (roles, providerID) \<Rightarrow> Inr \<lparr>pr_Roles = roles, pr_ProviderID = providerID\<rparr>))"

section \<open>Requests\<close>

record moneyPayload =
  mp_Amount :: string
  mp_Currency :: string

record processWagerRequest =
  req_ProviderID :: string
  req_ExternalTransactionID :: string
  req_PlayerID :: string
  req_WalletID :: string
  req_RoundID :: string
  req_GameID :: string
  req_Kind :: string
  req_Money :: moneyPayload
  req_ReferenceExternalTransactionID :: string

record openWalletRequest =
  owr_PlayerID :: string
  owr_InitialBalance :: moneyPayload

text \<open>
  \<open>rq_Path\<close> is the path of the URL, \<open>rq_Segments\<close> the segments the router matches, of a path that is
  already in the clean form the router redirects to.
\<close>

record request =
  rq_Method :: string
  rq_Path :: string
  rq_Segments :: "string list"
  rq_Authorization :: string
  rq_CorrelationID :: string
  rq_IdempotencyKey :: string
  rq_Cursor :: string
  rq_Limit :: string
  rq_Body :: string

section \<open>Responses\<close>

record wagerResultResponse =
  wrr_TransactionID :: string
  wrr_Status :: State
  wrr_Balance :: "Money option"
  wrr_FailureCode :: string
  wrr_IdempotentReplay :: bool

record transactionResponse =
  trr_TransactionID :: string
  trr_ProviderID :: string
  trr_ExternalTransactionID :: string
  trr_Kind :: Kind
  trr_Status :: State
  trr_WalletID :: string
  trr_PlayerID :: string
  trr_RoundID :: string
  trr_GameID :: string
  trr_Money :: Money
  trr_Balance :: "Money option"
  trr_FailureCode :: string
  trr_ReferenceExternalTransactionID :: string
  trr_ReferenceAttempts :: int64
  trr_CreatedAt :: time
  trr_UpdatedAt :: time

record walletResponse =
  wlr_ID :: string
  wlr_PlayerID :: string
  wlr_Balance :: Money
  wlr_Version :: int64
  wlr_CreatedAt :: time
  wlr_UpdatedAt :: time

record ledgerEntryResponse =
  ler_ID :: string
  ler_TransactionID :: string
  ler_Direction :: Direction
  ler_Money :: Money
  ler_BalanceBefore :: Money
  ler_BalanceAfter :: Money
  ler_CreatedAt :: time

record ledgerPageResponse =
  lpr_Entries :: "ledgerEntryResponse list"
  lpr_NextCursor :: string

record reconciliationResponse =
  rcr_WalletID :: string
  rcr_StoredBalance :: Money
  rcr_CalculatedBalance :: Money
  rcr_Difference :: Money
  rcr_Consistent :: bool
  rcr_CheckedEntries :: int64

record healthResponse =
  hr_Status :: string
  hr_Failing :: "string list"

text \<open>\<open>RouterBody\<close> and \<open>PublicBody\<close> are what the router itself and the public routes write.\<close>

datatype body =
    ErrorBody string
  | WagerResultBody wagerResultResponse
  | TransactionBody transactionResponse
  | WalletBody walletResponse
  | LedgerPageBody ledgerPageResponse
  | ReconciliationBody reconciliationResponse
  | HealthBody healthResponse
  | RouterBody
  | PublicBody

record response =
  rs_Status :: nat
  rs_Headers :: "(string \<times> string) list"
  rs_Body :: body

text \<open>The library: a decoder answers with the value it read and the rest of the input, and \<open>lib_Metrics\<close> is
  the status and the type of what the exposition of the metrics answers with.\<close>

record library =
  lib_decode_wager :: "string \<Rightarrow> (processWagerRequest \<times> string) option"
  lib_decode_wallet :: "string \<Rightarrow> (openWalletRequest \<times> string) option"
  lib_uuid_Parse :: "string \<Rightarrow> ID option"
  lib_time_Format :: "time \<Rightarrow> string"
  lib_time_Parse :: "string \<Rightarrow> time option"
  lib_oidc_Verify :: "string \<Rightarrow> err + string"
  lib_Claims :: "string \<Rightarrow> err + claims"
  lib_checks :: "(string \<times> err option) list"
  lib_Metrics :: "nat \<times> string"

type_synonym 'a handler = "world \<Rightarrow> 'a \<times> world"

section \<open>response.go\<close>

definition maxRequestBodyBytes :: int where "maxRequestBodyBytes = 2 ^ 20"

definition codeUnauthenticated :: string where "codeUnauthenticated = ''UNAUTHENTICATED''"
definition codeForbidden :: string where "codeForbidden = ''FORBIDDEN''"
definition codeServiceUnavailable :: string where "codeServiceUnavailable = ''SERVICE_UNAVAILABLE''"
definition codeInternalError :: string where "codeInternalError = ''INTERNAL_ERROR''"

text \<open>
  \<open>Decoder.More\<close>: a byte other than white space follows, and it is no closing bracket. What lies
  beyond the size limit cannot be read, and so does not follow.
\<close>

definition json_space :: "char \<Rightarrow> bool" where
  "json_space c = (c \<in> {CHR '' '', CHR 9, CHR 10, CHR 13})"

definition decoder_More :: "string \<Rightarrow> bool" where
  "decoder_More rest =
     (case dropWhile json_space rest of [] \<Rightarrow> False | c # _ \<Rightarrow> c \<noteq> CHR '']'' \<and> c \<noteq> CHR ''}'')"

text \<open>\<open>http.MaxBytesReader\<close>: what can be read of a body.\<close>

definition readable :: "string \<Rightarrow> string" where
  "readable b = (if int (length b) \<le> maxRequestBodyBytes then b else take (nat maxRequestBodyBytes) b)"

lemma readable_take: "readable b = take (2 ^ 20) b"
  by (simp add: readable_def maxRequestBodyBytes_def)

definition decodeJSON :: "(string \<Rightarrow> ('a \<times> string) option) \<Rightarrow> string \<Rightarrow> err + 'a" where
  "decodeJSON decode text_body =
     (case decode (readable text_body) of
        None \<Rightarrow> Inl (ValidationError FailureCodeInvalidInput)
      | Some (v, rest) \<Rightarrow>
          if decoder_More rest then Inl (ValidationError FailureCodeInvalidInput) else Inr v)"

text \<open>The fields of a body whose encoding can fail, in their order.\<close>

datatype field = MoneyField Money | TimeField time

definition optional_money :: "Money option \<Rightarrow> field list" where
  "optional_money m = (case m of None \<Rightarrow> [] | Some v \<Rightarrow> [MoneyField v])"

fun body_fields :: "body \<Rightarrow> field list" where
  "body_fields (WagerResultBody r) = optional_money (wrr_Balance r)"
| "body_fields (TransactionBody r) = MoneyField (trr_Money r) # optional_money (trr_Balance r) @
     [TimeField (trr_CreatedAt r), TimeField (trr_UpdatedAt r)]"
| "body_fields (WalletBody r) =
     [MoneyField (wlr_Balance r), TimeField (wlr_CreatedAt r), TimeField (wlr_UpdatedAt r)]"
| "body_fields (LedgerPageBody r) = concat (map (\<lambda>e.
     [MoneyField (ler_Money e), MoneyField (ler_BalanceBefore e), MoneyField (ler_BalanceAfter e),
      TimeField (ler_CreatedAt e)]) (lpr_Entries r))"
| "body_fields (ReconciliationBody r) =
     [MoneyField (rcr_StoredBalance r), MoneyField (rcr_CalculatedBalance r), MoneyField (rcr_Difference r)]"
| "body_fields _ = []"

fun field_MarshalJSON :: "field \<Rightarrow> err + unit" where
  "field_MarshalJSON (MoneyField m) = and_then (money_MarshalJSON m) (\<lambda>_. Inr ())"
| "field_MarshalJSON (TimeField t) = and_then (time_MarshalJSON t) (\<lambda>_. Inr ())"

definition body_Marshal :: "body \<Rightarrow> err + body" where
  "body_Marshal b =
     (case map_results field_MarshalJSON (body_fields b) of
        Inl e \<Rightarrow> Inl (Wrapped [e]) | Inr _ \<Rightarrow> Inr b)"

definition writeJSON :: "(string \<times> string) list \<Rightarrow> nat \<Rightarrow> body \<Rightarrow> err + response" where
  "writeJSON headers status b =
     (case body_Marshal b of
        Inl e \<Rightarrow> Inl e
      | Inr payload \<Rightarrow> Inr \<lparr>rs_Status = status,
          rs_Headers = headers @ [(''Content-Type'', ''application/json'')], rs_Body = payload\<rparr>)"

definition domainErrorStatus :: "err \<Rightarrow> nat" where
  "domainErrorStatus e =
     (if errors_Is e (Sentinel ErrValidation) then 400
      else if errors_Is e (Sentinel ErrConflict) then 409
      else if errors_Is e (Sentinel ErrNotFound) then 404
      else if errors_Is e (Sentinel ErrRejected) then 422
      else 500)"

definition classifyError :: "err \<Rightarrow> nat \<times> string" where
  "classifyError e =
     (case CodeOf e of
        Some code \<Rightarrow> (domainErrorStatus e, code)
      | None \<Rightarrow>
          if errors_Is e (Sentinel ErrUnavailable) then (503, codeServiceUnavailable)
          else (500, codeInternalError))"

text \<open>An error body always encodes, so that \<open>writeJSON\<close> of one is written out here.\<close>

definition error_response :: "(string \<times> string) list \<Rightarrow> nat \<Rightarrow> string \<Rightarrow> response" where
  "error_response headers status code =
     \<lparr>rs_Status = status, rs_Headers = headers @ [(''Content-Type'', ''application/json'')],
      rs_Body = ErrorBody code\<rparr>"

definition writeError :: "(string \<times> string) list \<Rightarrow> err \<Rightarrow> response" where
  "writeError headers e = (case classifyError e of (status, code) \<Rightarrow> error_response headers status code)"

text \<open>The answer of a handler: its body, or the error of encoding it.\<close>

definition answer :: "(string \<times> string) list \<Rightarrow> nat \<Rightarrow> body \<Rightarrow> response" where
  "answer headers status b =
     (case writeJSON headers status b of Inl e \<Rightarrow> writeError headers e | Inr r \<Rightarrow> r)"

text \<open>The early return of a handler on an error, of a pure step or of a use case.\<close>

definition or_error :: "err + 'a \<Rightarrow> ('a \<Rightarrow> response handler) \<Rightarrow> response handler" where
  "or_error r k = (case r of Inl e \<Rightarrow> (\<lambda>w. (writeError [] e, w)) | Inr a \<Rightarrow> k a)"

definition call :: "'a action \<Rightarrow> ('a \<Rightarrow> response handler) \<Rightarrow> response handler" where
  "call m k = (\<lambda>w. case m w of (Inl e, w') \<Rightarrow> (writeError [] e, w') | (Inr a, w') \<Rightarrow> k a w')"

section \<open>middleware.go: the guards\<close>

definition maxCorrelationIDLength :: nat where "maxCorrelationIDLength = 128"

text \<open>
  The loop ranges over runes, each of which is refused outside plain letters, digits and three
  signs; so is each byte of a longer encoding.
\<close>

definition correlation_char :: "char \<Rightarrow> bool" where
  "correlation_char c =
     (byte_between (CHR ''a'') (CHR ''z'') c \<or> byte_between (CHR ''A'') (CHR ''Z'') c \<or>
      byte_between (CHR ''0'') (CHR ''9'') c \<or> c = CHR ''-'' \<or> c = CHR ''_'' \<or> c = CHR ''.'')"

definition isValidCorrelationID :: "string \<Rightarrow> bool" where
  "isValidCorrelationID i =
     (if i = '''' \<or> maxCorrelationIDLength < length i then False else (\<forall>c \<in> set i. correlation_char c))"

definition writeForbidden :: response where
  "writeForbidden = error_response [] 403 codeForbidden"

definition writeUnauthenticated :: response where
  "writeUnauthenticated =
     error_response [(''WWW-Authenticate'', ''Bearer realm=\"betledger\"'')] 401 codeUnauthenticated"

definition requireRole :: "string \<Rightarrow> (Principal \<Rightarrow> response handler) \<Rightarrow> Principal \<Rightarrow> response handler" where
  "requireRole role next_handler p =
     (if \<not> HasRole p role then (\<lambda>w. (writeForbidden, w)) else next_handler p)"

text \<open>
  The caller is carried by a copy of the request, on which the router behind leaves the pattern it
  matched; the pattern is handed back with the response. A refused request keeps the one it had.
\<close>

definition requireAuthentication ::
  "(string \<Rightarrow> err + Principal) \<Rightarrow> (Principal \<Rightarrow> (response \<times> string) handler) \<Rightarrow> request \<Rightarrow> string \<Rightarrow>
     (response \<times> string) handler" where
  "requireAuthentication verify next_handler rq pattern =
     (case strings_Cut (rq_Authorization rq) (CHR '' '') of
        None \<Rightarrow> (\<lambda>w. ((writeUnauthenticated, pattern), w))
      | Some (scheme, token) \<Rightarrow>
          if \<not> EqualFold scheme ''Bearer'' \<or> token = '''' then (\<lambda>w. ((writeUnauthenticated, pattern), w))
          else (case verify token of
                  Inl e \<Rightarrow> (\<lambda>w. ((writeUnauthenticated, pattern), w))
                | Inr p \<Rightarrow> next_handler p))"

end
