(* ===== verification/Handlers.thy ===== *)
theory Handlers
  imports Http
begin

text \<open>
  \<open>httpserver/wagering_handler.go\<close> and \<open>wallet_handler.go\<close>: every endpoint, from the request and
  the caller to the response, around the use case it calls. The correlation identifier is the one
  the request's context carries.
\<close>

section \<open>wagering_handler.go\<close>

definition uuid_text :: "world \<Rightarrow> ID \<Rightarrow> string" where
  "uuid_text w = env_uuid_String (env w)"

definition wagerResultStatus :: "WagerResult \<Rightarrow> nat" where
  "wagerResultStatus result =
     (if res_State result = StateRejected then 422
      else if res_State result = StatePendingReference then 202
      else if res_IdempotentReplay result then 200
      else 201)"

definition newWagerResultResponse :: "(ID \<Rightarrow> string) \<Rightarrow> WagerResult \<Rightarrow> wagerResultResponse" where
  "newWagerResultResponse uuid_String result =
     \<lparr>wrr_TransactionID = uuid_String (res_TransactionID result), wrr_Status = res_State result,
      wrr_Balance = (if res_State result = StateProcessed then Some (res_Balance result) else None),
      wrr_FailureCode = res_FailureCode result, wrr_IdempotentReplay = res_IdempotentReplay result\<rparr>"

definition wager_input ::
  "processWagerRequest \<Rightarrow> string \<Rightarrow> string \<Rightarrow> string \<Rightarrow> ID \<Rightarrow> ID \<Rightarrow> Kind \<Rightarrow> Money \<Rightarrow> ProcessWagerInput" where
  "wager_input req providerID idempotencyKey correlationID playerID walletID kind amount =
     \<lparr>in_ProviderID = providerID, in_ExternalTransactionID = req_ExternalTransactionID req,
      in_IdempotencyKey = idempotencyKey, in_PlayerID = playerID, in_WalletID = walletID,
      in_RoundID = req_RoundID req, in_GameID = req_GameID req, in_Kind = kind, in_Money = amount,
      in_ReferenceExternalTransactionID = req_ReferenceExternalTransactionID req,
      in_CorrelationID = correlationID\<rparr>"

definition handleProcessWager :: "library \<Rightarrow> string \<Rightarrow> request \<Rightarrow> Principal \<Rightarrow> response handler" where
  "handleProcessWager lib correlationID rq p =
     (if rq_IdempotencyKey rq = '''' then (\<lambda>w. (writeError [] (ValidationError FailureCodeInvalidInput), w))
      else or_error (decodeJSON (lib_decode_wager lib) (rq_Body rq)) (\<lambda>req.
        let providerID = pr_ProviderID p in
        if providerID = '''' \<or> req_ProviderID req \<noteq> providerID then (\<lambda>w. (writeForbidden, w))
        else or_error (ParseID (lib_uuid_Parse lib) (req_PlayerID req)) (\<lambda>playerID.
             or_error (ParseID (lib_uuid_Parse lib) (req_WalletID req)) (\<lambda>walletID.
             or_error (ParseExternalKind (req_Kind req)) (\<lambda>kind.
             or_error (Parse (mp_Amount (req_Money req)) (mp_Currency (req_Money req))) (\<lambda>amount.
             call (ProcessWager_Execute (wager_input req providerID (rq_IdempotencyKey rq) correlationID
                 playerID walletID kind amount)) (\<lambda>result w.
             (answer [] (wagerResultStatus result)
               (WagerResultBody (newWagerResultResponse (uuid_text w) result)), w))))))))"

definition newTransactionResponse :: "(ID \<Rightarrow> string) \<Rightarrow> Transaction \<Rightarrow> transactionResponse" where
  "newTransactionResponse uuid_String t =
     \<lparr>trr_TransactionID = uuid_String (t_id t), trr_ProviderID = t_providerID t,
      trr_ExternalTransactionID = t_externalTransactionID t, trr_Kind = t_kind t, trr_Status = t_state t,
      trr_WalletID = uuid_String (t_walletID t), trr_PlayerID = uuid_String (t_playerID t),
      trr_RoundID = t_roundID t, trr_GameID = t_gameID t, trr_Money = t_amount t,
      trr_Balance = t_resultBalance t, trr_FailureCode = t_failureCode t,
      trr_ReferenceExternalTransactionID = t_referenceExternalTransactionID t,
      trr_ReferenceAttempts = t_referenceAttempts t, trr_CreatedAt = t_createdAt t,
      trr_UpdatedAt = t_updatedAt t\<rparr>"

definition handleGetTransaction :: "library \<Rightarrow> string \<Rightarrow> Principal \<Rightarrow> response handler" where
  "handleGetTransaction lib transactionId p =
     or_error (ParseID (lib_uuid_Parse lib) transactionId) (\<lambda>transactionID.
     call (ReadTransaction_ByID (pr_ProviderID p) transactionID) (\<lambda>found w.
     (answer [] 200 (TransactionBody (newTransactionResponse (uuid_text w) found)), w)))"

definition handleGetTransactionByExternalID :: "string \<Rightarrow> string \<Rightarrow> Principal \<Rightarrow> response handler" where
  "handleGetTransactionByExternalID providerId externalTransactionId p =
     (let providerID = pr_ProviderID p in
      if providerID = '''' \<or> providerId \<noteq> providerID then (\<lambda>w. (writeForbidden, w))
      else call (ReadTransaction_ByExternalID providerID externalTransactionId) (\<lambda>found w.
        (answer [] 200 (TransactionBody (newTransactionResponse (uuid_text w) found)), w)))"

section \<open>wallet_handler.go\<close>

definition newWalletResponse :: "(ID \<Rightarrow> string) \<Rightarrow> Wallet \<Rightarrow> walletResponse" where
  "newWalletResponse uuid_String w =
     \<lparr>wlr_ID = uuid_String (w_id w), wlr_PlayerID = uuid_String (w_playerID w), wlr_Balance = w_balance w,
      wlr_Version = w_version w, wlr_CreatedAt = w_createdAt w, wlr_UpdatedAt = w_updatedAt w\<rparr>"

definition handleOpenWallet :: "library \<Rightarrow> string \<Rightarrow> request \<Rightarrow> Principal \<Rightarrow> response handler" where
  "handleOpenWallet lib correlationID rq p =
     or_error (decodeJSON (lib_decode_wallet lib) (rq_Body rq)) (\<lambda>req.
     or_error (ParseID (lib_uuid_Parse lib) (owr_PlayerID req)) (\<lambda>playerID.
     or_error (Parse (mp_Amount (owr_InitialBalance req)) (mp_Currency (owr_InitialBalance req)))
       (\<lambda>initialBalance.
     call (OpenWallet_Execute \<lparr>ow_PlayerID = playerID, ow_InitialBalance = initialBalance,
         ow_CorrelationID = correlationID\<rparr>) (\<lambda>opened w.
     (answer [(''Location'', ''/wallets/'' @ uuid_text w (w_id opened))] 201
        (WalletBody (newWalletResponse (uuid_text w) opened)), w)))))"

definition handleGetWallet :: "library \<Rightarrow> string \<Rightarrow> Principal \<Rightarrow> response handler" where
  "handleGetWallet lib walletId p =
     or_error (ParseID (lib_uuid_Parse lib) walletId) (\<lambda>walletID.
     call (ReadWallet_Wallet walletID) (\<lambda>found w.
     (answer [] 200 (WalletBody (newWalletResponse (uuid_text w) found)), w)))"

definition encodeLedgerCursor :: "library \<Rightarrow> (ID \<Rightarrow> string) \<Rightarrow> LedgerCursor \<Rightarrow> string" where
  "encodeLedgerCursor lib uuid_String cursor =
     (case cursor of (createdAt, entryID) \<Rightarrow>
        base64_EncodeToString (lib_time_Format lib createdAt @ ''|'' @ uuid_String entryID))"

definition decodeLedgerCursor :: "library \<Rightarrow> string \<Rightarrow> err + LedgerCursor option" where
  "decodeLedgerCursor lib encoded =
     (if encoded = '''' then Inr None
      else (case base64_DecodeString encoded of
        None \<Rightarrow> Inl (ValidationError FailureCodeInvalidInput)
      | Some decoded \<Rightarrow>
          (case strings_Cut decoded (CHR ''|'') of
             None \<Rightarrow> Inl (ValidationError FailureCodeInvalidInput)
           | Some (createdAt, entryID) \<Rightarrow>
               (case lib_time_Parse lib createdAt of
                  None \<Rightarrow> Inl (ValidationError FailureCodeInvalidInput)
                | Some at \<Rightarrow>
                    (case ParseID (lib_uuid_Parse lib) entryID of
                       Inl e \<Rightarrow> Inl (ValidationError FailureCodeInvalidInput)
                     | Inr i \<Rightarrow> Inr (Some (at, i)))))))"

definition queryLimit :: "string \<Rightarrow> err + int64" where
  "queryLimit raw =
     (if raw = '''' then Inr 0
      else (case Atoi raw of
              Inl _ \<Rightarrow> Inl (ValidationError FailureCodeInvalidInput)
            | Inr limit \<Rightarrow> Inr limit))"

definition newLedgerEntryResponse :: "(ID \<Rightarrow> string) \<Rightarrow> Entry \<Rightarrow> ledgerEntryResponse" where
  "newLedgerEntryResponse uuid_String e =
     \<lparr>ler_ID = uuid_String (entry_id e), ler_TransactionID = uuid_String (entry_transactionID e),
      ler_Direction = entry_direction e, ler_Money = entry_amount e,
      ler_BalanceBefore = entry_balanceBefore e, ler_BalanceAfter = entry_balanceAfter e,
      ler_CreatedAt = entry_createdAt e\<rparr>"

definition handleGetLedger :: "library \<Rightarrow> request \<Rightarrow> string \<Rightarrow> Principal \<Rightarrow> response handler" where
  "handleGetLedger lib rq walletId p =
     or_error (ParseID (lib_uuid_Parse lib) walletId) (\<lambda>walletID.
     or_error (decodeLedgerCursor lib (rq_Cursor rq)) (\<lambda>cursor.
     or_error (queryLimit (rq_Limit rq)) (\<lambda>limit.
     call (ReadWallet_Ledger walletID cursor limit) (\<lambda>page w.
     (answer [] 200 (LedgerPageBody \<lparr>lpr_Entries = map (newLedgerEntryResponse (uuid_text w)) (lp_Entries page),
        lpr_NextCursor = (case lp_NextCursor page of
          None \<Rightarrow> '''' | Some next_cursor \<Rightarrow> encodeLedgerCursor lib (uuid_text w) next_cursor)\<rparr>), w)))))"

definition handleReconcile :: "library \<Rightarrow> string \<Rightarrow> Principal \<Rightarrow> response handler" where
  "handleReconcile lib walletId p =
     or_error (ParseID (lib_uuid_Parse lib) walletId) (\<lambda>walletID.
     call (ReadWallet_Reconcile walletID) (\<lambda>result w.
     (answer [] 200 (ReconciliationBody \<lparr>rcr_WalletID = uuid_text w (rr_WalletID result),
        rcr_StoredBalance = rr_Stored result, rcr_CalculatedBalance = rr_Calculated result,
        rcr_Difference = rr_Difference result, rcr_Consistent = rr_Consistent result,
        rcr_CheckedEntries = rr_CheckedEntries result\<rparr>), w)))"

end
