(* ===== verification/Server.thy ===== *)
theory Server
  imports Handlers
begin

text \<open>
  \<open>httpserver/module.go\<close>, \<open>health.go\<close>, \<open>docs_handler.go\<close> and the rest of \<open>middleware.go\<close>: the routes,
  the chain every request passes through, and so the whole server as a function of a request. The
  matching of a path against the patterns registered is that of \<open>net/http\<close>; a path it would first
  redirect to its clean form is not modelled. The deadline of \<open>withRequestTimeout\<close> shows only as a
  fault of the environment when it expires.
\<close>

section \<open>The routes that need a caller\<close>

datatype endpoint =
    OpenWalletEndpoint | WalletEndpoint string | LedgerEndpoint string | ReconciliationEndpoint string
  | ProcessWagerEndpoint | TransactionEndpoint string | ProviderTransactionEndpoint string string

text \<open>The patterns a path matches, each with its method; a wildcard is one segment that is not empty.\<close>

definition wallet_patterns :: "string list \<Rightarrow> (string \<times> string \<times> endpoint) list" where
  "wallet_patterns segments =
     (case segments of
        [a] \<Rightarrow> if a = ''wallets'' then [(''POST'', ''POST /wallets'', OpenWalletEndpoint)] else []
      | [a, i] \<Rightarrow>
          if a = ''wallets'' \<and> i \<noteq> '''' then [(''GET'', ''GET /wallets/{walletId}'', WalletEndpoint i)] else []
      | [a, i, b] \<Rightarrow>
          if a = ''wallets'' \<and> i \<noteq> '''' \<and> b = ''ledger''
            then [(''GET'', ''GET /wallets/{walletId}/ledger'', LedgerEndpoint i)]
          else if a = ''wallets'' \<and> i \<noteq> '''' \<and> b = ''reconciliation''
            then [(''POST'', ''POST /wallets/{walletId}/reconciliation'', ReconciliationEndpoint i)]
          else []
      | _ \<Rightarrow> [])"

definition wagering_patterns :: "string list \<Rightarrow> (string \<times> string \<times> endpoint) list" where
  "wagering_patterns segments =
     (case segments of
        [a, b] \<Rightarrow>
          if a = ''wagering'' \<and> b = ''transactions''
            then [(''POST'', ''POST /wagering/transactions'', ProcessWagerEndpoint)] else []
      | [a, b, i] \<Rightarrow>
          if a = ''wagering'' \<and> b = ''transactions'' \<and> i \<noteq> ''''
            then [(''GET'', ''GET /wagering/transactions/{transactionId}'', TransactionEndpoint i)] else []
      | [a, p, b, c, i] \<Rightarrow>
          if a = ''providers'' \<and> p \<noteq> '''' \<and> b = ''wagering'' \<and> c = ''transactions'' \<and> i \<noteq> ''''
            then [(''GET'', ''GET /providers/{providerId}/wagering/transactions/{externalTransactionId}'',
              ProviderTransactionEndpoint p i)] else []
      | _ \<Rightarrow> [])"

definition method_matches :: "string \<Rightarrow> string \<Rightarrow> bool" where
  "method_matches registered given = (registered = given \<or> registered = ''GET'' \<and> given = ''HEAD'')"

definition router_response :: "nat \<Rightarrow> response" where
  "router_response status = \<lparr>rs_Status = status, rs_Headers = [], rs_Body = RouterBody\<rparr>"

definition run_endpoint :: "library \<Rightarrow> string \<Rightarrow> request \<Rightarrow> endpoint \<Rightarrow> Principal \<Rightarrow> response handler" where
  "run_endpoint lib correlationID rq e =
     (case e of
        OpenWalletEndpoint \<Rightarrow> requireRole RoleWalletOperator (handleOpenWallet lib correlationID rq)
      | WalletEndpoint i \<Rightarrow> requireRole RoleWalletOperator (handleGetWallet lib i)
      | LedgerEndpoint i \<Rightarrow> requireRole RoleWalletOperator (handleGetLedger lib rq i)
      | ReconciliationEndpoint i \<Rightarrow> requireRole RoleWalletOperator (handleReconcile lib i)
      | ProcessWagerEndpoint \<Rightarrow> requireRole RoleGameProvider (handleProcessWager lib correlationID rq)
      | TransactionEndpoint i \<Rightarrow> requireRole RoleGameProvider (handleGetTransaction lib i)
      | ProviderTransactionEndpoint provider i \<Rightarrow>
          requireRole RoleGameProvider (handleGetTransactionByExternalID provider i))"

text \<open>The router of the protected routes: the response and the pattern it matched.\<close>

definition protected_mux :: "library \<Rightarrow> string \<Rightarrow> request \<Rightarrow> Principal \<Rightarrow> (response \<times> string) handler" where
  "protected_mux lib correlationID rq p =
     (let patterns = wallet_patterns (rq_Segments rq) @ wagering_patterns (rq_Segments rq) in
      case List.find (\<lambda>(registered, _). method_matches registered (rq_Method rq)) patterns of
        Some (_, pattern, e) \<Rightarrow>
          (\<lambda>w. case run_endpoint lib correlationID rq e p w of (rs, w') \<Rightarrow> ((rs, pattern), w'))
      | None \<Rightarrow> (\<lambda>w. ((router_response (if patterns = [] then 404 else 405), ''''), w)))"

section \<open>health.go and docs_handler.go\<close>

definition healthPathPrefix :: string where "healthPathPrefix = ''/health/''"
definition metricsPath :: string where "metricsPath = ''/metrics''"

definition handleLive :: response where
  "handleLive = answer [] 200 (HealthBody \<lparr>hr_Status = ''ok'', hr_Failing = []\<rparr>)"

definition readinessHandler :: "(string \<times> err option) list \<Rightarrow> response" where
  "readinessHandler checks =
     (let failing = map fst (filter (\<lambda>(_, e). e \<noteq> None) checks) in
      if failing \<noteq> [] then answer [] 503 (HealthBody \<lparr>hr_Status = ''unavailable'', hr_Failing = failing\<rparr>)
      else answer [] 200 (HealthBody \<lparr>hr_Status = ''ready'', hr_Failing = []\<rparr>))"

definition public_response :: "nat \<Rightarrow> string \<Rightarrow> response" where
  "public_response status content = \<lparr>rs_Status = status, rs_Headers = [(''Content-Type'', content)], rs_Body = PublicBody\<rparr>"

text \<open>The routes served as they are, with the pattern that matched.\<close>

definition public_route :: "library \<Rightarrow> request \<Rightarrow> (response \<times> string) option" where
  "public_route lib rq =
     (if \<not> method_matches ''GET'' (rq_Method rq) then None
      else if rq_Segments rq = [''health'', ''live''] then Some (handleLive, ''GET /health/live'')
      else if rq_Segments rq = [''health'', ''ready''] then
        Some (readinessHandler (lib_checks lib), ''GET /health/ready'')
      else if rq_Segments rq = [''openapi.yaml''] then
        Some (public_response 200 ''application/yaml'', ''GET /openapi.yaml'')
      else if rq_Segments rq = [''docs''] then
        Some (public_response 200 ''text/html; charset=utf-8'', ''GET /docs'')
      else if rq_Segments rq = [''metrics''] then
        Some (case lib_Metrics lib of (status, content) \<Rightarrow> public_response status content, ''GET /metrics'')
      else None)"

section \<open>module.go and middleware.go\<close>

definition root_mux :: "library \<Rightarrow> string \<Rightarrow> request \<Rightarrow> (response \<times> string) handler" where
  "root_mux lib correlationID rq =
     (case public_route lib rq of
        Some found \<Rightarrow> (\<lambda>w. (found, w))
      | None \<Rightarrow>
          requireAuthentication (Verify (lib_oidc_Verify lib) (lib_Claims lib))
            (protected_mux lib correlationID rq) rq ''/'')"

definition withRequestObservation :: "request \<Rightarrow> (response \<times> string) handler \<Rightarrow> response handler" where
  "withRequestObservation rq next_handler = (\<lambda>w.
     if take (length healthPathPrefix) (rq_Path rq) = healthPathPrefix \<or> rq_Path rq = metricsPath
     then (case next_handler w of ((rs, _), w') \<Rightarrow> (rs, w'))
     else let started = env_clock (env w) (instants w);
              ((rs, pattern), w1) = next_handler (snd (clock_now w));
              ended = env_clock (env w1) (instants w1)
          in (rs, snd (record_metric (RequestHandled (rq_Method rq) pattern (rs_Status rs)
                (time_Sub ended started)) (snd (clock_now w1)))))"

definition CorrelationHeader :: string where "CorrelationHeader = ''X-Correlation-Id''"

definition withCorrelationID :: "request \<Rightarrow> (string \<Rightarrow> response handler) \<Rightarrow> response handler" where
  "withCorrelationID rq next_handler = (\<lambda>w.
     let (i, w0) = (if isValidCorrelationID (rq_CorrelationID rq) then (rq_CorrelationID rq, w)
                    else (uuid_text w (env_NewID (env w) (identifiers w)), snd (NewID w)));
         (rs, w1) = next_handler i w0
     in (rs\<lparr>rs_Headers := (CorrelationHeader, i) # rs_Headers rs\<rparr>, w1))"

text \<open>\<open>NewHandler\<close>: the server of the API.\<close>

definition NewHandler :: "library \<Rightarrow> request \<Rightarrow> response handler" where
  "NewHandler lib rq =
     withCorrelationID rq (\<lambda>correlationID. withRequestObservation rq (root_mux lib correlationID rq))"

text \<open>\<open>NewHealthHandler\<close>: the server of the workers, with the metrics as its only public route.\<close>

definition health_route :: "library \<Rightarrow> request \<Rightarrow> response \<times> string" where
  "health_route lib rq =
     (let known = rq_Segments rq \<in> {[''health'', ''live''], [''health'', ''ready''], [''metrics'']} in
      if \<not> known then (router_response 404, '''')
      else if \<not> method_matches ''GET'' (rq_Method rq) then (router_response 405, '''')
      else (case public_route lib rq of Some found \<Rightarrow> found | None \<Rightarrow> (router_response 404, '''')))"

definition NewHealthHandler :: "library \<Rightarrow> request \<Rightarrow> response handler" where
  "NewHealthHandler lib rq =
     withCorrelationID rq (\<lambda>_. withRequestObservation rq (\<lambda>w. (health_route lib rq, w)))"

end
