(* ===== verification/Serving.thy ===== *)
theory Serving
  imports Server Consuming
begin

text \<open>
  What the server does with a request: the chain of guards in front of the handlers, the effect of
  every endpoint as steps of the system, and what its responses say of them.
\<close>

section \<open>Handlers\<close>

text \<open>Whatever a handler does from a world satisfies \<open>P\<close>, of that world, the response and the next.\<close>

definition serving :: "(world \<Rightarrow> 'a \<Rightarrow> world \<Rightarrow> bool) \<Rightarrow> 'a handler \<Rightarrow> bool" where
  "serving P h \<longleftrightarrow> (\<forall>w rs w'. h w = (rs, w') \<longrightarrow> P w rs w')"

lemma servingD: "serving P h \<Longrightarrow> h w = (rs, w') \<Longrightarrow> P w rs w'"
  by (simp add: serving_def)

lemma serving_pure: "(\<And>w. P w (f w) w) \<Longrightarrow> serving P (\<lambda>w. (f w, w))"
  by (simp add: serving_def)

lemma serving_if: "(b \<Longrightarrow> serving P h) \<Longrightarrow> (\<not> b \<Longrightarrow> serving P k) \<Longrightarrow> serving P (if b then h else k)"
  by simp

lemma serving_or_error:
  "(\<And>e w. r = Inl e \<Longrightarrow> P w (writeError [] e) w) \<Longrightarrow> (\<And>a. r = Inr a \<Longrightarrow> serving P (k a)) \<Longrightarrow>
     serving P (or_error r k)"
  by (auto simp: serving_def or_error_def split: sum.splits)

lemma serving_call:
  "(\<And>w e w'. m w = (Inl e, w') \<Longrightarrow> P w (writeError [] e) w') \<Longrightarrow>
   (\<And>w a w'. m w = (Inr a, w') \<Longrightarrow> P w (f a w') w') \<Longrightarrow> serving P (call m (\<lambda>a w. (f a w, w)))"
  by (auto simp: serving_def call_def split: prod.splits sum.splits)

lemmas serving_rules = serving_or_error serving_call serving_pure serving_if

text \<open>A handler that reads leaves the database as it is.\<close>

abbreviation quiet :: "world \<Rightarrow> 'a \<Rightarrow> world \<Rightarrow> bool" where
  "quiet w rs w' \<equiv> tx w = None \<longrightarrow> idle w w'"

lemma reading_handlers:
  "serving quiet (handleGetTransaction lib i p)"
  "serving quiet (handleGetTransactionByExternalID provider i p)"
  "serving quiet (handleGetWallet lib i p)"
  "serving quiet (handleGetLedger lib rq i p)"
  "serving quiet (handleReconcile lib i p)"
proof -
  have by_id: "ReadTransaction_ByID provider i w = (r, w') \<Longrightarrow> tx w = None \<Longrightarrow> idle w w'" for provider i w r w'
    unfolding ReadTransaction_ByID_def by (erule ReadWallet_run(4)) (simp_all add: reader_repositories)
  have by_ext: "ReadTransaction_ByExternalID provider i w = (r, w') \<Longrightarrow> tx w = None \<Longrightarrow> idle w w'" for provider i w r w'
    unfolding ReadTransaction_ByExternalID_def by (erule ReadWallet_run(4)) (simp_all add: reader_repositories)
  show "serving quiet (handleGetTransaction lib i p)"
    unfolding handleGetTransaction_def by (intro serving_rules) (auto dest: by_id)
  show "serving quiet (handleGetTransactionByExternalID provider i p)"
    unfolding handleGetTransactionByExternalID_def Let_def by (intro serving_rules) (auto dest: by_ext)
  show "serving quiet (handleGetWallet lib i p)"
    unfolding handleGetWallet_def by (intro serving_rules) (auto dest: ReadWallet_run(1))
  show "serving quiet (handleGetLedger lib rq i p)"
    unfolding handleGetLedger_def by (intro serving_rules) (auto dest: ReadWallet_run(2))
  show "serving quiet (handleReconcile lib i p)"
    unfolding handleReconcile_def by (intro serving_rules) (auto dest: ReadWallet_run(3))
qed

section \<open>Operations\<close>

text \<open>An input as the handler builds it from the request of a caller.\<close>

definition asked :: "request \<Rightarrow> Principal \<Rightarrow> string \<Rightarrow> ProcessWagerInput \<Rightarrow> bool" where
  "asked rq p c input \<longleftrightarrow>
     in_ProviderID input = pr_ProviderID p \<and> pr_ProviderID p \<noteq> '''' \<and>
     in_IdempotencyKey input = rq_IdempotencyKey rq \<and> rq_IdempotencyKey rq \<noteq> '''' \<and>
     in_CorrelationID input = c \<and> constructed (in_Money input) \<and> 0 \<le> sint (minorUnits (in_Money input)) \<and>
     in_PlayerID input \<noteq> NilID \<and> in_WalletID input \<noteq> NilID \<and> IsExternal (in_Kind input)"

text \<open>The status by which a client is to tell the outcome.\<close>

definition outcome_status :: "State \<Rightarrow> bool \<Rightarrow> nat" where
  "outcome_status s replay =
     (case s of
        StateRejected \<Rightarrow> 422
      | StatePendingReference \<Rightarrow> 202
      | _ \<Rightarrow> if replay then 200 else 201)"

lemma wagerResultStatus_tells: "wagerResultStatus a = outcome_status (res_State a) (res_IdempotentReplay a)"
  by (simp add: wagerResultStatus_def outcome_status_def split: State.splits)

text \<open>
  The answer to an operation: its result with the status that tells it, when it was executed, or an
  error, and then nothing changed unless the answer to the commit was lost.
\<close>

definition wager_answered :: "request \<Rightarrow> Principal \<Rightarrow> string \<Rightarrow> world \<Rightarrow> response \<Rightarrow> world \<Rightarrow> bool" where
  "wager_answered rq p c w rs w' \<longleftrightarrow>
     (case rs_Body rs of
        WagerResultBody b \<Rightarrow> \<exists>input a. asked rq p c input \<and>
          executed (env w) (committed w) input a (committed w') \<and>
          rs_Status rs = outcome_status (res_State a) (res_IdempotentReplay a) \<and> b = newWagerResultResponse (env_uuid_String (env w)) a
      | ErrorBody code \<Rightarrow> committed w' = committed w \<or>
          answer_lost (env w) \<and>
          (\<exists>input a. asked rq p c input \<and> executed (env w) (committed w) input a (committed w'))
      | _ \<Rightarrow> False)"

lemma error_body [simp]:
  "rs_Body (writeError headers e) = ErrorBody (snd (classifyError e))"
  "rs_Status (writeError headers e) = fst (classifyError e)"
  "rs_Body writeForbidden = ErrorBody codeForbidden" "rs_Status writeForbidden = 403"
  "rs_Body writeUnauthenticated = ErrorBody codeUnauthenticated" "rs_Status writeUnauthenticated = 401"
  by (simp_all add: writeError_def error_response_def writeForbidden_def writeUnauthenticated_def split: prod.splits)

lemma wager_answered_error:
  "committed w' = committed w \<Longrightarrow> wager_answered rq p c w (writeError headers e) w'"
  "wager_answered rq p c w writeForbidden w"
  by (simp_all add: wager_answered_def)

text \<open>The balance of a processed operation has a currency, so that its answer can be encoded.\<close>

lemma result_balance:
  "transaction_wf t \<Longrightarrow> t_state t = StateProcessed \<Longrightarrow>
     \<not> currency_IsZero (currency (res_Balance (newWagerResult t replay)))"
  by (auto simp: newWagerResult_def transaction_wf_defs money_like_def split: option.splits if_splits)

lemma executed_balance:
  assumes "executed E d input a d'" and inp: "constructed (in_Money input)" and b: "books d"
    and "res_State a = StateProcessed"
  shows "\<not> currency_IsZero (currency (res_Balance a))"
proof -
  obtain hash i at t where t: "NewExternal (new_external_params input hash i at) = Inr t"
    and eff: "d' = d \<and> replayed d t a \<or> applied d t (in_CorrelationID input) at a d'"
    using assms(1) unfolding executed_def by blast
  note f = NewExternal_facts [OF t inp]
  from eff show ?thesis
  proof
    assume "d' = d \<and> replayed d t a"
    then obtain p row where p: "a = newWagerResult p True" "rehydrate_row row = Inr p"
      and row: "row \<in> set (transactions d)" unfolding replayed_def by (metis find_SomeD)
    obtain q where "stores row q" using b row by (auto simp: books_def transactions_inv_def)
    with p(2) have "transaction_wf p" using stores_unique by (metis stores_def)
    with p(1) assms(4) show ?thesis using result_balance [of p True] by (simp add: newWagerResult_def)
  next
    assume "applied d t (in_CorrelationID input) at a d'"
    then obtain w t'' entry w' where "decided d w t at t'' entry w'" "a = newWagerResult t'' False"
      unfolding applied_def by blast
    with decided_request [of d w t at t'' entry w'] f assms(4) result_balance [of t'' False] show ?thesis
      by (simp add: newWagerResult_def)
  qed
qed

lemma result_answer:
  assumes "res_State a = StateProcessed \<Longrightarrow> \<not> currency_IsZero (currency (res_Balance a))"
  shows "rs_Body (answer [] status (WagerResultBody (newWagerResultResponse u a))) =
      WagerResultBody (newWagerResultResponse u a)"
    and "rs_Status (answer [] status (WagerResultBody (newWagerResultResponse u a))) = status"
  using assms
  by (auto simp: answer_def writeJSON_def body_Marshal_def newWagerResultResponse_def optional_money_def
      money_MarshalJSON_def money_Validate_def)

lemma handleProcessWager_answered:
  "serving (\<lambda>w rs w'. reachable w \<longrightarrow> wager_answered rq p c w rs w') (handleProcessWager lib c rq p)"
  unfolding handleProcessWager_def Let_def
proof (intro serving_if serving_or_error serving_pure impI wager_answered_error refl)
  fix req :: processWagerRequest and playerID walletID kind amount
  assume key: "rq_IdempotencyKey rq \<noteq> ''''" and prov: "\<not> (pr_ProviderID p = '''' \<or> req_ProviderID req \<noteq> pr_ProviderID p)"
    and ids: "ParseID (lib_uuid_Parse lib) (req_PlayerID req) = Inr playerID"
      "ParseID (lib_uuid_Parse lib) (req_WalletID req) = Inr walletID"
    and kind: "ParseExternalKind (req_Kind req) = Inr kind"
    and amount: "Parse (mp_Amount (req_Money req)) (mp_Currency (req_Money req)) = Inr amount"
  let ?input = "wager_input req (pr_ProviderID p) (rq_IdempotencyKey rq) c playerID walletID kind amount"
  have inp: "asked rq p c ?input"
    using key prov ids kind Parse_Inr [OF amount]
    by (auto simp: asked_def wager_input_def ParseID_Inr ParseExternalKind_Inr)
  then have m: "constructed (in_Money ?input)" by (simp add: asked_def)
  show "serving (\<lambda>w rs w'. reachable w \<longrightarrow> wager_answered rq p c w rs w')
     (call (ProcessWager_Execute ?input) (\<lambda>result w.
        (answer [] (wagerResultStatus result) (WagerResultBody (newWagerResultResponse (uuid_text w) result)), w)))"
  proof (intro serving_call impI)
    fix w e w' assume run: "ProcessWager_Execute ?input w = (Inl e, w')" and w: "reachable w"
    from process_outcome [OF run w m] inp show "wager_answered rq p c w (writeError [] e) w'"
      by (auto simp: wager_answered_def)
  next
    fix w a w' assume run: "ProcessWager_Execute ?input w = (Inr a, w')" and w: "reachable w"
    have ex: "executed (env w) (committed w) ?input a (committed w')" using process_outcome [OF run w m] by auto
    have "env w' = env w" using step_changed [OF step_process [OF run m]] reachable_inv [OF w] by simp
    with ex inp result_answer [of a] executed_balance [OF ex m] reachable_inv [OF w]
    show "wager_answered rq p c w (answer [] (wagerResultStatus a)
        (WagerResultBody (newWagerResultResponse (uuid_text w') a))) w'"
      by (auto simp: wager_answered_def uuid_text_def wagerResultStatus_tells)
  qed
qed

section \<open>Wallets\<close>

lemma open_outcome:
  assumes run: "OpenWallet_Execute input w = (r, w')" and w: "reachable w"
  shows "committed w' = committed w \<and> \<not> ok r \<or>
    (\<exists>x at. opened (committed w) x (ow_CorrelationID input) at (committed w') \<and> w_createdAt x = at \<and>
       w_updatedAt x = at \<and> w_playerID x = ow_PlayerID input \<and> w_balance x = ow_InitialBalance input \<and>
       (r = Inr x \<or> \<not> ok r \<and> answer_lost (env w)))"
  using run
proof (cases rule: OpenWallet_run)
  case (ran i at x q w1)
  note inv = reachable_inv [OF w]
  have x: "w_createdAt x = at" "w_updatedAt x = at" "w_playerID x = ow_PlayerID input" "w_balance x = ow_InitialBalance input"
    using ran(1) by (auto simp: wallet_Open_def wallet_Rehydrate_Inr_iff split: if_splits)
  have op: "opened (committed w) x (ow_CorrelationID input) at (committed w')"
    if "does (open_in_transaction x (ow_CorrelationID input) at) w0 (committed w) a v (committed w')" for w0 a v
    using does_open [OF that] inv wallet_Open_wf [OF ran(1)] by simp
  consider "committed w' = committed w \<and> \<not> ok q"
    | a w0 v where "does (open_in_transaction x (ow_CorrelationID input) at) w0 (committed w) a v (committed w')"
      "q = Inr a \<or> \<not> ok q \<and> answer_lost (env w)"
    using ran_outcome [OF ran(4) _ _ ran(2) idle_refl] inv by auto
  then show ?thesis
  proof cases
    case 1
    with ran(5) show ?thesis by (cases q) simp_all
  next
    case 2
    have "r = Inr x \<or> \<not> ok r \<and> answer_lost (env w)" using 2(2) ran(5) by (cases q) auto
    with op [OF 2(1)] x show ?thesis by blast
  qed
qed (simp add: idle_def)

definition wallet_answered :: "string \<Rightarrow> world \<Rightarrow> response \<Rightarrow> world \<Rightarrow> bool" where
  "wallet_answered c w rs w' \<longleftrightarrow>
     (case rs_Body rs of
        WalletBody b \<Rightarrow> rs_Status rs = 201 \<and>
          (\<exists>x at. opened (committed w) x c at (committed w') \<and> b = newWalletResponse (env_uuid_String (env w)) x)
      | ErrorBody code \<Rightarrow> committed w' = committed w \<or>
          (\<exists>x at. opened (committed w) x c at (committed w') \<and>
             (answer_lost (env w) \<or> \<not> ok (time_MarshalJSON at)))
      | _ \<Rightarrow> False)"

lemma opened_currency: "opened d x c at d' \<Longrightarrow> \<not> currency_IsZero (currency (w_balance x))"
  by (auto simp: opened_def wallet_iso_def wallet_Currency_def currency_IsZero_def)

lemma wallet_answer:
  assumes "\<not> currency_IsZero (currency (w_balance x))" and "w_createdAt x = at" and "w_updatedAt x = at"
  shows "if ok (time_MarshalJSON at)
    then answer h status (WalletBody (newWalletResponse u x)) =
      \<lparr>rs_Status = status, rs_Headers = h @ [(''Content-Type'', ''application/json'')],
       rs_Body = WalletBody (newWalletResponse u x)\<rparr>
    else \<exists>code. rs_Body (answer h status (WalletBody (newWalletResponse u x))) = ErrorBody code"
  using assms
  by (cases "time_MarshalJSON at")
    (auto simp: answer_def writeJSON_def body_Marshal_def newWalletResponse_def money_MarshalJSON_def
      money_Validate_def)

lemma handleOpenWallet_answered:
  "serving (\<lambda>w rs w'. reachable w \<longrightarrow> wallet_answered c w rs w') (handleOpenWallet lib c rq p)"
  unfolding handleOpenWallet_def
proof (intro serving_or_error impI)
  fix playerID initialBalance
  let ?input = "\<lparr>ow_PlayerID = playerID, ow_InitialBalance = initialBalance, ow_CorrelationID = c\<rparr>"
  show "serving (\<lambda>w rs w'. reachable w \<longrightarrow> wallet_answered c w rs w')
     (call (OpenWallet_Execute ?input) (\<lambda>opened w. (answer [(''Location'', ''/wallets/'' @ uuid_text w (w_id opened))] 201
        (WalletBody (newWalletResponse (uuid_text w) opened)), w)))"
  proof (intro serving_call impI)
    fix w e w' assume run: "OpenWallet_Execute ?input w = (Inl e, w')" and w: "reachable w"
    from open_outcome [OF run w] show "wallet_answered c w (writeError [] e) w'"
      by (auto simp: wallet_answered_def)
  next
    fix w x w' assume run: "OpenWallet_Execute ?input w = (Inr x, w')" and w: "reachable w"
    obtain at where x: "opened (committed w) x c at (committed w')" "w_createdAt x = at" "w_updatedAt x = at"
      using open_outcome [OF run w] by auto
    have "env w' = env w" using step_changed [OF step_open [OF run]] reachable_inv [OF w] by simp
    with x wallet_answer [OF opened_currency [OF x(1)] x(2,3), of "[(''Location'', ''/wallets/'' @ uuid_text w' (w_id x))]" 201 "uuid_text w'"]
    show "wallet_answered c w (answer [(''Location'', ''/wallets/'' @ uuid_text w' (w_id x))] 201
        (WalletBody (newWalletResponse (uuid_text w') x))) w'"
      by (auto simp: wallet_answered_def uuid_text_def split: if_splits)
  qed
qed (simp_all add: wallet_answered_def)

section \<open>The chain\<close>

text \<open>The caller a request is authenticated as.\<close>

definition caller :: "library \<Rightarrow> request \<Rightarrow> Principal option" where
  "caller lib rq =
     (case strings_Cut (rq_Authorization rq) (CHR '' '') of
        None \<Rightarrow> None
      | Some (scheme, token) \<Rightarrow>
          if \<not> EqualFold scheme ''Bearer'' \<or> token = '''' then None
          else (case Verify (lib_oidc_Verify lib) (lib_Claims lib) token of Inl e \<Rightarrow> None | Inr p \<Rightarrow> Some p))"

lemma root_mux_caller:
  "root_mux lib c rq w =
     (case public_route lib rq of
        Some found \<Rightarrow> (found, w)
      | None \<Rightarrow>
          (case caller lib rq of
             None \<Rightarrow> ((writeUnauthenticated, ''/''), w)
           | Some p \<Rightarrow> protected_mux lib c rq p w))"
  by (auto simp: root_mux_def requireAuthentication_def caller_def split: option.splits prod.splits sum.splits)

text \<open>The part of a response behind the header of the correlation identifier.\<close>

definition inner :: "string \<Rightarrow> response \<Rightarrow> response \<Rightarrow> bool" where
  "inner c rs0 rs \<longleftrightarrow> rs = rs0\<lparr>rs_Headers := (CorrelationHeader, c) # rs_Headers rs0\<rparr>"

definition correlation_of :: "request \<Rightarrow> world \<Rightarrow> string" where
  "correlation_of rq w =
     (if isValidCorrelationID (rq_CorrelationID rq) then rq_CorrelationID rq
      else env_uuid_String (env w) (env_NewID (env w) (identifiers w)))"

lemma withRequestObservation_run:
  assumes "withRequestObservation rq h w = (rs, w')"
  obtains w0 pattern w1 where "idle w w0" and "h w0 = ((rs, pattern), w1)" and "idle w1 w'"
    and "take (length healthPathPrefix) (rq_Path rq) \<noteq> healthPathPrefix \<Longrightarrow> rq_Path rq \<noteq> metricsPath \<Longrightarrow>
      \<exists>elapsed. metrics w' = metrics w1 @ [RequestHandled (rq_Method rq) pattern (rs_Status rs) elapsed]"
proof (cases "take (length healthPathPrefix) (rq_Path rq) = healthPathPrefix \<or> rq_Path rq = metricsPath")
  case True
  with assms that [of w] show thesis
    by (auto simp: withRequestObservation_def split: prod.splits)
next
  case False
  obtain q pattern w1 where h: "h (snd (clock_now w)) = ((q, pattern), w1)" by (metis prod.exhaust)
  from False assms h have "q = rs"
    and w': "w' = snd (record_metric (RequestHandled (rq_Method rq) pattern (rs_Status rs)
      (time_Sub (env_clock (env w1) (instants w1)) (env_clock (env w) (instants w)))) (snd (clock_now w1)))"
    by (auto simp: withRequestObservation_def Let_def)
  with h show thesis
    by (intro that [of "snd (clock_now w)" pattern w1]) (auto simp: clock_now_def record_metric_def idle_def)
qed

lemma NewHandler_run:
  assumes "NewHandler lib rq w = (rs, w')"
  obtains w0 rs0 pattern w1 where "idle w w0" and "root_mux lib (correlation_of rq w) rq w0 = ((rs0, pattern), w1)"
    and "idle w1 w'" and "inner (correlation_of rq w) rs0 rs"
    and "take (length healthPathPrefix) (rq_Path rq) \<noteq> healthPathPrefix \<Longrightarrow> rq_Path rq \<noteq> metricsPath \<Longrightarrow>
      \<exists>elapsed. metrics w' = metrics w1 @ [RequestHandled (rq_Method rq) pattern (rs_Status rs) elapsed]"
proof -
  define v where "v = (if isValidCorrelationID (rq_CorrelationID rq) then w else snd (NewID w))"
  have v: "idle w v" by (simp add: v_def NewID_def)
  obtain rs0 v' where run: "withRequestObservation rq (root_mux lib (correlation_of rq w) rq) v = (rs0, v')"
    by fastforce
  with assms have rs: "inner (correlation_of rq w) rs0 rs" and "v' = w'"
    by (simp_all add: NewHandler_def withCorrelationID_def Let_def v_def correlation_of_def uuid_text_def inner_def
        split: if_splits)
  moreover have "rs_Status rs = rs_Status rs0" using rs by (simp add: inner_def)
  ultimately show thesis
    by (cases rule: withRequestObservation_run [OF run]) (rule that [OF idle_trans [OF v]]; simp)
qed

section \<open>Requests as steps\<close>

lemma reachable_idle: "reachable w \<Longrightarrow> idle w w' \<Longrightarrow> reachable w'"
  using reach_step step_idle by blast

lemma wager_input_steps:
  assumes "ProcessWager_Execute (wager_input req provider key c playerID walletID kind amount) w = (r, w')"
    and "Parse units code = Inr amount"
  shows "steps w w'"
  using steps_one [OF step_process [OF assms(1)]] Parse_Inr [OF assms(2)] by (simp add: wager_input_def)

lemma handleProcessWager_steps: "serving (\<lambda>w rs w'. steps w w') (handleProcessWager lib c rq p)"
  unfolding handleProcessWager_def Let_def
  by (intro serving_rules steps_refl) (auto intro: wager_input_steps)

lemma handleOpenWallet_steps: "serving (\<lambda>w rs w'. steps w w') (handleOpenWallet lib c rq p)"
  unfolding handleOpenWallet_def
  by (intro serving_rules steps_refl) (auto intro: steps_one step_open)

text \<open>What an endpoint may do to the database on behalf of a caller.\<close>

definition authorised :: "request \<Rightarrow> Principal \<Rightarrow> string \<Rightarrow> world \<Rightarrow> world \<Rightarrow> bool" where
  "authorised rq p c w w' \<longleftrightarrow>
     committed w' = committed w \<or>
     HasRole p RoleGameProvider \<and>
       (\<exists>input a. asked rq p c input \<and> executed (env w) (committed w) input a (committed w')) \<or>
     HasRole p RoleWalletOperator \<and> (\<exists>x at. opened (committed w) x c at (committed w'))"

text \<open>Only the two that create something may change it.\<close>

definition creates :: "endpoint \<Rightarrow> bool" where
  "creates e \<longleftrightarrow> e = OpenWalletEndpoint \<or> e = ProcessWagerEndpoint"

abbreviation endpoint_effect :: "request \<Rightarrow> endpoint \<Rightarrow> Principal \<Rightarrow> string \<Rightarrow> world \<Rightarrow> world \<Rightarrow> bool" where
  "endpoint_effect rq e p c w w' \<equiv>
     steps w w' \<and> authorised rq p c w w' \<and> (creates e \<or> committed w' = committed w)"

lemma wager_answered_authorised:
  "wager_answered rq p c w rs w' \<Longrightarrow> HasRole p RoleGameProvider \<Longrightarrow> authorised rq p c w w'"
  by (auto simp: wager_answered_def authorised_def split: body.splits)

lemma wallet_answered_authorised:
  "wallet_answered c w rs w' \<Longrightarrow> HasRole p RoleWalletOperator \<Longrightarrow> authorised rq p c w w'"
  by (auto simp: wallet_answered_def authorised_def split: body.splits)

lemma run_endpoint_effect:
  assumes run: "run_endpoint lib c rq e p w = (rs, w')" and w: "reachable w"
  shows "endpoint_effect rq e p c w w'"
proof -
  have refused: ?thesis if "w' = w" using that by (simp add: authorised_def)
  have read: ?thesis if "serving quiet h" "h w = (rs, w')" for h
  proof -
    have "idle w w'" using servingD [OF that] reachable_inv [OF w] by simp
    then show ?thesis using steps_one [OF step_idle [OF \<open>idle w w'\<close>]] by (simp add: authorised_def idle_def)
  qed
  note reads = reading_handlers [THEN read]
  show ?thesis
  proof (cases e)
    case OpenWalletEndpoint
    show ?thesis
    proof (cases "HasRole p RoleWalletOperator")
      case True
      with run OpenWalletEndpoint have h: "handleOpenWallet lib c rq p w = (rs, w')"
        by (simp add: run_endpoint_def requireRole_def)
      from servingD [OF handleOpenWallet_steps h] servingD [OF handleOpenWallet_answered h] w True OpenWalletEndpoint
      show ?thesis by (simp add: wallet_answered_authorised creates_def)
    qed (use run OpenWalletEndpoint refused in \<open>auto simp: run_endpoint_def requireRole_def\<close>)
  next
    case ProcessWagerEndpoint
    show ?thesis
    proof (cases "HasRole p RoleGameProvider")
      case True
      with run ProcessWagerEndpoint have h: "handleProcessWager lib c rq p w = (rs, w')"
        by (simp add: run_endpoint_def requireRole_def)
      from servingD [OF handleProcessWager_steps h] servingD [OF handleProcessWager_answered h] w True ProcessWagerEndpoint
      show ?thesis by (simp add: wager_answered_authorised creates_def)
    qed (use run ProcessWagerEndpoint refused in \<open>auto simp: run_endpoint_def requireRole_def\<close>)
  qed (use run refused reads in \<open>auto simp: run_endpoint_def requireRole_def split: if_splits\<close>)
qed

lemma pattern_methods:
  assumes "(m, pattern, e) \<in> set (wallet_patterns ss @ wagering_patterns ss)" and "creates e"
  shows "m = ''POST''"
proof -
  have "list_all (\<lambda>(m, _, e). creates e \<longrightarrow> m = ''POST'') (wallet_patterns ss)"
    and "list_all (\<lambda>(m, _, e). creates e \<longrightarrow> m = ''POST'') (wagering_patterns ss)"
    unfolding wallet_patterns_def wagering_patterns_def by (simp_all add: creates_def split: list.split)
  with assms show ?thesis by (fastforce simp: list_all_iff)
qed

lemma protected_mux_cases:
  assumes "protected_mux lib c rq p w = ((rs, pattern), w')"
  obtains (matched) m e where "(m, pattern, e) \<in> set (wallet_patterns (rq_Segments rq) @ wagering_patterns (rq_Segments rq))"
      and "method_matches m (rq_Method rq)" and "run_endpoint lib c rq e p w = (rs, w')"
  | (unmatched) "w' = w" and "pattern = ''''" and "rs_Status rs \<in> {404, 405}"
proof (cases "List.find (\<lambda>(registered, _). method_matches registered (rq_Method rq))
    (wallet_patterns (rq_Segments rq) @ wagering_patterns (rq_Segments rq))")
  case None
  with assms unmatched show thesis by (auto simp: protected_mux_def Let_def router_response_def split: if_splits)
next
  case (Some found)
  obtain m q e where f: "found = (m, q, e)" by (metis prod.exhaust)
  with assms Some have "run_endpoint lib c rq e p w = (rs, w')" "q = pattern"
    by (auto simp: protected_mux_def Let_def split: prod.splits)
  with find_SomeD [OF Some] f matched show thesis by auto
qed

text \<open>Every request: the steps it took, on whose behalf it changed something, and by which method.\<close>

lemma request_effect:
  assumes run: "NewHandler lib rq w = (rs, w')" and w: "reachable w"
  shows "steps w w' \<and>
    (committed w' = committed w \<or>
     (\<exists>p. caller lib rq = Some p \<and> authorised rq p (correlation_of rq w) w w' \<and> rq_Method rq = ''POST''))"
proof -
  obtain w0 rs0 pattern w1 where w0: "idle w w0" and w1: "idle w1 w'"
    and mux: "root_mux lib (correlation_of rq w) rq w0 = ((rs0, pattern), w1)"
    by (cases rule: NewHandler_run [OF run]) blast
  have r0: "reachable w0" by (rule reachable_idle [OF w w0])
  have around: "steps w w'" if "steps w0 w1"
    using steps_trans [OF steps_one [OF step_idle [OF w1]] steps_trans [OF that steps_one [OF step_idle [OF w0]]]] .
  have db: "committed w0 = committed w" "env w0 = env w" "committed w' = committed w1"
    using w0 w1 by (simp_all add: idle_def)
  show ?thesis
  proof (cases "public_route lib rq = None \<and> caller lib rq \<noteq> None")
    case False
    then have "w1 = w0" using mux by (auto simp: root_mux_caller split: option.splits)
    with around db show ?thesis by simp
  next
    case True
    then obtain p where p: "caller lib rq = Some p" by blast
    with mux True have "protected_mux lib (correlation_of rq w) rq p w0 = ((rs0, pattern), w1)"
      by (simp add: root_mux_caller)
    then show ?thesis
    proof (cases rule: protected_mux_cases)
      case (matched m e)
      note eff = run_endpoint_effect [OF matched(3) r0]
      have "authorised rq p (correlation_of rq w) w w'" using eff db by (simp add: authorised_def)
      moreover have "rq_Method rq = ''POST''" if "creates e"
        using pattern_methods [OF matched(1) that] matched(2) by (simp add: method_matches_def)
      ultimately show ?thesis using eff around db p by auto
    qed (use around db in simp)
  qed
qed

section \<open>Answers\<close>

lemma wager_answered_around:
  assumes "wager_answered rq p c w0 rs0 w1" and "idle w w0" and "idle w1 w'" and "inner i rs0 rs"
  shows "wager_answered rq p c w rs w'"
  using assms by (auto simp: wager_answered_def idle_def inner_def split: body.splits)

definition is_wager_request :: "request \<Rightarrow> bool" where
  "is_wager_request rq \<longleftrightarrow> rq_Method rq = ''POST'' \<and> rq_Segments rq = [''wagering'', ''transactions'']"

lemma wager_request_mux:
  assumes "is_wager_request rq"
  shows "public_route lib rq = None"
    and "protected_mux lib c rq p w =
      (case run_endpoint lib c rq ProcessWagerEndpoint p w of
         (rs, w') \<Rightarrow> ((rs, ''POST /wagering/transactions''), w'))"
  using assms
  by (simp_all add: is_wager_request_def public_route_def method_matches_def protected_mux_def
      wallet_patterns_def wagering_patterns_def)

lemma wager_request_cases:
  assumes rq: "is_wager_request rq" and run: "NewHandler lib rq w = (rs, w')" and w: "reachable w"
  shows "case caller lib rq of
      None \<Rightarrow> rs_Status rs = 401 \<and> committed w' = committed w
    | Some p \<Rightarrow>
        if HasRole p RoleGameProvider then wager_answered rq p (correlation_of rq w) w rs w'
        else rs_Status rs = 403 \<and> committed w' = committed w"
proof -
  obtain w0 rs0 pattern w1 where w0: "idle w w0" and w1: "idle w1 w'" and rs: "inner (correlation_of rq w) rs0 rs"
    and mux: "root_mux lib (correlation_of rq w) rq w0 = ((rs0, pattern), w1)"
    by (cases rule: NewHandler_run [OF run]) blast
  have db: "committed w0 = committed w" "committed w' = committed w1"
    using w0 w1 by (simp_all add: idle_def)
  show ?thesis
  proof (cases "caller lib rq")
    case None
    with mux wager_request_mux [OF rq] rs db show ?thesis by (auto simp: root_mux_caller inner_def)
  next
    case (Some p)
    with mux wager_request_mux [OF rq] have h: "run_endpoint lib (correlation_of rq w) rq ProcessWagerEndpoint p w0 = (rs0, w1)"
      by (auto simp: root_mux_caller split: prod.splits)
    show ?thesis
    proof (cases "HasRole p RoleGameProvider")
      case True
      with h have "handleProcessWager lib (correlation_of rq w) rq p w0 = (rs0, w1)"
        by (simp add: run_endpoint_def requireRole_def)
      from servingD [OF handleProcessWager_answered this] reachable_idle [OF w w0]
      have "wager_answered rq p (correlation_of rq w) w0 rs0 w1" by simp
      from wager_answered_around [OF this w0 w1 rs] Some True show ?thesis by simp
    next
      case False
      with h rs db Some show ?thesis by (auto simp: run_endpoint_def requireRole_def inner_def)
    qed
  qed
qed

section \<open>Correlation\<close>

lemma executed_correlation:
  assumes "executed E d input a d'" and "constructed (in_Money input)" and "books d"
    and "r \<in> set (outbox d')" and "r \<notin> set (outbox d)"
  shows "ev_CorrelationID (or_Payload r) = in_CorrelationID input"
  using executed_effect [OF assms(1-3)] assms(4,5)
  by (auto simp: outcome_events_def Let_def split: if_splits)

lemma opened_correlation:
  assumes "opened d x c at d'" and "r \<in> set (outbox d')" and "r \<notin> set (outbox d)"
  shows "ev_CorrelationID (or_Payload r) = c"
proof -
  obtain t e es os where ev: "events_of t x (Some e) c at es" "list_all2 event_row es os"
    and r: "r \<in> set os"
    using assms by (auto simp: opened_def split: if_splits)
  obtain u v where es: "es = [u, v]" using ev(1) by (auto simp: events_of_def length_Suc_conv numeral_2_eq_2)
  have "ev_CorrelationID u = c" using ev(1) by (auto simp: events_of_def es dest!: new_event_facts(1-3) split: if_splits)
  moreover have "ev_CorrelationID v = c" using ev(1) by (auto simp: events_of_def es dest!: new_event_facts(4))
  ultimately show ?thesis using ev(2) r by (auto simp: es list_all2_Cons1 dest!: event_row_sel)
qed

lemma authorised_correlation:
  assumes "authorised rq p c w w'" and "books (committed w)"
    and "r \<in> set (outbox (committed w'))" and "r \<notin> set (outbox (committed w))"
  shows "ev_CorrelationID (or_Payload r) = c"
proof -
  have "\<not> committed w' = committed w" using assms(3,4) by auto
  with assms(1) consider
    input a where "asked rq p c input" "executed (env w) (committed w) input a (committed w')"
  | x at where "opened (committed w) x c at (committed w')"
    unfolding authorised_def by blast
  then show ?thesis
  proof cases
    case 1
    then show ?thesis using executed_correlation [OF 1(2) _ assms(2-4)] by (simp add: asked_def)
  next
    case 2
    then show ?thesis using opened_correlation assms(3,4) by blast
  qed
qed

section \<open>Routes and cursors\<close>

definition known_patterns :: "string list" where
  "known_patterns = ['''', ''/'', ''GET /health/live'', ''GET /health/ready'', ''GET /openapi.yaml'', ''GET /docs'',
     ''GET /metrics'', ''POST /wallets'', ''GET /wallets/{walletId}'', ''GET /wallets/{walletId}/ledger'',
     ''POST /wallets/{walletId}/reconciliation'', ''POST /wagering/transactions'',
     ''GET /wagering/transactions/{transactionId}'',
     ''GET /providers/{providerId}/wagering/transactions/{externalTransactionId}'']"

lemma patterns_known:
  "(m, pattern, e) \<in> set (wallet_patterns ss @ wagering_patterns ss) \<Longrightarrow> pattern \<in> set known_patterns"
proof -
  have "list_all (\<lambda>(_, pattern, _). pattern \<in> set known_patterns) (wallet_patterns ss)"
    and "list_all (\<lambda>(_, pattern, _). pattern \<in> set known_patterns) (wagering_patterns ss)"
    unfolding wallet_patterns_def wagering_patterns_def by (simp_all add: known_patterns_def split: list.split)
  then show "(m, pattern, e) \<in> set (wallet_patterns ss @ wagering_patterns ss) \<Longrightarrow> pattern \<in> set known_patterns"
    by (fastforce simp: list_all_iff)
qed

lemma public_route_known: "public_route lib rq = Some (rs, pattern) \<Longrightarrow> pattern \<in> set known_patterns"
  by (auto simp: public_route_def known_patterns_def split: if_splits)

lemma root_mux_known:
  assumes "root_mux lib c rq w = ((rs, pattern), w')"
  shows "pattern \<in> set known_patterns"
proof (cases "public_route lib rq")
  case (Some found)
  with assms show ?thesis using public_route_known [of lib rq rs pattern] by (simp add: root_mux_caller)
next
  case None
  show ?thesis
  proof (cases "caller lib rq")
    case (Some p)
    with None assms have "protected_mux lib c rq p w = ((rs, pattern), w')" by (simp add: root_mux_caller)
    then show ?thesis
    proof (cases rule: protected_mux_cases)
      case (matched m e)
      from matched(1) show ?thesis by (rule patterns_known)
    qed (simp add: known_patterns_def)
  qed (use None assms in \<open>simp add: root_mux_caller known_patterns_def\<close>)
qed

text \<open>What the encoding of a cursor relies on in the two texts it joins.\<close>

definition texts_read_back :: "library \<Rightarrow> (ID \<Rightarrow> string) \<Rightarrow> LedgerCursor \<Rightarrow> bool" where
  "texts_read_back lib uuid_String cursor \<longleftrightarrow>
     lib_time_Parse lib (lib_time_Format lib (fst cursor)) = Some (fst cursor) \<and>
     CHR ''|'' \<notin> set (lib_time_Format lib (fst cursor)) \<and>
     lib_uuid_Parse lib (uuid_String (snd cursor)) = Some (snd cursor) \<and> snd cursor \<noteq> NilID"

lemma cursor_reads_back:
  assumes "texts_read_back lib uuid_String cursor"
  shows "decodeLedgerCursor lib (encodeLedgerCursor lib uuid_String cursor) = Inr (Some cursor)"
  using assms base64_roundtrip base64_nonempty
  by (cases cursor)
    (simp add: decodeLedgerCursor_def encodeLedgerCursor_def texts_read_back_def strings_Cut_append ParseID_def)

end
