(* ===== verification/Failures.thy ===== *)
theory Failures
  imports Serving
begin

text \<open>
  The errors of the program by their class: every domain error is a validation, a rejection, a
  conflict or something not found and carries one of the codes of \<open>domain/errors.go\<close>, whatever it
  is wrapped in, so that the server always finds a status for it. The predicate is carried through
  the sequencing of results and of actions, from the constructors of the domain to the use cases.
\<close>

section \<open>Classified errors\<close>

named_theorems sound_rules "results and actions whose errors are classified"

definition failure_codes :: "failure_code list" where
  "failure_codes =
     [FailureCodeInvalidInput, FailureCodeInvalidAmount, FailureCodeAmountOverflow, FailureCodeCurrencyMismatch,
      FailureCodeInsufficientFunds, FailureCodeInsufficientFundsForReversal, FailureCodeReferenceNotFound,
      FailureCodeReferenceNotProcessed, FailureCodeReferenceMismatch, FailureCodeReferenceAmountMismatch,
      FailureCodeReferenceAlreadyReversed, FailureCodeInvalidStateTransition, FailureCodeKindNotAllowed,
      FailureCodeIdempotencyConflict, FailureCodeWalletAlreadyExists, FailureCodeWalletNotFound,
      FailureCodeWalletPlayerMismatch, FailureCodeTransactionNotFound]"

fun classified :: "err \<Rightarrow> bool" where
  "classified (DomainError class cause code) =
     (class \<in> {ErrValidation, ErrRejected, ErrConflict, ErrNotFound} \<and> code \<in> set failure_codes)"
| "classified (Wrapped es) = (\<forall>e \<in> set es. classified e)"
| "classified _ = True"

lemma classified_domain [simp]:
  "classified (ValidationError c) = (c \<in> set failure_codes)"
  "classified (RejectionError c) = (c \<in> set failure_codes)"
  "classified (RejectionErrorWithCause e c) = (c \<in> set failure_codes)"
  "classified (ConflictError c) = (c \<in> set failure_codes)"
  "classified (NotFoundError c) = (c \<in> set failure_codes)"
  by (simp_all add: ValidationError_def RejectionError_def RejectionErrorWithCause_def ConflictError_def NotFoundError_def)

lemma known_codes [simp]:
  "FailureCodeInvalidInput \<in> set failure_codes" "FailureCodeInvalidAmount \<in> set failure_codes"
  "FailureCodeAmountOverflow \<in> set failure_codes" "FailureCodeCurrencyMismatch \<in> set failure_codes"
  "FailureCodeInsufficientFunds \<in> set failure_codes" "FailureCodeInsufficientFundsForReversal \<in> set failure_codes"
  "FailureCodeReferenceNotFound \<in> set failure_codes" "FailureCodeReferenceNotProcessed \<in> set failure_codes"
  "FailureCodeReferenceMismatch \<in> set failure_codes" "FailureCodeReferenceAmountMismatch \<in> set failure_codes"
  "FailureCodeReferenceAlreadyReversed \<in> set failure_codes" "FailureCodeInvalidStateTransition \<in> set failure_codes"
  "FailureCodeKindNotAllowed \<in> set failure_codes" "FailureCodeIdempotencyConflict \<in> set failure_codes"
  "FailureCodeWalletAlreadyExists \<in> set failure_codes" "FailureCodeWalletNotFound \<in> set failure_codes"
  "FailureCodeWalletPlayerMismatch \<in> set failure_codes" "FailureCodeTransactionNotFound \<in> set failure_codes"
  by (simp_all add: failure_codes_def)

lemma classified_status: "classified e \<Longrightarrow> CodeOf e = Some c \<Longrightarrow>
    c \<in> set failure_codes \<and> (\<exists>s \<in> {ErrValidation, ErrRejected, ErrConflict, ErrNotFound}. errors_Is e (Sentinel s))"
  by (induction e rule: CodeOf.induct) (auto split: option.splits)

lemma classified_driver [simp]: "classified (driver_err d)" "classified (fault_err f)"
  by (cases d; simp) (cases f rule: fault_err.cases; simp; cases "case f of Lost d \<Rightarrow> d | AnswerLost d \<Rightarrow> d"; simp)

lemma classified_translate [simp]: "classified e \<Longrightarrow> classified (translate e)"
  by (simp add: translate_def)

section \<open>Results\<close>

definition good :: "('a \<Rightarrow> bool) \<Rightarrow> err + 'a \<Rightarrow> bool" where
  "good Q r = (case r of Inl e \<Rightarrow> classified e | Inr a \<Rightarrow> Q a)"

abbreviation sound :: "err + 'a \<Rightarrow> bool" where
  "sound r \<equiv> good (\<lambda>_. True) r"

lemma good_simps [simp]: "good Q (Inl e) = classified e" "good Q (Inr a) = Q a"
  by (simp_all add: good_def)

lemma sound_iff: "sound r \<longleftrightarrow> (\<forall>e. r = Inl e \<longrightarrow> classified e)"
  by (cases r) simp_all

lemma good_and_then: "good Q r \<Longrightarrow> (\<And>a. Q a \<Longrightarrow> good R (f a)) \<Longrightarrow> good R (and_then r f)"
  by (cases r) simp_all

lemma sound_and_then [sound_rules]: "sound r \<Longrightarrow> (\<And>a. good R (f a)) \<Longrightarrow> good R (and_then r f)"
  by (rule good_and_then)

lemma good_cases [sound_rules]:
  "(b \<Longrightarrow> good Q x) \<Longrightarrow> (\<not> b \<Longrightarrow> good Q y) \<Longrightarrow> good Q (if b then x else y)"
  "(o' = None \<Longrightarrow> good Q x) \<Longrightarrow> (\<And>a. o' = Some a \<Longrightarrow> good Q (g a)) \<Longrightarrow>
     good Q (case o' of None \<Rightarrow> x | Some a \<Rightarrow> g a)"
  "(\<And>a b. good Q (h a b)) \<Longrightarrow> good Q (case p of (a, b) \<Rightarrow> h a b)"
  "sound r \<Longrightarrow> (\<And>e. classified e \<Longrightarrow> good Q (i e)) \<Longrightarrow> (\<And>b. good Q (j b)) \<Longrightarrow>
     good Q (case r of Inl e \<Rightarrow> i e | Inr b \<Rightarrow> j b)"
  by (simp_all split: option.split prod.split sum.split add: sound_iff)

lemma good_leaf [sound_rules]: "classified e \<Longrightarrow> good Q (Inl e)" "Q a \<Longrightarrow> good Q (Inr a)"
  by simp_all

section \<open>The domain\<close>

lemma sound_domain [sound_rules]:
  "sound (ParseID p s)" "sound (RequireID i)" "sound (RequireTime t)"
  unfolding ParseID_def RequireID_def RequireTime_def by (intro sound_rules; simp)+

lemma sound_money [sound_rules]:
  "sound (NewCurrency s)" "sound (money_Validate m)" "sound (money_New u c)" "sound (money_Zero c)"
  unfolding NewCurrency_def money_Validate_def money_New_def money_Zero_def by (intro sound_rules; simp)+

lemma sound_parse_digits [sound_rules]: "sound (parse_digits s acc)"
  by (induction s acc rule: parse_digits.induct) (simp_all add: Let_def)

lemma sound_parsing [sound_rules]: "sound (Parse s c)"
  unfolding Parse_def money_parse_def parseMinorUnits_def split_fraction_def Let_def
  by (intro sound_rules; simp)

lemma sound_arithmetic [sound_rules]:
  "sound (money_Add m n)" "sound (money_Sub m n)" "sound (money_Cmp m n)"
  unfolding money_Add_def money_Sub_def money_Cmp_def requireSameCurrency_def by (intro sound_rules; simp)+

lemma sound_direction [sound_rules]: "sound (direction_Apply d a b)"
  unfolding direction_Apply_def by (intro sound_rules)

lemma sound_ledger [sound_rules]: "sound (NewEntry i w t d a b c at)"
  unfolding NewEntry_def entry_requireSameCurrency_def by (intro sound_rules; simp)

lemma sound_wager [sound_rules]:
  "sound (ParseExternalKind s)" "sound (NewExternal p)" "sound (NewOpening i w q m at)" "sound (wager_Rehydrate q')"
  unfolding ParseExternalKind_def NewExternal_def NewOpening_def wager_Rehydrate_def validateKindAmount_def
    validateKindReference_def Let_def
  by (intro sound_rules; simp)+

lemma sound_transitions [sound_rules]:
  "sound (MarkPendingReference t at)" "sound (MarkProcessed t m at)" "sound (MarkRejected t c at)"
  "sound (ResolveReference t q)"
  unfolding MarkPendingReference_def MarkProcessed_def MarkRejected_def ResolveReference_def transitionTo_def
  by (intro sound_rules; simp)+

lemma sound_wallet_move [sound_rules]:
  "sound (wallet_Rehydrate i p b v c u)" "sound (wallet_Open i p m at)" "sound (wallet_move w m i d at j)"
  "sound (OpeningLedgerEntry w i at j)"
  unfolding wallet_Rehydrate_def wallet_Open_def wallet_move_def OpeningLedgerEntry_def
  by (intro sound_rules; simp)+

lemma sound_wallet [sound_rules]: "sound (wallet_Apply w t q at i)"
  unfolding wallet_Apply_def wallet_Debit_def wallet_Credit_def moved_def by (intro sound_rules; simp)

lemma sound_events [sound_rules]:
  "sound (NewWagerTransactionProcessed i t c at)" "sound (NewWagerTransactionRejected i t c at)"
  "sound (NewWagerTransactionPendingReference i t c at)" "sound (NewWalletBalanceChanged i w e c at)"
  unfolding NewWagerTransactionProcessed_def NewWagerTransactionRejected_def NewWagerTransactionPendingReference_def
    NewWalletBalanceChanged_def requireTransaction_def requireEnvelope_def
  by (intro sound_rules; simp)+

lemma sound_conclude: "(\<And>e. outcome = Some e \<Longrightarrow> classified e) \<Longrightarrow> sound (conclude t w outcome at)"
  unfolding conclude_def by (intro sound_rules; simp)

section \<open>Rows and statements\<close>

lemma sound_map_results: "(\<And>x. sound (f x)) \<Longrightarrow> sound (map_results f xs)"
  by (induction xs) (auto intro!: sound_rules)

lemma sound_rows [sound_rules]:
  "sound (rehydrateWallet r)" "sound (rehydrate_row q)" "sound (entry_of_row l)"
  unfolding rehydrateWallet_def rehydrate_row_def entry_of_row_def by (intro sound_rules; simp)+

lemma sound_encoding [sound_rules]:
  "sound (event_Marshal e)" "sound (PayloadHash E input)" "sound (body_Marshal b)"
proof -
  have field: "sound (field_MarshalJSON f)" for f
    by (cases f) (auto simp: money_MarshalJSON_def time_MarshalJSON_def intro!: sound_rules)
  show "sound (event_Marshal e)"
    unfolding event_Marshal_def time_MarshalJSON_def money_MarshalJSON_def
    by (intro sound_rules sound_map_results; simp)
  show "sound (PayloadHash E input)" unfolding PayloadHash_def by (intro sound_rules; simp)
  show "sound (body_Marshal b)"
    unfolding body_Marshal_def by (intro sound_rules sound_map_results field; simp)
qed

lemma sound_admit [sound_rules]: "sound (admit checks uniques foreign rs r)"
  unfolding admit_def by (intro sound_rules; simp add: check_violation_def unique_violation_def foreign_key_violation_def)

lemma sound_changes [sound_rules]:
  "sound (insert_row checks uniques foreign r rs)" "sound (update_row checks uniques foreign P f rs)"
  unfolding insert_row_def update_row_def by (intro sound_rules; simp)+

lemma sound_read_db [sound_rules]: "sound (read_db f s d)"
  by (simp add: read_db_def)

lemma sound_statements [sound_rules]:
  "sound (InsertWallet a1 s d)" "sound (SelectWallet i s d)" "sound (SelectWalletForUpdate i s d)"
  "sound (UpdateWalletBalance a2 s d)" "sound (SelectWalletReconciliation i s d)"
  "sound (InsertWagerTransaction a3 s d)" "sound (SelectWagerTransactionByIdempotencyKey p k s d)"
  "sound (SelectWagerTransactionByExternalID p k s d)" "sound (SelectWagerTransactionByID i s d)"
  "sound (ExistsProcessedReversal i s d)" "sound (InsertLedgerEntry a4 s d)" "sound (SelectLedgerPage i c n s d)"
  "sound (InsertOutboxEvent a5 s d)"
  unfolding InsertWallet_def SelectWallet_def SelectWalletForUpdate_def UpdateWalletBalance_def
    SelectWalletReconciliation_def InsertWagerTransaction_def SelectWagerTransactionByIdempotencyKey_def
    SelectWagerTransactionByExternalID_def SelectWagerTransactionByID_def ExistsProcessedReversal_def
    InsertLedgerEntry_def SelectLedgerPage_def InsertOutboxEvent_def Let_def
  by (intro sound_rules; simp)+

section \<open>Actions\<close>

definition yields :: "('a \<Rightarrow> bool) \<Rightarrow> 'a action \<Rightarrow> bool" where
  "yields Q m = (\<forall>w. good Q (fst (m w)))"

abbreviation yields_sound :: "'a action \<Rightarrow> bool" where
  "yields_sound m \<equiv> yields (\<lambda>_. True) m"

lemma yields_attempt:
  "yields Q m \<Longrightarrow> (\<And>r. good Q r \<Longrightarrow> yields R (f r)) \<Longrightarrow> yields R (attempt m f)"
  by (auto simp: yields_def attempt_def split: prod.splits) (metis fst_conv)

lemma attempt_sound [sound_rules]:
  "yields_sound m \<Longrightarrow> (\<And>r. sound r \<Longrightarrow> yields R (f r)) \<Longrightarrow> yields R (attempt m f)"
  by (rule yields_attempt)

lemma yields_leaf [sound_rules]:
  "Q a \<Longrightarrow> yields Q (return_ok a)" "classified e \<Longrightarrow> yields Q (raise_err e)"
  "good Q r \<Longrightarrow> yields Q (of_result r)" "(\<And>w. good Q (g w)) \<Longrightarrow> yields Q (\<lambda>w. (g w, w))"
  by (simp_all add: yields_def return_ok_def raise_err_def of_result_def)

lemma yields_cases [sound_rules]:
  "(b \<Longrightarrow> yields Q x) \<Longrightarrow> (\<not> b \<Longrightarrow> yields Q y) \<Longrightarrow> yields Q (if b then x else y)"
  "(o' = None \<Longrightarrow> yields Q x) \<Longrightarrow> (\<And>a. o' = Some a \<Longrightarrow> yields Q (g a)) \<Longrightarrow>
     yields Q (case o' of None \<Rightarrow> x | Some a \<Rightarrow> g a)"
  "(\<And>a b. p = (a, b) \<Longrightarrow> yields Q (h a b)) \<Longrightarrow> yields Q (case p of (a, b) \<Rightarrow> h a b)"
  "(\<And>e. r = Inl e \<Longrightarrow> yields Q (i e)) \<Longrightarrow> (\<And>c. r = Inr c \<Longrightarrow> yields Q (j c)) \<Longrightarrow>
     yields Q (case r of Inl e \<Rightarrow> i e | Inr c \<Rightarrow> j c)"
  by (simp_all split: option.split prod.split sum.split)

lemma yields_bind:
  "yields Q m \<Longrightarrow> (\<And>a. Q a \<Longrightarrow> yields R (f a)) \<Longrightarrow> yields R (bind_action m f)"
  unfolding bind_action_def by (rule yields_attempt) (auto intro: yields_leaf split: sum.splits)

lemma bind_sound [sound_rules]: "yields_sound m \<Longrightarrow> (\<And>a. yields R (f a)) \<Longrightarrow> yields R (bind_action m f)"
  by (rule yields_bind)

lemma yields_basic [sound_rules]:
  "yields_sound clock_now" "yields_sound NewID" "yields_sound (record_metric m)" "yields_sound queries"
  "yields_sound draw_sequence"
  by (auto simp: yields_def clock_now_def NewID_def record_metric_def queries_def draw_sequence_def split: option.splits)

lemma yields_statement [sound_rules]: "(\<And>s d. sound (f s d)) \<Longrightarrow> yields_sound (statement f)"
  by (auto simp: yields_def statement_def sound_iff split: option.splits sum.splits prod.splits)

lemma yields_query_row [sound_rules]: "(\<And>s d. sound (f s d)) \<Longrightarrow> yields_sound (query_row f)"
  unfolding query_row_def by (intro sound_rules; simp)

lemma yields_translated: "yields Q m \<Longrightarrow> yields Q (translated m)"
  unfolding translated_def by (erule yields_attempt) (auto intro: yields_leaf split: sum.splits)

lemma translated_sound [sound_rules]: "yields_sound m \<Longrightarrow> yields_sound (translated m)"
  by (rule yields_translated)

lemma yields_transaction [sound_rules]:
  assumes "yields_sound m"
  shows "yields_sound (WithinTransaction m)"
proof -
  have b: "yields_sound (translated begin_transaction)" "yields_sound (translated commit_transaction)"
    by (intro yields_translated;
        auto simp: yields_def begin_transaction_def commit_transaction_def split: option.splits fault.splits)+
  show ?thesis
    using assms b unfolding yields_def WithinTransaction_def
    by (auto split: prod.splits sum.splits simp: sound_iff) (metis fst_conv)+
qed

section \<open>Repositories\<close>

lemma yields_wallets [sound_rules]:
  "yields_sound (WalletRepository_Create w)" "yields_sound (WalletRepository_Find i)"
  "yields_sound (GetForUpdate i)" "yields_sound (WalletRepository_Reconcile i)" "yields_sound (UpdateBalance w v)"
  unfolding WalletRepository_Create_def WalletRepository_Find_def GetForUpdate_def found_wallet_def
    WalletRepository_Reconcile_def UpdateBalance_def
  by (intro sound_rules; simp)+

lemma yields_transactions [sound_rules]:
  "yields_sound (TransactionRepository_Create t)" "yields_sound (HasProcessedReversal i)"
  "yields_sound (FindByIdempotencyKey p k)" "yields_sound (FindByExternalID p k)" "yields_sound (FindByID i)"
  unfolding TransactionRepository_Create_def HasProcessedReversal_def FindByIdempotencyKey_def FindByExternalID_def
    FindByID_def rehydrateTransaction_def
  by (intro sound_rules; simp)+

lemma yields_append_events: "yields_sound (append_events es)"
proof (induction es)
  case (Cons e es)
  have "yields_sound (append_event e)"
    using sound_encoding(1) [of e] unfolding append_event_def by (intro sound_rules) (auto simp: sound_iff)
  with Cons show ?case by (auto intro: sound_rules)
qed (simp add: yields_leaf)

lemma yields_records [sound_rules]:
  "yields_sound (LedgerRepository_Append e)" "yields_sound (LedgerRepository_Page i c n)"
  "yields_sound (OutboxRepository_Append es)"
  unfolding LedgerRepository_Append_def LedgerRepository_Page_def OutboxRepository_Append_def
  by (intro sound_rules sound_map_results yields_append_events; simp)+

section \<open>Use cases\<close>

lemma yields_findReference: "yields (\<lambda>(reference, _). sound reference) (findReference t)"
  unfolding findReference_def check_reference_def refuse_reversed_def
  by (intro sound_rules) (use sound_transitions(4) in \<open>force simp: sound_iff\<close>)+

lemma yields_find_and_apply:
  "yields (\<lambda>(outcome, _). \<forall>e. outcome = Some e \<longrightarrow> classified e) (find_and_apply w t at)"
  unfolding find_and_apply_def
  by (rule yields_bind [OF yields_findReference], intro sound_rules)
    (use sound_wallet in \<open>force simp: sound_iff\<close>)+

lemma yields_settlement [sound_rules]:
  "yields_sound (newEvents t w e c at)" "yields_sound (findReplay t)"
  "(\<And>u. yields_sound (save u)) \<Longrightarrow> yields_sound (record_settlement w v t e es save)"
  unfolding newEvents_def findReplay_def record_settlement_def by (intro sound_rules; simp)+

lemma yields_process: "yields_sound (process_in_transaction t c at)"
  unfolding process_in_transaction_def
  by (intro sound_rules yields_bind [OF yields_find_and_apply] sound_conclude; simp)

lemma yields_ProcessWager [sound_rules]: "yields_sound (ProcessWager_Execute input)"
  unfolding ProcessWager_Execute_def by (intro sound_rules yields_process) (auto simp: sound_iff)

lemma yields_OpenWallet [sound_rules]: "yields_sound (OpenWallet_Execute input)"
  unfolding OpenWallet_Execute_def open_in_transaction_def by (intro sound_rules; simp)

lemma yields_queries [sound_rules]:
  "yields_sound (ReadTransaction_ByID p i)" "yields_sound (ReadTransaction_ByExternalID p x)"
  "yields_sound (ReadWallet_Wallet i)" "yields_sound (ReadWallet_Ledger i c n)" "yields_sound (ReadWallet_Reconcile i)"
  unfolding ReadTransaction_ByID_def ReadTransaction_ByExternalID_def find_for_provider_def ReadWallet_Wallet_def
    ReadWallet_Ledger_def ReadWallet_Reconcile_def Let_def
  by (intro sound_rules; simp)+

section \<open>Responses\<close>

text \<open>The answers of the contract: the server's own codes with their status, the domain's with theirs.\<close>

definition error_answers :: "(nat \<times> string) set" where
  "error_answers = {(401, codeUnauthenticated), (403, codeForbidden), (500, codeInternalError),
     (503, codeServiceUnavailable)} \<union> {400, 404, 409, 422} \<times> set failure_codes"

definition contractual :: "response \<Rightarrow> bool" where
  "contractual rs \<longleftrightarrow> (\<forall>code. rs_Body rs = ErrorBody code \<longrightarrow> (rs_Status rs, code) \<in> error_answers)"

definition answers :: "response handler \<Rightarrow> bool" where
  "answers h \<longleftrightarrow> (\<forall>w. contractual (fst (h w)))"

lemma contractual_headers [simp]: "contractual (rs\<lparr>rs_Headers := hs\<rparr>) = contractual rs"
  by (simp add: contractual_def)

lemma contractual_writeError: "classified e \<Longrightarrow> contractual (writeError headers e)"
  using classified_status [of e]
  by (auto simp: contractual_def writeError_def error_response_def classifyError_def domainErrorStatus_def
      error_answers_def split: option.splits)

lemma contractual_answer: "(\<And>code. b \<noteq> ErrorBody code) \<Longrightarrow> contractual (answer headers status b)"
  using sound_encoding(3) [of b] contractual_writeError
  by (auto simp: answer_def writeJSON_def sound_iff contractual_def body_Marshal_def split: sum.splits)

lemma contractual_guards [simp]: "contractual writeForbidden" "contractual writeUnauthenticated"
  by (simp_all add: contractual_def writeForbidden_def writeUnauthenticated_def error_response_def error_answers_def)

lemma answers_leaf [sound_rules]: "(\<And>w. contractual (f w)) \<Longrightarrow> answers (\<lambda>w. (f w, w))"
  by (simp add: answers_def)

lemma answers_if [sound_rules]: "(b \<Longrightarrow> answers x) \<Longrightarrow> (\<not> b \<Longrightarrow> answers y) \<Longrightarrow> answers (if b then x else y)"
  by simp

lemma answers_or_error [sound_rules]: "sound r \<Longrightarrow> (\<And>a. answers (k a)) \<Longrightarrow> answers (or_error r k)"
  by (auto simp: or_error_def answers_def sound_iff contractual_writeError split: sum.splits)

lemma answers_call [sound_rules]: "yields_sound m \<Longrightarrow> (\<And>a. answers (k a)) \<Longrightarrow> answers (call m k)"
  by (auto simp: call_def answers_def yields_def sound_iff contractual_writeError split: prod.splits sum.splits)
    (metis fst_conv contractual_writeError)+

lemma sound_requests [sound_rules]:
  "sound (decodeJSON d b)" "sound (decodeLedgerCursor lib s)" "sound (queryLimit s)"
  unfolding decodeJSON_def decodeLedgerCursor_def
  by (intro sound_rules; simp)+ (simp add: queryLimit_def split: sum.split)

lemma answers_endpoint: "answers (run_endpoint lib c rq e p)"
  unfolding run_endpoint_def requireRole_def handleOpenWallet_def handleGetWallet_def handleGetLedger_def
    handleReconcile_def handleProcessWager_def handleGetTransaction_def handleGetTransactionByExternalID_def Let_def
  by (cases e; simp only: endpoint.case; intro sound_rules contractual_answer contractual_writeError; simp)

lemma contractual_public: "public_route lib rq = Some (rs, pattern) \<Longrightarrow> contractual rs"
  by (auto simp: public_route_def handleLive_def readinessHandler_def public_response_def Let_def
      intro!: contractual_answer split: if_splits prod.splits)
    (simp add: contractual_def)+

lemma contractual_router [simp]: "contractual (router_response status)"
  by (simp add: contractual_def router_response_def)

lemma contractual_protected: "contractual (fst (fst (protected_mux lib c rq p w)))"
proof -
  have "contractual rs" if "run_endpoint lib c rq e p w = (rs, w')" for e rs w'
    using answers_endpoint [of lib c rq e p] that by (auto simp: answers_def dest!: spec [of _ w])
  then show ?thesis by (auto simp: protected_mux_def Let_def split: option.split prod.split)
qed

lemma contractual_root: "root_mux lib c rq w = ((rs, pattern), w') \<Longrightarrow> contractual rs"
  using contractual_public contractual_protected [of lib c rq _ w]
  by (auto simp: root_mux_caller split: option.splits) (metis fst_conv)+

lemma contractual_server:
  assumes "NewHandler lib rq w = (rs, w')"
  shows "contractual rs"
  using contractual_root by (cases rule: NewHandler_run [OF assms]) (auto simp: inner_def)

end
