(* ===== verification/Metrics.thy ===== *)
theory Metrics
  imports Settlement
begin

text \<open>
  \<open>internal/infrastructure/metrics/metrics.go\<close>: what the \<open>Recorder\<close> hands to its instruments for
  each of the measurements the program takes, the instruments it declares and the boundaries of their
  buckets. The registry and the exposition are libraries; a histogram is given seconds as floating point, kept here as the
  duration they are computed from.
\<close>

definition operationsName :: string where "operationsName = ''betledger.wager.operations''"
definition wagerDurationName :: string where "wagerDurationName = ''betledger.wager.duration''"
definition messagesName :: string where "messagesName = ''betledger.inbox.messages''"
definition deadLetteredName :: string where "deadLetteredName = ''betledger.messages.dead_lettered''"
definition attemptsName :: string where "attemptsName = ''betledger.reference.attempts''"
definition publicationsName :: string where "publicationsName = ''betledger.outbox.publications''"
definition outboxDelayName :: string where "outboxDelayName = ''betledger.outbox.delay''"
definition reconciliationsName :: string where "reconciliationsName = ''betledger.wallet.reconciliations''"
definition conflictsName :: string where "conflictsName = ''betledger.concurrency.conflicts''"
definition requestsName :: string where "requestsName = ''betledger.http.duration''"

datatype label = StringLabel string string | BoolLabel string bool | IntLabel string nat

text \<open>One added to a counter, or a duration recorded in a histogram, under labels.\<close>

datatype measurement = Count string "label list" | Observe string duration "label list"

fun Recorder :: "metric \<Rightarrow> measurement list" where
  "Recorder (WagerConcluded kind state code replay elapsed) =
     [Count operationsName [StringLabel ''kind'' (kind_String kind), StringLabel ''status'' (state_String state),
        StringLabel ''failure_code'' code, BoolLabel ''replay'' replay],
      Observe wagerDurationName elapsed [StringLabel ''status'' (state_String state)]]"
| "Recorder (MessageTaken duplicate) = [Count messagesName [BoolLabel ''duplicate'' duplicate]]"
| "Recorder MessageDeadLettered = [Count deadLetteredName []]"
| "Recorder (ReferenceAttempted state) = [Count attemptsName [StringLabel ''status'' (state_String state)]]"
| "Recorder (EventPublished delay success) =
     [Count publicationsName [BoolLabel ''published'' success], Observe outboxDelayName delay []]"
| "Recorder (ReconciliationChecked consistent) =
     [Count reconciliationsName [BoolLabel ''consistent'' consistent]]"
| "Recorder ConcurrencyConflict = [Count conflictsName []]"
| "Recorder (RequestHandled verb route status elapsed) =
     [Observe requestsName elapsed [StringLabel ''method'' verb, StringLabel ''route'' route,
        IntLabel ''status'' status]]"

section \<open>Instruments\<close>

text \<open>
  A histogram measures seconds. Its boundaries, which the code writes as decimals of a second, are
  kept in milliseconds.
\<close>

datatype instrument = Int64Counter | Float64Histogram

definition bucketView :: "string \<Rightarrow> nat list \<Rightarrow> string \<times> nat list" where
  "bucketView name boundaries = (name, boundaries)"

definition NewMeterProvider :: "err option \<Rightarrow> err + (string \<times> nat list) list" where
  "NewMeterProvider exporter =
     (case exporter of
        Some e \<Rightarrow> Inl (Wrapped [e])
      | None \<Rightarrow>
          let latency = [5, 10, 25, 50, 100, 250, 500, 1000, 2500, 5000, 10000];
              delay = [100, 500, 1000, 5000, 15000, 30000, 60000, 300000]
          in Inr [bucketView wagerDurationName latency, bucketView requestsName latency,
                  bucketView outboxDelayName delay])"

text \<open>The meter answers each declaration of an instrument with an error or none.\<close>

definition NewRecorder :: "(string \<Rightarrow> err option) \<Rightarrow> err + (string \<times> instrument) list" where
  "NewRecorder meter =
     (let instruments = [(operationsName, Int64Counter), (wagerDurationName, Float64Histogram),
            (messagesName, Int64Counter), (deadLetteredName, Int64Counter), (attemptsName, Int64Counter),
            (publicationsName, Int64Counter), (outboxDelayName, Float64Histogram),
            (reconciliationsName, Int64Counter), (conflictsName, Int64Counter), (requestsName, Float64Histogram)];
          errs = map (\<lambda>(name, _). meter name) instruments
      in case errors_Join errs of Some e \<Rightarrow> Inl (Wrapped [e]) | None \<Rightarrow> Inr instruments)"

text \<open>
  Every measurement goes to an instrument that was declared, and of its kind; the views name exactly
  the histograms, so that none is left with the boundaries of the library.
\<close>

lemma measured_as_declared:
  assumes "NewRecorder meter = Inr instruments" and "m \<in> set (Recorder x)"
  shows "case m of Count name _ \<Rightarrow> map_of instruments name = Some Int64Counter
    | Observe name _ _ \<Rightarrow> map_of instruments name = Some Float64Histogram"
proof -
  note names = operationsName_def wagerDurationName_def messagesName_def deadLetteredName_def attemptsName_def
    publicationsName_def outboxDelayName_def reconciliationsName_def conflictsName_def requestsName_def
  have "instruments = [(operationsName, Int64Counter), (wagerDurationName, Float64Histogram),
      (messagesName, Int64Counter), (deadLetteredName, Int64Counter), (attemptsName, Int64Counter),
      (publicationsName, Int64Counter), (outboxDelayName, Float64Histogram),
      (reconciliationsName, Int64Counter), (conflictsName, Int64Counter), (requestsName, Float64Histogram)]"
    using assms(1) by (simp add: NewRecorder_def Let_def split: option.splits)
  with assms(2) show ?thesis by (cases x) (auto simp: names)
qed

lemma histograms_have_boundaries:
  assumes "NewRecorder meter = Inr instruments" and "NewMeterProvider exporter = Inr views"
  shows "set (map fst views) = set (map fst (filter (\<lambda>(_, i). i = Float64Histogram) instruments))"
    and "(name, boundaries) \<in> set views \<Longrightarrow> sorted_wrt (<) boundaries \<and> boundaries \<noteq> []"
  using assms by (auto simp: NewRecorder_def NewMeterProvider_def bucketView_def Let_def simp del: set_filter
    split: option.splits)

text \<open>The series a history of measurements opened: the instruments with the labels they were given.\<close>

fun series_of :: "measurement \<Rightarrow> string \<times> label list" where
  "series_of (Count name labels) = (name, labels)"
| "series_of (Observe name elapsed labels) = (name, labels)"

definition series :: "metric list \<Rightarrow> (string \<times> label list) set" where
  "series ms = set (map series_of (concat (map Recorder ms)))"

lemma series_append [simp]: "series (ms @ ns) = series ms \<union> series ns"
  by (simp add: series_def)

lemma series_last: "ms \<noteq> [] \<Longrightarrow> Recorder (last ms) = [m] \<Longrightarrow> series_of m \<in> series ms"
  by (subst append_butlast_last_id [symmetric], assumption, subst series_append) (simp add: series_def)

end
