(* ===== verification/Server_Guarantees.thy ===== *)
theory Server_Guarantees
  imports Failures Metrics Scenario
begin

text \<open>
  What holds of the HTTP server together with the system behind it, each applied to a request of
  the provider or of an operator in the small run of \<open>Scenario\<close>.
\<close>

section \<open>Sample requests\<close>

definition sample_library :: library where
  "sample_library =
     \<lparr>lib_decode_wager = (\<lambda>s. if s = ''bet'' then Some (\<lparr>req_ProviderID = ''p'', req_ExternalTransactionID = ''x1'',
        req_PlayerID = ''7'', req_WalletID = ''w'', req_RoundID = ''r'', req_GameID = ''g'', req_Kind = ''BET'',
        req_Money = \<lparr>mp_Amount = ''2.00'', mp_Currency = ''BRL''\<rparr>, req_ReferenceExternalTransactionID = ''''\<rparr>, '''')
        else None),
      lib_decode_wallet = (\<lambda>s. if take 6 s = ''wallet'' then Some (\<lparr>owr_PlayerID = ''7'',
        owr_InitialBalance = \<lparr>mp_Amount = ''5.00'', mp_Currency = ''BRL''\<rparr>\<rparr>, drop 6 s) else None),
      lib_uuid_Parse = (\<lambda>s. if s = ''7'' then Some 7 else if s = ''w'' then Some 1000 else None),
      lib_time_Format = (\<lambda>t. replicate (nat t) (CHR ''1'')), lib_time_Parse = (\<lambda>s. Some (int (length s))),
      lib_oidc_Verify = Inr, lib_Claims = (\<lambda>token. if token = ''t'' then Inr ([''game-provider''], ''p'')
        else if token = ''o'' then Inr ([''wallet-operator''], '''') else Inl OtherError),
      lib_checks = [], lib_Metrics = (200, ''text/plain'')\<rparr>"

definition bet_request :: request where
  "bet_request = \<lparr>rq_Method = ''POST'', rq_Path = ''/wagering/transactions'',
     rq_Segments = [''wagering'', ''transactions''], rq_Authorization = ''bearer t'', rq_CorrelationID = ''c'',
     rq_IdempotencyKey = ''k1'', rq_Cursor = '''', rq_Limit = '''', rq_Body = ''bet''\<rparr>"

definition wallet_request :: request where
  "wallet_request = bet_request\<lparr>rq_Path := ''/wallets'', rq_Segments := [''wallets''],
     rq_Authorization := ''Bearer o'', rq_Body := ''wallet''\<rparr>"

lemma sample_callers:
  "caller sample_library bet_request = Some \<lparr>pr_Roles = [''game-provider''], pr_ProviderID = ''p''\<rparr>"
  "caller sample_library wallet_request = Some \<lparr>pr_Roles = [''wallet-operator''], pr_ProviderID = ''''\<rparr>"
  by code_simp+

definition served_world :: world where
  "served_world = snd (NewHandler sample_library wallet_request start)"

lemma wallet_served:
  "case NewHandler sample_library wallet_request start of (rs, w) \<Rightarrow>
     rs_Status rs = 201 \<and> length (wallets (committed w)) = 1 \<and> length (outbox (committed w)) = 2"
  by code_simp

section \<open>Requests and the system\<close>

text \<open>C34. Serving a request, any request, is a sequence of steps of the system: all that holds in
  reachable states holds whatever is sent to the server.\<close>

theorem requests_are_steps:
  assumes "reachable w"
  shows "steps w (snd (NewHandler lib rq w))"
  using request_effect [OF prod.collapse [symmetric] assms] by blast

theorem requests_are_steps_witness:
  "reachable served_world"
  unfolding served_world_def
  using reachable_steps [OF requests_are_steps [OF reachable_start] reachable_start] .

text \<open>C16. Nobody changes anything without the right to: when a request changed the database, it was a
  POST that carried a token the verifier accepts, and either the caller is a game provider, and an
  operation of that very provider was executed under the key of the request, or a wallet operator,
  and a wallet was opened.\<close>

theorem changes_are_authorised:
  assumes "reachable w" and "NewHandler lib rq w = (rs, w')" and "committed w' \<noteq> committed w"
  shows "rq_Method rq = ''POST'' \<and>
    (\<exists>p. caller lib rq = Some p \<and>
       (HasRole p RoleGameProvider \<and>
          (\<exists>input a. asked rq p (correlation_of rq w) input \<and> executed (env w) (committed w) input a (committed w')) \<or>
        HasRole p RoleWalletOperator \<and>
          (\<exists>x at. opened (committed w) x (correlation_of rq w) at (committed w'))))"
  using request_effect [OF assms(2,1)] assms(3) by (auto simp: authorised_def)

theorem changes_are_authorised_witness:
  "\<exists>x at. opened (committed start) x ''c'' at (committed served_world)"
proof -
  have run: "NewHandler sample_library wallet_request start = (fst (NewHandler sample_library wallet_request start), served_world)"
    by (simp add: served_world_def)
  have "length (wallets (committed served_world)) = 1" using wallet_served run by (auto split: prod.splits)
  then have "committed served_world \<noteq> committed start" by (auto simp: start_def empty_db_def)
  from changes_are_authorised [OF reachable_start run this] sample_callers(2)
  show ?thesis by (auto simp: HasRole_def RoleGameProvider_def RoleWalletOperator_def correlation_of_def
      wallet_request_def bet_request_def isValidCorrelationID_def maxCorrelationIDLength_def correlation_char_def
      byte_between_def)
qed

text \<open>C17. The answer to an operation tells what became of it. Without a caller it is 401, without the
  role 403, and nothing changed. Otherwise a result came from an operation of the caller that was
  executed, and its status tells the outcome; an error means that the database is unchanged, unless
  the answer to the commit was lost.\<close>

theorem wager_request_answered:
  assumes "reachable w" and "is_wager_request rq" and "NewHandler lib rq w = (rs, w')"
  shows "case caller lib rq of
      None \<Rightarrow> rs_Status rs = 401 \<and> committed w' = committed w
    | Some p \<Rightarrow>
        if HasRole p RoleGameProvider then wager_answered rq p (correlation_of rq w) w rs w'
        else rs_Status rs = 403 \<and> committed w' = committed w"
  by (rule wager_request_cases [OF assms(2,3,1)])

lemma bet_served:
  "case NewHandler sample_library bet_request opened_world of (rs, w) \<Rightarrow>
     rs_Status rs = 201 \<and> (case rs_Body rs of WagerResultBody b \<Rightarrow> wrr_Status b = StateProcessed | _ \<Rightarrow> False)"
  by code_simp

theorem wager_request_answered_witness:
  "\<exists>input a. in_ProviderID input = ''p'' \<and> in_IdempotencyKey input = ''k1'' \<and>
     executed calm (committed opened_world) input a (committed (snd (NewHandler sample_library bet_request opened_world)))"
proof -
  obtain rs w' where run: "NewHandler sample_library bet_request opened_world = (rs, w')" by fastforce
  have "is_wager_request bet_request" by (simp add: is_wager_request_def bet_request_def)
  from wager_request_answered [OF reachable_opened this run] sample_callers(1) bet_served run
  show ?thesis
    by (auto simp: HasRole_def RoleGameProvider_def wager_answered_def asked_def bet_request_def split: body.splits)
qed


text \<open>A bet on a wallet that was never opened.\<close>

lemma bet_unserved:
  "case NewHandler sample_library bet_request start of (rs, w) \<Rightarrow>
     rs_Status rs = 404 \<and> (case rs_Body rs of ErrorBody code \<Rightarrow> True | _ \<Rightarrow> False)"
  by code_simp


section \<open>Correlation and observation\<close>

text \<open>C40. A correlation identifier is safe to write anywhere, as long as generated ones are: the
  response carries one of at most 128 letters, digits and signs, the caller's own when it is such a
  one, and every event the request brought about is stamped with it.\<close>

theorem correlation_safe:
  assumes "reachable w" and "NewHandler lib rq w = (rs, w')"
    and "\<forall>i. isValidCorrelationID (env_uuid_String (env w) i)"
  shows "\<exists>c. hd (rs_Headers rs) = (CorrelationHeader, c) \<and>
    c \<noteq> '''' \<and> length c \<le> 128 \<and> (\<forall>x \<in> set c. correlation_char x) \<and>
    (isValidCorrelationID (rq_CorrelationID rq) \<longrightarrow> c = rq_CorrelationID rq) \<and>
    (\<forall>r \<in> set (outbox (committed w')). r \<in> set (outbox (committed w)) \<or> ev_CorrelationID (or_Payload r) = c)"
proof (intro exI conjI)
  let ?c = "correlation_of rq w"
  show "hd (rs_Headers rs) = (CorrelationHeader, ?c)"
    by (cases rule: NewHandler_run [OF assms(2)]) (simp add: inner_def)
  have "isValidCorrelationID ?c" using assms(3) by (simp add: correlation_of_def)
  then show "?c \<noteq> ''''" "length ?c \<le> 128" "\<forall>x \<in> set ?c. correlation_char x"
    by (auto simp: isValidCorrelationID_def maxCorrelationIDLength_def split: if_splits)
  show "isValidCorrelationID (rq_CorrelationID rq) \<longrightarrow> ?c = rq_CorrelationID rq" by (simp add: correlation_of_def)
  show "\<forall>r \<in> set (outbox (committed w')). r \<in> set (outbox (committed w)) \<or> ev_CorrelationID (or_Payload r) = ?c"
    using request_effect [OF assms(2,1)] authorised_correlation reachable_inv [OF assms(1)] by metis
qed

theorem correlation_safe_witness:
  "\<exists>c. c \<noteq> '''' \<and> (\<forall>r \<in> set (outbox (committed served_world)). ev_CorrelationID (or_Payload r) = c)"
proof -
  have run: "NewHandler sample_library wallet_request start = (fst (NewHandler sample_library wallet_request start), served_world)"
    by (simp add: served_world_def)
  have "isValidCorrelationID ''7''" "isValidCorrelationID ''w''" by code_simp+
  then have "\<forall>i. isValidCorrelationID (env_uuid_String (env start) i)" by (simp add: calm_def)
  from correlation_safe [OF reachable_start run this] show ?thesis by (auto simp: start_def empty_db_def)
qed

text \<open>Every request outside the probes leaves a measurement of its latency, the last one, in a series
  named by its method, its status and the pattern that matched. The pattern is one of a fixed list, so
  that no path and no identifier opens a series; the method is the caller's own text.\<close>

theorem requests_observed:
  assumes "NewHandler lib rq w = (rs, w')"
    and "take (length healthPathPrefix) (rq_Path rq) \<noteq> healthPathPrefix" and "rq_Path rq \<noteq> metricsPath"
  shows "\<exists>pattern elapsed. pattern \<in> set known_patterns \<and> metrics w' \<noteq> [] \<and>
    Recorder (last (metrics w')) = [Observe requestsName elapsed [StringLabel ''method'' (rq_Method rq),
      StringLabel ''route'' pattern, IntLabel ''status'' (rs_Status rs)]]"
proof (cases rule: NewHandler_run [OF assms(1)])
  case (1 w0 rs0 pattern w1)
  from 1(5) [OF assms(2,3)] root_mux_known [OF 1(2)] show ?thesis by (auto intro!: exI [of _ pattern])
qed

text \<open>A request without a token, by a method nobody knows.\<close>

theorem requests_observed_witness:
  "\<exists>pattern status. (requestsName, [StringLabel ''method'' ''X-1'', StringLabel ''route'' pattern, IntLabel ''status'' status])
     \<in> series (metrics (snd (NewHandler sample_library (bet_request\<lparr>rq_Method := ''X-1'', rq_Authorization := ''''\<rparr>) opened_world)))"
proof -
  let ?rq = "bet_request\<lparr>rq_Method := ''X-1'', rq_Authorization := ''''\<rparr>"
  let ?ms = "metrics (snd (NewHandler sample_library ?rq opened_world))"
  have "take (length healthPathPrefix) (rq_Path ?rq) \<noteq> healthPathPrefix" "rq_Path ?rq \<noteq> metricsPath"
    by (simp_all add: healthPathPrefix_def metricsPath_def bet_request_def)
  from requests_observed [OF prod.collapse [symmetric] this, of sample_library opened_world]
  obtain pattern status elapsed where "?ms \<noteq> []" "Recorder (last ?ms) = [Observe requestsName elapsed
      [StringLabel ''method'' ''X-1'', StringLabel ''route'' pattern, IntLabel ''status'' status]]" by auto
  then have "series_of (Observe requestsName elapsed [StringLabel ''method'' ''X-1'', StringLabel ''route'' pattern,
      IntLabel ''status'' status]) \<in> series ?ms"
    by (rule series_last)
  then show ?thesis by auto
qed

section \<open>Texts\<close>

text \<open>A cursor reads back: what the server hands out as the cursor of the next page it accepts as
  the very same position, as long as instants and identifiers read back from their own texts.\<close>

theorem cursor_roundtrip:
  assumes "texts_read_back lib uuid_String cursor"
  shows "decodeLedgerCursor lib (encodeLedgerCursor lib uuid_String cursor) = Inr (Some cursor)"
  by (rule cursor_reads_back [OF assms])

theorem cursor_roundtrip_witness:
  "decodeLedgerCursor sample_library (encodeLedgerCursor sample_library (\<lambda>_. ''7'') (5, 7)) = Inr (Some (5, 7))"
  by (rule cursor_roundtrip) (simp add: texts_read_back_def sample_library_def NilID_def)

text \<open>A body is accepted exactly when a value can be read from its first megabyte and what follows
  it there is blank or begins, after blanks, with a closing bracket.\<close>

theorem body_accepted:
  "decodeJSON decode b = Inr v \<longleftrightarrow>
     (\<exists>rest. decode (take (2 ^ 20) b) = Some (v, rest) \<and>
        (dropWhile json_space rest = [] \<or> hd (dropWhile json_space rest) \<in> {CHR '']'', CHR ''}''}))"
proof -
  have "\<not> decoder_More rest \<longleftrightarrow> dropWhile json_space rest = [] \<or> hd (dropWhile json_space rest) \<in> {CHR '']'', CHR ''}''}" for rest
    unfolding decoder_More_def by (cases "dropWhile json_space rest") (simp_all del: dropWhile_eq_Nil_conv)
  then show ?thesis
    unfolding decodeJSON_def readable_take by (auto split: option.splits if_splits)
qed

theorem body_accepted_witness:
  "ok (decodeJSON (lib_decode_wallet sample_library) ''wallet '') \<and>
   ok (decodeJSON (lib_decode_wallet sample_library) ''wallet } junk'') \<and>
   \<not> ok (decodeJSON (lib_decode_wallet sample_library) ''wallet junk'')"
  using body_accepted [of "lib_decode_wallet sample_library" "''wallet } junk''"]
  by (simp_all add: decodeJSON_def readable_def maxRequestBodyBytes_def decoder_More_def json_space_def sample_library_def)

end
