(* ===== verification/Progress.thy ===== *)
theory Progress
  imports Outcomes
begin

text \<open>
  Total correctness: in an environment without faults, with identifiers that are fresh and a
  sequence ahead of the outbox, an operation that is well formed is carried out. \<open>ends\<close> states how an
  action ends from every world of a transaction, and its rules follow the sequencing of the code.
\<close>

section \<open>How an action ends\<close>

text \<open>
  A world inside a transaction that sees \<open>d\<close>, whose next identifier is the \<open>n\<close>-th drawn and whose
  sequence is ahead of the outbox.
\<close>

definition inside :: "environment \<Rightarrow> db \<Rightarrow> nat \<Rightarrow> world \<Rightarrow> bool" where
  "inside E d n w \<longleftrightarrow> tx w = Some (d, False) \<and> env w = E \<and> identifiers w = n \<and>
     (\<forall>r \<in> set (outbox d). or_Sequence r \<le> sequence w)"

definition ends :: "environment \<Rightarrow> 'a action \<Rightarrow> db \<Rightarrow> nat \<Rightarrow> (err + 'a \<Rightarrow> db \<Rightarrow> nat \<Rightarrow> bool) \<Rightarrow> bool" where
  "ends E m d n Q \<longleftrightarrow> (\<forall>w. inside E d n w \<longrightarrow>
     (\<exists>r w' d' n'. m w = (r, w') \<and> inside E d' n' w' \<and> n \<le> n' \<and> Q r d' n'))"

definition faultless :: "environment \<Rightarrow> bool" where
  "faultless E \<longleftrightarrow> (\<forall>k. env_fault E k = None)"

lemma endsI: "(\<And>w. inside E d n w \<Longrightarrow> \<exists>r w' d' n'. m w = (r, w') \<and> inside E d' n' w' \<and> n \<le> n' \<and> Q r d' n') \<Longrightarrow>
    ends E m d n Q"
  by (simp add: ends_def)

lemma ends_mono:
  assumes "ends E m d n Q" and "\<And>r d' n'. n \<le> n' \<Longrightarrow> Q r d' n' \<Longrightarrow> R r d' n'"
  shows "ends E m d n R"
  unfolding ends_def
proof (intro allI impI)
  fix w assume "inside E d n w"
  then obtain r w' d' n' where "m w = (r, w')" "inside E d' n' w'" "n \<le> n'" "Q r d' n'"
    using assms(1) unfolding ends_def by blast
  with assms(2) show "\<exists>r w' d' n'. m w = (r, w') \<and> inside E d' n' w' \<and> n \<le> n' \<and> R r d' n'" by blast
qed

lemma ends_attempt:
  assumes "ends E m d n (\<lambda>r d' n'. ends E (f r) d' n' Q)"
  shows "ends E (attempt m f) d n Q"
proof (rule endsI)
  fix w assume "inside E d n w"
  then obtain r w' d' n' where "m w = (r, w')" "inside E d' n' w'" "n \<le> n'" "ends E (f r) d' n' Q"
    using assms unfolding ends_def by blast
  moreover from this obtain r2 w2 d2 n2 where "f r w' = (r2, w2)" "inside E d2 n2 w2" "n' \<le> n2" "Q r2 d2 n2"
    unfolding ends_def by blast
  ultimately show "\<exists>r w' d' n'. attempt m f w = (r, w') \<and> inside E d' n' w' \<and> n \<le> n' \<and> Q r d' n'"
    by (auto simp: attempt_def intro: order_trans)
qed

lemma ends_basic:
  "Q (Inr a) d n \<Longrightarrow> ends E (return_ok a) d n Q"
  "Q (Inl e) d n \<Longrightarrow> ends E (raise_err e) d n Q"
  "Q r d n \<Longrightarrow> ends E (of_result r) d n Q"
  by (fastforce simp: ends_def return_ok_def raise_err_def of_result_def)+

lemma ends_drawn:
  "U (Inr ()) d n \<Longrightarrow> ends E (record_metric x) d n U"
  "U (Inr ()) d n \<Longrightarrow> ends E queries d n U"
  "(\<And>k. T (Inr (env_clock E k)) d n) \<Longrightarrow> ends E clock_now d n T"
  "I (Inr (env_NewID E n)) d (Suc n) \<Longrightarrow> ends E NewID d n I"
  by (fastforce simp: ends_def inside_def record_metric_def queries_def clock_now_def NewID_def)+

text \<open>The way of an action that must succeed.\<close>

definition succeeds :: "environment \<Rightarrow> 'a action \<Rightarrow> db \<Rightarrow> nat \<Rightarrow> ('a \<Rightarrow> db \<Rightarrow> nat \<Rightarrow> bool) \<Rightarrow> bool" where
  "succeeds E m d n Q \<longleftrightarrow> ends E m d n (\<lambda>r d' n'. \<exists>a. r = Inr a \<and> Q a d' n')"

lemma succeeds_bind:
  assumes "succeeds E m d n (\<lambda>a d' n'. succeeds E (f a) d' n' Q)"
  shows "succeeds E (bind_action m f) d n Q"
  using assms unfolding succeeds_def bind_action_def
  by (intro ends_attempt) (erule ends_mono, auto)

lemma succeeds_mono:
  assumes "succeeds E m d n Q" and "\<And>a d' n'. n \<le> n' \<Longrightarrow> Q a d' n' \<Longrightarrow> R a d' n'"
  shows "succeeds E m d n R"
  using assms unfolding succeeds_def by (auto elim: ends_mono)

lemma succeeds_basic:
  "Q a d n \<Longrightarrow> succeeds E (return_ok a) d n Q"
  "r = Inr a \<Longrightarrow> Q a d n \<Longrightarrow> succeeds E (of_result r) d n Q"
  unfolding succeeds_def by (rule ends_basic; simp)+

lemma succeeds_drawn:
  "U () d n \<Longrightarrow> succeeds E (record_metric x) d n U"
  "U () d n \<Longrightarrow> succeeds E queries d n U"
  "(\<And>k. T (env_clock E k) d n) \<Longrightarrow> succeeds E clock_now d n T"
  "I (env_NewID E n) d (Suc n) \<Longrightarrow> succeeds E NewID d n I"
  unfolding succeeds_def by (rule ends_drawn; simp)+

lemma succeeds_attempt:
  "succeeds E m d n (\<lambda>a d' n'. ends E (f (Inr a)) d' n' Q) \<Longrightarrow> ends E (attempt m f) d n Q"
  unfolding succeeds_def by (intro ends_attempt) (erule ends_mono, auto)

text \<open>A statement: with any session it answers and leaves the outbox as it was.\<close>

lemma succeeds_statement:
  assumes "faultless E" and "\<And>s. \<exists>a d'. f s d = Inr (a, d') \<and> outbox d' = outbox d \<and> Q a d' n"
  shows "succeeds E (statement f) d n Q"
  unfolding succeeds_def
proof (rule endsI)
  fix w assume w: "inside E d n w"
  obtain a d' where f: "f (the_session w) d = Inr (a, d')" "outbox d' = outbox d" "Q a d' n" using assms(2) by blast
  let ?w = "(next_call w)\<lparr>tx := Some (d', False)\<rparr>"
  have "statement f w = (Inr a, ?w)"
    using w f assms(1) by (simp add: statement_def inside_def faultless_def)
  moreover have "inside E d' n ?w" using w f(2) by (simp add: inside_def next_call_def)
  ultimately show "\<exists>r w' d' n'. statement f w = (r, w') \<and> inside E d' n' w' \<and> n \<le> n' \<and> (\<exists>a. r = Inr a \<and> Q a d' n')"
    using f(3) by blast
qed

lemma succeeds_translated: "succeeds E m d n Q \<Longrightarrow> succeeds E (translated m) d n Q"
  unfolding translated_def
  by (subst succeeds_def, rule succeeds_attempt) (erule succeeds_mono, auto intro: ends_basic)

lemma ends_query_row:
  assumes "faultless E"
    and "case f d of None \<Rightarrow> Q (Inl (Sentinel ErrNoRows)) d n | Some row \<Rightarrow> Q (Inr row) d n"
  shows "ends E (query_row (read_db f)) d n Q"
  unfolding query_row_def bind_action_def
  by (rule succeeds_attempt, rule succeeds_statement [OF assms(1)])
    (use assms(2) in \<open>auto simp: read_db_def intro: ends_basic split: option.splits\<close>)

text \<open>A unit of work whose function succeeds is committed.\<close>

lemma succeeds_committed:
  assumes "succeeds E fn (committed w) (identifiers w) Q" and "faultless E" and "env w = E" and "tx w = None"
    and "\<forall>r \<in> set (outbox (committed w)). or_Sequence r \<le> sequence w"
  obtains a w' n where "WithinTransaction fn w = (Inr a, w')" and "Q a (committed w') n" and "env w' = E"
proof -
  define w0 where "w0 = (next_call w)\<lparr>tx := Some (committed w, False), begun := Suc (begun w)\<rparr>"
  have b: "translated begin_transaction w = (Inr (), w0)"
    using assms(2,3) by (simp add: translated_def attempt_def begin_transaction_def faultless_def return_ok_def w0_def)
  have "inside E (committed w) (identifiers w) w0"
    using assms(3,5) by (simp add: inside_def w0_def next_call_def)
  then obtain a w1 d n where fn: "fn w0 = (Inr a, w1)" and w1: "inside E d n w1" and q: "Q a d n"
    using assms(1) unfolding succeeds_def ends_def by blast
  define w2 where "w2 = (next_call w1)\<lparr>committed := d, tx := None\<rparr>"
  have c: "translated commit_transaction w1 = (Inr (), w2)"
    using assms(2) w1 by (simp add: translated_def attempt_def commit_transaction_def faultless_def return_ok_def
        inside_def w2_def)
  have "WithinTransaction fn w = (Inr a, rollback_transaction w2)"
    using assms(4) b fn c by (simp add: WithinTransaction_def)
  moreover have "committed (rollback_transaction w2) = d" "env (rollback_transaction w2) = E"
    using w1 by (simp_all add: rollback_transaction_def w2_def next_call_def inside_def)
  ultimately show thesis using q that by metis
qed


text \<open>What an action that succeeded did is known from its effects.\<close>

lemma succeeds_does:
  assumes "succeeds E m d n Q" and "confined m"
    and "\<And>w a w' d'. does m w d a w' d' \<Longrightarrow> R a d'"
  shows "succeeds E m d n (\<lambda>a d' n'. Q a d' n' \<and> R a d')"
  unfolding succeeds_def
proof (rule endsI)
  fix w assume w: "inside E d n w"
  with assms(1) obtain a w' d' n' where m: "m w = (Inr a, w')" and w': "inside E d' n' w'" "n \<le> n'" "Q a d' n'"
    unfolding succeeds_def ends_def by blast
  have t: "tx w = Some (d, False)" "tx w' = Some (d', False)" using w w' by (simp_all add: inside_def)
  from confinedD [OF assms(2) t(1) m] have "frame w' = frame w" by blast
  then have "does m w d a w' d'" using m t by (simp add: does_def)
  with assms(3) m w' show "\<exists>r w' d' n'. m w = (r, w') \<and> inside E d' n' w' \<and> n \<le> n' \<and>
      (\<exists>a. r = Inr a \<and> Q a d' n' \<and> R a d')" by blast
qed

section \<open>Queries\<close>

lemma succeeds_read: "faultless E \<Longrightarrow> Q (f d) d n \<Longrightarrow> succeeds E (statement (read_db f)) d n Q"
  by (rule succeeds_statement) (simp_all add: read_db_def)

lemma succeeds_found_wallet:
  assumes "faultless E" and "f d = Some row" and "rehydrateWallet row = Inr x" and "Q x d n"
  shows "succeeds E (found_wallet (read_db f)) d n Q"
  unfolding found_wallet_def
  by (rule succeeds_bind, rule succeeds_drawn, unfold succeeds_def, rule ends_attempt, rule ends_query_row)
    (use assms in \<open>auto intro!: ends_basic\<close>)

lemma succeeds_GetForUpdate:
  assumes "faultless E" and "books d" and "wallet_to_row x \<in> set (wallets d)" and "wallet_wf x" and "wallet_iso x"
    and "Q x d n"
  shows "succeeds E (GetForUpdate (w_id x)) d n Q"
proof -
  have dist: "distinct (map wr_ID (wallets d))" using assms(2) by (simp add: books_def wallets_inv_def)
  have "List.find (\<lambda>r. wr_ID r = w_id x) (wallets d) \<noteq> None"
    using assms(3) by (auto simp: find_None_iff)
  then obtain row where row: "List.find (\<lambda>r. wr_ID r = w_id x) (wallets d) = Some row" by blast
  from find_SomeD [OF row] have "row = wallet_to_row x"
    using distinct_key_unique [OF dist _ assms(3)] by simp
  with row have "List.find (\<lambda>r. wr_ID r = w_id x) (wallets d) = Some (wallet_to_row x)" by simp
  then show ?thesis
    unfolding GetForUpdate_def SelectWalletForUpdate_def
    using assms rehydrateWallet_row by (intro succeeds_found_wallet)
qed

lemma succeeds_find:
  assumes "faultless E"
    and "case f d of None \<Rightarrow> Q None d n | Some row \<Rightarrow> \<exists>t. rehydrate_row row = Inr t \<and> Q (Some t) d n"
  shows "succeeds E (bind_action queries (\<lambda>_. rehydrateTransaction (query_row (read_db f)))) d n Q"
  unfolding rehydrateTransaction_def
  by (rule succeeds_bind, rule succeeds_drawn, unfold succeeds_def, rule ends_attempt, rule ends_query_row)
    (use assms in \<open>auto intro!: ends_basic split: option.splits\<close>)

lemma succeeds_finds:
  assumes "faultless E" and "books d"
  shows "(\<And>q. (case q of None \<Rightarrow> List.find (\<lambda>r. tr_ProviderID r = Some p \<and> tr_IdempotencyKey r = Some k) (transactions d) = None
         | Some t \<Rightarrow> \<exists>row. List.find (\<lambda>r. tr_ProviderID r = Some p \<and> tr_IdempotencyKey r = Some k) (transactions d) = Some row \<and>
             stores row t) \<Longrightarrow> Q q d n) \<Longrightarrow> succeeds E (FindByIdempotencyKey p k) d n Q"
    "(\<And>q. (case q of None \<Rightarrow> List.find (\<lambda>r. tr_ProviderID r = Some p \<and> tr_ExternalTransactionID r = Some x) (transactions d) = None
         | Some t \<Rightarrow> \<exists>row. List.find (\<lambda>r. tr_ProviderID r = Some p \<and> tr_ExternalTransactionID r = Some x) (transactions d) = Some row \<and>
             stores row t) \<Longrightarrow> Q q d n) \<Longrightarrow> succeeds E (FindByExternalID p x) d n Q"
proof -
  have stored: "\<exists>t. stores row t \<and> rehydrate_row row = Inr t" if "List.find P (transactions d) = Some row" for P row
    using find_SomeD [OF that] assms(2) stores_rehydrate by (auto simp: books_def transactions_inv_def)
  show "(\<And>q. (case q of None \<Rightarrow> List.find (\<lambda>r. tr_ProviderID r = Some p \<and> tr_IdempotencyKey r = Some k) (transactions d) = None
         | Some t \<Rightarrow> \<exists>row. List.find (\<lambda>r. tr_ProviderID r = Some p \<and> tr_IdempotencyKey r = Some k) (transactions d) = Some row \<and>
             stores row t) \<Longrightarrow> Q q d n) \<Longrightarrow> succeeds E (FindByIdempotencyKey p k) d n Q"
    unfolding FindByIdempotencyKey_def SelectWagerTransactionByIdempotencyKey_def
    by (rule succeeds_find [OF assms(1)]) (use stored in \<open>fastforce split: option.splits\<close>)
  show "(\<And>q. (case q of None \<Rightarrow> List.find (\<lambda>r. tr_ProviderID r = Some p \<and> tr_ExternalTransactionID r = Some x) (transactions d) = None
         | Some t \<Rightarrow> \<exists>row. List.find (\<lambda>r. tr_ProviderID r = Some p \<and> tr_ExternalTransactionID r = Some x) (transactions d) = Some row \<and>
             stores row t) \<Longrightarrow> Q q d n) \<Longrightarrow> succeeds E (FindByExternalID p x) d n Q"
    unfolding FindByExternalID_def SelectWagerTransactionByExternalID_def
    by (rule succeeds_find [OF assms(1)]) (use stored in \<open>fastforce split: option.splits\<close>)
qed

lemma succeeds_HasProcessedReversal:
  assumes "faultless E" and "Q (\<exists>r \<in> set (transactions d). tr_ReferenceTransactionID r = Some i \<and> row_reversed r) d n"
  shows "succeeds E (HasProcessedReversal i) d n Q"
  unfolding HasProcessedReversal_def ExistsProcessedReversal_def
  by (rule succeeds_bind, rule succeeds_drawn, rule succeeds_translated, rule succeeds_read) (use assms in simp_all)

section \<open>The reference\<close>

text \<open>An operation waits when nothing concluded is recorded under the reference it names.\<close>

definition waits :: "db \<Rightarrow> Transaction \<Rightarrow> bool" where
  "waits d t \<longleftrightarrow> t_referenceExternalTransactionID t \<noteq> '''' \<and>
     (\<forall>r \<in> set (transactions d). tr_ProviderID r = Some (t_providerID t) \<longrightarrow>
        tr_ExternalTransactionID r = Some (t_referenceExternalTransactionID t) \<longrightarrow> \<not> IsTerminal (state_of (tr_State r)))"

text \<open>A refusal of the domain with its code.\<close>

definition refused :: "err \<Rightarrow> bool" where
  "refused e \<longleftrightarrow> errors_Is e (Sentinel ErrRejected) \<and> \<not> errors_Is e (Sentinel ErrReferencePending) \<and>
     (\<exists>c. CodeOf e = Some c \<and> c \<noteq> '''')"

definition unsettled :: "db \<Rightarrow> Transaction \<Rightarrow> err \<Rightarrow> bool" where
  "unsettled d t e \<longleftrightarrow> (if waits d t then e = Sentinel ErrReferencePending else refused e)"

lemma refused_domain:
  "c \<noteq> '''' \<Longrightarrow> refused (RejectionError c)"
  "c \<noteq> '''' \<Longrightarrow> refused (RejectionErrorWithCause (Sentinel ErrInsufficientFunds) c)"
  by (simp_all add: refused_def)

definition attached :: "db \<Rightarrow> Transaction \<Rightarrow> Transaction \<Rightarrow> bool" where
  "attached d t t' \<longleftrightarrow> resolved_from t t' \<and>
     (t' = t \<or> t_referenceTransactionID t' \<in> tr_ID ` set (transactions d))"

lemma ResolveReference_refused:
  assumes "ResolveReference t (Some r) = Inl e" and "t_referenceExternalTransactionID t \<noteq> ''''"
    and "\<not> IsTerminal (t_state t)" and "t_providerID r = t_providerID t"
    and "t_externalTransactionID r = t_referenceExternalTransactionID t"
  shows "refused e"
  using assms by (auto simp: ResolveReference_def code_defs intro!: refused_domain split: if_splits)

lemma external_unique:
  assumes "constraints d" and "q \<in> set (transactions d)" "tr_ProviderID q = Some p" "tr_ExternalTransactionID q = Some x"
    and "r \<in> set (transactions d)" "tr_ProviderID r = Some p" "tr_ExternalTransactionID r = Some x"
  shows "q = r"
proof -
  have "tr_Kind q \<noteq> ''OPENING''" "tr_Kind r \<noteq> ''OPENING''"
    using constraints_origin [OF assms(1,2)] constraints_origin [OF assms(1,5)] assms(3,6)
    by (auto simp: row_origin_def)
  moreover have "(transactionsProviderExternalID, \<lambda>q r. tr_Kind q \<noteq> ''OPENING'' \<and> tr_Kind r \<noteq> ''OPENING'' \<and>
     same_value (tr_ProviderID q) (tr_ProviderID r) \<and>
     same_value (tr_ExternalTransactionID q) (tr_ExternalTransactionID r)) \<in> set transaction_uniques"
    by (simp add: transaction_uniques_def)
  from valid_rows_unique [OF constraintsD(2) [OF assms(1)] symmetric_schema(2) this assms(2,5)] calculation assms
  show ?thesis by (simp add: same_value_def)
qed

definition reference_found ::
  "db \<Rightarrow> Transaction \<Rightarrow> (err + Transaction option) \<times> Transaction \<Rightarrow> db \<Rightarrow> bool" where
  "reference_found d t r d' \<longleftrightarrow>
     (case r of (q, t') \<Rightarrow> d' = d \<and> attached d t t' \<and> (t_referenceExternalTransactionID t = '''' \<longrightarrow> q = Inr None \<and> t' = t) \<and>
        (case q of Inl e \<Rightarrow> unsettled d t e | Inr _ \<Rightarrow> \<not> waits d t))"

lemma succeeds_refuse_reversed:
  assumes "faultless E" and "\<And>e. refused e \<Longrightarrow> Q (Inl e, t) d n" and "Q (Inr (Some r), t) d n"
  shows "succeeds E (refuse_reversed t r) d n Q"
proof (cases "IsReversal (t_kind t)")
  case False
  with assms show ?thesis by (auto simp: refuse_reversed_def intro: succeeds_basic)
next
  case True
  have "succeeds E (HasProcessedReversal (t_id r)) d n (\<lambda>h d' n'. d' = d \<and> n' = n)"
    by (rule succeeds_HasProcessedReversal [OF assms(1)]) simp
  then have "ends E (attempt (HasProcessedReversal (t_id r)) (\<lambda>h.
        case h of
          Inl e \<Rightarrow> return_ok (Inl e, t)
        | Inr reversed \<Rightarrow>
            if reversed then return_ok (Inl (RejectionError FailureCodeReferenceAlreadyReversed), t)
            else return_ok (Inr (Some r), t))) d n (\<lambda>q d' n'. \<exists>a. q = Inr a \<and> Q a d' n')"
    by (intro succeeds_attempt, elim succeeds_mono)
      (use assms(2,3) in \<open>auto intro!: ends_basic assms(2) refused_domain simp: code_defs\<close>)
  with True show ?thesis by (simp add: refuse_reversed_def succeeds_def)
qed

lemma succeeds_findReference:
  assumes E: "faultless E" and b: "books d" and c: "constraints d" and st: "\<not> IsTerminal (t_state t)"
  shows "succeeds E (findReference t) d n (\<lambda>r d' n'. reference_found d t r d' \<and> n' = n)"
proof (cases "t_referenceExternalTransactionID t = ''''")
  case True
  then show ?thesis
    by (auto simp: findReference_def reference_found_def attached_def waits_def intro: succeeds_basic)
next
  case named: False
  let ?P = "\<lambda>r. tr_ProviderID r = Some (t_providerID t) \<and>
    tr_ExternalTransactionID r = Some (t_referenceExternalTransactionID t)"
  have checked: "succeeds E (check_reference t q) d n (\<lambda>r d' n'. reference_found d t r d' \<and> n' = n)"
    if q: "case q of None \<Rightarrow> List.find ?P (transactions d) = None
        | Some u \<Rightarrow> \<exists>row. List.find ?P (transactions d) = Some row \<and> stores row u" for q
  proof (cases q)
    case None
    with q named have "waits d t" by (auto simp: waits_def find_None_iff)
    with None named show ?thesis
      by (auto simp: check_reference_def reference_found_def attached_def unsettled_def intro: succeeds_basic)
  next
    case (Some u)
    with q obtain row where row: "List.find ?P (transactions d) = Some row" and su: "stores row u" by auto
    note in_row = find_SomeD [OF row]
    have sel: "tr_ID row = t_id u" "tr_State row = state_String (t_state u)" "state_IsValid (t_state u)"
      using stores_sel [OF su] by (simp_all add: transaction_wf_defs)
    have ext: "tr_ExternalTransactionID row = optional (t_externalTransactionID u)"
      using su unfolding stores_def by (metis operation_row_sel(9))
    have prov: "t_providerID u = t_providerID t" "t_externalTransactionID u = t_referenceExternalTransactionID t"
      using in_row stores_sel(7) [OF su] ext by auto
    have waiting: "waits d t \<longleftrightarrow> \<not> IsTerminal (t_state u)"
    proof -
      have only: "r = row" if "r \<in> set (transactions d)" "?P r" for r
        using external_unique [OF c that(1) _ _ conjunct1 [OF in_row]] that in_row by blast
      have "state_of (tr_State row) = t_state u" using sel by (simp add: state_of_String)
      then show ?thesis unfolding waits_def using named in_row only by metis
    qed
    show ?thesis
    proof (cases "IsTerminal (t_state u)")
      case False
      with waiting Some named show ?thesis
        by (auto simp: check_reference_def reference_found_def attached_def unsettled_def intro: succeeds_basic)
    next
      case terminated: True
      with waiting have w: "\<not> waits d t" by simp
      show ?thesis
      proof (cases "ResolveReference t (Some u)")
        case (Inl e)
        have "refused e" using ResolveReference_refused [OF Inl named st prov] .
        with Inl Some terminated w named show ?thesis
          by (auto simp: check_reference_def reference_found_def attached_def unsettled_def intro: succeeds_basic)
      next
        case (Inr t')
        then have "t' = t\<lparr>t_referenceTransactionID := t_id u\<rparr>" by (simp add: ResolveReference_Inr_iff)
        moreover have "t_id u \<in> tr_ID ` set (transactions d)" using in_row sel(1) by force
        ultimately have "attached d t t'" unfolding attached_def resolved_from_def by auto
        then have "succeeds E (refuse_reversed t' u) d n (\<lambda>r d' n'. reference_found d t r d' \<and> n' = n)"
          using w named by (intro succeeds_refuse_reversed [OF E]) (auto simp: reference_found_def unsettled_def)
        with Inr Some terminated show ?thesis by (simp add: check_reference_def)
      qed
    qed
  qed
  have "succeeds E (FindByExternalID (t_providerID t) (t_referenceExternalTransactionID t)) d n
    (\<lambda>q d' n'. d' = d \<and> n' = n \<and> (case q of None \<Rightarrow> List.find ?P (transactions d) = None
        | Some u \<Rightarrow> \<exists>row. List.find ?P (transactions d) = Some row \<and> stores row u))"
    by (rule succeeds_finds(2) [OF E b]) simp
  then have "ends E (attempt (FindByExternalID (t_providerID t) (t_referenceExternalTransactionID t)) (\<lambda>r.
        case r of Inl e \<Rightarrow> return_ok (Inl e, t) | Inr found \<Rightarrow> check_reference t found)) d n
      (\<lambda>r d' n'. \<exists>a. r = Inr a \<and> reference_found d t a d' \<and> n' = n)"
    by (intro succeeds_attempt, elim succeeds_mono) (simp add: checked [unfolded succeeds_def] del: split_paired_Ex)
  with named show ?thesis by (simp add: findReference_def succeeds_def)
qed

section \<open>Applying\<close>

text \<open>When an operation that is no reversal is carried out.\<close>

definition settles :: "Wallet \<Rightarrow> Transaction \<Rightarrow> bool" where
  "settles w t \<longleftrightarrow> t_playerID t = w_playerID w \<and> currency (t_amount t) = wallet_Currency w \<and>
     (t_kind t = KindBet \<longrightarrow> money_reading (t_amount t) \<le> money_reading (w_balance w))"

definition has_room :: "Wallet \<Rightarrow> Money \<Rightarrow> bool" where
  "has_room w amount \<longleftrightarrow> money_reading (w_balance w) + money_reading amount \<le> 9223372036854775807"

lemma wallet_Apply_settles:
  assumes w: "wallet_wf w" and t: "transaction_wf t" "t_walletID t = w_id w" "reference_attached t q"
    and "at \<noteq> 0" "i \<noteq> NilID" and room: "has_room w (t_amount t)"
  shows "case wallet_Apply w (Some t) q at i of Inl e \<Rightarrow> refused e | Inr _ \<Rightarrow> True"
    and "\<not> IsReversal (t_kind t) \<Longrightarrow> ok (wallet_Apply w (Some t) q at i) \<longleftrightarrow> settles w t"
proof -
  have amount: "0 \<le> money_reading (t_amount t)"
    using t(1) by (auto simp: transaction_wf_def kind_amount_ok_def split: if_splits)
  have bal: "0 \<le> money_reading (w_balance w)" using w by (simp add: wallet_wf_def)
  have bound: "target_balance w x (t_amount t) \<le> 9223372036854775807" for x
    using room amount by (auto simp: target_balance_def signed_amount_def has_room_def)
  have fits: "operation_fits w t q \<longleftrightarrow> t_playerID t = w_playerID w \<and> currency (t_amount t) = wallet_Currency w"
    using t by (auto simp: operation_fits_def)
  show "case wallet_Apply w (Some t) q at i of Inl e \<Rightarrow> refused e | Inr _ \<Rightarrow> True"
  proof (cases "operation_fits w t q")
    case True
    with bound show ?thesis
      unfolding wallet_Apply_eq [OF w t(1) True assms(5,6)]
      by (auto simp: Let_def code_defs not_less [symmetric] intro!: refused_domain split: option.splits)
  next
    case False
    then show ?thesis
      using t(2,3) fits
      by (auto simp: wallet_Apply_def reference_attached_guard code_defs intro!: refused_domain)
  qed
  show "ok (wallet_Apply w (Some t) q at i) \<longleftrightarrow> settles w t" if "\<not> IsReversal (t_kind t)"
  proof (cases "operation_fits w t q")
    case True
    with bound [of Debit] bound [of Credit] that bal amount fits show ?thesis
      unfolding wallet_Apply_eq [OF w t(1) True assms(5,6)]
      by (auto simp: Let_def operation_direction_def settles_def IsReversal_def target_balance_def signed_amount_def
          not_less split: if_splits)
  next
    case False
    with wallet_Apply_misfit [OF this] fits show ?thesis by (auto simp: settles_def)
  qed
qed

lemma good_reference_attached:
  assumes "good_reference d t q" and "transaction_wf t" and "books d"
  shows "reference_attached t q"
proof (cases q)
  case None
  with assms show ?thesis
    by (auto simp: good_reference_def reference_attached_def transaction_wf_def kind_reference_ok_def RequiresReference_def)
next
  case (Some r)
  with assms obtain row u where "rehydrate_row row = Inr r" "stores row u"
    by (auto simp: good_reference_def books_def transactions_inv_def)
  then have "t_id r \<noteq> NilID" using stores_unique stores_sel(9) by (metis transaction_wf_def)
  with Some assms(1) show ?thesis by (auto simp: good_reference_def reference_attached_def)
qed

definition applies ::
  "environment \<Rightarrow> db \<Rightarrow> Wallet \<Rightarrow> Transaction \<Rightarrow> time \<Rightarrow> nat \<Rightarrow> err option \<times> Entry option \<times> Wallet \<times> Transaction \<Rightarrow> nat \<Rightarrow> bool" where
  "applies E d w t at n r n' \<longleftrightarrow>
     (case r of (outcome, entry, w', t') \<Rightarrow> attached d t t' \<and>
        (t_referenceExternalTransactionID t = '''' \<longrightarrow> outcome = None \<longleftrightarrow> settles w t) \<and>
        (case outcome of
           Some e \<Rightarrow> unsettled d t e
         | None \<Rightarrow> \<not> waits d t \<and> (\<forall>e. entry = Some e \<longrightarrow> entry_id e = env_NewID E n)) \<and> n' \<le> Suc n)"

lemma succeeds_find_and_apply:
  assumes E: "faultless E" and ids: "env_NewID E n \<noteq> NilID" and at: "at \<noteq> 0"
    and b: "books d" and c: "constraints d" and w: "wallet_wf w"
    and t: "transaction_wf t" "\<not> IsTerminal (t_state t)" "t_walletID t = w_id w" and room: "has_room w (t_amount t)"
  shows "succeeds E (find_and_apply w t at) d n (\<lambda>r d' n'. d' = d \<and> applies E d w t at n r n')"
proof -
  have step: "succeeds E (case q of Inl e \<Rightarrow> return_ok (Some e, None, w, t')
       | Inr q \<Rightarrow> bind_action NewID (\<lambda>i. case wallet_Apply w (Some t') q at i of
             Inl e \<Rightarrow> return_ok (Some e, None, w, t')
           | Inr (entry, w') \<Rightarrow> return_ok (None, entry, w', t'))) d n
      (\<lambda>r d' n'. d' = d \<and> applies E d w t at n r n')"
    if found: "reference_found d t (q, t') d" and good: "case q of Inl e \<Rightarrow> True | Inr r \<Rightarrow> good_reference d t' r"
    for q t'
  proof (cases q)
    case (Inl e)
    with found show ?thesis
      by (auto simp: reference_found_def applies_def intro!: succeeds_basic split: if_splits)
  next
    case (Inr r)
    have att: "attached d t t'" and w0: "\<not> waits d t" and none: "t_referenceExternalTransactionID t = '''' \<longrightarrow> r = None \<and> t' = t"
      using found Inr by (auto simp: reference_found_def)
    have res: "resolved_from t t'" using att by (simp add: attached_def)
    have t': "transaction_wf t'" "t_walletID t' = w_id w" "has_room w (t_amount t')"
      using resolved_from_sel [OF res] t room by simp_all
    have ra: "reference_attached t' r" using good_reference_attached [OF _ t'(1) b] good Inr by simp
    have plain: "\<not> IsReversal (t_kind t')" if "t_referenceExternalTransactionID t = ''''"
      using that none t(1) by (auto simp: transaction_wf_def kind_reference_ok_def RequiresReference_def)
    have "succeeds E (case wallet_Apply w (Some t') r at (env_NewID E n) of
             Inl e \<Rightarrow> return_ok (Some e, None, w, t')
           | Inr (entry, w') \<Rightarrow> return_ok (None, entry, w', t')) d (Suc n)
        (\<lambda>r d' n'. d' = d \<and> applies E d w t at n r n')"
    proof -
      note out = wallet_Apply_settles [OF w t'(1,2) ra at ids t'(3)]
      show ?thesis
      proof (cases "wallet_Apply w (Some t') r at (env_NewID E n)")
        case (Inl e)
        with out plain none att w0 show ?thesis
          by (auto simp: applies_def unsettled_def intro!: succeeds_basic)
      next
        case (Inr x)
        obtain entry w' where x: "x = (entry, w')" by fastforce
        have "\<forall>e. entry = Some e \<longrightarrow> entry_id e = env_NewID E n"
          using wallet_Apply_Inr [OF Inr [unfolded x]] by (auto simp: movement_def split: option.splits)
        with Inr x out plain none att w0 show ?thesis
          by (auto simp: applies_def intro!: succeeds_basic)
      qed
    qed
    then show ?thesis unfolding Inr by (simp, intro succeeds_bind succeeds_drawn)
  qed
  have "succeeds E (findReference t) d n (\<lambda>r d' n'. (reference_found d t r d' \<and> n' = n) \<and>
      (case r of (q, t') \<Rightarrow> d' = d \<and> (case q of Inl e \<Rightarrow> True | Inr r \<Rightarrow> good_reference d t' r)))"
    by (rule succeeds_does [OF succeeds_findReference [OF E b c t(2)]])
      (auto simp: reference_found_def dest!: does_findReference)
  then show ?thesis
    unfolding find_and_apply_def
    by (intro succeeds_bind, elim succeeds_mono) (use step in auto)
qed

section \<open>Concluding\<close>

lemma applied_balance:
  assumes "wallet_Apply w (Some t') q at i = Inr (entry, w')" and "wallet_wf w"
  shows "money_like (w_balance w') (t_amount t')"
proof -
  note app = wallet_Apply_Inr [OF assms(1)]
  have like: "money_like (w_balance w) (t_amount t')"
    using app assms(2) by (simp add: operation_fits_def money_like_def wallet_wf_def wallet_Currency_def)
  show ?thesis
  proof (cases "operation_direction t' q")
    case None
    with app like show ?thesis by simp
  next
    case (Some dir)
    with app obtain e where "movement w (t_amount t') (t_id t') dir at i e w'" by auto
    with movement_balance [OF this] like show ?thesis unfolding money_like_def by metis
  qed
qed

text \<open>The state an operation is concluded with.\<close>

definition conclusion :: "db \<Rightarrow> Transaction \<Rightarrow> err option \<Rightarrow> State" where
  "conclusion d t outcome = (if waits d t then StatePendingReference else if outcome = None then StateProcessed else StateRejected)"

lemma concludes:
  assumes ap: "applies E d w t at n (outcome, entry, w', t') n'" and at: "at \<noteq> 0" and w: "wallet_wf w"
    and t: "t_state t \<in> {StatePending, StatePendingReference}" "waits d t \<Longrightarrow> t_state t = StatePending"
    and did: "case outcome of Some e \<Rightarrow> entry = None \<and> w' = w
      | None \<Rightarrow> \<exists>q i. good_reference d t' q \<and> wallet_Apply w (Some t') q at i = Inr (entry, w')"
  shows "\<exists>t''. conclude t' w' outcome at = Inr t'' \<and> decided d w t at t'' entry w' \<and>
    t_state t'' = conclusion d t outcome \<and> t_referenceTransactionID t'' = t_referenceTransactionID t' \<and>
    t_referenceAttempts t'' = t_referenceAttempts t"
proof -
  have res: "resolved_from t t'" using ap by (simp add: applies_def attached_def)
  note sel = resolved_from_sel [OF res]
  show ?thesis
  proof (cases outcome)
    case None
    with did obtain q i where q: "good_reference d t' q" "wallet_Apply w (Some t') q at i = Inr (entry, w')" by auto
    let ?t = "t'\<lparr>t_state := StateProcessed, t_updatedAt := at, t_resultBalance := Some (w_balance w')\<rparr>"
    have c: "conclude t' w' outcome at = Inr ?t"
      using None applied_balance [OF q(2) w] at t sel by (simp add: conclude_def MarkProcessed_Inr_iff)
    have "wager_step t' ?t" using conclude_Inr [OF c] by simp
    then have "decided d w t at ?t entry w'" unfolding decided_def using res q by blast
    then show ?thesis using c None ap sel by (auto simp: conclusion_def applies_def)
  next
    case (Some e)
    with ap have un: "unsettled d t e" by (simp add: applies_def)
    have "\<exists>t''. conclude t' w' outcome at = Inr t'' \<and> t_state t'' = conclusion d t outcome \<and>
      t_referenceTransactionID t'' = t_referenceTransactionID t'"
    proof (cases "waits d t")
      case True
      then have "t_referenceExternalTransactionID t' \<noteq> ''''" using sel by (simp add: waits_def)
      with True un Some at t sel show ?thesis
        by (simp add: unsettled_def conclude_def conclusion_def MarkPendingReference_Inr_iff)
    next
      case False
      with un obtain code where "refused e" "CodeOf e = Some code" "code \<noteq> ''''"
        by (auto simp: unsettled_def refused_def)
      with False Some at t sel show ?thesis
        by (simp add: refused_def conclude_def conclusion_def MarkRejected_Inr_iff)
    qed
    then obtain t'' where c: "conclude t' w' outcome at = Inr t''" "t_state t'' = conclusion d t outcome"
      "t_referenceTransactionID t'' = t_referenceTransactionID t'" by blast
    have "decided d w t at t'' entry w'"
      unfolding decided_def using conclude_Inr [OF c(1)] res did Some by auto
    moreover have "t_referenceAttempts t'' = t_referenceAttempts t" using conclude_Inr [OF c(1)] Some sel by simp
    ultimately show ?thesis using c by blast
  qed
qed

section \<open>The events\<close>

definition marshalled :: "environment \<Rightarrow> nat \<Rightarrow> Event \<Rightarrow> bool" where
  "marshalled E n e \<longleftrightarrow> event_Marshal e = Inr e \<and> ev_ID e \<in> {env_NewID E n, env_NewID E (Suc n)}"

lemma event_Marshal_ok:
  assumes "ok (time_MarshalJSON (ev_OccurredAt e))" and "\<forall>m \<in> set (payload_moneys (ev_Data e)). \<not> currency_IsZero (currency m)"
  shows "event_Marshal e = Inr e"
proof -
  have "\<exists>ys. map_results money_MarshalJSON ms = Inr ys"
    if "\<forall>m \<in> set ms. \<not> currency_IsZero (currency m)" for ms
    using that by (induction ms) (auto simp: money_MarshalJSON_def money_Validate_ok)
  with assms show ?thesis
    unfolding event_Marshal_def by (cases "time_MarshalJSON (ev_OccurredAt e)") fastforce+
qed

lemma outcome_event:
  assumes wf: "transaction_wf t" and c: "c \<noteq> ''''" and at: "at \<noteq> 0" "ok (time_MarshalJSON at)"
    and st: "t_state t \<in> {StateProcessed, StateRejected, StatePendingReference}"
  shows "\<exists>e. (if t_state t = StatePendingReference
         then NewWagerTransactionPendingReference i (Some t) c at
       else if t_state t = StateRejected then NewWagerTransactionRejected i (Some t) c at
       else NewWagerTransactionProcessed i (Some t) c at) = Inr e \<and> event_Marshal e = Inr e \<and> ev_ID e = i"
proof -
  have req: "requireTransaction (Some t) c at = Inr t" using c at by (simp add: requireTransaction_Inr)
  have cur: "\<not> currency_IsZero (currency (t_amount t))" using wf by (simp add: transaction_wf_def kind_amount_ok_def)
  have bal: "t_state t = StateProcessed \<Longrightarrow> \<exists>b. t_resultBalance t = Some b \<and> \<not> currency_IsZero (currency b)"
    using wf cur by (auto simp: transaction_wf_defs money_like_def)
  have code: "t_state t = StateRejected \<Longrightarrow> t_failureCode t \<noteq> ''''"
    using wf by (auto simp: transaction_wf_defs)
  from st bal code cur at req show ?thesis
    by (auto simp: NewWagerTransactionPendingReference_def NewWagerTransactionRejected_def
        NewWagerTransactionProcessed_def newEvent_def intro!: event_Marshal_ok)
qed

lemma succeeds_newEvents:
  assumes wf: "transaction_wf t" and c: "c \<noteq> ''''" and at: "at \<noteq> 0" "ok (time_MarshalJSON at)"
    and st: "t_state t \<in> {StateProcessed, StateRejected, StatePendingReference}"
    and ids: "env_NewID E n \<noteq> env_NewID E (Suc n)"
    and entry: "\<forall>e. entry = Some e \<longrightarrow> entry_wf e \<and> entry_walletID e = w_id w"
  shows "succeeds E (newEvents t w entry c at) d n
    (\<lambda>es d' n'. d' = d \<and> distinct (map ev_ID es) \<and> (\<forall>e \<in> set es. marshalled E n e))"
    (is "succeeds E _ d n ?Q")
  unfolding newEvents_def
proof (rule succeeds_bind, rule succeeds_drawn)
  let ?i = "env_NewID E n" and ?j = "env_NewID E (Suc n)"
  obtain outcome where o: "(if t_state t = StatePendingReference
         then NewWagerTransactionPendingReference ?i (Some t) c at
       else if t_state t = StateRejected then NewWagerTransactionRejected ?i (Some t) c at
       else NewWagerTransactionProcessed ?i (Some t) c at) = Inr outcome"
    "event_Marshal outcome = Inr outcome" "ev_ID outcome = ?i"
    using outcome_event [OF wf c at st] by blast
  have first: "marshalled E n outcome" using o by (simp add: marshalled_def)
  have balance: "\<exists>x. NewWalletBalanceChanged ?j (Some w) (Some e) c at = Inr x \<and> marshalled E n x \<and> ev_ID x = ?j"
    if "entry = Some e" for e
  proof -
    have e: "entry_walletID e = w_id w" "entry_wf e" using entry that by simp_all
    have cur: "\<not> currency_IsZero (currency (entry_amount e))" "\<not> currency_IsZero (currency (entry_balanceBefore e))"
      "\<not> currency_IsZero (currency (entry_balanceAfter e))" using e(2) by (auto simp: entry_wf_def money_like_def)
    then have "\<exists>x. NewWalletBalanceChanged ?j (Some w) (Some e) c at = Inr x \<and> event_Marshal x = Inr x \<and> ev_ID x = ?j"
      using e(1) c at
      by (auto simp: NewWalletBalanceChanged_def requireEnvelope_def IsZero_time_def newEvent_def
          intro!: event_Marshal_ok)
    then show ?thesis unfolding marshalled_def by blast
  qed
  have second: "succeeds E (bind_action (of_result (NewWalletBalanceChanged ?j (Some w) (Some e) c at))
         (\<lambda>balanceChanged. return_ok [outcome, balanceChanged])) d (Suc (Suc n)) ?Q" if some: "entry = Some e" for e
  proof -
    obtain x where x: "NewWalletBalanceChanged ?j (Some w) (Some e) c at = Inr x" "marshalled E n x" "ev_ID x = ?j"
      using balance [OF some] by blast
    with first ids o(3) show ?thesis
      by (intro succeeds_bind, intro succeeds_basic(2) [OF x(1)], intro succeeds_basic(1)) simp
  qed
  show "succeeds E (bind_action (of_result (if t_state t = StatePendingReference
         then NewWagerTransactionPendingReference ?i (Some t) c at
       else if t_state t = StateRejected then NewWagerTransactionRejected ?i (Some t) c at
       else NewWagerTransactionProcessed ?i (Some t) c at)) (\<lambda>outcome.
     case entry of
       None \<Rightarrow> return_ok [outcome]
     | Some e \<Rightarrow> bind_action NewID (\<lambda>j.
         bind_action (of_result (NewWalletBalanceChanged j (Some w) (Some e) c at))
           (\<lambda>balanceChanged. return_ok [outcome, balanceChanged])))) d (Suc n) ?Q"
  proof (rule succeeds_bind, rule succeeds_basic, rule o(1), cases entry)
    case None
    with first show "succeeds E (case entry of None \<Rightarrow> return_ok [outcome]
     | Some e \<Rightarrow> bind_action NewID (\<lambda>j.
         bind_action (of_result (NewWalletBalanceChanged j (Some w) (Some e) c at))
           (\<lambda>balanceChanged. return_ok [outcome, balanceChanged]))) d (Suc n) ?Q"
      by (auto intro!: succeeds_basic)
  next
    case (Some e)
    show "succeeds E (case entry of None \<Rightarrow> return_ok [outcome]
     | Some e \<Rightarrow> bind_action NewID (\<lambda>j.
         bind_action (of_result (NewWalletBalanceChanged j (Some w) (Some e) c at))
           (\<lambda>balanceChanged. return_ok [outcome, balanceChanged]))) d (Suc n) ?Q"
      unfolding Some option.case by (rule succeeds_bind, rule succeeds_drawn, rule second [OF Some])
  qed
qed

section \<open>Recording\<close>

lemma succeeds_append_event:
  assumes E: "faultless E" and e: "event_Marshal e = Inr e" and fresh: "ev_ID e \<notin> or_ID ` set (outbox d)"
    and Q: "\<And>r. or_ID r = ev_ID e \<Longrightarrow> Q () (d\<lparr>outbox := outbox d @ [r]\<rparr>) n"
  shows "succeeds E (append_event e) d n Q"
  unfolding succeeds_def
proof (rule endsI)
  fix w assume w: "inside E d n w"
  let ?arg = "\<lparr>io_ID = ev_ID e, io_AggregateID = ev_AggregateID e, io_EventType = ev_Type e, io_Payload = e,
    io_OccurredAt = ev_OccurredAt e\<rparr>"
  let ?w = "w\<lparr>sequence := sequence w + 1\<rparr>"
  let ?r = "inserted_event (the_session ?w) ?arg"
  let ?d = "d\<lparr>outbox := outbox d @ [?r]\<rparr>"
  let ?v = "(next_call ?w)\<lparr>tx := Some (?d, False)\<rparr>"
  have seq: "\<forall>q \<in> set (outbox d). or_Sequence q \<le> sequence w" using w by (simp add: inside_def)
  have r: "or_ID ?r = ev_ID e" "or_Sequence ?r = sequence w + 1" "or_Attempts ?r = 0"
    by (simp_all add: inserted_event_def the_session_def)
  have "insert_row outbox_checks outbox_uniques [] ?r (outbox d) = Inr (outbox d @ [?r])"
    using fresh seq r by (force simp: insert_row_Inr admit_Inr outbox_checks_def outbox_uniques_def)
  then have "statement (InsertOutboxEvent ?arg) ?w = (Inr (), ?v)"
    using w E by (simp add: statement_def inside_def faultless_def InsertOutboxEvent_def)
  then have "append_event e w = (Inr (), ?v)"
    by (simp add: append_event_def e bind_action_def attempt_def draw_sequence_def translated_def return_ok_def)
  moreover have "inside E ?d n ?v"
    using w seq r by (fastforce simp: inside_def next_call_def)
  ultimately show "\<exists>r w' d' n'. append_event e w = (r, w') \<and> inside E d' n' w' \<and> n \<le> n' \<and> (\<exists>a. r = Inr a \<and> Q a d' n')"
    using Q [OF r(1)] by blast
qed

lemma succeeds_append_events:
  assumes "faultless E" and "\<forall>e \<in> set es. event_Marshal e = Inr e \<and> ev_ID e \<notin> or_ID ` set (outbox d)"
    and "distinct (map ev_ID es)" and "\<And>os n. Q () (d\<lparr>outbox := os\<rparr>) n"
  shows "succeeds E (append_events es) d n Q"
  using assms(2-4)
proof (induction es arbitrary: d n)
  case Nil
  then have "Q () (d\<lparr>outbox := outbox d\<rparr>) n" by blast
  then show ?case by (auto intro: succeeds_basic)
next
  case (Cons e es)
  have "succeeds E (append_events es) (d\<lparr>outbox := outbox d @ [r]\<rparr>) n Q" if "or_ID r = ev_ID e" for r
  proof (rule Cons.IH)
    show "distinct (map ev_ID es)" using Cons.prems(2) by simp
    show "Q () (d\<lparr>outbox := outbox d @ [r]\<rparr>\<lparr>outbox := os\<rparr>) n" for os n using Cons.prems(3) by simp
    have "ev_ID e \<notin> ev_ID ` set es" using Cons.prems(2) by simp
    then have "ev_ID x \<noteq> or_ID r" if "x \<in> set es" for x using that \<open>or_ID r = ev_ID e\<close> by (metis imageI)
    then show "\<forall>x \<in> set es. event_Marshal x = Inr x \<and> ev_ID x \<notin> or_ID ` set (outbox (d\<lparr>outbox := outbox d @ [r]\<rparr>))"
      using Cons.prems(1) by auto
  qed
  then have "succeeds E (append_event e) d n (\<lambda>_ d' n'. succeeds E (append_events es) d' n' Q)"
    using Cons.prems(1) by (intro succeeds_append_event [OF assms(1)]) auto
  then show ?case by (simp add: succeeds_bind)
qed

lemma succeeds_write:
  assumes "faultless E" and "\<And>s. \<exists>a d'. f s d = Inr (a, d') \<and> outbox d' = outbox d \<and> g a = return_ok b \<and> Q b d' n"
  shows "succeeds E (bind_action queries (\<lambda>_. attempt (statement f) (\<lambda>r. case r of Inr x \<Rightarrow> g x | Inl e \<Rightarrow> h e))) d n Q"
proof (rule succeeds_bind, rule succeeds_drawn)
  have "succeeds E (statement f) d n (\<lambda>a d' n'. g a = return_ok b \<and> Q b d' n')"
    using assms by (rule succeeds_statement)
  then show "succeeds E (attempt (statement f) (\<lambda>r. case r of Inr x \<Rightarrow> g x | Inl e \<Rightarrow> h e)) d n Q"
    by (subst succeeds_def, intro succeeds_attempt, elim succeeds_mono) (auto intro: ends_basic)
qed

text \<open>The row of a new operation is admitted.\<close>

lemma kind_String_reversals:
  "kind_IsValid k \<Longrightarrow> kind_String k = ''REFUND'' \<longleftrightarrow> k = KindRefund"
  "kind_IsValid k \<Longrightarrow> kind_String k = ''ROLLBACK'' \<longleftrightarrow> k = KindRollback"
  "kind_IsValid k \<Longrightarrow> kind_String k = ''OPENING'' \<longleftrightarrow> k = KindOpening"
  by (auto simp: kind_IsValid_def)

lemma known_Strings:
  "kind_IsValid k \<Longrightarrow> kind_String k \<in> set known_kinds"
  "state_IsValid s \<Longrightarrow> state_String s \<in> set known_states"
  by (auto simp: kind_IsValid_def state_IsValid_def known_kinds_def known_states_def)

lemma row_reversed_iff:
  "transaction_wf t \<Longrightarrow> row_reversed (operation_row t x) \<longleftrightarrow> IsReversal (t_kind t) \<and> t_state t = StateProcessed"
  by (simp add: row_reversed_def row_is_reversal_def IsReversal_def transaction_wf_defs kind_String_reversals state_String_iff)

lemma admit_operation:
  assumes t: "transaction_wf t" "t_kind t \<noteq> KindOpening" "0 \<le>s to_int32 (t_referenceAttempts t)"
    and x: "t_state t = StatePendingReference \<Longrightarrow> x \<noteq> None"
    and fresh: "t_id t \<notin> tr_ID ` set others" and wal: "t_walletID t \<in> wr_ID ` set (wallets d)"
    and keys: "\<forall>q \<in> set others. tr_ProviderID q = Some (t_providerID t) \<longrightarrow>
        tr_IdempotencyKey q \<noteq> Some (t_idempotencyKey t) \<and> tr_ExternalTransactionID q \<noteq> Some (t_externalTransactionID t)"
    and ref: "t_referenceTransactionID t \<in> insert NilID (tr_ID ` set (transactions d))"
    and rev: "IsReversal (t_kind t) \<Longrightarrow> t_state t = StateProcessed \<Longrightarrow> t_referenceTransactionID t \<noteq> NilID \<and>
        (\<forall>q \<in> set others. row_reversed q \<longrightarrow> tr_ReferenceTransactionID q \<noteq> Some (t_referenceTransactionID t))"
  shows "admit transaction_checks transaction_uniques (transaction_foreign d) others (operation_row t x) = Inr ()"
proof -
  let ?r = "operation_row t x"
  have kind: "kind_String (t_kind t) \<in> set known_kinds" "kind_String (t_kind t) \<noteq> ''OPENING''"
    and state: "state_String (t_state t) \<in> set known_states" "state_IsValid (t_state t)"
    using t by (simp_all add: transaction_wf_defs known_Strings kind_String_reversals)
  have origin: "row_origin ?r" using t kind by (auto simp: row_origin_def transaction_wf_defs optional_def)
  have amount: "0 \<le>s minorUnits (t_amount t)"
    using t(1) by (auto simp: sle64 transaction_wf_def kind_amount_ok_def money_reading_def split: if_splits)
  have reversed: "row_reversed ?r \<longleftrightarrow> IsReversal (t_kind t) \<and> t_state t = StateProcessed"
    using t(1) by (rule row_reversed_iff)
  have checks: "\<forall>(c, p) \<in> set transaction_checks. p ?r"
    using amount kind state origin reversed rev x state_String_iff [OF state(2)] t(3)
    by (auto simp: transaction_checks_def row_reversed_def ReferenceTransactionID_def IsNilID_def to_int32_def)
  have uniques: "\<forall>(c, clash) \<in> set transaction_uniques. \<forall>q \<in> set others. \<not> clash q ?r"
  proof -
    have "\<not> clash q ?r" if q: "q \<in> set others" and c: "(c, clash) \<in> set transaction_uniques" for c clash q
    proof -
      have id: "tr_ID q \<noteq> t_id t" using fresh q by force
      have key: "\<not> (same_value (tr_ProviderID q) (optional (t_providerID t)) \<and>
          same_value (tr_IdempotencyKey q) (optional (t_idempotencyKey t)))"
        "\<not> (same_value (tr_ProviderID q) (optional (t_providerID t)) \<and>
          same_value (tr_ExternalTransactionID q) (optional (t_externalTransactionID t)))"
        using bspec [OF keys q] by (auto simp: same_value_def optional_def split: if_splits)
      have "\<not> (row_reversed q \<and> row_reversed ?r \<and> same_value (tr_ReferenceTransactionID q) (ReferenceTransactionID t))"
        using rev q reversed by (auto simp: same_value_def ReferenceTransactionID_def IsNilID_def)
      with id key kind c show ?thesis by (auto simp: transaction_uniques_def)
    qed
    then show ?thesis by auto
  qed
  have foreign: "\<forall>(c, p) \<in> set (transaction_foreign d). p ?r"
    using wal ref by (auto simp: transaction_foreign_def ReferenceTransactionID_def IsNilID_def)
  show ?thesis unfolding admit_Inr using checks uniques foreign by blast
qed

lemma succeeds_Create:
  assumes E: "faultless E" and t: "transaction_wf t" "t_referenceAttempts t = 0"
      "currency_iso4217 (currency_code (currency (t_amount t)))"
    and adm: "\<And>x. (t_state t = StatePendingReference \<Longrightarrow> x \<noteq> None) \<Longrightarrow>
      admit transaction_checks transaction_uniques (transaction_foreign d) (transactions d) (operation_row t x) = Inr ()"
    and Q: "\<And>r. tr_ID r = t_id t \<Longrightarrow> Q () (d\<lparr>transactions := transactions d @ [r]\<rparr>) n"
  shows "succeeds E (TransactionRepository_Create t) d n Q"
  unfolding TransactionRepository_Create_def
proof (rule succeeds_write [OF E])
  fix s :: session
  let ?x = "if tr_State (transaction_to_params t) = ''PENDING_REFERENCE'' then Some (ss_now s) else None"
  have "state_IsValid (t_state t)" using t(1) by (simp add: transaction_wf_defs)
  then have "t_state t = StatePendingReference \<Longrightarrow> ?x \<noteq> None"
    by (simp add: transaction_to_params_def)
  from adm [OF this]
  have "insert_row transaction_checks transaction_uniques (transaction_foreign d)
      (inserted_transaction (ss_now s) (transaction_to_params t)) (transactions d) =
      Inr (transactions d @ [operation_row t ?x])"
    unfolding inserted_operation_row [OF t(2)] insert_row_Inr by simp
  moreover have "length (tr_Currency (transaction_to_params t)) = 3"
    using t(3) by (simp add: transaction_to_params_def currency_String_def currency_iso4217_def)
  ultimately have "InsertWagerTransaction (transaction_to_params t) s d =
      Inr ((), d\<lparr>transactions := transactions d @ [operation_row t ?x]\<rparr>)"
    by (simp add: InsertWagerTransaction_def)
  then show "\<exists>a d'. InsertWagerTransaction (transaction_to_params t) s d = Inr (a, d') \<and> outbox d' = outbox d \<and>
      return_ok () = return_ok () \<and> Q () d' n"
    using Q by auto
qed

lemma clashes_only:
  "(\<And>c clash q. (c, clash) \<in> set us \<Longrightarrow> q \<in> set rs \<Longrightarrow> clash q r \<Longrightarrow> P q) \<Longrightarrow>
     \<forall>(c, clash) \<in> set us. \<forall>q \<in> set (filter (\<lambda>q. \<not> P q) rs). \<not> clash q r"
  by auto

lemma succeeds_UpdateBalance:
  assumes E: "faultless E" and rows: "valid_rows wallet_checks wallet_uniques (wallets d)" "distinct (map wr_ID (wallets d))"
      "wallet_to_row w \<in> set (wallets d)"
    and w: "wallet_wf w" "wallet_iso w" "w_version w \<noteq> MaxInt64" and mv: "movement w m tid dir at i e w'"
    and Q: "\<And>ws. map wr_ID ws = map wr_ID (wallets d) \<Longrightarrow> Q () (d\<lparr>wallets := ws\<rparr>) n"
  shows "succeeds E (UpdateBalance w' (w_version w)) d n Q"
proof -
  let ?P = "\<lambda>r. wr_ID r = w_id w \<and> wr_Version r = w_version w"
  let ?f = "\<lambda>r. r\<lparr>wr_BalanceMinor := minorUnits (w_balance w'), wr_Version := w_version w', wr_UpdatedAt := w_updatedAt w'\<rparr>"
  have same: "w_id w' = w_id w" "w_playerID w' = w_playerID w" "w_createdAt w' = w_createdAt w"
    "wallet_Currency w' = wallet_Currency w"
    using mv movement_balance [OF mv] by (simp_all add: movement_def money_like_def wallet_Currency_def)
  have new: "?f (wallet_to_row w) = wallet_to_row w'" using same by (simp add: wallet_to_row_def)
  have wf: "wallet_wf w'" using movement_wf [OF mv w(1,3)] by simp
  have only: "q = wallet_to_row w" if "q \<in> set (wallets d)" "wr_ID q = w_id w" for q
    using distinct_key_unique [OF rows(2) that(1) rows(3)] that(2) by simp
  have "List.find ?P (wallets d) \<noteq> None"
    unfolding find_None_iff using rows(3) by (metis wallet_to_row_sel(1,5))
  then obtain row where find: "List.find ?P (wallets d) = Some row" by blast
  from find_SomeD [OF find] have "row = wallet_to_row w" using only by simp
  note find = find [unfolded this]
  have player: "q = wallet_to_row w"
    if q: "q \<in> set (wallets d)" "wr_PlayerID q = w_playerID w" "wr_Currency q = currency_code (wallet_Currency w)" for q
    by (rule valid_rows_unique [OF rows(1) symmetric_schema(1) _ q(1) rows(3),
          of walletsPlayerCurrencyKey "\<lambda>q r. wr_PlayerID q = wr_PlayerID r \<and> wr_Currency q = wr_Currency r"])
      (use q in \<open>simp_all add: wallet_uniques_def\<close>)
  have "admit wallet_checks wallet_uniques [] (filter (\<lambda>q. \<not> ?P q) (wallets d)) (wallet_to_row w') = Inr ()"
  proof -
    have "\<forall>(c, clash) \<in> set wallet_uniques. \<forall>q \<in> set (filter (\<lambda>q. \<not> ?P q) (wallets d)). \<not> clash q (wallet_to_row w')"
    proof (rule clashes_only)
      fix c clash q assume "(c, clash) \<in> set wallet_uniques" "q \<in> set (wallets d)" "clash q (wallet_to_row w')"
      then have "q = wallet_to_row w" using same only player by (auto simp: wallet_uniques_def)
      then show "?P q" by simp
    qed
    moreover have "\<forall>(c, p) \<in> set wallet_checks. p (wallet_to_row w')"
      using wf w(2) same by (simp add: wallet_checks_def sle64 wallet_wf_def wallet_iso_def money_reading_def)
    ultimately show ?thesis unfolding admit_Inr by simp
  qed
  then have "update_row wallet_checks wallet_uniques [] ?P ?f (wallets d) =
      Inr (count_rows ?P (wallets d), update_rows ?P ?f (wallets d))"
    unfolding update_row_Inr using find new by (intro disjI2) simp
  moreover have "count_rows ?P (wallets d) \<noteq> 0"
    unfolding count_rows_0_iff using rows(3) by (metis wallet_to_row_sel(1,5))
  moreover have "map wr_ID (update_rows ?P ?f (wallets d)) = map wr_ID (wallets d)" by (rule map_update_rows) simp
  ultimately show ?thesis
    unfolding UpdateBalance_def using Q same(1)
    by (intro succeeds_write [OF E]) (auto simp: UpdateWalletBalance_def)
qed

lemma succeeds_Append:
  assumes E: "faultless E" and e: "entry_wf e" "currency_iso4217 (currency_code (currency (entry_amount e)))"
    and fresh: "entry_id e \<notin> lr_ID ` set (entries d)" "entry_transactionID e \<notin> lr_TransactionID ` set (entries d)"
    and foreign: "entry_walletID e \<in> wr_ID ` set (wallets d)" "entry_transactionID e \<in> tr_ID ` set (transactions d)"
    and Q: "\<And>es. Q () (d\<lparr>entries := es\<rparr>) n"
  shows "succeeds E (LedgerRepository_Append e) d n Q"
proof -
  have "admit ledger_checks ledger_uniques (ledger_foreign d) (entries d) (entry_to_row e) = Inr ()"
    unfolding admit_Inr using e fresh foreign
    by (force simp: ledger_checks_def ledger_uniques_def ledger_foreign_def sle64 sless64 entry_to_row_def
        entry_wf_def money_reading_def row_signed_amount_def signed_amount_def direction_IsValid_def)
  then have "insert_row ledger_checks ledger_uniques (ledger_foreign d) (entry_to_row e) (entries d) =
      Inr (entries d @ [entry_to_row e])" by (simp add: insert_row_Inr)
  moreover have "length (lr_Currency (entry_to_row e)) = 3"
    using e(2) by (simp add: entry_to_row_def currency_String_def currency_iso4217_def)
  ultimately have "InsertLedgerEntry (entry_to_row e) s d = Inr ((), d\<lparr>entries := entries d @ [entry_to_row e]\<rparr>)" for s
    by (simp add: InsertLedgerEntry_def)
  then show ?thesis
    unfolding LedgerRepository_Append_def
    by (intro succeeds_bind succeeds_drawn succeeds_translated succeeds_statement [OF E]) (use Q in auto)
qed

lemma decided_reversal:
  assumes "decided d w t at t'' entry w'" and "IsReversal (t_kind t'')" and "t_state t'' = StateProcessed"
  shows "t_referenceTransactionID t'' \<noteq> NilID \<and>
    (\<forall>q \<in> set (transactions d). row_reversed q \<longrightarrow> tr_ReferenceTransactionID q \<noteq> Some (t_referenceTransactionID t''))"
proof -
  obtain t' q i where good: "good_reference d t' q" and app: "wallet_Apply w (Some t') q at i = Inr (entry, w')"
    and t'': "t'' = t'\<lparr>t_state := StateProcessed, t_updatedAt := at, t_resultBalance := Some (w_balance w')\<rparr>"
    using assms(1,3) by (auto simp: decided_def)
  then obtain r where "q = Some r" "t_id r \<noteq> NilID"
    using wallet_Apply_Inr [OF app] assms(2) by (auto simp: operation_fits_def reference_attached_def)
  with good assms(2) show ?thesis by (auto simp: good_reference_def t'')
qed

text \<open>What \<open>record\<close> does after the operation was saved, in a database whose other tables are as they were.\<close>

lemma succeeds_recorded:
  assumes E: "faultless E" and d: "wallets d1 = wallets d" "entries d1 = entries d" "outbox d1 = outbox d"
      "t_id t'' \<in> tr_ID ` set (transactions d1)"
    and rows: "valid_rows wallet_checks wallet_uniques (wallets d)" "distinct (map wr_ID (wallets d))"
    and w: "wallet_to_row w \<in> set (wallets d)" "wallet_wf w" "wallet_iso w" "w_version w \<noteq> MaxInt64"
    and new: "t_id t'' \<notin> lr_TransactionID ` set (entries d)" "currency_iso4217 (currency_code (currency (t_amount t'')))"
    and dec: "decided d0 w t at t'' entry w'"
    and entry: "\<forall>e. entry = Some e \<longrightarrow> entry_id e \<notin> lr_ID ` set (entries d)"
    and es: "\<forall>e \<in> set es. event_Marshal e = Inr e \<and> ev_ID e \<notin> or_ID ` set (outbox d)" "distinct (map ev_ID es)"
  shows "succeeds E (bind_action (case entry of None \<Rightarrow> return_ok ()
        | Some e \<Rightarrow> bind_action (UpdateBalance w' (w_version w)) (\<lambda>_. LedgerRepository_Append e))
      (\<lambda>_. OutboxRepository_Append es)) d1 n (\<lambda>_ d' _. transactions d' = transactions d1)"
proof -
  have wal: "w_id w \<in> wr_ID ` set (wallets d)" using w(1) by (metis imageI wallet_to_row_sel(1))
  have out: "succeeds E (OutboxRepository_Append es) d2 m (\<lambda>_ d' _. transactions d' = transactions d1)"
    if "outbox d2 = outbox d" "transactions d2 = transactions d1" for d2 m
    unfolding OutboxRepository_Append_def
    using es that by (intro succeeds_bind succeeds_drawn succeeds_append_events [OF E]) simp_all
  show ?thesis
  proof (cases entry)
    case None
    with out d show ?thesis by (auto intro!: succeeds_bind succeeds_basic)
  next
    case (Some e)
    obtain dir i where mv: "movement w (t_amount t'') (t_id t'') dir at i e w'"
      using decided_moves dec Some by blast
    then have e: "entry_wf e" "entry_transactionID e = t_id t''" "entry_walletID e = w_id w" "entry_amount e = t_amount t''"
      by (simp_all add: movement_def)
    have "succeeds E (LedgerRepository_Append e) (d1\<lparr>wallets := ws\<rparr>) m
        (\<lambda>_ d' n'. succeeds E (OutboxRepository_Append es) d' n' (\<lambda>_ d' _. transactions d' = transactions d1))"
      if ws: "map wr_ID ws = map wr_ID (wallets d)" for ws m
    proof (rule succeeds_Append [OF E e(1)])
      have "wr_ID ` set ws = wr_ID ` set (wallets d)" using arg_cong [OF ws, of set] by simp
      then show "entry_walletID e \<in> wr_ID ` set (wallets (d1\<lparr>wallets := ws\<rparr>))" using wal e by simp
    qed (use e new entry Some d out in auto)
    then have "succeeds E (UpdateBalance w' (w_version w)) d1 n
        (\<lambda>_ d' n'. succeeds E (LedgerRepository_Append e) d' n'
           (\<lambda>_ d' n'. succeeds E (OutboxRepository_Append es) d' n' (\<lambda>_ d' _. transactions d' = transactions d1)))"
      using rows w mv d by (intro succeeds_UpdateBalance [OF E]) auto
    then show ?thesis unfolding Some option.case by (intro succeeds_bind)
  qed
qed

lemma succeeds_record:
  assumes E: "faultless E" and b: "books d" and c: "constraints d"
    and w: "wallet_to_row w \<in> set (wallets d)" "wallet_wf w" "wallet_iso w" "w_version w \<noteq> MaxInt64"
    and t: "transaction_wf t" "t_kind t \<noteq> KindOpening" "t_walletID t = w_id w"
      "currency_iso4217 (currency_code (currency (t_amount t)))" "t_id t \<notin> tr_ID ` set (transactions d)"
    and keys: "\<forall>q \<in> set (transactions d). tr_ProviderID q = Some (t_providerID t) \<longrightarrow>
        tr_IdempotencyKey q \<noteq> Some (t_idempotencyKey t) \<and> tr_ExternalTransactionID q \<noteq> Some (t_externalTransactionID t)"
    and dec: "decided d w t at t'' entry w'" and att: "t_referenceAttempts t'' = 0"
    and ref: "t_referenceTransactionID t'' \<in> insert NilID (tr_ID ` set (transactions d))"
    and entry: "\<forall>e. entry = Some e \<longrightarrow> entry_id e \<notin> lr_ID ` set (entries d)"
    and es: "\<forall>e \<in> set es. event_Marshal e = Inr e \<and> ev_ID e \<notin> or_ID ` set (outbox d)" "distinct (map ev_ID es)"
  shows "succeeds E (record_settlement w' (w_version w) t'' entry es TransactionRepository_Create) d n (\<lambda>_ _ _. True)"
proof -
  have same: "same_request t t''" and wf: "transaction_wf t''" using decided_request [OF dec t(1)] by simp_all
  note eqs = same [unfolded same_request_def]
  have wal: "w_id w \<in> wr_ID ` set (wallets d)" using w(1) by (metis imageI wallet_to_row_sel(1))
  have adm: "admit transaction_checks transaction_uniques (transaction_foreign d) (transactions d) (operation_row t'' x) = Inr ()"
    if "t_state t'' = StatePendingReference \<Longrightarrow> x \<noteq> None" for x
    using wf eqs t keys att ref that wal decided_reversal [OF dec] by (intro admit_operation) (auto simp: to_int32_def)
  have "lr_TransactionID l \<in> tr_ID ` set (transactions d)" if "l \<in> set (entries d)" for l
    using b that by (force simp: books_def entries_inv_def entry_of_def)
  then have new: "t_id t'' \<notin> lr_TransactionID ` set (entries d)" using t(5) eqs by auto
  have dist: "distinct (map wr_ID (wallets d))" using b by (simp add: books_def wallets_inv_def)
  show ?thesis
    unfolding record_settlement_def
  proof (rule succeeds_bind, rule succeeds_Create [OF E wf att _ adm])
    fix r :: transaction_row assume "tr_ID r = t_id t''"
    then show "succeeds E (bind_action (case entry of None \<Rightarrow> return_ok ()
        | Some e \<Rightarrow> bind_action (UpdateBalance w' (w_version w)) (\<lambda>_. LedgerRepository_Append e))
      (\<lambda>_. OutboxRepository_Append es)) (d\<lparr>transactions := transactions d @ [r]\<rparr>) n (\<lambda>_ _ _. True)"
      using t(4) eqs
      by (intro succeeds_mono [OF succeeds_recorded [OF E _ _ _ _ constraintsD(1) [OF c] dist w new _ dec entry es]]) simp_all
  qed (use t(4) eqs in simp_all)
qed

section \<open>A new operation\<close>

definition unrecorded :: "db \<Rightarrow> string \<Rightarrow> string \<Rightarrow> string \<Rightarrow> bool" where
  "unrecorded d provider idempotencyKey external \<longleftrightarrow>
     (\<forall>q \<in> set (transactions d). tr_ProviderID q = Some provider \<longrightarrow>
        tr_IdempotencyKey q \<noteq> Some idempotencyKey \<and> tr_ExternalTransactionID q \<noteq> Some external)"

text \<open>The next \<open>m\<close> identifiers are not nil, differ from each other and from those in use.\<close>

definition fresh :: "environment \<Rightarrow> db \<Rightarrow> nat \<Rightarrow> nat \<Rightarrow> bool" where
  "fresh E d n m \<longleftrightarrow> distinct (map (env_NewID E) [n..<n + m]) \<and>
     (\<forall>i \<in> set (map (env_NewID E) [n..<n + m]). i \<noteq> NilID \<and> i \<notin> tr_ID ` set (transactions d) \<and>
        i \<notin> lr_ID ` set (entries d) \<and> i \<notin> or_ID ` set (outbox d))"

lemma freshD:
  assumes "fresh E d n m" and "n \<le> k" "k < n + m"
  shows "env_NewID E k \<noteq> NilID" "env_NewID E k \<notin> tr_ID ` set (transactions d)"
    "env_NewID E k \<notin> lr_ID ` set (entries d)" "env_NewID E k \<notin> or_ID ` set (outbox d)"
  using assms by (simp_all add: fresh_def)

lemma fresh_next:
  assumes "fresh E d n m" and "n \<le> k" "Suc k < n + m"
  shows "env_NewID E k \<noteq> env_NewID E (Suc k)"
  using assms inj_onD [of "env_NewID E" "{n..<n + m}" k "Suc k"] by (auto simp: fresh_def distinct_map)

lemma fresh_later: "fresh E d n (Suc m) \<Longrightarrow> fresh E d (Suc n) m"
  by (simp add: fresh_def upt_conv_Cons del: upt_Suc)

lemma fresh_less: "fresh E d n m \<Longrightarrow> k \<le> m \<Longrightarrow> fresh E d n k"
  unfolding fresh_def distinct_map by (auto intro: inj_on_subset)

lemma succeeds_findReplay:
  assumes E: "faultless E" and b: "books d" and new: "unrecorded d (t_providerID t) (t_idempotencyKey t) (t_externalTransactionID t)"
    and Q: "Q None d n"
  shows "succeeds E (findReplay t) d n Q"
  unfolding findReplay_def
proof (rule succeeds_bind, rule succeeds_finds(1) [OF E b])
  fix q assume q: "case q of None \<Rightarrow> List.find (\<lambda>r. tr_ProviderID r = Some (t_providerID t) \<and>
      tr_IdempotencyKey r = Some (t_idempotencyKey t)) (transactions d) = None
    | Some u \<Rightarrow> \<exists>row. List.find (\<lambda>r. tr_ProviderID r = Some (t_providerID t) \<and>
      tr_IdempotencyKey r = Some (t_idempotencyKey t)) (transactions d) = Some row \<and> stores row u"
  have "q = None" using q new by (auto simp: unrecorded_def dest!: find_SomeD split: option.splits)
  note q_none = this
  have x_none: "x = None" if "case x of None \<Rightarrow> List.find (\<lambda>r. tr_ProviderID r = Some (t_providerID t) \<and>
      tr_ExternalTransactionID r = Some (t_externalTransactionID t)) (transactions d) = None
    | Some u \<Rightarrow> \<exists>row. List.find (\<lambda>r. tr_ProviderID r = Some (t_providerID t) \<and>
      tr_ExternalTransactionID r = Some (t_externalTransactionID t)) (transactions d) = Some row \<and> stores row u" for x
    using that new by (auto simp: unrecorded_def dest!: find_SomeD split: option.splits)
  have "succeeds E (FindByExternalID (t_providerID t) (t_externalTransactionID t)) d n
      (\<lambda>found d' n'. found = None \<and> d' = d \<and> n' = n)"
    by (rule succeeds_finds(2) [OF E b]) (simp add: x_none)
  then have "succeeds E (bind_action (FindByExternalID (t_providerID t) (t_externalTransactionID t)) (\<lambda>found.
             case found of Some _ \<Rightarrow> raise_err (ConflictError FailureCodeIdempotencyConflict)
             | None \<Rightarrow> return_ok None)) d n Q"
    using Q by (intro succeeds_bind) (elim succeeds_mono, auto intro: succeeds_basic)
  with q_none show "succeeds E (case q of
         Some p \<Rightarrow> if t_payloadHash p \<noteq> t_payloadHash t
             then raise_err (ConflictError FailureCodeIdempotencyConflict) else return_ok (Some p)
       | None \<Rightarrow> bind_action (FindByExternalID (t_providerID t) (t_externalTransactionID t)) (\<lambda>found.
             case found of Some _ \<Rightarrow> raise_err (ConflictError FailureCodeIdempotencyConflict)
             | None \<Rightarrow> return_ok None)) d n Q"
    by simp
qed

text \<open>The answer for an operation that was concluded now.\<close>

definition answered :: "db \<Rightarrow> Wallet \<Rightarrow> Transaction \<Rightarrow> WagerResult \<Rightarrow> bool" where
  "answered d w t a \<longleftrightarrow> \<not> res_IdempotentReplay a \<and> (\<exists>outcome. res_State a = conclusion d t outcome \<and>
     (t_referenceExternalTransactionID t = '''' \<longrightarrow> outcome = None \<longleftrightarrow> settles w t))"

lemma succeeds_process:
  assumes E: "faultless E" and ids: "fresh E d n 3" and at: "at \<noteq> 0" "ok (time_MarshalJSON at)" and corr: "c \<noteq> ''''"
    and b: "books d" and cs: "constraints d"
    and w: "wallet_to_row w \<in> set (wallets d)" "wallet_wf w" "wallet_iso w" "w_version w \<noteq> MaxInt64"
      "has_room w (t_amount t)"
    and t: "transaction_wf t" "t_state t = StatePending" "t_referenceAttempts t = 0" "t_kind t \<noteq> KindOpening"
      "t_walletID t = w_id w" "currency_iso4217 (currency_code (currency (t_amount t)))" "t_id t \<notin> tr_ID ` set (transactions d)"
      "t_referenceTransactionID t = NilID"
    and new: "unrecorded d (t_providerID t) (t_idempotencyKey t) (t_externalTransactionID t)"
  shows "succeeds E (process_in_transaction t c at) d n (\<lambda>a _ _. answered d w t a)"
    (is "succeeds E _ d n ?Q")
proof -
  have settled: "succeeds E (bind_action (of_result (conclude t' w' outcome at)) (\<lambda>t''.
           bind_action (newEvents t'' w' entry c at) (\<lambda>events.
           bind_action (record_settlement w' (w_version w) t'' entry events TransactionRepository_Create)
             (\<lambda>_. return_ok (newWagerResult t'' False))))) d m ?Q"
    if ap: "applies E d w t at n (outcome, entry, w', t') m" and m: "n \<le> m"
      and did: "case outcome of Some e \<Rightarrow> entry = None \<and> w' = w
        | None \<Rightarrow> \<exists>q i. good_reference d t' q \<and> wallet_Apply w (Some t') q at i = Inr (entry, w')"
    for outcome entry w' t' m
  proof -
    obtain t'' where con: "conclude t' w' outcome at = Inr t''" and dec: "decided d w t at t'' entry w'"
      and st: "t_state t'' = conclusion d t outcome" and ref: "t_referenceTransactionID t'' = t_referenceTransactionID t'"
      and att: "t_referenceAttempts t'' = 0"
      using concludes [OF ap at(1) w(2) _ _ did] t(2,3) by auto
    have wf: "transaction_wf t''" using decided_request [OF dec t(1)] by simp
    have stored: "t_referenceTransactionID t'' \<in> insert NilID (tr_ID ` set (transactions d))"
      using ap ref t(8) by (auto simp: applies_def attached_def)
    have entry: "\<forall>e. entry = Some e \<longrightarrow> entry_wf e \<and> entry_walletID e = w_id w'"
      using decided_moves dec by (auto simp: movement_def)
    have none: "outcome \<noteq> None \<Longrightarrow> entry = None" using did by (cases outcome) auto
    have unused: "\<forall>e. entry = Some e \<longrightarrow> entry_id e \<notin> lr_ID ` set (entries d)"
    proof (cases outcome)
      case None
      with ap have "\<forall>e. entry = Some e \<longrightarrow> entry_id e = env_NewID E n" by (auto simp: applies_def)
      with freshD(3) [OF ids, of n] show ?thesis by auto
    qed (use none in simp)
    have states: "t_state t'' \<in> {StateProcessed, StateRejected, StatePendingReference}"
      using st by (auto simp: conclusion_def)
    have "m \<le> Suc n" using ap by (simp add: applies_def)
    then have more: "env_NewID E m \<noteq> env_NewID E (Suc m)" "env_NewID E m \<notin> or_ID ` set (outbox d)"
      "env_NewID E (Suc m) \<notin> or_ID ` set (outbox d)"
      using fresh_next [OF ids m] freshD(4) [OF ids, of m] freshD(4) [OF ids, of "Suc m"] m by simp_all
    have "succeeds E (record_settlement w' (w_version w) t'' entry es TransactionRepository_Create) d m2
        (\<lambda>_ d' n'. succeeds E (return_ok (newWagerResult t'' False)) d' n' ?Q)"
      if es: "distinct (map ev_ID es)" "\<forall>e \<in> set es. marshalled E m e" for es m2
    proof -
      have "\<forall>e \<in> set es. event_Marshal e = Inr e \<and> ev_ID e \<notin> or_ID ` set (outbox d)"
        using es(2) more(2,3) unfolding marshalled_def by auto
      then have "succeeds E (record_settlement w' (w_version w) t'' entry es TransactionRepository_Create) d m2 (\<lambda>_ _ _. True)"
        using new by (intro succeeds_record [OF E b cs w(1-4) t(1,4,5,6,7) _ dec att stored unused _ es(1)])
          (simp_all add: unrecorded_def)
      moreover have "?Q (newWagerResult t'' False) d' n'" for d' n'
        using st ap by (auto simp: answered_def newWagerResult_def applies_def)
      ultimately show ?thesis by (elim succeeds_mono) (rule succeeds_basic)
    qed
    note recording = this
    have "succeeds E (newEvents t'' w' entry c at) d m (\<lambda>es d' n'.
        succeeds E (bind_action (record_settlement w' (w_version w) t'' entry es TransactionRepository_Create)
          (\<lambda>_. return_ok (newWagerResult t'' False))) d' n' ?Q)"
      by (rule succeeds_mono [OF succeeds_newEvents [OF wf corr at states more(1) entry]])
        (blast intro: succeeds_bind recording)
    then show ?thesis by (intro succeeds_bind succeeds_basic(2) [OF con])
  qed
  have "succeeds E (find_and_apply w t at) d n (\<lambda>r d' n'. (d' = d \<and> applies E d w t at n r n') \<and>
      (case r of (outcome, entry, w', t') \<Rightarrow> case outcome of Some e \<Rightarrow> entry = None \<and> w' = w
        | None \<Rightarrow> \<exists>q i. good_reference d t' q \<and> wallet_Apply w (Some t') q at i = Inr (entry, w')))"
    using freshD(1) [OF ids, of n]
    by (intro succeeds_does succeeds_find_and_apply [OF E _ at(1) b cs w(2) t(1) _ t(5) w(5)])
      (auto simp: t(2) IsTerminal_def dest!: does_find_and_apply)
  then have "succeeds E (find_and_apply w t at) d n (\<lambda>(outcome, entry, w', t') d' n'.
        succeeds E (bind_action (of_result (conclude t' w' outcome at)) (\<lambda>t''.
           bind_action (newEvents t'' w' entry c at) (\<lambda>events.
           bind_action (record_settlement w' (w_version w) t'' entry events TransactionRepository_Create)
             (\<lambda>_. return_ok (newWagerResult t'' False))))) d' n' ?Q)"
    by (elim succeeds_mono) (auto intro!: settled)
  then have "succeeds E (bind_action (find_and_apply w t at) (\<lambda>(outcome, entry, w', t').
           bind_action (of_result (conclude t' w' outcome at)) (\<lambda>t''.
           bind_action (newEvents t'' w' entry c at) (\<lambda>events.
           bind_action (record_settlement w' (w_version w) t'' entry events TransactionRepository_Create)
             (\<lambda>_. return_ok (newWagerResult t'' False)))))) d n ?Q"
    by (intro succeeds_bind) (elim succeeds_mono, auto split: prod.splits)
  then show ?thesis
    unfolding process_in_transaction_def t(5)
    by (intro succeeds_bind [where m = "GetForUpdate _"] succeeds_GetForUpdate [OF E b w(1-3)]
        succeeds_bind [where m = "findReplay _"] succeeds_findReplay [OF E b new]) simp
qed

section \<open>A request\<close>

text \<open>What a request needs for an operation to be made of it.\<close>

definition well_formed :: "ProcessWagerInput \<Rightarrow> bool" where
  "well_formed input \<longleftrightarrow>
     in_CorrelationID input \<noteq> '''' \<and> IsExternal (in_Kind input) \<and> in_WalletID input \<noteq> NilID \<and> in_PlayerID input \<noteq> NilID \<and>
     '''' \<notin> set [in_ProviderID input, in_ExternalTransactionID input, in_IdempotencyKey input, in_RoundID input, in_GameID input] \<and>
     kind_amount_ok (in_Kind input) (in_Money input) \<and>
     kind_reference_ok (in_Kind input) (in_ReferenceExternalTransactionID input) \<and>
     in_ReferenceExternalTransactionID input \<noteq> in_ExternalTransactionID input \<and> constructed (in_Money input)"

lemma well_formed_operation:
  assumes "well_formed input" and "hash \<noteq> ''''" and "i \<noteq> NilID" and "at \<noteq> 0"
  shows "\<exists>t. NewExternal (new_external_params input hash i at) = Inr t \<and> t_playerID t = in_PlayerID input \<and>
    t_referenceExternalTransactionID t = in_ReferenceExternalTransactionID input \<and> t_referenceTransactionID t = NilID"
proof -
  have "validateKindAmount (in_Kind input) (in_Money input) = Inr ()"
    "validateKindReference (in_Kind input) (in_ReferenceExternalTransactionID input) = Inr ()"
    using assms(1) by (simp_all add: well_formed_def)
  then show ?thesis
    using assms by (simp add: NewExternal_def new_external_params_def well_formed_def IsExternal_def Require_Inr
        del: validateKindAmount_Inr validateKindReference_Inr)
qed

text \<open>
  An environment that lets the program work: no faults, an instant within the years JSON can carry,
  the next identifiers fresh (four are enough for any operation: the operation, its entry and two
  events), a sequence ahead of the outbox.
\<close>

definition favourable :: "world \<Rightarrow> bool" where
  "favourable w \<longleftrightarrow> faultless (env w) \<and> fresh (env w) (committed w) (identifiers w) 4 \<and>
     env_clock (env w) (instants w) \<noteq> 0 \<and> ok (time_MarshalJSON (env_clock (env w) (instants w))) \<and>
     (\<forall>r \<in> set (outbox (committed w)). or_Sequence r \<le> sequence w)"

text \<open>The request waits for its reference, or is carried out on the wallet of the row.\<close>

definition request_waits :: "db \<Rightarrow> ProcessWagerInput \<Rightarrow> bool" where
  "request_waits d input \<longleftrightarrow> in_ReferenceExternalTransactionID input \<noteq> '''' \<and>
     (\<forall>r \<in> set (transactions d). tr_ProviderID r = Some (in_ProviderID input) \<longrightarrow>
        tr_ExternalTransactionID r = Some (in_ReferenceExternalTransactionID input) \<longrightarrow> \<not> IsTerminal (state_of (tr_State r)))"

definition request_settles :: "wallet_row \<Rightarrow> ProcessWagerInput \<Rightarrow> bool" where
  "request_settles r input \<longleftrightarrow> in_PlayerID input = wr_PlayerID r \<and>
     currency_code (currency (in_Money input)) = wr_Currency r \<and>
     (in_Kind input = KindBet \<longrightarrow> money_reading (in_Money input) \<le> sint (wr_BalanceMinor r))"

definition room_for :: "wallet_row \<Rightarrow> ProcessWagerInput \<Rightarrow> bool" where
  "room_for r input \<longleftrightarrow> wr_Version r \<noteq> MaxInt64 \<and>
     sint (wr_BalanceMinor r) + money_reading (in_Money input) \<le> 9223372036854775807"

definition new_request :: "db \<Rightarrow> ProcessWagerInput \<Rightarrow> bool" where
  "new_request d input \<longleftrightarrow>
     unrecorded d (in_ProviderID input) (in_IdempotencyKey input) (in_ExternalTransactionID input)"

definition concluded :: "db \<Rightarrow> wallet_row \<Rightarrow> ProcessWagerInput \<Rightarrow> WagerResult \<Rightarrow> bool" where
  "concluded d r input a \<longleftrightarrow> \<not> res_IdempotentReplay a \<and>
     res_State a \<in> {StateProcessed, StateRejected, StatePendingReference} \<and>
     (res_State a = StatePendingReference \<longleftrightarrow> request_waits d input) \<and>
     (in_ReferenceExternalTransactionID input = '''' \<longrightarrow> res_State a = StateProcessed \<longleftrightarrow> request_settles r input)"

lemma request_hash: "well_formed input \<Longrightarrow> \<exists>hash. PayloadHash E input = Inr hash"
  by (simp add: well_formed_def kind_amount_ok_def PayloadHash_def money_Validate_ok)

text \<open>The operation made of a request, and its processing, from any identifier and instant that are fit.\<close>

lemma request_processed:
  assumes E: "faultless E" "fresh E d n 4" and inv: "books d" "constraints d"
    and at: "at \<noteq> 0" "ok (time_MarshalJSON at)" and inp: "well_formed input" and new: "new_request d input"
    and sha: "PayloadHash E input \<noteq> Inr ''''"
    and r: "r \<in> set (wallets d)" "wr_ID r = in_WalletID input" "room_for r input"
  obtains hash t where "PayloadHash E input = Inr hash" and "hash \<noteq> ''''"
    and "NewExternal (new_external_params input hash (env_NewID E n) at) = Inr t"
    and "succeeds E (process_in_transaction t (in_CorrelationID input) at) d (Suc n) (\<lambda>a _ _. concluded d r input a)"
proof -
  obtain x where x: "r = wallet_to_row x" "wallet_wf x" "wallet_iso x"
    using inv r(1) by (auto simp: books_def wallets_inv_def)
  have con: "constructed (in_Money input)" using inp by (simp add: well_formed_def)
  obtain hash where hash: "PayloadHash E input = Inr hash" "hash \<noteq> ''''" using request_hash [OF inp] sha by auto
  have id: "env_NewID E n \<noteq> NilID" "env_NewID E n \<notin> tr_ID ` set (transactions d)"
    using freshD [OF E(2), of n] by simp_all
  have later: "fresh E d (Suc n) 3" using fresh_later [of E d n 3] E(2) by simp
  obtain t where t: "NewExternal (new_external_params input hash (env_NewID E n) at) = Inr t" "t_playerID t = in_PlayerID input"
    "t_referenceExternalTransactionID t = in_ReferenceExternalTransactionID input" "t_referenceTransactionID t = NilID"
    using well_formed_operation [OF inp hash(2) id(1) at(1)] by blast
  note f = NewExternal_facts [OF t(1) con]
  have tw: "t_walletID t = w_id x" using f r(2) x(1) by simp
  have corr: "in_CorrelationID input \<noteq> ''''" using inp by (simp add: well_formed_def)
  have kind: "in_Kind input \<noteq> KindOpening" "currency_iso4217 (currency_code (currency (in_Money input)))"
    using f by metis+
  have run: "succeeds E (process_in_transaction t (in_CorrelationID input) at) d (Suc n) (\<lambda>a _ _. answered d x t a)"
    using E inv f r x new id t corr tw at kind later
    by (intro succeeds_process)
      (simp_all add: new_request_def room_for_def has_room_def money_reading_def)
  have "concluded d r input a" if "answered d x t a" for a
  proof -
    have "waits d t \<longleftrightarrow> request_waits d input" using f t(3) by (simp add: waits_def request_waits_def)
    moreover have "settles x t \<longleftrightarrow> request_settles r input"
      using f t(2) x(1) by (auto simp: settles_def request_settles_def money_reading_def wallet_Currency_def Currency.expand)
    moreover have "request_waits d input \<Longrightarrow> in_ReferenceExternalTransactionID input \<noteq> ''''"
      by (simp add: request_waits_def)
    ultimately show ?thesis using that t(3) by (auto simp: concluded_def answered_def conclusion_def split: if_splits)
  qed
  then have "succeeds E (process_in_transaction t (in_CorrelationID input) at) d (Suc n) (\<lambda>a _ _. concluded d r input a)"
    using run by (elim succeeds_mono)
  from that [OF hash t(1) this] show thesis .
qed

lemma request_concluded:
  assumes w: "reachable w" "favourable w" and inp: "well_formed input" and new: "new_request (committed w) input"
    and sha: "PayloadHash (env w) input \<noteq> Inr ''''"
    and r: "r \<in> set (wallets (committed w))" "wr_ID r = in_WalletID input" "room_for r input"
  shows "\<exists>a w'. ProcessWager_Execute input w = (Inr a, w') \<and> concluded (committed w) r input a"
proof -
  let ?E = "env w" and ?d = "committed w"
  note inv = reachable_inv [OF w(1)]
  note fav = w(2) [unfolded favourable_def]
  let ?at = "env_clock ?E (instants w)"
  let ?w = "w\<lparr>instants := Suc (instants w), identifiers := Suc (identifiers w)\<rparr>"
  obtain hash t where hash: "PayloadHash ?E input = Inr hash"
    and t: "NewExternal (new_external_params input hash (env_NewID ?E (identifiers w)) ?at) = Inr t"
    and ok: "succeeds ?E (process_in_transaction t (in_CorrelationID input) ?at) ?d (identifiers ?w)
      (\<lambda>a _ _. concluded ?d r input a)"
    by (rule request_processed [of ?E ?d "identifiers w" ?at input r]) (use fav inv inp new sha r in simp_all)
  obtain a w1 n where run: "WithinTransaction (process_in_transaction t (in_CorrelationID input) ?at) ?w = (Inr a, w1)"
    and a: "concluded ?d r input a"
    by (rule succeeds_committed [of ?E _ ?w "\<lambda>a _ _. concluded ?d r input a"]) (use ok fav inv in auto)
  have "fst (ProcessWager_Execute input w) = Inr a"
    using inp hash t run
    by (simp add: well_formed_def ProcessWager_Execute_def bind_action_def attempt_def clock_now_def NewID_def of_result_def
        record_metric_def return_ok_def)
  then obtain w' where "ProcessWager_Execute input w = (Inr a, w')" by (metis prod.collapse)
  with a show ?thesis by blast
qed

end
