(* ===== verification/Resolution.thy ===== *)
theory Resolution
  imports Progress
begin

text \<open>
  Total correctness of a retry: in a favourable environment an operation that waits for its
  reference is concluded once the reference is there, and counts one attempt otherwise.
\<close>

section \<open>Saving a waiting operation\<close>

lemma to_int32_nonneg:
  assumes "0 \<le> sint (a :: int64)" and "sint a \<le> 2147483647"
  shows "0 \<le>s to_int32 a"
proof -
  have cast: "to_int32 (word_of_int k) = word_of_int k" for k
    unfolding to_int32_def by transfer simp
  have "to_int32 a = word_of_int (sint a)" using cast [of "sint a"] by simp
  then have "sint (to_int32 a) = sint a" using assms by (simp only: sint32_of_int)
  with assms(1) show ?thesis by (simp add: word_sle_eq)
qed

definition recorded_state :: "transaction_row list \<Rightarrow> ID \<Rightarrow> State \<Rightarrow> bool" where
  "recorded_state ts i s \<longleftrightarrow> (\<exists>r \<in> set ts. tr_ID r = i \<and> tr_State r = state_String s)"

lemma succeeds_UpdatePendingReference:
  assumes E: "faultless E" and b: "books d" and c: "constraints d"
    and row: "row0 \<in> set (transactions d)" "stores row0 t0" "t_state t0 = StatePendingReference"
    and t: "same_request t0 t" "transaction_wf t" "0 \<le>s to_int32 (t_referenceAttempts t)"
    and ref: "t_referenceTransactionID t \<in> insert NilID (tr_ID ` set (transactions d))"
    and rev: "IsReversal (t_kind t) \<Longrightarrow> t_state t = StateProcessed \<Longrightarrow> t_referenceTransactionID t \<noteq> NilID \<and>
        (\<forall>q \<in> set (transactions d). row_reversed q \<longrightarrow> tr_ReferenceTransactionID q \<noteq> Some (t_referenceTransactionID t))"
    and Q: "\<And>ts. map tr_ID ts = map tr_ID (transactions d) \<Longrightarrow> recorded_state ts (t_id t) (t_state t) \<Longrightarrow>
      Q () (d\<lparr>transactions := ts\<rparr>) n"
  shows "succeeds E (UpdatePendingReference t at) d n Q"
proof -
  let ?P = "\<lambda>r. tr_ID r = t_id t \<and> tr_State r = ''PENDING_REFERENCE''"
  let ?f = "updated_pending (pending_params t at)"
  let ?x = "up_NextAttemptAt (pending_params t at)"
  note eqs = t(1) [unfolded same_request_def]
  have dist: "distinct (map tr_ID (transactions d))" using b by (simp add: books_def transactions_inv_def)
  have sel: "tr_ID row0 = t_id t" "tr_State row0 = ''PENDING_REFERENCE''" "transaction_wf t0"
    "tr_WalletID row0 = t_walletID t" using stores_sel [OF row(2)] row(3) eqs by simp_all
  have new: "?f row0 = operation_row t ?x"
    using updated_operation_row [OF t(1)] row(2) unfolding stores_def by metis
  have only: "q = row0" if "q \<in> set (transactions d)" "tr_ID q = t_id t" for q
    using distinct_key_unique [OF dist that(1) row(1)] that(2) sel(1) by simp
  have "List.find ?P (transactions d) \<noteq> None" unfolding find_None_iff using row(1) sel by blast
  then obtain r where find: "List.find ?P (transactions d) = Some r" by blast
  from find_SomeD [OF find] have "r = row0" using only by simp
  note find = find [unfolded this]
  have pending: "t_kind t \<noteq> KindOpening" using open_state_wf [OF sel(3)] row(3) eqs by simp
  have cols: "tr_ProviderID row0 = optional (t_providerID t)" "tr_IdempotencyKey row0 = optional (t_idempotencyKey t)"
    "tr_ExternalTransactionID row0 = optional (t_externalTransactionID t)"
    using row(2) eqs unfolding stores_def by (metis operation_row_sel)+
  have full: "t_providerID t \<noteq> ''''" "t_idempotencyKey t \<noteq> ''''" "t_externalTransactionID t \<noteq> ''''"
    using t(2) pending by (simp_all add: transaction_wf_defs)
  have keys: "\<forall>q \<in> set (filter (\<lambda>q. \<not> ?P q) (transactions d)). tr_ProviderID q = Some (t_providerID t) \<longrightarrow>
      tr_IdempotencyKey q \<noteq> Some (t_idempotencyKey t) \<and> tr_ExternalTransactionID q \<noteq> Some (t_externalTransactionID t)"
  proof (intro ballI impI conjI notI)
    fix q assume q: "q \<in> set (filter (\<lambda>q. \<not> ?P q) (transactions d))" "tr_ProviderID q = Some (t_providerID t)"
    have mine: "tr_ProviderID row0 = Some (t_providerID t)" "tr_IdempotencyKey row0 = Some (t_idempotencyKey t)"
      "tr_ExternalTransactionID row0 = Some (t_externalTransactionID t)" using cols full by simp_all
    {
      assume "tr_IdempotencyKey q = Some (t_idempotencyKey t)"
      then have "q = row0" using keys_unique [OF c _ q(2) _ row(1) mine(1,2)] q(1) by simp
      with q(1) sel show False by simp
    next
      assume "tr_ExternalTransactionID q = Some (t_externalTransactionID t)"
      then have "q = row0" using external_unique [OF c _ q(2) _ row(1) mine(1,3)] q(1) by simp
      with q(1) sel show False by simp
    }
  qed
  have "admit transaction_checks transaction_uniques (transaction_foreign d) (filter (\<lambda>q. \<not> ?P q) (transactions d))
      (operation_row t ?x) = Inr ()"
  proof (rule admit_operation [OF t(2) pending t(3) _ _ _ keys ref])
    show "t_id t \<notin> tr_ID ` set (filter (\<lambda>q. \<not> ?P q) (transactions d))" using only sel by auto
    show "t_walletID t \<in> wr_ID ` set (wallets d)"
      using b row(1) sel(4) unfolding books_def transactions_inv_def by metis
  qed (use rev in \<open>auto simp: pending_params_def\<close>)
  then have "update_row transaction_checks transaction_uniques (transaction_foreign d) ?P ?f (transactions d) =
      Inr (count_rows ?P (transactions d), update_rows ?P ?f (transactions d))"
    unfolding update_row_Inr using find new by (intro disjI2) simp
  moreover have "count_rows ?P (transactions d) \<noteq> 0" unfolding count_rows_0_iff using row(1) sel by blast
  moreover have "map tr_ID (update_rows ?P ?f (transactions d)) = map tr_ID (transactions d)"
    by (rule map_update_rows) (simp add: updated_pending_def)
  moreover have "recorded_state (update_rows ?P ?f (transactions d)) (t_id t) (t_state t)"
  proof -
    have "?f row0 \<in> set (update_rows ?P ?f (transactions d))" 
      unfolding update_rows_def set_map by (rule image_eqI [OF _ row(1)]) (use sel in simp)
    then have "operation_row t ?x \<in> set (update_rows ?P ?f (transactions d))" by (simp only: new)
    then show ?thesis unfolding recorded_state_def by (rule bexI [rotated]) simp
  qed
  ultimately show ?thesis
    unfolding UpdatePendingReference_def using Q
    by (intro succeeds_write [OF E]) (auto simp: UpdatePendingReference_sql_def pending_params_def)
qed

section \<open>The outcome of an attempt\<close>

text \<open>The attempts of an operation stay below the maximum of the policy, which fits the column.\<close>

definition within_attempts :: "ReferenceRetryPolicy \<Rightarrow> int64 \<Rightarrow> bool" where
  "within_attempts policy attempts \<longleftrightarrow>
     0 \<le> sint attempts \<and> sint attempts < sint (rp_MaxAttempts policy) \<and> sint (rp_MaxAttempts policy) \<le> 2147483647"

definition still_waits :: "ReferenceRetryPolicy \<Rightarrow> db \<Rightarrow> Transaction \<Rightarrow> bool" where
  "still_waits policy d t \<longleftrightarrow> waits d t \<and> sint (t_referenceAttempts t) + 1 < sint (rp_MaxAttempts policy)"

lemma retry_concludes:
  assumes ap: "applies E d w t at n (outcome, entry, w', t') n'" and at: "at \<noteq> 0" and w: "wallet_wf w"
    and t: "t_state t = StatePendingReference" and att: "within_attempts policy (t_referenceAttempts t)"
    and did: "case outcome of Some e \<Rightarrow> entry = None \<and> w' = w
      | None \<Rightarrow> \<exists>q i. good_reference d t' q \<and> wallet_Apply w (Some t') q at i = Inr (entry, w')"
  shows "\<exists>t''. retry_outcome policy t' w' outcome at = Inr t'' \<and> decided d w t at t'' entry w' \<and>
    t_referenceTransactionID t'' = t_referenceTransactionID t' \<and>
    0 \<le> sint (t_referenceAttempts t'') \<and> sint (t_referenceAttempts t'') \<le> 2147483647 \<and>
    t_state t'' \<in> {StateProcessed, StateRejected, StatePendingReference} \<and>
    (t_state t'' = StatePendingReference \<longleftrightarrow> still_waits policy d t) \<and> (t_state t'' = StateProcessed \<longrightarrow> \<not> waits d t)"
proof (cases "waits d t")
  case False
  obtain t'' where c: "conclude t' w' outcome at = Inr t''" "decided d w t at t'' entry w'"
    "t_state t'' = conclusion d t outcome" "t_referenceTransactionID t'' = t_referenceTransactionID t'"
    "t_referenceAttempts t'' = t_referenceAttempts t"
    using concludes [OF ap at w _ _ did] t False by auto
  have "retry_outcome policy t' w' outcome at = conclude t' w' outcome at"
    using ap False by (auto simp: retry_outcome_def applies_def unsettled_def refused_def split: option.splits)
  with c False att show ?thesis
    by (auto simp: conclusion_def still_waits_def within_attempts_def)
next
  case True
  then obtain e where e: "outcome = Some e" "e = Sentinel ErrReferencePending"
    using ap by (cases outcome) (auto simp: applies_def unsettled_def)
  have res: "resolved_from t t'" using ap by (simp add: applies_def attached_def)
  note sel = resolved_from_sel [OF res]
  have s: "t_state t' = StatePendingReference" "1 \<le>s rp_MaxAttempts policy"
    using t att sel by (simp_all add: within_attempts_def sle64)
  have out: "retry_outcome policy t' w' outcome at =
      (case RecordMissingReference t' (rp_MaxAttempts policy) at of (Inl x, _) \<Rightarrow> Inl x | (Inr _, t'') \<Rightarrow> Inr t'')"
    using e by (simp add: retry_outcome_def)
  have dec: "decided d w t at t'' entry w'"
    if "RecordMissingReference t' (rp_MaxAttempts policy) at = (Inr (), t'')" "t_state t'' \<in> {StatePendingReference, StateRejected}" for t''
    using that res did e wager_step.missing [OF that(1)] by (auto simp: decided_def)
  show ?thesis
  proof (cases "sint (t_referenceAttempts t) + 1 < sint (rp_MaxAttempts policy)")
    case more: True
    let ?t = "t'\<lparr>t_referenceAttempts := t_referenceAttempts t' + 1, t_updatedAt := at\<rparr>"
    have rec: "RecordMissingReference t' (rp_MaxAttempts policy) at = (Inr (), ?t)"
      using RecordMissingReference_waits [OF at s(2,1)] more sel by simp
    have "sint (t_referenceAttempts t + 1) = sint (t_referenceAttempts t) + 1"
      using more att by (intro sint_attempt) (simp add: sless64 within_attempts_def)
    with out rec dec [OF rec] s(1) True more att sel show ?thesis
      by (auto simp: still_waits_def within_attempts_def)
  next
    case last: False
    let ?t = "t'\<lparr>t_referenceAttempts := rp_MaxAttempts policy, t_updatedAt := at, t_state := StateRejected,
      t_failureCode := FailureCodeReferenceNotFound\<rparr>"
    have rec: "RecordMissingReference t' (rp_MaxAttempts policy) at = (Inr (), ?t)"
      using RecordMissingReference_expires [OF at s(2,1)] last att sel by (simp add: within_attempts_def)
    with out dec [OF rec] True last att show ?thesis
      by (auto simp: still_waits_def within_attempts_def)
  qed
qed

section \<open>A retry\<close>

lemma succeeds_FindByID:
  assumes E: "faultless E" and b: "books d" and row: "row \<in> set (transactions d)" "stores row t" and Q: "Q (Some t) d n"
  shows "succeeds E (FindByID (t_id t)) d n Q"
proof -
  have dist: "distinct (map tr_ID (transactions d))" using b by (simp add: books_def transactions_inv_def)
  have id: "tr_ID row = t_id t" using stores_sel(1) [OF row(2)] .
  have "List.find (\<lambda>r. tr_ID r = t_id t) (transactions d) \<noteq> None"
    unfolding find_None_iff using row(1) id by blast
  then obtain r where find: "List.find (\<lambda>r. tr_ID r = t_id t) (transactions d) = Some r" by blast
  from find_SomeD [OF find] have "r = row" using distinct_key_unique [OF dist _ row(1)] id by simp
  with find have "List.find (\<lambda>r. tr_ID r = t_id t) (transactions d) = Some row" by simp
  then show ?thesis
    unfolding FindByID_def SelectWagerTransactionByID_def
    using stores_rehydrate [OF row(2)] Q by (intro succeeds_find [OF E]) simp
qed

lemma waiting_no_entry:
  assumes b: "books d" and row: "row \<in> set (transactions d)" "stores row t" "t_state t = StatePendingReference"
  shows "t_id t \<notin> lr_TransactionID ` set (entries d)"
proof
  assume "t_id t \<in> lr_TransactionID ` set (entries d)"
  then obtain l q where l: "l \<in> set (entries d)" "lr_TransactionID l = t_id t" "q \<in> set (transactions d)" "entry_of l q"
    using b by (auto simp: books_def entries_inv_def)
  have dist: "distinct (map tr_ID (transactions d))" using b by (simp add: books_def transactions_inv_def)
  have "tr_ID q = tr_ID row" using l(2,4) stores_sel(1) [OF row(2)] by (simp add: entry_of_def)
  then have "q = row" by (rule distinct_key_unique [OF dist l(3) row(1)])
  moreover have "\<not> moved_money row" using stores_moved_money [OF row(2)] row(3) by simp
  ultimately show False using l(4) by (simp add: entry_of_def)
qed

lemma succeeds_of_env: "Q (g E) d n \<Longrightarrow> succeeds E (\<lambda>v. (Inr (g (env v)), v)) d n Q"
  unfolding succeeds_def ends_def by (auto simp: inside_def)

lemma stores_reference: "stores r t \<Longrightarrow> tr_ReferenceTransactionID r = ReferenceTransactionID t"
  unfolding stores_def by (metis operation_row_sel(15))

definition resolved_as :: "ReferenceRetryPolicy \<Rightarrow> db \<Rightarrow> Transaction \<Rightarrow> State \<Rightarrow> bool" where
  "resolved_as policy d t s \<longleftrightarrow> s \<in> {StateProcessed, StateRejected, StatePendingReference} \<and>
     (s = StatePendingReference \<longleftrightarrow> still_waits policy d t) \<and> (s = StateProcessed \<longrightarrow> \<not> waits d t)"

lemma succeeds_retry:
  assumes E: "faultless E" and ids: "fresh E d n 3" and at: "at \<noteq> 0" "ok (time_MarshalJSON at)"
    and b: "books d" and cs: "constraints d"
    and w: "wallet_to_row w \<in> set (wallets d)" "wallet_wf w" "wallet_iso w" "w_version w \<noteq> MaxInt64"
      "has_room w (t_amount t)"
    and row: "row \<in> set (transactions d)" "stores row t" "t_state t = StatePendingReference" "t_walletID t = w_id w"
    and att: "within_attempts policy (t_referenceAttempts t)"
    and p: "pr_TransactionID p = t_id t" "pr_WalletID p = w_id w"
  shows "succeeds E (retry_in_transaction policy p at) d n
    (\<lambda>s d' _. resolved_as policy d t s \<and> recorded_state (transactions d') (t_id t) s)"
    (is "succeeds E _ d n ?Q")
proof -
  have t: "transaction_wf t" "currency_iso4217 (currency_code (currency (t_amount t)))"
    using stores_sel(9) [OF row(2)] row(2) by (simp_all add: stores_def)
  have dist: "distinct (map wr_ID (wallets d))" using b by (simp add: books_def wallets_inv_def)
  have own: "t_referenceTransactionID t \<in> insert NilID (tr_ID ` set (transactions d))"
  proof -
    have "case tr_ReferenceTransactionID row of None \<Rightarrow> True
        | Some i \<Rightarrow> i = tr_ID row \<or> (\<exists>q \<in> set (transactions d). tr_ID q = i)"
      using constraintsD(6) [OF cs row(1)] unfolding first_failed_None by (simp add: transaction_foreign_def)
    then show ?thesis
      using row(1) by (auto simp: stores_reference [OF row(2)] ReferenceTransactionID_def IsNilID_def intro: rev_image_eqI split: if_splits)
  qed
  have settled: "succeeds E (bind_action (of_result (retry_outcome policy t' w' outcome at)) (\<lambda>t''.
             if t_state t'' = StatePendingReference
               then bind_action (UpdatePendingReference t''
                   (time_Add at (policy_delay policy (t_referenceAttempts t''))))
                 (\<lambda>_. return_ok (t_state t''))
             else
               bind_action (\<lambda>v. (Inr (retry_correlation (env v) (t_id t'')), v)) (\<lambda>correlationID.
               bind_action (newEvents t'' w' entry correlationID at) (\<lambda>events.
               bind_action (record_settlement w' (w_version w) t'' entry events
                   (\<lambda>u. UpdatePendingReference u zero_time))
                 (\<lambda>_. return_ok (t_state t'')))))) d m ?Q"
    if ap: "applies E d w t at n (outcome, entry, w', t') m" and m: "n \<le> m"
      and did: "case outcome of Some e \<Rightarrow> entry = None \<and> w' = w
        | None \<Rightarrow> \<exists>q i. good_reference d t' q \<and> wallet_Apply w (Some t') q at i = Inr (entry, w')"
    for outcome entry w' t' m
  proof -
    obtain t'' where con: "retry_outcome policy t' w' outcome at = Inr t''" and dec: "decided d w t at t'' entry w'"
      and ref: "t_referenceTransactionID t'' = t_referenceTransactionID t'"
      and fits: "0 \<le> sint (t_referenceAttempts t'')" "sint (t_referenceAttempts t'') \<le> 2147483647"
      and states: "t_state t'' \<in> {StateProcessed, StateRejected, StatePendingReference}"
      and res: "resolved_as policy d t (t_state t'')"
      using retry_concludes [OF ap at(1) w(2) row(3) att did] by (auto simp: resolved_as_def)
    have same: "same_request t t''" and wf: "transaction_wf t''" using decided_request [OF dec t(1)] by simp_all
    note eqs = same [unfolded same_request_def]
    have stored: "t_referenceTransactionID t'' \<in> insert NilID (tr_ID ` set (transactions d))"
      using ap ref own by (auto simp: applies_def attached_def)
    have update: "succeeds E (UpdatePendingReference t'' x) d k R"
      if "\<And>ts. map tr_ID ts = map tr_ID (transactions d) \<Longrightarrow> recorded_state ts (t_id t) (t_state t'') \<Longrightarrow>
        R () (d\<lparr>transactions := ts\<rparr>) k" for x k R
      using that eqs by (intro succeeds_UpdatePendingReference [OF E b cs row(1-3) same wf to_int32_nonneg [OF fits] stored
            decided_reversal [OF dec]]) simp_all
    show ?thesis
    proof (cases "t_state t'' = StatePendingReference")
      case True
      have "succeeds E (UpdatePendingReference t'' x) d m (\<lambda>_ d' n'. succeeds E (return_ok (t_state t'')) d' n' ?Q)" for x
        using res by (intro update succeeds_basic) simp
      with True show ?thesis by (intro succeeds_bind succeeds_basic(2) [OF con]) (simp add: succeeds_bind)
    next
      case False
      have entry: "\<forall>e. entry = Some e \<longrightarrow> entry_wf e \<and> entry_walletID e = w_id w'"
        using decided_moves dec by (auto simp: movement_def)
      have none: "outcome \<noteq> None \<Longrightarrow> entry = None" using did by (cases outcome) auto
      have unused: "\<forall>e. entry = Some e \<longrightarrow> entry_id e \<notin> lr_ID ` set (entries d)"
      proof (cases outcome)
        case None
        with ap have "\<forall>e. entry = Some e \<longrightarrow> entry_id e = env_NewID E n" by (auto simp: applies_def)
        with freshD(3) [OF ids, of n] show ?thesis by auto
      qed (use none in simp)
      have "m \<le> Suc n" using ap by (simp add: applies_def)
      then have more: "env_NewID E m \<noteq> env_NewID E (Suc m)" "env_NewID E m \<notin> or_ID ` set (outbox d)"
        "env_NewID E (Suc m) \<notin> or_ID ` set (outbox d)"
        using fresh_next [OF ids m] freshD(4) [OF ids, of m] freshD(4) [OF ids, of "Suc m"] m by simp_all
      have new: "t_id t'' \<notin> lr_TransactionID ` set (entries d)" "currency_iso4217 (currency_code (currency (t_amount t'')))"
        using waiting_no_entry [OF b row(1-3)] t(2) eqs by simp_all
      have known: "t_id t'' \<in> tr_ID ` set (transactions d)" using row(1) stores_sel(1) [OF row(2)] eqs by force
      have "succeeds E (record_settlement w' (w_version w) t'' entry es (\<lambda>u. UpdatePendingReference u zero_time)) d m2
          (\<lambda>_ d' n'. succeeds E (return_ok (t_state t'')) d' n' ?Q)"
        if es: "distinct (map ev_ID es)" "\<forall>e \<in> set es. marshalled E m e" for es m2
      proof -
        have ev: "\<forall>e \<in> set es. event_Marshal e = Inr e \<and> ev_ID e \<notin> or_ID ` set (outbox d)"
          using es(2) more(2,3) unfolding marshalled_def by auto
        have "succeeds E (bind_action (case entry of None \<Rightarrow> return_ok ()
            | Some e \<Rightarrow> bind_action (UpdateBalance w' (w_version w)) (\<lambda>_. LedgerRepository_Append e))
          (\<lambda>_. OutboxRepository_Append es)) (d\<lparr>transactions := ts\<rparr>) m2
            (\<lambda>_ d' _. transactions d' = transactions (d\<lparr>transactions := ts\<rparr>))"
          if "map tr_ID ts = map tr_ID (transactions d)" for ts
        proof (rule succeeds_recorded [OF E _ _ _ _ constraintsD(1) [OF cs] dist w(1-4) new dec unused ev es(1)])
          show "t_id t'' \<in> tr_ID ` set (transactions (d\<lparr>transactions := ts\<rparr>))"
            using known arg_cong [OF that, of set] by simp
        qed simp_all
        note after = this
        have "succeeds E (record_settlement w' (w_version w) t'' entry es (\<lambda>u. UpdatePendingReference u zero_time)) d m2
            (\<lambda>_ d' _. recorded_state (transactions d') (t_id t) (t_state t''))"
          unfolding record_settlement_def
          by (rule succeeds_bind, rule update, rule succeeds_mono, rule after) simp_all
        then show ?thesis using res by (elim succeeds_mono) (intro succeeds_basic conjI)
      qed
      note recording = this
      have "succeeds E (newEvents t'' w' entry c at) d m (\<lambda>es d' n'.
          succeeds E (bind_action (record_settlement w' (w_version w) t'' entry es (\<lambda>u. UpdatePendingReference u zero_time))
            (\<lambda>_. return_ok (t_state t''))) d' n' ?Q)" if "c \<noteq> ''''" for c
        by (rule succeeds_mono [OF succeeds_newEvents [OF wf that at states more(1) entry]])
          (blast intro: succeeds_bind recording)
      note events = this
      have "succeeds E (\<lambda>v. (Inr (retry_correlation (env v) (t_id t'')), v)) d m (\<lambda>c d' n'.
          succeeds E (bind_action (newEvents t'' w' entry c at) (\<lambda>es.
            bind_action (record_settlement w' (w_version w) t'' entry es (\<lambda>u. UpdatePendingReference u zero_time))
              (\<lambda>_. return_ok (t_state t'')))) d' n' ?Q)"
        by (rule succeeds_of_env) (rule succeeds_bind, rule events, simp add: retry_correlation_def)
      with False show ?thesis by (intro succeeds_bind succeeds_basic(2) [OF con]) (simp add: succeeds_bind)
    qed
  qed
  have "succeeds E (find_and_apply w t at) d n (\<lambda>r d' n'. (d' = d \<and> applies E d w t at n r n') \<and>
      (case r of (outcome, entry, w', t') \<Rightarrow> case outcome of Some e \<Rightarrow> entry = None \<and> w' = w
        | None \<Rightarrow> \<exists>q i. good_reference d t' q \<and> wallet_Apply w (Some t') q at i = Inr (entry, w')))"
    using freshD(1) [OF ids, of n]
    by (intro succeeds_does succeeds_find_and_apply [OF E _ at(1) b cs w(2) t(1) _ row(4) w(5)])
      (auto simp: row(3) IsTerminal_def dest!: does_find_and_apply)
  then have "succeeds E (find_and_apply w t at) d n (\<lambda>(outcome, entry, w', t') d' n'.
        succeeds E (bind_action (of_result (retry_outcome policy t' w' outcome at)) (\<lambda>t''.
             if t_state t'' = StatePendingReference
               then bind_action (UpdatePendingReference t''
                   (time_Add at (policy_delay policy (t_referenceAttempts t''))))
                 (\<lambda>_. return_ok (t_state t''))
             else
               bind_action (\<lambda>v. (Inr (retry_correlation (env v) (t_id t'')), v)) (\<lambda>correlationID.
               bind_action (newEvents t'' w' entry correlationID at) (\<lambda>events.
               bind_action (record_settlement w' (w_version w) t'' entry events
                   (\<lambda>u. UpdatePendingReference u zero_time))
                 (\<lambda>_. return_ok (t_state t'')))))) d' n' ?Q)"
    by (elim succeeds_mono) (auto intro!: settled)
  then have k: "succeeds E (bind_action (find_and_apply w t at) (\<lambda>(outcome, entry, w', t').
             bind_action (of_result (retry_outcome policy t' w' outcome at)) (\<lambda>t''.
             if t_state t'' = StatePendingReference
               then bind_action (UpdatePendingReference t''
                   (time_Add at (policy_delay policy (t_referenceAttempts t''))))
                 (\<lambda>_. return_ok (t_state t''))
             else
               bind_action (\<lambda>v. (Inr (retry_correlation (env v) (t_id t'')), v)) (\<lambda>correlationID.
               bind_action (newEvents t'' w' entry correlationID at) (\<lambda>events.
               bind_action (record_settlement w' (w_version w) t'' entry events
                   (\<lambda>u. UpdatePendingReference u zero_time))
                 (\<lambda>_. return_ok (t_state t'')))))) ) d n ?Q"
    by (intro succeeds_bind) (elim succeeds_mono, auto split: prod.splits)
  show ?thesis
    unfolding retry_in_transaction_def retry_outcome_def [symmetric] p
    by (rule succeeds_bind, rule succeeds_GetForUpdate [OF E b w(1-3)], rule succeeds_bind,
        rule succeeds_FindByID [OF E b row(1,2)]) (use k row(3) in simp)
qed

section \<open>A retry from a reachable state\<close>

definition row_waits :: "db \<Rightarrow> transaction_row \<Rightarrow> bool" where
  "row_waits d row \<longleftrightarrow> (\<forall>r \<in> set (transactions d). tr_ProviderID r = tr_ProviderID row \<longrightarrow>
     tr_ExternalTransactionID r = tr_ReferenceExternalTransactionID row \<longrightarrow> \<not> IsTerminal (state_of (tr_State r)))"

text \<open>The state a retry of the waiting row ends with.\<close>

definition resolves :: "ReferenceRetryPolicy \<Rightarrow> db \<Rightarrow> transaction_row \<Rightarrow> State \<Rightarrow> bool" where
  "resolves policy d row s \<longleftrightarrow> s \<in> {StateProcessed, StateRejected, StatePendingReference} \<and>
     (s = StatePendingReference \<longleftrightarrow>
        row_waits d row \<and> sint (tr_ReferenceAttempts row) + 1 < sint (rp_MaxAttempts policy)) \<and>
     (s = StateProcessed \<longrightarrow> \<not> row_waits d row)"

text \<open>The wallet of the row has room for it, and the attempts of the policy are not used up.\<close>

definition retriable :: "ReferenceRetryPolicy \<Rightarrow> wallet_row \<Rightarrow> transaction_row \<Rightarrow> bool" where
  "retriable policy r row \<longleftrightarrow> tr_State row = ''PENDING_REFERENCE'' \<and> wr_ID r = tr_WalletID row \<and>
     wr_Version r \<noteq> MaxInt64 \<and> sint (wr_BalanceMinor r) + sint (tr_AmountMinor row) \<le> 9223372036854775807 \<and>
     sint (tr_ReferenceAttempts row) < sint (rp_MaxAttempts policy) \<and> sint (rp_MaxAttempts policy) \<le> 2147483647"

definition pending_of :: "transaction_row \<Rightarrow> PendingReference" where
  "pending_of row = \<lparr>pr_TransactionID = tr_ID row, pr_WalletID = tr_WalletID row\<rparr>"

lemma sint_from_int32: "sint (from_int32 a) = sint a"
proof -
  have "from_int32 a = word_of_int (sint a)" by (simp add: from_int32_def)
  then show ?thesis
    using sint_less [of a] sint_greater_eq [of a] by (simp only:) (intro sint64_of_int; simp)
qed

lemma stores_waits:
  assumes "stores row t" and "t_state t = StatePendingReference"
  shows "waits d t \<longleftrightarrow> row_waits d row"
proof -
  have wf: "transaction_wf t" using stores_sel(9) [OF assms(1)] .
  have cols: "tr_ProviderID row = optional (t_providerID t)"
    "tr_ReferenceExternalTransactionID row = optional (t_referenceExternalTransactionID t)"
    using assms(1) unfolding stores_def by (metis operation_row_sel)+
  have full: "t_providerID t \<noteq> ''''" "t_referenceExternalTransactionID t \<noteq> ''''"
    using wf assms(2) open_state_wf [OF wf] by (simp_all add: transaction_wf_defs)
  then have "tr_ProviderID row = Some (t_providerID t)"
    "tr_ReferenceExternalTransactionID row = Some (t_referenceExternalTransactionID t)" using cols by simp_all
  with full show ?thesis by (simp add: waits_def row_waits_def)
qed

lemma stores_attempts: "stores row t \<Longrightarrow> sint (t_referenceAttempts t) = sint (tr_ReferenceAttempts row)"
  unfolding stores_def by (metis operation_row_sel(20) sint_from_int32)

lemma retry_resolved:
  assumes w: "reachable w" "favourable w" and row: "row \<in> set (transactions (committed w))"
    and r: "r \<in> set (wallets (committed w))" and ok: "retriable policy r row"
  shows "\<exists>s w'. retry policy (pending_of row) w = (Inr s, w') \<and> resolves policy (committed w) row s \<and>
    recorded_state (transactions (committed w')) (tr_ID row) s"
proof -
  let ?E = "env w" and ?d = "committed w"
  note inv = reachable_inv [OF w(1)]
  note fav = w(2) [unfolded favourable_def]
  note rt = ok [unfolded retriable_def]
  let ?at = "env_clock ?E (instants w)"
  let ?w = "w\<lparr>instants := Suc (instants w)\<rparr>"
  obtain x where x: "r = wallet_to_row x" "wallet_wf x" "wallet_iso x"
    using inv r by (auto simp: books_def wallets_inv_def)
  obtain t where t: "stores row t" using inv row by (auto simp: books_def transactions_inv_def)
  note sel = stores_sel [OF t]
  have st: "t_state t = StatePendingReference"
    using rt sel(3,9) state_String_iff(2) by (auto simp: transaction_wf_defs)
  have own: "t_walletID t = w_id x" using rt sel(4) x(1) by simp
  have room: "has_room x (t_amount t)" using rt sel(6) x(1) by (simp add: has_room_def money_reading_def)
  have att: "within_attempts policy (t_referenceAttempts t)"
    using rt sel(9) stores_attempts [OF t] by (simp add: within_attempts_def transaction_wf_def)
  have "succeeds ?E (retry_in_transaction policy (pending_of row) ?at) ?d (identifiers ?w)
      (\<lambda>s d' _. resolved_as policy ?d t s \<and> recorded_state (transactions d') (t_id t) s)"
  proof (rule succeeds_retry [OF _ _ _ _ _ _ _ x(2,3) _ room row t st own att])
    show "fresh ?E ?d (identifiers ?w) 3" using fav fresh_less [of ?E ?d "identifiers w" 4 3] by simp
    show "wallet_to_row x \<in> set (wallets ?d)" using r x(1) by simp
    show "w_version x \<noteq> MaxInt64" using rt x(1) by simp
  qed (use fav inv sel(1) rt own in \<open>simp_all add: pending_of_def flip: sel(4)\<close>)
  then have ended: "succeeds ?E (retry_in_transaction policy (pending_of row) ?at) (committed ?w) (identifiers ?w)
      (\<lambda>s d' _. resolved_as policy ?d t s \<and> recorded_state (transactions d') (t_id t) s)" by simp
  obtain s w1 where run: "WithinTransaction (retry_in_transaction policy (pending_of row) ?at) ?w = (Inr s, w1)"
    and s: "resolved_as policy ?d t s" "recorded_state (transactions (committed w1)) (t_id t) s"
    by (rule succeeds_committed [OF ended]) (use fav inv that in simp_all)
  have "retry policy (pending_of row) w = (Inr s, w1)"
    using run by (simp add: retry_def bind_action_def attempt_def clock_now_def)
  moreover have "resolves policy ?d row s"
    using s(1) stores_waits [OF t st] stores_attempts [OF t]
    by (auto simp: resolves_def resolved_as_def still_waits_def)
  ultimately show ?thesis using s(2) sel(1) by auto
qed

end
