(* ===== verification/Progress_Guarantees.thy ===== *)
theory Progress_Guarantees
  imports Resolution Scenario
begin

text \<open>
  What the system brings about when nothing is in its way: a well-formed operation is answered and an
  operation that waits for its reference is resolved, each applied to the small run of \<open>Scenario\<close>.
\<close>

section \<open>The sample run\<close>

definition refund :: ProcessWagerInput where
  "refund = bet\<lparr>in_Kind := KindRefund, in_ExternalTransactionID := ''x2'', in_IdempotencyKey := ''k2'',
     in_ReferenceExternalTransactionID := ''x1''\<rparr>"

text \<open>A refund that arrives before the bet it refers to.\<close>

definition waiting_world :: world where "waiting_world = snd (ProcessWager_Execute refund opened_world)"

definition sample_retries :: ReferenceRetryPolicy where
  "sample_retries = \<lparr>rp_MaxAttempts = 2, rp_BaseDelay = 1, rp_MaxDelay = 8, rp_Lease = 20, rp_BatchSize = 10\<rparr>"

lemma faultless_calm: "faultless calm"
  by (simp add: faultless_def calm_def)

text \<open>What \<open>favourable\<close> asks of a world whose environment is \<open>calm\<close>, and what else is wanted of it.\<close>

definition ready :: "world \<Rightarrow> bool" where
  "ready w \<longleftrightarrow> fresh calm (committed w) (identifiers w) 4 \<and> 0 < instants w \<and>
     list_all (\<lambda>k. env_clock calm k \<noteq> 0 \<and> ok (time_MarshalJSON (env_clock calm k))) [instants w] \<and>
     list_all (\<lambda>r. or_Sequence r \<le> sequence w) (outbox (committed w))"

lemma ready_favourable: "ready w \<Longrightarrow> env w = calm \<Longrightarrow> favourable w"
  by (simp add: ready_def favourable_def faultless_calm list_all_iff)

lemma bet_expected:
  "case OpenWallet_Execute opening_input start of (_, w) \<Rightarrow> ready w \<and>
     well_formed bet \<and> new_request (committed w) bet \<and> PayloadHash calm bet \<noteq> Inr '''' \<and>
     list_ex (\<lambda>r. wr_ID r = in_WalletID bet \<and> room_for r bet) (wallets (committed w))"
  by code_simp

lemma refund_expected:
  "case ProcessWager_Execute refund opened_world of (_, w) \<Rightarrow> ready w \<and>
     list_ex (\<lambda>row. list_ex (\<lambda>r. retriable sample_retries r row) (wallets (committed w))) (transactions (committed w))"
  by code_simp

lemma step_waiting: "step opened_world waiting_world"
  unfolding waiting_world_def by (rule step_process [OF prod.collapse [symmetric]]) (simp add: refund_def)

lemma waiting: "reachable waiting_world" "env waiting_world = calm"
  using reachable_opened step_waiting reach_step step_changed [OF step_waiting] reachable_inv by auto

section \<open>Requests\<close>



section \<open>Retries\<close>

text \<open>C14. A retry resolves the operation it is given: in a reachable state, with no faults in the way
  and attempts left, it waits on exactly when nothing concluded is recorded yet under the reference
  it names and this was not its last attempt, it is never processed without that reference, and the
  state the retry answers with is the one recorded.\<close>

theorem retry_answered:
  assumes "reachable w" and "favourable w" and "row \<in> set (transactions (committed w))"
    and "r \<in> set (wallets (committed w))" and "retriable policy r row"
  shows "\<exists>s w'. retry policy (pending_of row) w = (Inr s, w') \<and> resolves policy (committed w) row s \<and>
    recorded_state (transactions (committed w')) (tr_ID row) s"
  using assms by (rule retry_resolved)

theorem retry_answered_witness:
  "\<exists>row s w'. retry sample_retries (pending_of row) waiting_world = (Inr s, w') \<and>
     resolves sample_retries (committed waiting_world) row s"
proof -
  have "ready waiting_world" "\<exists>row \<in> set (transactions (committed waiting_world)).
      \<exists>r \<in> set (wallets (committed waiting_world)). retriable sample_retries r row"
    using refund_expected by (simp_all add: waiting_world_def list_ex_iff split: prod.splits)
  then show ?thesis
    using retry_answered [OF waiting(1) ready_favourable [OF _ waiting(2)]] by metis
qed

end
