(* ===== verification/Intake.thy ===== *)
theory Intake
  imports Progress_Guarantees Queue_Guarantees
begin

text \<open>
  Total correctness of the way through the queue: a well-formed message that is new is applied, recorded
  in the inbox and deleted, where nothing is in the way. The use case of the HTTP endpoint runs inside
  the transaction that takes the message in, so that its rule is one of \<open>succeeds\<close>.
\<close>

section \<open>The use case within a transaction\<close>

lemma succeeds_joined: "succeeds E fn d n Q \<Longrightarrow> succeeds E (WithinTransaction fn) d n Q"
  unfolding succeeds_def ends_def by (auto simp: WithinTransaction_def inside_def)

text \<open>Every instant can be written as JSON, whenever the clock is read.\<close>

definition steady_clock :: "environment \<Rightarrow> bool" where
  "steady_clock E \<longleftrightarrow> (\<forall>k. env_clock E k \<noteq> 0 \<and> ok (time_MarshalJSON (env_clock E k)))"

lemma succeeds_hash: "g E = Inr h \<Longrightarrow> Q h d n \<Longrightarrow> succeeds E (\<lambda>v. (g (env v), v)) d n Q"
  unfolding succeeds_def ends_def by (auto simp: inside_def)

lemma succeeds_ProcessWager:
  assumes E: "faultless E" "fresh E d n 4" "steady_clock E" and inv: "books d" "constraints d"
    and inp: "well_formed input" and new: "new_request d input" and sha: "PayloadHash E input \<noteq> Inr ''''"
    and r: "r \<in> set (wallets d)" "wr_ID r = in_WalletID input" "room_for r input"
  shows "succeeds E (ProcessWager_Execute input) d n (\<lambda>a _ _. concluded d r input a)"
proof -
  obtain hash where hash: "PayloadHash E input = Inr hash" using request_hash [OF inp] by blast
  have rest: "succeeds E (bind_action NewID (\<lambda>i.
      bind_action (of_result (NewExternal (new_external_params input hash i at))) (\<lambda>t.
      attempt (WithinTransaction (process_in_transaction t (in_CorrelationID input) at)) (\<lambda>r.
        case r of
          Inl e \<Rightarrow>
            bind_action
              (if errors_Is e (Sentinel ErrConcurrentUpdate) then record_metric ConcurrencyConflict
               else return_ok ())
              (\<lambda>_. raise_err e)
        | Inr result \<Rightarrow>
            bind_action clock_now (\<lambda>finished.
            bind_action (record_metric (WagerConcluded (t_kind t) (res_State result)
                (res_FailureCode result) (res_IdempotentReplay result) (time_Sub finished at)))
              (\<lambda>_. return_ok result)))))) d n (\<lambda>a _ _. concluded d r input a)"
    if at: "at = env_clock E k" for at k
  proof -
    obtain t where t: "NewExternal (new_external_params input hash (env_NewID E n) at) = Inr t"
      and run: "succeeds E (process_in_transaction t (in_CorrelationID input) at) d (Suc n) (\<lambda>a _ _. concluded d r input a)"
      using request_processed [OF E(1,2) inv _ _ inp new sha r, of at] E(3) hash at by (auto simp: steady_clock_def)
    show ?thesis
      by (intro succeeds_bind succeeds_drawn, rule succeeds_basic(2) [OF t], subst succeeds_def, rule succeeds_attempt,
          rule succeeds_joined, rule succeeds_mono [OF run], simp, fold succeeds_def)
        (intro succeeds_bind succeeds_drawn succeeds_basic, simp)
  qed
  have "in_CorrelationID input \<noteq> ''''" using inp by (simp add: well_formed_def)
  then show ?thesis
    unfolding ProcessWager_Execute_def
    by - (simp, rule succeeds_bind, rule succeeds_hash [where g = "\<lambda>E. PayloadHash E input"], rule hash,
        rule succeeds_bind, rule succeeds_drawn(3), rule rest, rule refl)
qed


section \<open>The inbox\<close>

lemma succeeds_Find:
  assumes E: "faultless E" and new: "i \<notin> ir_MessageID ` set (inbox d)" and Q: "Q None d n"
  shows "succeeds E (InboxRepository_Find i) d n Q"
proof -
  have "List.find (\<lambda>r. ir_MessageID r = i) (inbox d) = None" using new by (auto simp: find_None_iff)
  then show ?thesis
    unfolding InboxRepository_Find_def SelectInboxMessage_def
    by - (rule succeeds_bind, rule succeeds_drawn, subst succeeds_def, rule ends_attempt, rule ends_query_row [OF E],
      use Q in \<open>auto intro!: ends_basic\<close>)
qed

lemma succeeds_Record:
  assumes E: "faultless E" and new: "im_MessageID m \<notin> ir_MessageID ` set (inbox d)"
    and t: "im_TransactionID m \<in> tr_ID ` set (transactions d)"
    and Q: "\<And>at. Q () (d\<lparr>inbox := inbox d @ [\<lparr>ir_MessageID = im_MessageID m, ir_PayloadHash = im_PayloadHash m,
      ir_TransactionID = im_TransactionID m, ir_ReceivedAt = at\<rparr>]\<rparr>) n"
  shows "succeeds E (InboxRepository_Record m) d n Q"
  unfolding InboxRepository_Record_def
proof (rule succeeds_write [OF E])
  fix s
  have "InsertInboxMessage (im_MessageID m) (im_PayloadHash m) (im_TransactionID m) s d =
      Inr ((), d\<lparr>inbox := inbox d @ [\<lparr>ir_MessageID = im_MessageID m, ir_PayloadHash = im_PayloadHash m,
        ir_TransactionID = im_TransactionID m, ir_ReceivedAt = ss_now s\<rparr>]\<rparr>)"
    using new t
    by (force simp: InsertInboxMessage_def and_then_Inr_iff insert_row_Inr admit_Inr inbox_uniques_def inbox_foreign_def)
  with Q show "\<exists>a d'. InsertInboxMessage (im_MessageID m) (im_PayloadHash m) (im_TransactionID m) s d = Inr (a, d') \<and>
      outbox d' = outbox d \<and> return_ok () = return_ok () \<and> Q () d' n" by simp
qed

lemma executed_inbox: "executed E d input a d' \<Longrightarrow> inbox d' = inbox d"
  by (auto simp: executed_def applied_def recorded_def split: option.splits)

text \<open>What taking a new message in leads to: the operation of its input, and its record.\<close>

lemma succeeds_take:
  assumes E: "faultless E" "fresh E d n 4" "steady_clock E" and inv: "books d" "constraints d"
    and m: "msg_MessageID message \<notin> ir_MessageID ` set (inbox d)"
    and inp: "well_formed (msg_Input message)" and new: "new_request d (msg_Input message)"
    and sha: "PayloadHash E (msg_Input message) \<noteq> Inr ''''"
    and r: "r \<in> set (wallets d)" "wr_ID r = in_WalletID (msg_Input message)" "room_for r (msg_Input message)"
  shows "succeeds E (take_in_transaction message hash) d n
    (\<lambda>a _ _. \<not> inr_Duplicate a \<and> concluded d r (msg_Input message) (inr_WagerResult a))"
proof -
  have con: "constructed (in_Money (msg_Input message))" using inp by (simp add: well_formed_def)
  have "succeeds E (ProcessWager_Execute (msg_Input message)) d n (\<lambda>a d' n'. concluded d r (msg_Input message) a \<and>
      (inbox d' = inbox d \<and> res_TransactionID a \<in> tr_ID ` set (transactions d')))"
  proof (rule succeeds_does [OF succeeds_ProcessWager [OF E inv inp new sha r]])
    fix w a w' d' assume "does (ProcessWager_Execute (msg_Input message)) w d a w' d'"
    from does_ProcessWager [OF this inv(1) con]
    have ex: "executed (env w) d (msg_Input message) a d'" .
    obtain h q where "q \<in> set (transactions d')" "keyed (msg_Input message) h (res_TransactionID a) q"
      using executed_keyed [OF ex con inv(1)] by metis
    then have "res_TransactionID a \<in> tr_ID ` set (transactions d')" by (force simp: keyed_def)
    moreover have "inbox d' = inbox d" using executed_inbox [OF ex] .
    ultimately show "inbox d' = inbox d \<and> res_TransactionID a \<in> tr_ID ` set (transactions d')" by blast
  qed simp
  then have "succeeds E (ProcessWager_Execute (msg_Input message)) d n (\<lambda>applied d' n'.
      succeeds E (bind_action (InboxRepository_Record \<lparr>im_MessageID = msg_MessageID message,
               im_PayloadHash = hash, im_TransactionID = res_TransactionID applied\<rparr>)
             (\<lambda>_. return_ok \<lparr>inr_WagerResult = applied, inr_Duplicate = False\<rparr>)) d' n'
        (\<lambda>a _ _. \<not> inr_Duplicate a \<and> concluded d r (msg_Input message) (inr_WagerResult a)))"
    using m by (elim succeeds_mono) (intro succeeds_bind succeeds_Record [OF E(1)], auto intro: succeeds_basic)
  then show ?thesis
    unfolding take_in_transaction_def
    by - (rule succeeds_bind, rule succeeds_Find [OF E(1) m], simp add: succeeds_bind)
qed


section \<open>Guarantees\<close>

lemma message_taken:
  assumes w: "reachable w" "favourable w" "steady_clock (env w)"
    and m: "msg_MessageID message \<noteq> ''''" "msg_MessageID message \<notin> ir_MessageID ` set (inbox (committed w))"
    and inp: "well_formed (msg_Input message)" and new: "new_request (committed w) (msg_Input message)"
    and sha: "PayloadHash (env w) (msg_Input message) \<noteq> Inr ''''"
    and r: "r \<in> set (wallets (committed w))" "wr_ID r = in_WalletID (msg_Input message)" "room_for r (msg_Input message)"
  obtains a w' where "ProcessInboxMessage_Execute message w = (Inr a, w')"
    and "concluded (committed w) r (msg_Input message) (inr_WagerResult a)"
    and "\<exists>q \<in> set (inbox (committed w')). ir_MessageID q = msg_MessageID message \<and>
      ir_TransactionID q = res_TransactionID (inr_WagerResult a)"
proof -
  note inv = reachable_inv [OF w(1)]
  note fav = w(2) [unfolded favourable_def]
  have fresh: "fresh (env w) (committed w) (identifiers w) 4" using fav by simp
  obtain hash where hash: "PayloadHash (env w) (msg_Input message) = Inr hash" using request_hash [OF inp] by blast
  have "succeeds (env w) (take_in_transaction message hash) (committed w) (identifiers w)
      (\<lambda>a _ _. \<not> inr_Duplicate a \<and> concluded (committed w) r (msg_Input message) (inr_WagerResult a))"
    using fav inv by (intro succeeds_take [OF _ fresh w(3) _ _ m(2) inp new sha r]) simp_all
  then obtain a w1 where run: "WithinTransaction (take_in_transaction message hash) w = (Inr a, w1)"
    and a: "\<not> inr_Duplicate a" "concluded (committed w) r (msg_Input message) (inr_WagerResult a)"
    by (rule succeeds_committed) (use fav inv in auto)
  have "fst (ProcessInboxMessage_Execute message w) = Inr a"
    using m(1) hash run
    by (simp add: ProcessInboxMessage_Execute_def bind_action_def attempt_def record_metric_def return_ok_def)
  then obtain w' where ex: "ProcessInboxMessage_Execute message w = (Inr a, w')" by (metis prod.collapse)
  have con: "constructed (in_Money (msg_Input message))" using inp by (simp add: well_formed_def)
  obtain h where "taken_in (env w) (committed w) message h a (committed w')"
    using take_outcome [OF ex w(1) con] by auto
  with a(1) obtain d at where "committed w' = d\<lparr>inbox := inbox d @ [\<lparr>ir_MessageID = msg_MessageID message, ir_PayloadHash = h,
      ir_TransactionID = res_TransactionID (inr_WagerResult a), ir_ReceivedAt = at\<rparr>]\<rparr>"
    unfolding taken_in_def by blast
  with that [OF ex a(2)] show thesis by simp
qed

text \<open>C19. A message that asks for a well-formed operation, new to the provider and to the inbox, is
  answered and gone: in a reachable state, with no faults in the way, instants JSON can carry,
  identifiers not in use, room in the wallet and a queue that deletes, handling it ends without an error,
  the operation concluded as a request over HTTP would be, the message in the inbox with its operation,
  and the only call to the queue the deletion.\<close>

theorem message_answered:
  assumes "reachable (st_world st)" and "favourable (st_world st)" and "steady_clock (env (st_world st))"
    and "toInboundMessage api message = Inr inbound"
    and "msg_MessageID inbound \<notin> ir_MessageID ` set (inbox (committed (st_world st)))"
    and "well_formed (msg_Input inbound)" and "new_request (committed (st_world st)) (msg_Input inbound)"
    and "PayloadHash (env (st_world st)) (msg_Input inbound) \<noteq> Inr ''''"
    and "r \<in> set (wallets (committed (st_world st)))" and "wr_ID r = in_WalletID (msg_Input inbound)"
    and "room_for r (msg_Input inbound)" and "qa_Delete api (length (st_log st)) = None"
  shows "\<exists>a st'. handle api c message st = (None, st') \<and>
    concluded (committed (st_world st)) r (msg_Input inbound) a \<and>
    (\<exists>q \<in> set (inbox (committed (st_world st'))). ir_MessageID q = msg_MessageID inbound \<and>
       ir_TransactionID q = res_TransactionID a) \<and>
    st_log st' = st_log st @ [DeleteCall (wc_queueURL c) (qm_ReceiptHandle message) None]"
proof -
  have "msg_MessageID inbound \<noteq> ''''" using toInboundMessage_Inr [OF assms(4)] by (auto simp: envelope_of_def)
  from message_taken [OF assms(1-3) this assms(5-11)] obtain a w' where
    "ProcessInboxMessage_Execute inbound (st_world st) = (Inr a, w')"
    "concluded (committed (st_world st)) r (msg_Input inbound) (inr_WagerResult a)"
    "\<exists>q \<in> set (inbox (committed w')). ir_MessageID q = msg_MessageID inbound \<and>
      ir_TransactionID q = res_TransactionID (inr_WagerResult a)" .
  with assms(4,12) show ?thesis by (auto simp: handle_def delete_def Let_def)
qed

lemma steady_calm: "steady_clock calm"
proof -
  have "t \<noteq> 0 \<and> ok (time_MarshalJSON t)" if "100 \<le> t" "t \<le> 1100" for t
    using that by (simp add: time_MarshalJSON_def)
  then have "env_clock calm k \<noteq> 0 \<and> ok (time_MarshalJSON (env_clock calm k))" for k
    by (rule meta_mp) (simp_all add: calm_def)
  then show ?thesis by (simp add: steady_clock_def)
qed

theorem message_answered_witness:
  "\<exists>r a st'. handle sample_api sample_consumer bet_delivery sample_station = (None, st') \<and>
     concluded (committed opened_world) r bet a"
proof -
  obtain r where r: "ready opened_world" "well_formed bet" "new_request (committed opened_world) bet"
    "PayloadHash calm bet \<noteq> Inr ''''" "r \<in> set (wallets (committed opened_world))" "wr_ID r = in_WalletID bet" "room_for r bet"
    using bet_expected by (auto simp: opened_world_def list_ex_iff split: prod.splits)
  have "inbox (committed opened_world) = []" by code_simp
  with message_answered [OF _ _ _ bet_delivery_read, of sample_station r sample_consumer] r steady_calm
    ready_favourable [OF r(1)] reachable_opened
  show ?thesis by (auto simp: sample_station_def bet_message_def sample_api_def)
qed

end
