(* ===== verification/Delivery.thy ===== *)
theory Delivery
  imports Progress Consuming Scenario
begin

text \<open>
  A round of the publication, where no fault of the database is in the way: which events it takes,
  which of them are marked, for any answers of the broker; and, while the broker accepts, how rounds
  empty the outbox.
\<close>

section \<open>What a unit of work leaves alone\<close>

text \<open>The counters of the broker and of the clock.\<close>

definition quiet :: "'a action \<Rightarrow> bool" where
  "quiet m \<longleftrightarrow> (\<forall>w. publications (snd (m w)) = publications w \<and> instants w \<le> instants (snd (m w)))"

lemma quiet_attempt: "quiet m \<Longrightarrow> (\<And>r. quiet (f r)) \<Longrightarrow> quiet (attempt m f)"
  unfolding quiet_def attempt_def by (metis (no_types, lifting) case_prod_beta le_trans)

lemma quiet_basic [simp]:
  "quiet (return_ok a)" "quiet (raise_err e)" "quiet clock_now" "quiet queries" "quiet (record_metric x)"
  "quiet (statement f)"
  by (auto simp: quiet_def return_ok_def raise_err_def clock_now_def queries_def record_metric_def statement_def
      next_call_def split: option.splits sum.splits)

lemma quiet_bind: "quiet m \<Longrightarrow> (\<And>a. quiet (f a)) \<Longrightarrow> quiet (bind_action m f)"
  unfolding bind_action_def by (intro quiet_attempt) (simp_all split: sum.splits)

lemma quiet_translated: "quiet m \<Longrightarrow> quiet (translated m)"
  unfolding translated_def by (intro quiet_attempt) (simp_all split: sum.splits)

lemma quiet_WithinTransaction:
  assumes "quiet m"
  shows "quiet (WithinTransaction m)"
  unfolding quiet_def
proof
  fix w
  have ends: "quiet (translated begin_transaction)" "quiet (translated commit_transaction)"
    by (rule quiet_translated, simp add: quiet_def begin_transaction_def commit_transaction_def next_call_def
        split: option.splits fault.splits)+
  have rolled: "publications (rollback_transaction v) = publications v" "instants (rollback_transaction v) = instants v" for v
    by (simp_all add: rollback_transaction_def)
  obtain b w0 where b: "translated begin_transaction w = (b, w0)" by fastforce
  obtain q w1 where q: "m w0 = (q, w1)" by fastforce
  obtain c w2 where c: "translated commit_transaction w1 = (c, w2)" by fastforce
  have "publications w0 = publications w" "instants w \<le> instants w0"
    "publications w1 = publications w0" "instants w0 \<le> instants w1"
    "publications w2 = publications w1" "instants w1 \<le> instants w2"
    using ends assms b q c unfolding quiet_def by (metis snd_conv)+
  then show "publications (snd (WithinTransaction m w)) = publications w \<and>
      instants w \<le> instants (snd (WithinTransaction m w))"
    using assms b q c rolled by (auto simp: WithinTransaction_def quiet_def split: sum.splits)
qed

lemma quiet_write: "quiet (bind_action queries (\<lambda>_. bind_action (translated (statement f)) (\<lambda>x. return_ok (g x))))"
  by (intro quiet_bind quiet_translated quiet_basic)

lemma quiet_units: "quiet (LeasePending dueAt leaseUntil limit)" "quiet (record_publication policy record delivery)"
proof -
  show "quiet (LeasePending dueAt leaseUntil limit)" unfolding LeasePending_def by (rule quiet_write)
  have "quiet (ReschedulePublication i n at)" "quiet (MarkPublished i at)" for i n at
    unfolding ReschedulePublication_def MarkPublished_def by (rule quiet_write)+
  then show "quiet (record_publication policy record delivery)"
    by (cases delivery) (simp_all add: record_publication_def Let_def quiet_bind)
qed

section \<open>Units of work that succeed\<close>

lemma unit_succeeds:
  assumes E: "faultless (env w)" and w: "tx w = None"
    and fn: "\<And>w0. tx w0 = Some (committed w, False) \<Longrightarrow> env w0 = env w \<Longrightarrow>
      \<exists>a w1 d. fn w0 = (Inr a, w1) \<and> tx w1 = Some (d, False) \<and> env w1 = env w"
  obtains a w' where "WithinTransaction fn w = (Inr a, w')"
proof -
  define w0 where "w0 = (next_call w)\<lparr>tx := Some (committed w, False), begun := Suc (begun w)\<rparr>"
  have b: "translated begin_transaction w = (Inr (), w0)"
    using E by (simp add: translated_def attempt_def begin_transaction_def faultless_def return_ok_def w0_def)
  obtain a w1 d where run: "fn w0 = (Inr a, w1)" "tx w1 = Some (d, False)" "env w1 = env w"
    using fn [of w0] by (auto simp: w0_def next_call_def)
  have "translated commit_transaction w1 = (Inr (), (next_call w1)\<lparr>committed := d, tx := None\<rparr>)"
    using E run by (simp add: translated_def attempt_def commit_transaction_def faultless_def return_ok_def)
  with w b run(1) have "WithinTransaction fn w =
      (Inr a, rollback_transaction ((next_call w1)\<lparr>committed := d, tx := None\<rparr>))"
    by (simp add: WithinTransaction_def)
  then show thesis by (rule that)
qed

lemma written:
  assumes "faultless (env w)" and "tx w = Some (d, False)" and "f (the_session w) d = Inr (a, d')"
  shows "bind_action queries (\<lambda>_. bind_action (translated (statement f)) (\<lambda>x. return_ok (g x))) w =
    (Inr (g a), (next_call w)\<lparr>tx := Some (d', False)\<rparr>)"
  using assms
  by (simp add: bind_action_def attempt_def queries_def translated_def statement_def faultless_def return_ok_def)

section \<open>One event\<close>

definition accepts :: "environment \<Rightarrow> nat \<Rightarrow> bool" where
  "accepts E k \<longleftrightarrow> env_publisher E k = None"

lemma publish_record_outcome:
  assumes w: "reachable w" and E: "faultless (env w)"
    and row: "row \<in> set (outbox (committed w))" "delivers rec row" "or_PublishedAt row = None"
  obtains e w' row' where "publish_record policy rec w = (Inr e, w')" and "reachable w'" and "env w' = env w"
    and "publications w' = Suc (publications w)" and "instants w \<le> instants w'"
    and "e = None \<longleftrightarrow> accepts (env w) (publications w)"
    and "published w' = published w @ (if accepts (env w) (publications w) then [rec] else [])"
    and "outbox (committed w') = map (\<lambda>r. if r = row then row' else r) (outbox (committed w))"
    and "or_ID row' = or_ID row" and "or_PublishedAt row' \<noteq> None \<longleftrightarrow> accepts (env w) (publications w)"
proof -
  have inv: "tx w = None" "constraints (committed w)" using reachable_inv [OF w] by simp_all
  have ids: "distinct (map or_ID (outbox (committed w)))" using constraints_keys(3) [OF inv(2)] .
  have only: "or_ID r = ob_EventID rec \<longleftrightarrow> r = row" if "r \<in> set (outbox (committed w))" for r
    using distinct_key_unique [OF ids that row(1)] row(2) by (auto simp: delivers_def)
  obtain delivery w1 where p: "Publish rec w = (delivery, w1)" by fastforce
  have d: "ok delivery \<longleftrightarrow> accepts (env w) (publications w)" "committed w1 = committed w" "tx w1 = None" "env w1 = env w"
    "publications w1 = Suc (publications w)" "instants w1 = instants w"
    "published w1 = published w @ (if accepts (env w) (publications w) then [rec] else [])"
    using p inv by (auto simp: Publish_def accepts_def split: option.splits)
  obtain recorded w2 where u: "WithinTransaction (record_publication policy rec delivery) w1 = (recorded, w2)" by fastforce
  have conf: "confined (record_publication policy rec delivery)" by (rule confined_record_publication)
  have q: "publications w2 = publications w1" "instants w1 \<le> instants w2"
    using quiet_WithinTransaction [OF quiet_units(2)] u unfolding quiet_def by (metis snd_conv)+
  have fr: "tx w2 = None" "env w2 = env w" "published w2 = published w1"
    using pg.closes [OF conf d(3) u] d(4) by simp_all
  define w' where "w' = w2\<lparr>instants := Suc (instants w2), metrics := metrics w2 @
    [EventPublished (time_Sub (env_clock (env w2) (instants w2)) (ob_OccurredAt rec)) (ok delivery)]\<rparr>"
  have run: "publish_record policy rec w = (Inr (errors_Join [err_of delivery, err_of recorded]), w')"
    using p u by (simp add: publish_record_def attempt_def bind_action_def clock_now_def record_metric_def return_ok_def w'_def)
  have marked: "ok recorded" if acc: "ok delivery"
  proof -
    have "\<exists>a v d. record_publication policy rec delivery w0 = (Inr a, v) \<and> tx v = Some (d, False) \<and> env v = env w1"
      if w0: "tx w0 = Some (committed w1, False)" "env w0 = env w1" for w0
    proof -
      let ?at = "env_clock (env w0) (instants w0)"
      let ?w0 = "w0\<lparr>instants := Suc (instants w0)\<rparr>"
      let ?P = "\<lambda>r. or_ID r = ob_EventID rec \<and> or_PublishedAt r = None"
      obtain r where f: "List.find ?P (outbox (committed w1)) = Some r"
        using row d(2) by (cases "List.find ?P (outbox (committed w1))") (auto simp: find_None_iff delivers_def)
      have r: "r = row" using find_SomeD [OF f] only d(2) by auto
      have "admit outbox_checks outbox_uniques [] (filter (\<lambda>q. \<not> ?P q) (outbox (committed w1)))
          (r\<lparr>or_PublishedAt := Some ?at\<rparr>) = Inr ()"
      proof -
        have "0 \<le>s or_Attempts row"
          by (rule valid_rows_check [OF constraintsD(4) [OF inv(2)] row(1), where c = "''outbox_events_attempts_non_negative''"])
            (simp add: outbox_checks_def)
        moreover have "or_ID q \<noteq> or_ID row" "or_Sequence q \<noteq> or_Sequence row"
          if "q \<in> set (outbox (committed w1))" "\<not> ?P q" for q
          using that row d(2) only [of q] distinct_key_unique [OF constraints_keys(3) [OF inv(2)], of q row]
            distinct_key_unique [OF constraints_keys(4) [OF inv(2)], of q row] by auto
        ultimately show ?thesis by (auto simp: admit_Inr outbox_checks_def outbox_uniques_def r)
      qed
      then obtain n rs where "update_row outbox_checks outbox_uniques [] ?P (\<lambda>r. r\<lparr>or_PublishedAt := Some ?at\<rparr>)
          (outbox (committed w1)) = Inr (n, rs)"
        using f by (auto simp: update_row_def)
      then have "MarkOutboxEventPublished (ob_EventID rec) ?at (the_session ?w0) (committed w1) =
          Inr (n, (committed w1)\<lparr>outbox := rs\<rparr>)"
        by (simp add: MarkOutboxEventPublished_def)
      with written [where w = ?w0 and d = "committed w1" and g = "\<lambda>_. ()"
          and f = "MarkOutboxEventPublished (ob_EventID rec) ?at"] w0 E d(4)
      have "MarkPublished (ob_EventID rec) ?at ?w0 = (Inr (), (next_call ?w0)\<lparr>tx := Some ((committed w1)\<lparr>outbox := rs\<rparr>, False)\<rparr>)"
        by (simp add: MarkPublished_def)
      then show ?thesis
        using acc w0 by (cases delivery)
          (auto simp: record_publication_def bind_action_def attempt_def clock_now_def next_call_def)
    qed
    then show ?thesis using unit_succeeds [of w1 "record_publication policy rec delivery"] E d(3,4) u
      by (metis Inr_Inl_False ok_simps(2) prod.inject)
  qed
  obtain row' where out: "outbox (committed w2) = map (\<lambda>r. if r = row then row' else r) (outbox (committed w))"
    and row': "or_ID row' = or_ID row" "or_PublishedAt row' \<noteq> None \<longleftrightarrow> ok delivery"
  proof (cases "ok recorded")
    case False
    then have "committed w2 = committed w1 \<or> answer_lost (env w1)" 
      using pg.atomic [OF conf d(3) u] unfolding all_or_nothing_def by (cases recorded) auto
    moreover have "\<not> answer_lost (env w1)" using E d(4) by (simp add: answer_lost_def faultless_def)
    ultimately have "outbox (committed w2) = map (\<lambda>r. if r = row then row else r) (outbox (committed w))"
      using d(2) by (simp add: map_idI)
    from that [OF this] False marked row(3) show thesis by auto
  next
    case True
    then obtain x where x: "recorded = Inr x" by (cases recorded) auto
    from pg.result_committed [OF conf d(3) u [unfolded x]] obtain v v' where
      does: "does (record_publication policy rec delivery) v (committed w1) x v' (committed w2)" by metis
    show thesis
    proof (cases delivery)
      case (Inl e)
      from does_record_publication [OF does] obtain f where
        f: "committed w2 = (committed w1)\<lparr>outbox := update_rows (\<lambda>r. or_ID r = ob_EventID rec \<and> or_PublishedAt r = None) f (outbox (committed w1))\<rparr>"
        "\<forall>rec r. delivers rec (f r) = delivers rec r" "\<forall>r. or_PublishedAt (f r) = or_PublishedAt r"
        using Inl by auto
      have "outbox (committed w2) = map (\<lambda>r. if r = row then f row else r) (outbox (committed w))"
        using f(1) d(2) only row(3) by (auto simp: update_rows_def)
      moreover have "or_ID (f row) = or_ID row" using f(2) row(2) by (metis delivers_def)
      moreover have "or_PublishedAt (f row) \<noteq> None \<longleftrightarrow> ok delivery" using f(3) row(3) Inl by simp
      ultimately show thesis by (rule that)
    next
      case (Inr y)
      from does Inr obtain at v2 where "does (MarkPublished (ob_EventID rec) at) v2 (committed w1) x v' (committed w2)"
        by (auto simp: record_publication_def elim!: does_bindE dest!: does_reader [OF reader_basic(4)])
      from does_MarkPublished [OF this]
      have "outbox (committed w2) = map (\<lambda>r. if r = row then row\<lparr>or_PublishedAt := Some at\<rparr> else r) (outbox (committed w))"
        using d(2) only row(3) by (auto simp: update_rows_def)
      from that [OF this] Inr show thesis by simp
    qed
  qed
  have "step w w'" by (rule step_publish [OF run]) (use row in \<open>auto simp: record_of_delivers\<close>)
  then have "reachable w'" by (rule reach_step [OF w])
  moreover have "errors_Join [err_of delivery, err_of recorded] = None \<longleftrightarrow> ok delivery"
    using marked by (cases delivery; cases recorded) (auto simp: errors_Join_def err_of_def)
  moreover have "env w' = env w" "publications w' = Suc (publications w)" "instants w \<le> instants w'"
    "published w' = published w @ (if accepts (env w) (publications w) then [rec] else [])"
    "outbox (committed w') = map (\<lambda>r. if r = row then row' else r) (outbox (committed w))"
    using d q fr out by (simp_all add: w'_def)
  ultimately show thesis using row' unfolding d(1) by - (rule that [OF run, of row']; assumption)
qed


section \<open>One round\<close>

text \<open>The events a publication finds due, each the oldest of its wallet, in their order.\<close>

definition due :: "db \<Rightarrow> time \<Rightarrow> outbox_row list" where
  "due d at = sort_key or_Sequence (filter (\<lambda>r. outbox_head (outbox d) r \<and> or_NextAttemptAt r \<le> at) (outbox d))"

text \<open>What the broker accepted of the records it was sent, from the \<open>n\<close>-th publication on.\<close>

definition accepted_of :: "environment \<Rightarrow> nat \<Rightarrow> 'a list \<Rightarrow> 'a list" where
  "accepted_of E n recs = map snd (filter (\<lambda>(k, _). accepts E k) (enumerate n recs))"

text \<open>The events of \<open>rows\<close> were sent: those accepted are marked, and nothing else is touched.\<close>

definition attended :: "environment \<Rightarrow> nat \<Rightarrow> outbox_row list \<Rightarrow> db \<Rightarrow> db \<Rightarrow> bool" where
  "attended E n rows d d' \<longleftrightarrow> map or_ID (outbox d') = map or_ID (outbox d) \<and>
     (\<forall>q. or_ID q \<notin> or_ID ` set rows \<longrightarrow> (q \<in> set (outbox d') \<longleftrightarrow> q \<in> set (outbox d))) \<and>
     (\<forall>k < length rows. \<exists>r \<in> set (outbox d'). or_ID r = or_ID (rows ! k) \<and>
        (or_PublishedAt r \<noteq> None \<longleftrightarrow> accepts E (n + k)))"

lemma attended_Nil: "attended E n [] d d"
  by (simp add: attended_def)

lemma attended_Cons:
  assumes d: "outbox d1 = map (\<lambda>r. if r = row then row' else r) (outbox d)" "or_ID row' = or_ID row" "row \<in> set (outbox d)"
      "distinct (map or_ID (outbox d))"
    and acc: "or_PublishedAt row' \<noteq> None \<longleftrightarrow> accepts E n"
    and rest: "attended E (Suc n) rows d1 d2" and new: "or_ID row \<notin> or_ID ` set rows"
  shows "attended E n (row # rows) d d2"
proof -
  have ids: "map or_ID (outbox d1) = map or_ID (outbox d)" using d(1,2) by simp
  have others: "q \<in> set (outbox d1) \<longleftrightarrow> q \<in> set (outbox d)" if "or_ID q \<noteq> or_ID row" for q
    using that d(1,2) by (auto simp: image_iff)
  have "row' \<in> set (outbox d1)" using d by force
  then have "row' \<in> set (outbox d2)" using rest new d(2) by (simp add: attended_def)
  then have "\<exists>r \<in> set (outbox d2). or_ID r = or_ID ((row # rows) ! k) \<and> (or_PublishedAt r \<noteq> None \<longleftrightarrow> accepts E (n + k))"
    if "k < length (row # rows)" for k
    using that rest acc d(2) by (cases k) (auto simp: attended_def)
  with rest ids others show ?thesis by (auto simp: attended_def)
qed

lemma publish_all_outcome:
  "reachable w \<Longrightarrow> faultless (env w) \<Longrightarrow>
     \<forall>row \<in> set rows. row \<in> set (outbox (committed w)) \<and> or_PublishedAt row = None \<Longrightarrow> distinct (map or_ID rows) \<Longrightarrow>
     \<exists>es w'. publish_all policy (map outbox_record rows) w = (Inr es, w') \<and> reachable w' \<and> env w' = env w \<and>
       instants w \<le> instants w' \<and> ((\<forall>e \<in> set es. e = None) \<longleftrightarrow> (\<forall>k < length rows. accepts (env w) (publications w + k))) \<and>
       published w' = published w @ accepted_of (env w) (publications w) (map outbox_record rows) \<and>
       attended (env w) (publications w) rows (committed w) (committed w')"
proof (induction rows arbitrary: w)
  case Nil
  then show ?case by (simp add: return_ok_def accepted_of_def attended_Nil)
next
  case (Cons row rows)
  let ?E = "env w" and ?n = "publications w"
  have row: "row \<in> set (outbox (committed w))" "or_PublishedAt row = None" "or_ID row \<notin> or_ID ` set rows"
    using Cons.prems by auto
  have del: "delivers (outbox_record row) row" by (simp add: delivers_def outbox_record_def)
  obtain e w1 row' where p: "publish_record policy (outbox_record row) w = (Inr e, w1)" "reachable w1" "env w1 = ?E"
    "publications w1 = Suc ?n" "instants w \<le> instants w1" "e = None \<longleftrightarrow> accepts ?E ?n"
    "published w1 = published w @ (if accepts ?E ?n then [outbox_record row] else [])"
    and o: "outbox (committed w1) = map (\<lambda>r. if r = row then row' else r) (outbox (committed w))"
      "or_ID row' = or_ID row" "or_PublishedAt row' \<noteq> None \<longleftrightarrow> accepts ?E ?n"
    using publish_record_outcome [OF Cons.prems(1,2) row(1) del row(2)] by blast
  have "\<forall>r \<in> set rows. r \<in> set (outbox (committed w1)) \<and> or_PublishedAt r = None"
    using Cons.prems(3) row(3) o(1) by (force simp: image_iff)
  from Cons.IH [OF p(2) _ this] Cons.prems(2,4) p(3) obtain es w2 where
    q: "publish_all policy (map outbox_record rows) w1 = (Inr es, w2)" "reachable w2" "env w2 = ?E"
    "instants w1 \<le> instants w2" "(\<forall>e \<in> set es. e = None) \<longleftrightarrow> (\<forall>k < length rows. accepts ?E (Suc ?n + k))"
    "published w2 = published w1 @ accepted_of ?E (Suc ?n) (map outbox_record rows)"
    "attended ?E (Suc ?n) rows (committed w1) (committed w2)"
    by (auto simp: p(3,4))
  have ids: "distinct (map or_ID (outbox (committed w)))"
    using constraints_keys(3) reachable_inv [OF Cons.prems(1)] by simp
  have run: "publish_all policy (map outbox_record (row # rows)) w = (Inr (e # es), w2)"
    using p(1) q(1) by (simp add: bind_action_def attempt_def return_ok_def)
  have all: "(\<forall>x \<in> set (e # es). x = None) \<longleftrightarrow> (\<forall>k < length (row # rows). accepts ?E (?n + k))"
    using p(6) q(5) by (auto simp: less_Suc_eq_0_disj)
  have pub: "published w2 = published w @ accepted_of ?E ?n (map outbox_record (row # rows))"
    using p(7) q(6) by (simp add: accepted_of_def)
  have "attended ?E ?n (row # rows) (committed w) (committed w2)"
    using attended_Cons [OF o(1,2) row(1) ids o(3) q(7) row(3)] .
  with run q(2,3,4) p(5) all pub show ?case by (meson le_trans)
qed

lemma due_facts:
  assumes "constraints d"
  shows "set (due d at) = {r \<in> set (outbox d). outbox_head (outbox d) r \<and> or_NextAttemptAt r \<le> at}"
    and "distinct (map or_ID (due d at))"
proof -
  show "set (due d at) = {r \<in> set (outbox d). outbox_head (outbox d) r \<and> or_NextAttemptAt r \<le> at}"
    by (auto simp: due_def)
  have "distinct (map or_ID (filter P (outbox d)))" for P
    using constraints_keys(3) [OF assms] by (simp add: distinct_map_filter)
  then show "distinct (map or_ID (due d at))"
    by (simp add: due_def distinct_map inj_on_def)
qed

text \<open>The lease of a round.\<close>

lemma lease_succeeds:
  assumes w: "reachable w" and E: "faultless (env w)" and free: "\<forall>k. env_held (env w) k = {}"
    and size: "0 \<le> sint (to_int32 limit)"
  obtains w' where "WithinTransaction (LeasePending dueAt leaseUntil limit) w =
      (Inr (map outbox_record (take (nat (sint (to_int32 limit))) (due (committed w) dueAt))), w')"
    and "outbox (committed w') = update_rows (\<lambda>r. or_ID r \<in> or_ID ` set (take (nat (sint (to_int32 limit))) (due (committed w) dueAt)))
      (\<lambda>r. r\<lparr>or_NextAttemptAt := leaseUntil\<rparr>) (outbox (committed w))"
    and "reachable w'" and "env w' = env w" and "published w' = published w"
    and "publications w' = publications w" and "instants w \<le> instants w'"
proof -
  have tx: "tx w = None" using reachable_inv [OF w] by simp
  have conf: "confined (LeasePending dueAt leaseUntil limit)" by simp
  have "\<exists>a w1 d. LeasePending dueAt leaseUntil limit w0 = (Inr a, w1) \<and> tx w1 = Some (d, False) \<and> env w1 = env w"
    if w0: "tx w0 = Some (committed w, False)" "env w0 = env w" for w0
  proof -
    have "\<not> to_int32 limit <s 0" using size by (simp add: word_sless_alt)
    then obtain a d' where "LeasePendingOutboxEvents leaseUntil dueAt (to_int32 limit) (the_session w0) (committed w) = Inr (a, d')"
      by (simp add: LeasePendingOutboxEvents_def Let_def)
    from written [OF _ w0(1), where f = "LeasePendingOutboxEvents leaseUntil dueAt (to_int32 limit)", OF _ this, of "map outbox_record"]
    show ?thesis using E w0(2) by (auto simp: LeasePending_def next_call_def)
  qed
  then obtain rs w' where run: "WithinTransaction (LeasePending dueAt leaseUntil limit) w = (Inr rs, w')"
    using unit_succeeds [OF E tx, of "LeasePending dueAt leaseUntil limit"] by metis
  obtain w0 w1 where does: "does (LeasePending dueAt leaseUntil limit) w0 (committed w) rs w1 (committed w')"
    and e: "env w0 = env w"
    using pg.result_committed [OF conf tx run] .
  have "ss_locked (the_session w0) = {}" using free e by (simp add: the_session_def)
  then have "due_events (the_session w0) dueAt (outbox (committed w)) = due (committed w) dueAt"
    by (simp add: due_events_def due_def)
  with does_LeasePending [OF does]
  have rs: "rs = map outbox_record (take (nat (sint (to_int32 limit))) (due (committed w) dueAt))"
    and out: "outbox (committed w') = update_rows (\<lambda>r. or_ID r \<in> or_ID ` set (take (nat (sint (to_int32 limit))) (due (committed w) dueAt)))
      (\<lambda>r. r\<lparr>or_NextAttemptAt := leaseUntil\<rparr>) (outbox (committed w))"
    by (auto simp: outbox_record_def)
  have "publications w' = publications w" "instants w \<le> instants w'"
    using quiet_WithinTransaction [OF quiet_units(1)] run unfolding quiet_def by (metis snd_conv)+
  with that run rs out reach_step [OF w step_lease_events [OF run]] pg.closes [OF conf tx run]
  show thesis by blast
qed

lemma publication_round:
  assumes w: "reachable w" and E: "faultless (env w)" and free: "\<forall>k. env_held (env w) k = {}"
    and size: "0 \<le> sint (to_int32 (pp_BatchSize policy))"
    and taken: "taken = take (nat (sint (to_int32 (pp_BatchSize policy)))) (due (committed w) (env_clock (env w) (instants w)))"
  obtains errs w' where "PublishOutbox_Execute policy w = (Inr (length taken, errs), w')" and "reachable w'"
    and "env w' = env w" and "instants w \<le> instants w'"
    and "errs = None \<longleftrightarrow> (\<forall>k < length taken. accepts (env w) (publications w + k))"
    and "published w' = published w @ accepted_of (env w) (publications w) (map outbox_record taken)"
    and "attended (env w) (publications w) taken (committed w) (committed w')"
proof -
  let ?now = "env_clock (env w) (instants w)"
  define w0 where "w0 = w\<lparr>instants := Suc (instants w)\<rparr>"
  let ?until = "time_Add ?now (pp_Lease policy)"
  let ?leased = "map (\<lambda>r. r\<lparr>or_NextAttemptAt := ?until\<rparr>) taken"
  have c: "constraints (committed w)" using reachable_inv [OF w] by simp
  have w0: "reachable w0" "env w0 = env w" "committed w0 = committed w" "publications w0 = publications w" "published w0 = published w"
    using reach_step [OF w step_idle, of w0] by (simp_all add: w0_def idle_def)
  obtain w1 where l: "WithinTransaction (LeasePending ?now ?until (pp_BatchSize policy)) w0 = (Inr (map outbox_record taken), w1)"
    and out: "outbox (committed w1) = update_rows (\<lambda>r. or_ID r \<in> or_ID ` set taken) (\<lambda>r. r\<lparr>or_NextAttemptAt := ?until\<rparr>)
      (outbox (committed w))"
    and w1: "reachable w1" "env w1 = env w" "published w1 = published w" "publications w1 = publications w"
      "instants w0 \<le> instants w1"
    using lease_succeeds [OF w0(1) _ _ size, of ?now ?until] E free w0 taken by metis
  have sub: "r \<in> set (outbox (committed w)) \<and> or_PublishedAt r = None" if "r \<in> set taken" for r
    using that due_facts(1) [OF c] unfolding taken by (auto simp: outbox_head_def dest!: in_set_takeD)
  have dist: "distinct (map or_ID taken)"
    using due_facts(2) [OF c] by (simp add: taken take_map [symmetric] distinct_take)
  have same: "map outbox_record ?leased = map outbox_record taken" "map or_ID ?leased = map or_ID taken"
    by (simp_all add: outbox_record_def)
  have leased: "\<forall>r \<in> set ?leased. r \<in> set (outbox (committed w1)) \<and> or_PublishedAt r = None"
    using sub by (auto simp: out update_rows_def image_iff)
  obtain es w2 where p: "publish_all policy (map outbox_record taken) w1 = (Inr es, w2)" "reachable w2" "env w2 = env w"
    "instants w1 \<le> instants w2" "(\<forall>e \<in> set es. e = None) \<longleftrightarrow> (\<forall>k < length taken. accepts (env w) (publications w + k))"
    "published w2 = published w @ accepted_of (env w) (publications w) (map outbox_record taken)"
    and at: "attended (env w) (publications w) ?leased (committed w1) (committed w2)"
    using publish_all_outcome [OF w1(1) _ leased, of policy] E dist same w1 by (auto simp del: map_map)
  have run: "PublishOutbox_Execute policy w = (Inr (length taken, errors_Join es), w2)"
    using l p(1) by (simp add: PublishOutbox_Execute_def bind_action_def attempt_def clock_now_def return_ok_def w0_def)
  have "attended (env w) (publications w) taken (committed w) (committed w2)"
  proof -
    have "map or_ID (outbox (committed w1)) = map or_ID (outbox (committed w))"
      by (simp add: out map_update_rows)
    moreover have "q \<in> set (outbox (committed w1)) \<longleftrightarrow> q \<in> set (outbox (committed w))" if "or_ID q \<notin> or_ID ` set taken" for q
      using that by (auto simp: out update_rows_def image_iff)
    moreover have "or_ID ` set ?leased = or_ID ` set taken" by (simp add: image_image)
    ultimately show ?thesis using at by (simp add: attended_def)
  qed
  moreover have "errors_Join es = None \<longleftrightarrow> (\<forall>e \<in> set es. e = None)" by (auto simp: errors_Join_None)
  ultimately show thesis
    using that [OF run p(2,3)] p(4,5,6) w1(5) by (simp add: w0_def)
qed

section \<open>Rounds after each other\<close>

definition unpublished :: "db \<Rightarrow> outbox_row set" where
  "unpublished d = {r \<in> set (outbox d). or_PublishedAt r = None}"

lemma attended_unpublished:
  assumes "attended E n rows d d'" and "distinct (map or_ID (outbox d))" and "\<forall>k < length rows. accepts E (n + k)"
  shows "unpublished d' \<subseteq> unpublished d - set rows"
proof
  fix r assume "r \<in> unpublished d'"
  then have r: "r \<in> set (outbox d')" "or_PublishedAt r = None" by (simp_all add: unpublished_def)
  have dist: "distinct (map or_ID (outbox d'))" using assms(1,2) by (simp add: attended_def)
  have "or_ID r \<notin> or_ID ` set rows"
  proof
    assume "or_ID r \<in> or_ID ` set rows"
    then obtain k where k: "k < length rows" "or_ID r = or_ID (rows ! k)" by (auto simp: in_set_conv_nth)
    then obtain q where "q \<in> set (outbox d')" "or_ID q = or_ID r" "or_PublishedAt q \<noteq> None"
      using assms(1,3) by (auto simp: attended_def)
    with distinct_key_unique [OF dist this(1) r(1)] r(2) show False by simp
  qed
  then show "r \<in> unpublished d - set rows" using assms(1) r by (auto simp: attended_def unpublished_def)
qed

text \<open>While anything is unpublished and nothing has to wait, something is due.\<close>

lemma something_due:
  assumes "r \<in> unpublished d" and "\<forall>q \<in> unpublished d. or_NextAttemptAt q \<le> at"
  shows "due d at \<noteq> []"
proof -
  have fin: "finite (unpublished d)" by (simp add: unpublished_def)
  define q where "q = arg_min_on or_Sequence (unpublished d)"
  have q: "q \<in> unpublished d" "\<And>x. x \<in> unpublished d \<Longrightarrow> or_Sequence q \<le> or_Sequence x"
    using arg_min_if_finite [OF fin, of or_Sequence] arg_min_least [OF fin, of _ or_Sequence] assms(1)
    unfolding q_def by blast+
  have "outbox_head (outbox d) q" unfolding outbox_head_def using q by (force simp: unpublished_def)
  with q(1) assms(2) have "q \<in> set (due d at)" by (simp add: due_def unpublished_def)
  then show ?thesis by auto
qed

text \<open>The rounds of the publication, one after the other.\<close>

fun publish_rounds :: "PublicationPolicy \<Rightarrow> nat \<Rightarrow> world \<Rightarrow> world" where
  "publish_rounds policy 0 w = w"
| "publish_rounds policy (Suc n) w = publish_rounds policy n (snd (PublishOutbox_Execute policy w))"

text \<open>Nothing is in the way of the publication: no fault, no other session, no event that has to wait.\<close>

definition unhindered :: "world \<Rightarrow> bool" where
  "unhindered w \<longleftrightarrow> faultless (env w) \<and> (\<forall>k. env_held (env w) k = {} \<and> accepts (env w) k) \<and>
     (\<forall>r \<in> unpublished (committed w). \<forall>k \<ge> instants w. or_NextAttemptAt r \<le> env_clock (env w) k)"

lemma unhindered_round:
  assumes w: "reachable w" and u: "unhindered w" and size: "1 \<le> sint (to_int32 (pp_BatchSize policy))"
  shows "reachable (snd (PublishOutbox_Execute policy w))" and "unhindered (snd (PublishOutbox_Execute policy w))"
    and "map or_ID (outbox (committed (snd (PublishOutbox_Execute policy w)))) = map or_ID (outbox (committed w))"
    and "card (unpublished (committed (snd (PublishOutbox_Execute policy w)))) \<le> card (unpublished (committed w)) - 1"
proof -
  define taken where "taken = take (nat (sint (to_int32 (pp_BatchSize policy)))) (due (committed w) (env_clock (env w) (instants w)))"
  have E: "faultless (env w)" "\<forall>k. env_held (env w) k = {}" "\<forall>k. accepts (env w) k"
    using u by (simp_all add: unhindered_def)
  have c: "constraints (committed w)" using reachable_inv [OF w] by simp
  have nonneg: "0 \<le> sint (to_int32 (pp_BatchSize policy))" using size by simp
  obtain errs w' where run: "PublishOutbox_Execute policy w = (Inr (length taken, errs), w')" "reachable w'"
    "env w' = env w" "instants w \<le> instants w'"
    and at: "attended (env w) (publications w) taken (committed w) (committed w')"
    using publication_round [OF w E(1,2) nonneg taken_def] by metis
  have left: "unpublished (committed w') \<subseteq> unpublished (committed w) - set taken"
    using attended_unpublished [OF at constraints_keys(3) [OF c]] E(3) by blast
  have fin: "finite (unpublished (committed w))" by (simp add: unpublished_def)
  have "card (unpublished (committed w')) \<le> card (unpublished (committed w)) - 1"
  proof (cases "unpublished (committed w) = {}")
    case True
    with left show ?thesis by simp
  next
    case False
    then obtain r where "r \<in> unpublished (committed w)" by blast
    from something_due [OF this] u have "due (committed w) (env_clock (env w) (instants w)) \<noteq> []"
      by (simp add: unhindered_def)
    then have "taken \<noteq> []" using size by (simp add: taken_def)
    then have q: "hd taken \<in> set taken" by simp
    then have "hd taken \<in> set (due (committed w) (env_clock (env w) (instants w)))"
      unfolding taken_def by (rule in_set_takeD)
    then have mem: "hd taken \<in> unpublished (committed w)"
      using due_facts(1) [OF c] by (auto simp: unpublished_def outbox_head_def)
    have "unpublished (committed w') \<subseteq> unpublished (committed w) - {hd taken}" using left q by blast
    then have "card (unpublished (committed w')) \<le> card (unpublished (committed w) - {hd taken})"
      using fin by (intro card_mono) auto
    with mem fin show ?thesis by simp
  qed
  moreover have "unhindered w'"
    using u left run(3,4) unfolding unhindered_def by (auto dest: le_trans)
  ultimately show "reachable (snd (PublishOutbox_Execute policy w))" "unhindered (snd (PublishOutbox_Execute policy w))"
    "map or_ID (outbox (committed (snd (PublishOutbox_Execute policy w)))) = map or_ID (outbox (committed w))"
    "card (unpublished (committed (snd (PublishOutbox_Execute policy w)))) \<le> card (unpublished (committed w)) - 1"
    using run at by (simp_all add: attended_def)
qed

lemma unhindered_rounds:
  assumes "1 \<le> sint (to_int32 (pp_BatchSize policy))"
  shows "reachable w \<Longrightarrow> unhindered w \<Longrightarrow> reachable (publish_rounds policy n w) \<and>
    map or_ID (outbox (committed (publish_rounds policy n w))) = map or_ID (outbox (committed w)) \<and>
    card (unpublished (committed (publish_rounds policy n w))) \<le> card (unpublished (committed w)) - n"
proof (induction n arbitrary: w)
  case (Suc n)
  note one = unhindered_round [OF Suc.prems assms]
  from Suc.IH [OF one(1,2)] one(3,4) show ?case by auto
qed simp

section \<open>Guarantees\<close>

text \<open>The events of the sample run: two of one wallet, to be published at once.\<close>

lemma opened_events:
  "length (take 10 (due (committed opened_world) (env_clock calm (instants opened_world)))) = 1 \<and>
   list_all (\<lambda>r. or_NextAttemptAt r \<le> 100) (outbox (committed opened_world))"
  by code_simp

lemma sample_batch: "sint (to_int32 (pp_BatchSize publication_policy)) = 10"
  by code_simp

lemma opened_unhindered: "unhindered opened_world"
  using opened_events
  by (fastforce simp: unhindered_def faultless_def accepts_def calm_def unpublished_def list_all_iff)



text \<open>C24. Nothing stays in the outbox: while the database answers, the broker accepts, nobody else holds
  the events and none has to wait, as many rounds as there are unpublished events leave none, and every
  event that was recorded has been delivered with its contents.\<close>

theorem outbox_drained:
  assumes "reachable w" and "unhindered w" and "1 \<le> sint (to_int32 (pp_BatchSize policy))"
    and "card (unpublished (committed w)) \<le> n"
  shows "let w' = publish_rounds policy n w in
    unpublished (committed w') = {} \<and> map or_ID (outbox (committed w')) = map or_ID (outbox (committed w)) \<and>
    (\<forall>r \<in> set (outbox (committed w')). \<exists>rec \<in> set (published w'). delivers rec r)"
proof -
  let ?w = "publish_rounds policy n w"
  note rounds = unhindered_rounds [OF assms(3,1,2), of n]
  then have none: "unpublished (committed ?w) = {}" using assms(4) by (simp add: unpublished_def)
  have "delivered ?w" using rounds reachable_inv by blast
  with none rounds show ?thesis unfolding Let_def delivered_def unpublished_def by blast
qed

theorem outbox_drained_witness:
  "unpublished (committed (publish_rounds publication_policy 2 opened_world)) = {}"
proof -
  have "card (unpublished (committed opened_world)) \<le> length (outbox (committed opened_world))"
    by (rule le_trans [OF card_mono card_length]) (auto simp: unpublished_def)
  then have "card (unpublished (committed opened_world)) \<le> 2" using opened_rows by simp
  from outbox_drained [OF reachable_opened opened_unhindered _ this, of publication_policy]
  show ?thesis by (simp add: sample_batch Let_def)
qed

end
