(* ===== verification/Jobs.thy ===== *)
theory Jobs
  imports Reachable
begin

text \<open>
  The units of work once more, statement by statement. An \<open>action\<close> runs from its beginning to its
  end; a \<open>job\<close> is the same work cut at its statements, so that other sessions can come in between. A
  job has finished, or has one more turn to take, for which it needs some wallets locked: those that
  \<open>SELECT ... FOR UPDATE\<close> names. Each job below follows the function of the same name, and running it
  in one go is that function (\<open>jobs_run\<close>).
\<close>

section \<open>Jobs\<close>

datatype 'a job = Done "err + 'a" | Turn "ID set" "world \<Rightarrow> 'a job \<times> world"

primrec run_job :: "'a job \<Rightarrow> 'a action" where
  "run_job (Done r) = of_result r"
| "run_job (Turn K f) = (\<lambda>w. case (map_prod run_job id \<circ> f) w of (m, w') \<Rightarrow> m w')"

primrec attempt_job :: "'a job \<Rightarrow> ((err + 'a) \<Rightarrow> 'b job) \<Rightarrow> 'b job" where
  "attempt_job (Done r) k = k r"
| "attempt_job (Turn K f) k = Turn K (map_prod (\<lambda>j. attempt_job j k) id \<circ> f)"

definition give :: "'a \<Rightarrow> 'a job" where
  "give a = Done (Inr a)"

definition refuse :: "err \<Rightarrow> 'a job" where
  "refuse e = Done (Inl e)"

definition bind_job :: "'a job \<Rightarrow> ('a \<Rightarrow> 'b job) \<Rightarrow> 'b job" where
  "bind_job j k = attempt_job j (\<lambda>r. case r of Inl e \<Rightarrow> refuse e | Inr a \<Rightarrow> k a)"

text \<open>One turn, which locks the wallets \<open>K\<close>.\<close>

definition turn :: "ID set \<Rightarrow> 'a action \<Rightarrow> 'a job" where
  "turn K m = Turn K (\<lambda>w. case m w of (r, w') \<Rightarrow> (Done r, w'))"

lemma run_attempt: "run_job (attempt_job j k) = attempt (run_job j) (\<lambda>r. run_job (k r))"
proof (induction j)
  case (Turn K f)
  show ?case
  proof
    fix w
    obtain j w' where f: "f w = (j, w')" by fastforce
    have "run_job (attempt_job j k) = attempt (run_job j) (\<lambda>r. run_job (k r))"
      by (rule Turn.IH [of "(j, w')"]) (use f in \<open>auto intro: rangeI [of f w, unfolded f]\<close>)
    with f show "run_job (attempt_job (Turn K f) k) w = attempt (run_job (Turn K f)) (\<lambda>r. run_job (k r)) w"
      by (simp add: attempt_def)
  qed
qed (simp add: attempt_def of_result_def)

lemma run_basic [simp]:
  "run_job (give a) = return_ok a"
  "run_job (refuse e) = raise_err e"
  "run_job (turn K m) = m"
  by (simp_all add: give_def refuse_def turn_def of_result_def return_ok_def raise_err_def fun_eq_iff
      split: prod.splits)

lemma attempt_same: "(\<And>r. f r = g r) \<Longrightarrow> attempt m f = attempt m g"
  by (metis ext)

lemma bind_same: "(\<And>a. f a = g a) \<Longrightarrow> bind_action m f = bind_action m g"
  by (metis ext)

lemma run_bind: "run_job (bind_job j k) = bind_action (run_job j) (\<lambda>a. run_job (k a))"
  unfolding bind_job_def bind_action_def run_attempt by (rule attempt_same) (simp split: sum.splits)

section \<open>settlement.go\<close>

definition GetForUpdate_job :: "ID \<Rightarrow> Wallet job" where
  "GetForUpdate_job i = turn {i} (GetForUpdate i)"

definition refuse_reversed_job ::
  "Transaction \<Rightarrow> Transaction \<Rightarrow> ((err + Transaction option) \<times> Transaction) job" where
  "refuse_reversed_job t reference =
     (if \<not> IsReversal (t_kind t) then give (Inr (Some reference), t)
      else attempt_job (turn {} (HasProcessedReversal (t_id reference))) (\<lambda>h.
        case h of
          Inl e \<Rightarrow> give (Inl e, t)
        | Inr reversed \<Rightarrow>
            if reversed then give (Inl (RejectionError FailureCodeReferenceAlreadyReversed), t)
            else give (Inr (Some reference), t)))"

definition check_reference_job ::
  "Transaction \<Rightarrow> Transaction option \<Rightarrow> ((err + Transaction option) \<times> Transaction) job" where
  "check_reference_job t found =
     (case found of
        None \<Rightarrow> give (Inl (Sentinel ErrReferencePending), t)
      | Some reference \<Rightarrow>
          if \<not> IsTerminal (t_state reference)
            then give (Inl (Sentinel ErrReferencePending), t)
          else (case ResolveReference t (Some reference) of
              Inl e \<Rightarrow> give (Inl e, t)
            | Inr t' \<Rightarrow> refuse_reversed_job t' reference))"

definition findReference_job :: "Transaction \<Rightarrow> ((err + Transaction option) \<times> Transaction) job" where
  "findReference_job t =
     (if t_referenceExternalTransactionID t = '''' then give (Inr None, t)
      else attempt_job (turn {} (FindByExternalID (t_providerID t) (t_referenceExternalTransactionID t))) (\<lambda>r.
        case r of
          Inl e \<Rightarrow> give (Inl e, t)
        | Inr found \<Rightarrow> check_reference_job t found))"

definition find_and_apply_job ::
  "Wallet \<Rightarrow> Transaction \<Rightarrow> time \<Rightarrow> (err option \<times> Entry option \<times> Wallet \<times> Transaction) job" where
  "find_and_apply_job w t at =
     bind_job (findReference_job t) (\<lambda>(reference, t').
       case reference of
         Inl e \<Rightarrow> give (Some e, None, w, t')
       | Inr q \<Rightarrow>
           bind_job (turn {} NewID) (\<lambda>i.
             case wallet_Apply w (Some t') q at i of
               Inl e \<Rightarrow> give (Some e, None, w, t')
             | Inr (entry, w') \<Rightarrow> give (None, entry, w', t')))"

text \<open>The events are appended one statement at a time.\<close>

fun append_events_job :: "Event list \<Rightarrow> unit job" where
  "append_events_job [] = give ()"
| "append_events_job (e # es) = bind_job (turn {} (append_event e)) (\<lambda>_. append_events_job es)"

definition OutboxAppend_job :: "Event list \<Rightarrow> unit job" where
  "OutboxAppend_job events = bind_job (turn {} queries) (\<lambda>_. append_events_job events)"

definition record_settlement_job ::
  "Wallet \<Rightarrow> int64 \<Rightarrow> Transaction \<Rightarrow> Entry option \<Rightarrow> Event list \<Rightarrow> (Transaction \<Rightarrow> unit action) \<Rightarrow> unit job" where
  "record_settlement_job w loadedVersion t entry events save =
     bind_job (turn {} (save t)) (\<lambda>_.
     bind_job
       (case entry of
          None \<Rightarrow> give ()
        | Some e \<Rightarrow> bind_job (turn {} (UpdateBalance w loadedVersion)) (\<lambda>_. turn {} (LedgerRepository_Append e)))
       (\<lambda>_. OutboxAppend_job events))"

text \<open>The events of a concluded operation, and all that is written for it.\<close>

definition settle_job ::
  "Wallet \<Rightarrow> Wallet \<Rightarrow> Transaction \<Rightarrow> Entry option \<Rightarrow> string \<Rightarrow> time \<Rightarrow> (Transaction \<Rightarrow> unit action) \<Rightarrow> unit job" where
  "settle_job w w' t entry correlationID at save =
     bind_job (turn {} (newEvents t w' entry correlationID at)) (\<lambda>events.
       record_settlement_job w' (w_version w) t entry events save)"

section \<open>process_wager.go\<close>

definition findReplay_job :: "Transaction \<Rightarrow> Transaction option job" where
  "findReplay_job t =
     bind_job (turn {} (FindByIdempotencyKey (t_providerID t) (t_idempotencyKey t))) (\<lambda>previous.
       case previous of
         Some p \<Rightarrow>
           if t_payloadHash p \<noteq> t_payloadHash t
             then refuse (ConflictError FailureCodeIdempotencyConflict)
           else give (Some p)
       | None \<Rightarrow>
           bind_job (turn {} (FindByExternalID (t_providerID t) (t_externalTransactionID t))) (\<lambda>found.
             case found of
               Some _ \<Rightarrow> refuse (ConflictError FailureCodeIdempotencyConflict)
             | None \<Rightarrow> give None))"

definition new_operation_job :: "Transaction \<Rightarrow> string \<Rightarrow> time \<Rightarrow> Wallet \<Rightarrow> WagerResult job" where
  "new_operation_job t correlationID receivedAt w =
     bind_job (find_and_apply_job w t receivedAt) (\<lambda>(outcome, entry, w', t').
     bind_job (Done (conclude t' w' outcome receivedAt)) (\<lambda>t''.
     bind_job (settle_job w w' t'' entry correlationID receivedAt TransactionRepository_Create)
       (\<lambda>_. give (newWagerResult t'' False))))"

definition process_job :: "Transaction \<Rightarrow> string \<Rightarrow> time \<Rightarrow> WagerResult job" where
  "process_job t correlationID receivedAt =
     bind_job (GetForUpdate_job (t_walletID t)) (\<lambda>w.
     bind_job (findReplay_job t) (\<lambda>previous.
       case previous of
         Some p \<Rightarrow> give (newWagerResult p True)
       | None \<Rightarrow> new_operation_job t correlationID receivedAt w))"

text \<open>The parts of the functions agree with those of the jobs.\<close>

lemma run_OutboxAppend: "run_job (OutboxAppend_job es) = OutboxRepository_Append es"
proof -
  have "run_job (append_events_job es) = append_events es" by (induction es) (simp_all add: run_bind)
  then show ?thesis by (simp add: OutboxAppend_job_def OutboxRepository_Append_def run_bind)
qed

lemma run_record_settlement:
  "run_job (record_settlement_job w n t entry es save) = record_settlement w n t entry es save"
  unfolding record_settlement_job_def record_settlement_def
  by (cases entry) (simp_all add: run_bind run_OutboxAppend)

lemma bind_bind_action: "bind_action (bind_action m f) g = bind_action m (\<lambda>a. bind_action (f a) g)"
  by (auto simp: bind_action_def attempt_def raise_err_def fun_eq_iff split: sum.splits prod.splits)

lemma run_settle:
  "run_job (settle_job w w' t entry c at save) =
     bind_action (newEvents t w' entry c at) (\<lambda>es. record_settlement w' (w_version w) t entry es save)"
  by (simp add: settle_job_def run_bind run_record_settlement)

lemma run_findReference: "run_job (findReference_job t) = findReference t"
proof -
  have "run_job (refuse_reversed_job u r) = refuse_reversed u r" for u r
    unfolding refuse_reversed_job_def refuse_reversed_def
    by (auto simp: run_attempt intro!: attempt_same split: sum.splits)
  then have "run_job (check_reference_job t found) = check_reference t found" for found
    by (auto simp: check_reference_job_def check_reference_def split: option.splits sum.splits)
  then show ?thesis
    unfolding findReference_job_def findReference_def
    by (auto simp: run_attempt intro!: attempt_same split: sum.splits)
qed

lemma run_find_and_apply: "run_job (find_and_apply_job w t at) = find_and_apply w t at"
  unfolding find_and_apply_job_def find_and_apply_def run_bind run_findReference
  by (rule bind_same) (auto simp: run_bind intro!: bind_same split: sum.splits)

lemma run_findReplay: "run_job (findReplay_job t) = findReplay t"
  unfolding findReplay_job_def findReplay_def run_bind run_basic
  by (rule bind_same) (auto simp: run_bind intro!: bind_same split: option.splits)

lemma run_process: "run_job (process_job t c at) = process_in_transaction t c at"
  unfolding process_job_def process_in_transaction_def run_bind run_findReplay GetForUpdate_job_def run_basic
  by (auto simp: new_operation_job_def run_bind run_find_and_apply run_settle bind_bind_action of_result_def intro!: bind_same split: option.splits)

text \<open>
  \<open>Execute\<close> as the consumer's transaction runs it: its own unit of work joins that transaction.
\<close>

definition ProcessWager_job :: "ProcessWagerInput \<Rightarrow> WagerResult job" where
  "ProcessWager_job input =
     (if in_CorrelationID input = '''' then refuse (ValidationError FailureCodeInvalidInput)
      else bind_job (turn {} (\<lambda>w. (PayloadHash (env w) input, w))) (\<lambda>payloadHash.
      bind_job (turn {} clock_now) (\<lambda>receivedAt.
      bind_job (turn {} NewID) (\<lambda>i.
      bind_job (Done (NewExternal (new_external_params input payloadHash i receivedAt))) (\<lambda>t.
      attempt_job (process_job t (in_CorrelationID input) receivedAt) (\<lambda>r.
        case r of
          Inl e \<Rightarrow>
            bind_job
              (if errors_Is e (Sentinel ErrConcurrentUpdate) then turn {} (record_metric ConcurrencyConflict)
               else give ())
              (\<lambda>_. refuse e)
        | Inr result \<Rightarrow>
            bind_job (turn {} clock_now) (\<lambda>finished.
            bind_job (turn {} (record_metric (WagerConcluded (t_kind t) (res_State result)
                (res_FailureCode result) (res_IdempotentReplay result) (time_Sub finished receivedAt))))
              (\<lambda>_. give result))))))))"

section \<open>process_inbox_message.go\<close>

definition take_job :: "InboundMessage \<Rightarrow> string \<Rightarrow> InboundResult job" where
  "take_job message payloadHash =
     bind_job (turn {} (InboxRepository_Find (msg_MessageID message))) (\<lambda>recorded.
       case recorded of
         Some m \<Rightarrow>
           if im_PayloadHash m \<noteq> payloadHash
             then refuse (ConflictError FailureCodeIdempotencyConflict)
           else give \<lparr>inr_WagerResult = zero_WagerResult\<lparr>res_TransactionID := im_TransactionID m,
             res_IdempotentReplay := True\<rparr>, inr_Duplicate = True\<rparr>
       | None \<Rightarrow>
           bind_job (ProcessWager_job (msg_Input message)) (\<lambda>applied.
           bind_job (turn {} (InboxRepository_Record \<lparr>im_MessageID = msg_MessageID message,
               im_PayloadHash = payloadHash, im_TransactionID = res_TransactionID applied\<rparr>))
             (\<lambda>_. give \<lparr>inr_WagerResult = applied, inr_Duplicate = False\<rparr>)))"

section \<open>resolve_pending_references.go\<close>

definition conclude_retry_job ::
  "ReferenceRetryPolicy \<Rightarrow> time \<Rightarrow> Wallet \<Rightarrow> Wallet \<Rightarrow> Entry option \<Rightarrow> Transaction \<Rightarrow> State job" where
  "conclude_retry_job policy at w w' entry t =
     (if t_state t = StatePendingReference
      then bind_job (turn {} (UpdatePendingReference t
          (time_Add at (policy_delay policy (t_referenceAttempts t)))))
        (\<lambda>_. give (t_state t))
      else
        bind_job (turn {} (\<lambda>v. (Inr (retry_correlation (env v) (t_id t)), v))) (\<lambda>correlationID.
        bind_job (settle_job w w' t entry correlationID at (\<lambda>u. UpdatePendingReference u zero_time))
          (\<lambda>_. give (t_state t))))"

definition retry_waiting_job :: "ReferenceRetryPolicy \<Rightarrow> Transaction \<Rightarrow> time \<Rightarrow> Wallet \<Rightarrow> State job" where
  "retry_waiting_job policy t at w =
     bind_job (find_and_apply_job w t at) (\<lambda>(outcome, entry, w', t').
     bind_job (Done (retry_outcome policy t' w' outcome at)) (\<lambda>t''.
     conclude_retry_job policy at w w' entry t''))"

definition retry_job :: "ReferenceRetryPolicy \<Rightarrow> PendingReference \<Rightarrow> time \<Rightarrow> State job" where
  "retry_job policy pending at =
     bind_job (GetForUpdate_job (pr_WalletID pending)) (\<lambda>w.
     bind_job (turn {} (FindByID (pr_TransactionID pending))) (\<lambda>found.
       case found of
         None \<Rightarrow> give (OtherState '''')
       | Some t \<Rightarrow>
           if t_state t \<noteq> StatePendingReference then give (t_state t)
           else retry_waiting_job policy t at w))"

section \<open>open_wallet.go\<close>

definition open_events_job :: "Wallet \<Rightarrow> Transaction \<Rightarrow> Entry \<Rightarrow> string \<Rightarrow> time \<Rightarrow> unit job" where
  "open_events_job w t credit correlationID now =
     bind_job (turn {} NewID) (\<lambda>i.
     bind_job (Done (NewWagerTransactionProcessed i (Some t) correlationID now)) (\<lambda>processed.
     bind_job (turn {} NewID) (\<lambda>j.
     bind_job (Done (NewWalletBalanceChanged j (Some w) (Some credit) correlationID now)) (\<lambda>balanceChanged.
     OutboxAppend_job [processed, balanceChanged]))))"

definition open_credit_job :: "Wallet \<Rightarrow> Transaction \<Rightarrow> string \<Rightarrow> time \<Rightarrow> unit job" where
  "open_credit_job w t correlationID now =
     bind_job (turn {} (TransactionRepository_Create t)) (\<lambda>_.
     bind_job (turn {} NewID) (\<lambda>i.
     bind_job (Done (OpeningLedgerEntry w (t_id t) now i)) (\<lambda>credit.
     bind_job (turn {} (LedgerRepository_Append credit)) (\<lambda>_.
     open_events_job w t credit correlationID now))))"

definition open_job :: "Wallet \<Rightarrow> string \<Rightarrow> time \<Rightarrow> unit job" where
  "open_job w correlationID now =
     bind_job (turn {} (WalletRepository_Create w)) (\<lambda>_.
       if \<not> money_IsPositive (w_balance w) then give ()
       else
         bind_job (turn {} NewID) (\<lambda>i.
         bind_job (Done (NewOpening i (w_id w) (w_playerID w) (w_balance w) now)) (\<lambda>opening.
         open_credit_job w opening correlationID now)))"

section \<open>The jobs run as the functions do\<close>

definition same_inside :: "'a action \<Rightarrow> 'a action \<Rightarrow> bool" where
  "same_inside m m' \<longleftrightarrow> (\<forall>w :: world. tx w \<noteq> None \<longrightarrow> m w = m' w)"

lemma same_inside_refl [simp]: "same_inside m m"
  by (simp add: same_inside_def)

lemma same_inside_attempt:
  assumes "same_inside m m'" and "confined m'" and "\<And>r. same_inside (f r) (f' r)"
  shows "same_inside (attempt m f) (attempt m' f')"
  unfolding same_inside_def
proof (intro allI impI)
  fix w :: world assume w: "tx w \<noteq> None"
  then obtain d ab where tx: "tx w = Some (d, ab)" by auto
  obtain r w1 where m: "m' w = (r, w1)" by fastforce
  then have "tx w1 \<noteq> None" using confinedD [OF assms(2) tx m] by (metis option.distinct(1))
  with assms(1,3) w m show "attempt m f w = attempt m' f' w" by (simp add: attempt_def same_inside_def)
qed

lemma same_inside_bind:
  "same_inside m m' \<Longrightarrow> confined m' \<Longrightarrow> (\<And>a. same_inside (f a) (f' a)) \<Longrightarrow>
   same_inside (bind_action m f) (bind_action m' f')"
  unfolding bind_action_def by (rule same_inside_attempt) (auto split: sum.splits)

lemma run_ProcessWager: "same_inside (run_job (ProcessWager_job input)) (ProcessWager_Execute input)"
proof -
  have join: "same_inside m (WithinTransaction m)" for m :: "WagerResult action"
    by (simp add: same_inside_def WithinTransaction_def)
  show ?thesis
    unfolding ProcessWager_job_def ProcessWager_Execute_def
    by (auto simp: run_bind run_attempt run_process of_result_def intro!: same_inside_bind same_inside_attempt join
        confined_WithinTransaction split: sum.splits)
qed

lemma run_take: "same_inside (run_job (take_job message hash)) (take_in_transaction message hash)"
  unfolding take_job_def take_in_transaction_def run_bind
  by (rule same_inside_bind)
    (auto simp: run_bind intro!: same_inside_bind run_ProcessWager split: option.splits)

lemma run_retry: "run_job (retry_job policy pending at) = retry_in_transaction policy pending at"
  unfolding retry_job_def retry_in_transaction_def run_bind GetForUpdate_job_def run_basic retry_outcome_def
  by (auto simp: retry_waiting_job_def conclude_retry_job_def retry_outcome_def run_bind run_find_and_apply run_settle bind_bind_action of_result_def intro!: bind_same split: option.splits)

lemma run_open: "run_job (open_job w c at) = open_in_transaction w c at"
  unfolding open_job_def open_in_transaction_def open_credit_job_def open_events_job_def run_bind
  by (auto simp: run_bind run_OutboxAppend of_result_def intro!: bind_same)

end
