(* ===== verification/Sessions.thy ===== *)
theory Sessions
  imports Jobs
begin

text \<open>
  Sessions at work at the same time, at PostgreSQL's level \<open>READ COMMITTED\<close>: each statement sees what
  is committed by then and what its own transaction wrote. A session keeps its view of the tables; when
  another one commits, the view is brought up to date (\<open>rebase\<close>): what it wrote itself stays, and
  everything else is as now committed. What PostgreSQL makes sessions wait for is a condition on a turn
  (\<open>compatible\<close>): no two open transactions write the same row, or rows that exclude each other under a
  unique index, and none writes, or locks, a wallet that another one locked.
\<close>

section \<open>Tables under two writers\<close>

text \<open>Rows keep their places, so that a row two versions share is the one at the same position.\<close>

definition merge_rows :: "'r list \<Rightarrow> 'r list \<Rightarrow> 'r list \<Rightarrow> 'r list" where
  "merge_rows old theirs mine =
     map (\<lambda>(a, b, m). if m = a then b else m) (zip old (zip theirs mine)) @
     drop (length old) theirs @ drop (length old) mine"

definition written :: "'r list \<Rightarrow> 'r list \<Rightarrow> 'r set" where
  "written old rs = set rs - set old"

definition apart_rows :: "'r uniques \<Rightarrow> 'r list \<Rightarrow> 'r list \<Rightarrow> 'r list \<Rightarrow> bool" where
  "apart_rows uniques old xs ys \<longleftrightarrow>
     (\<forall>(c, clash) \<in> set uniques. \<forall>x \<in> written old xs. \<forall>y \<in> written old ys. \<not> clash x y)"

lemma merge_old: "grown K old theirs \<Longrightarrow> merge_rows old theirs old = theirs"
proof -
  assume "grown K old theirs"
  then obtain zs us where t: "theirs = zs @ us" "list_all2 K old zs" unfolding grown_def by blast
  have len: "length zs = length old" using t(2) by (simp add: list_all2_lengthD)
  with t(1) have "map (\<lambda>(a, b, m). if m = a then b else m) (zip old (zip theirs old)) = zs"
    by (intro nth_equalityI) (simp_all add: nth_append)
  with t(1) len show ?thesis by (simp add: merge_rows_def)
qed

lemma grown_nth: "grown K xs ys \<Longrightarrow> length xs \<le> length ys \<and> (\<forall>p < length xs. K (xs ! p) (ys ! p))"
  unfolding grown_def by (auto simp: list_all2_conv_all_nth nth_append)

lemma grownI: "length xs \<le> length ys \<Longrightarrow> (\<And>p. p < length xs \<Longrightarrow> K (xs ! p) (ys ! p)) \<Longrightarrow> grown K xs ys"
  unfolding grown_def
  by (rule exI [of _ "take (length xs) ys"], rule exI [of _ "drop (length xs) ys"])
    (simp add: list_all2_conv_all_nth)

locale table =
  fixes key :: "'r \<Rightarrow> 'k" and keeps :: "'r \<Rightarrow> 'r \<Rightarrow> bool"
    and checks :: "'r checks" and uniques :: "'r uniques" and primary :: string
  assumes primary_key: "(primary, \<lambda>q r. key q = key r) \<in> set uniques"
    and symmetric: "symmetric_clashes uniques"
    and keeps_same: "keeps r r"
    and keeps_key: "keeps q r \<Longrightarrow> key r = key q"
begin

lemma valid_keys: "valid_rows checks uniques rs \<Longrightarrow> distinct (map key rs)"
  using primary_key by (force simp: valid_rows_def sorted_wrt_keys)

lemma valid_pair:
  assumes "valid_rows checks uniques rs" and "(c, clash) \<in> set uniques"
    and "x \<in> set rs" and "y \<in> set rs" and "x \<noteq> y"
  shows "\<not> clash x y"
proof -
  have s: "sorted_wrt (\<lambda>q r. \<not> clash q r) rs" using assms(1,2) by (auto simp: valid_rows_def)
  have sym: "clash q r \<Longrightarrow> clash r q" for q r
    using symmetric assms(2) by (auto simp: symmetric_clashes_def)
  obtain i j where "i < length rs" "rs ! i = x" "j < length rs" "rs ! j = y"
    using assms(3,4) by (auto simp: in_set_conv_nth)
  with assms(5) s show ?thesis
    using sorted_wrt_nth_less [OF s, of i j] sorted_wrt_nth_less [OF s, of j i] sym
    by (metis linorder_neqE_nat)
qed

lemma valid_rowsI:
  assumes "\<And>r. r \<in> set rs \<Longrightarrow> first_failed checks r = None" and "distinct (map key rs)"
    and "\<And>c clash x y. (c, clash) \<in> set uniques \<Longrightarrow> x \<in> set rs \<Longrightarrow> y \<in> set rs \<Longrightarrow> x \<noteq> y \<Longrightarrow> \<not> clash x y"
  shows "valid_rows checks uniques rs"
proof -
  have d: "distinct rs" using assms(2) by (simp add: distinct_map)
  have "sorted_wrt (\<lambda>q r. \<not> clash q r) rs" if "(c, clash) \<in> set uniques" for c clash
    using d assms(3) [OF that] by (auto simp: sorted_wrt_iff_nth_less nth_eq_iff_index_eq)
  with assms(1) show ?thesis by (auto simp: valid_rows_def)
qed

text \<open>Two sets of changes to a table that were kept apart.\<close>

definition diverged :: "'r list \<Rightarrow> 'r list \<Rightarrow> 'r list \<Rightarrow> bool" where
  "diverged old theirs mine \<longleftrightarrow>
     valid_rows checks uniques old \<and> valid_rows checks uniques theirs \<and> valid_rows checks uniques mine \<and>
     grown keeps old theirs \<and> grown keeps old mine \<and> apart_rows uniques old theirs mine"

lemma changed_written:
  assumes "grown keeps old rs" and "distinct (map key old)" and "p < length old" and "rs ! p \<noteq> old ! p"
  shows "rs ! p \<in> written old rs"
proof -
  have p: "p < length rs" "key (rs ! p) = key (old ! p)"
    using grown_nth [OF assms(1)] keeps_key assms(3) by auto
  have "rs ! p \<notin> set old"
    using distinct_key_unique [OF assms(2), of "rs ! p" "old ! p"] assms(3,4) p by auto
  with p show ?thesis by (simp add: written_def)
qed

lemma added_written:
  assumes "grown keeps old rs" and "distinct (map key rs)" and "x \<in> set (drop (length old) rs)"
  shows "x \<in> written old rs" and "key x \<notin> key ` set old"
proof -
  note g = grown_nth [OF assms(1)]
  have "map key old = map key (take (length old) rs)"
    using g keeps_key by (auto simp: list_eq_iff_nth_eq)
  moreover have "distinct (map key (take (length old) rs) @ map key (drop (length old) rs))"
    using assms(2) by (metis append_take_drop_id map_append)
  ultimately show "key x \<notin> key ` set old" using assms(3) by (metis IntI distinct_append emptyE image_eqI list.set_map)
  then show "x \<in> written old rs" using assms(3) by (auto simp: written_def dest: in_set_dropD)
qed

lemma one_writer:
  assumes "diverged old theirs mine" and "p < length old"
  shows "theirs ! p = old ! p \<or> mine ! p = old ! p"
proof (rule ccontr)
  assume "\<not> ?thesis"
  moreover have "distinct (map key old)" using assms(1) valid_keys by (simp add: diverged_def)
  ultimately have "theirs ! p \<in> written old theirs" "mine ! p \<in> written old mine"
    using assms changed_written by (auto simp: diverged_def)
  then have "key (theirs ! p) \<noteq> key (mine ! p)"
    using assms(1) primary_key by (fastforce simp: diverged_def apart_rows_def)
  moreover have "key (theirs ! p) = key (old ! p)" "key (mine ! p) = key (old ! p)"
    using assms grown_nth keeps_key unfolding diverged_def by blast+
  ultimately show False by simp
qed

lemma merge_nth:
  assumes "diverged old theirs mine" and "p < length old"
  shows "merge_rows old theirs mine ! p = (if mine ! p = old ! p then theirs ! p else mine ! p)"
proof -
  have "length old \<le> length theirs" "length old \<le> length mine"
    using assms(1) grown_nth unfolding diverged_def by blast+
  with assms(2) show ?thesis by (simp add: merge_rows_def nth_append)
qed

lemma merge_length:
  "diverged old theirs mine \<Longrightarrow> length (merge_rows old theirs mine) = length theirs + (length mine - length old)"
  using grown_nth [of keeps old theirs] grown_nth [of keeps old mine] by (auto simp: diverged_def merge_rows_def)

lemma merge_set:
  assumes "diverged old theirs mine" and "x \<in> set (merge_rows old theirs mine)"
  shows "x \<in> written old mine \<or> x \<in> written old theirs \<or> x \<in> set mine \<and> x \<in> set theirs"
proof -
  note s = assms(1) [unfolded diverged_def]
  have keys: "distinct (map key old)" "distinct (map key theirs)" "distinct (map key mine)"
    using s valid_keys by auto
  have len: "length old \<le> length theirs" "length old \<le> length mine"
    using s grown_nth by blast+
  from assms(2) consider p where "p < length old" "x = (if mine ! p = old ! p then theirs ! p else mine ! p)"
    | "x \<in> set (drop (length old) theirs)" | "x \<in> set (drop (length old) mine)"
    using len by (auto simp: merge_rows_def set_zip)
  then show ?thesis
  proof cases
    case (1 p)
    then have p: "theirs ! p \<in> set theirs" "mine ! p \<in> set mine" using len by auto
    from 1 p s changed_written [OF _ keys(1) 1(1)] show ?thesis by (metis (full_types))
  qed (use s keys added_written(1) in blast)+
qed

lemma merge_grown:
  assumes "diverged old theirs mine"
  shows "grown keeps theirs (merge_rows old theirs mine)"
proof (rule grownI)
  note s = assms [unfolded diverged_def]
  show "length theirs \<le> length (merge_rows old theirs mine)" using merge_length [OF assms] by simp
  fix p assume p: "p < length theirs"
  have len: "length old \<le> length theirs" "length old \<le> length mine" using s grown_nth by blast+
  show "keeps (theirs ! p) (merge_rows old theirs mine ! p)"
  proof (cases "p < length old")
    case True
    then show ?thesis
      using merge_nth [OF assms True] one_writer [OF assms True] keeps_same grown_nth s by (metis (full_types))
  next
    case False
    with p len have "merge_rows old theirs mine ! p = theirs ! p"
      by (simp add: merge_rows_def nth_append less_diff_conv2)
    then show ?thesis using keeps_same by simp
  qed
qed

lemma merge_keys:
  assumes "diverged old theirs mine"
  shows "map key (merge_rows old theirs mine) = map key theirs @ map key (drop (length old) mine)"
proof -
  note s = assms [unfolded diverged_def]
  have len: "length old \<le> length theirs" "length old \<le> length mine" using s grown_nth by blast+
  have "map key (take (length theirs) (merge_rows old theirs mine)) = map key theirs"
    using grown_nth [OF merge_grown [OF assms]] keeps_key by (auto simp: list_eq_iff_nth_eq)
  moreover have "drop (length theirs) (merge_rows old theirs mine) = drop (length old) mine"
    using len by (simp add: merge_rows_def)
  ultimately show ?thesis by (metis append_take_drop_id map_append)
qed

lemma merge_key_set:
  assumes "diverged old theirs mine"
  shows "key ` set (merge_rows old theirs mine) = key ` set theirs \<union> key ` set mine"
proof -
  note s = assms [unfolded diverged_def]
  have union: "A = T \<union> M" if "O' \<subseteq> T" "M = O' \<union> D" "A = T \<union> D" for A T M O' D :: "'k set"
    using that by blast
  have "key ` set old \<subseteq> key ` set theirs" using s grown_keys keeps_key by metis
  moreover have "map key mine = map key old @ map key (drop (length old) mine)"
  proof -
    have "length old \<le> length mine" "\<And>p. p < length old \<Longrightarrow> key (mine ! p) = key (old ! p)"
      using s grown_nth [of keeps old mine] keeps_key by auto
    then have "map key (take (length old) mine) = map key old"
      by (intro nth_equalityI) simp_all
    then show ?thesis by (metis append_take_drop_id map_append)
  qed
  then have "key ` set mine = key ` set old \<union> key ` set (drop (length old) mine)"
    by (metis set_append list.set_map)
  moreover have "key ` set (merge_rows old theirs mine) = key ` set theirs \<union> key ` set (drop (length old) mine)"
    using merge_keys [OF assms] by (metis set_append list.set_map)
  ultimately show ?thesis by (rule union)
qed

lemma merge_valid:
  assumes "diverged old theirs mine"
  shows "valid_rows checks uniques (merge_rows old theirs mine)"
proof (rule valid_rowsI)
  note s = assms [unfolded diverged_def]
  note from_set = merge_set [OF assms]
  have inside: "written old rs \<subseteq> set rs" for rs by (auto simp: written_def)
  show "first_failed checks r = None" if "r \<in> set (merge_rows old theirs mine)" for r
    using from_set [OF that] s inside unfolding valid_rows_def by (meson subsetD)
  show "distinct (map key (merge_rows old theirs mine))"
  proof -
    have "key x \<notin> key ` set theirs" if x: "x \<in> set (drop (length old) mine)" for x
    proof
      assume "key x \<in> key ` set theirs"
      then obtain y where y: "y \<in> set theirs" "key y = key x" by auto
      have x': "x \<in> written old mine" "key x \<notin> key ` set old"
        using added_written [OF _ valid_keys x] s by blast+
      then have "y \<in> written old theirs" using y by (metis DiffI imageI written_def)
      then show False
        using s x'(1) y(2) primary_key by (fastforce simp: apart_rows_def)
    qed
    then have "set (map key theirs) \<inter> set (map key (drop (length old) mine)) = {}"
      by (simp add: disjoint_iff image_iff) (metis imageI)
    moreover have "distinct (map key theirs)" "distinct (map key (drop (length old) mine))"
      using s valid_keys by (blast, metis distinct_drop drop_map)
    ultimately show ?thesis by (simp only: merge_keys [OF assms] distinct_append simp_thms)
  qed
  show "\<not> clash x y" if "(c, clash) \<in> set uniques" "x \<in> set (merge_rows old theirs mine)"
    "y \<in> set (merge_rows old theirs mine)" "x \<noteq> y" for c clash x y
  proof -
    have sym: "clash q r \<Longrightarrow> clash r q" for q r
      using symmetric that(1) by (auto simp: symmetric_clashes_def)
    have "\<not> clash q r" if "q \<in> written old theirs" "r \<in> written old mine" for q r
      using s \<open>(c, clash) \<in> set uniques\<close> that by (auto simp: apart_rows_def)
    then show ?thesis
      using from_set [OF that(2)] from_set [OF that(3)] valid_pair [OF _ that(1) _ _ that(4)] s sym inside
      by (meson subsetD)
  qed
qed

lemma merge_written:
  assumes "diverged old theirs mine"
  shows "written theirs (merge_rows old theirs mine) \<subseteq> written old mine"
  using merge_set [OF assms] by (auto simp: written_def)

text \<open>Changes of two common shapes: rows added, and one row replaced as well.\<close>

lemma merge_added: "grown keeps old theirs \<Longrightarrow> merge_rows old theirs (old @ xs) = theirs @ xs"
proof -
  assume g: "grown keeps old theirs"
  have "zip old (zip theirs (old @ xs)) = zip old (zip theirs old)"
    using grown_nth [OF g] by (auto simp: list_eq_iff_nth_eq nth_append)
  then have "merge_rows old theirs (old @ xs) = merge_rows old theirs old @ xs"
    by (simp add: merge_rows_def)
  then show ?thesis using merge_old [OF g] by simp
qed

lemma merge_map:
  assumes g: "grown keeps old theirs"
    and low: "\<And>p. p < length old \<Longrightarrow> (if f (old ! p) = old ! p then theirs ! p else f (old ! p)) = f (theirs ! p)"
    and high: "\<And>r. r \<in> set (drop (length old) theirs) \<Longrightarrow> f r = r"
  shows "merge_rows old theirs (map f old @ xs) = map f theirs @ xs"
proof -
  note n = grown_nth [OF g]
  have "map (\<lambda>(a, b, m). if m = a then b else m) (zip old (zip theirs (map f old @ xs))) = map f (take (length old) theirs)"
    using n low by (intro nth_equalityI) (simp_all add: nth_append)
  moreover have "drop (length old) theirs = map f (drop (length old) theirs)"
    by (rule map_idI [symmetric]) (rule high)
  ultimately have "merge_rows old theirs (map f old @ xs) =
      map f (take (length old) theirs) @ map f (drop (length old) theirs) @ xs"
    by (simp add: merge_rows_def)
  moreover have "map f theirs = map f (take (length old) theirs) @ map f (drop (length old) theirs)"
    by (simp flip: map_append)
  ultimately show ?thesis by simp
qed

lemma merge_replaced:
  assumes g: "grown keeps old theirs" and d: "distinct (map key theirs)"
    and i: "i \<in> key ` set old" and same: "\<And>a. a \<in> set old \<Longrightarrow> key a = i \<Longrightarrow> a \<in> set theirs"
  shows "merge_rows old theirs (map (\<lambda>r. if key r = i then x else r) old @ xs) =
    map (\<lambda>r. if key r = i then x else r) theirs @ xs"
proof (rule merge_map [OF g])
  let ?f = "\<lambda>r. if key r = i then x else r"
  note n = grown_nth [OF g]
  show "(if ?f (old ! p) = old ! p then theirs ! p else ?f (old ! p)) = ?f (theirs ! p)" if p: "p < length old" for p
  proof (cases "key (old ! p) = i")
    case True
    then have "theirs ! p = old ! p"
      using same [OF nth_mem [OF p]] distinct_key_unique [OF d _ nth_mem, of "old ! p" p] keeps_key n p by force
    with True show ?thesis by simp
  next
    case False
    then show ?thesis using keeps_key n p by fastforce
  qed
  show "?f r = r" if "r \<in> set (drop (length old) theirs)" for r
  proof -
    have "key r \<notin> key ` set old" by (rule added_written(2) [OF g d that])
    with i show ?thesis by auto
  qed
qed

text \<open>Some rows changed in place, each really: nobody else changed those.\<close>

lemma merge_mapped:
  assumes d: "diverged old theirs (map (\<lambda>r. if r \<in> S then g r else r) old)"
    and S: "S \<subseteq> set old" "\<And>r. r \<in> S \<Longrightarrow> g r \<noteq> r"
  shows "merge_rows old theirs (map (\<lambda>r. if r \<in> S then g r else r) old) = map (\<lambda>r. if r \<in> S then g r else r) theirs"
    and "S \<subseteq> set theirs"
proof -
  let ?f = "\<lambda>r. if r \<in> S then g r else r"
  have g: "grown keeps old theirs" and keys: "distinct (map key old)" "distinct (map key theirs)"
    using d valid_keys by (simp_all add: diverged_def)
  note n = grown_nth [OF g]
  have mine: "theirs ! p = old ! p" if "p < length old" "old ! p \<in> S" for p
    using one_writer [OF d that(1)] that S(2) [OF that(2)] by simp
  show "S \<subseteq> set theirs"
  proof
    fix r assume "r \<in> S"
    with S(1) obtain p where p: "p < length old" "r = old ! p" by (metis in_set_conv_nth subsetD)
    then have "theirs ! p = r" using mine \<open>r \<in> S\<close> by simp
    moreover have "p < length theirs" using n p(1) by simp
    ultimately show "r \<in> set theirs" using nth_mem by blast
  qed
  have "merge_rows old theirs (map ?f old @ []) = map ?f theirs @ []"
  proof (rule merge_map [OF g])
    show "(if ?f (old ! p) = old ! p then theirs ! p else ?f (old ! p)) = ?f (theirs ! p)" if p: "p < length old" for p
    proof (cases "old ! p \<in> S")
      case True
      with mine [OF p] S(2) show ?thesis by auto
    next
      case False
      have "theirs ! p \<notin> S"
      proof
        assume s: "theirs ! p \<in> S"
        have "key (theirs ! p) = key (old ! p)" using n keeps_key p by blast
        then have "theirs ! p = old ! p"
          using distinct_key_unique [OF keys(1)] S(1) s nth_mem [OF p] by blast
        with s False show False by simp
      qed
      with False show ?thesis by simp
    qed
    show "?f r = r" if "r \<in> set (drop (length old) theirs)" for r
      using added_written(2) [OF g keys(2) that] S(1) by auto
  qed
  then show "merge_rows old theirs (map ?f old) = map ?f theirs" by simp
qed

end

interpretation wallet_table: table wr_ID kept_wallet wallet_checks wallet_uniques "''wallets_pkey''"
  by unfold_locales (simp_all add: kept_wallet_def, simp add: wallet_uniques_def)

interpretation operation_table: table tr_ID kept_operation transaction_checks transaction_uniques
    "''wager_transactions_pkey''"
proof unfold_locales
  show "tr_ID r = tr_ID q" if "kept_operation q r" for q r
    using that row_request_sel(1) unfolding kept_operation_def by metis
qed (simp_all, simp add: transaction_uniques_def)

interpretation entry_table: table lr_ID "(=)" ledger_checks ledger_uniques "''wallet_ledger_entries_pkey''"
  by unfold_locales (simp_all, simp add: ledger_uniques_def)

interpretation event_table: table or_ID kept_event outbox_checks outbox_uniques "''outbox_events_pkey''"
proof unfold_locales
  show "or_ID r = or_ID q" if "kept_event q r" for q r
    using that unfolding kept_event_def by (metis outbox_row.select_convs(1) outbox_row.surjective
      outbox_row.update_convs(6,7,8))
qed (simp_all, simp add: outbox_uniques_def)

interpretation message_table: table ir_MessageID "(=)" "[]" inbox_uniques inboxMessagesPrimaryKey
  by unfold_locales (simp_all, simp add: inbox_uniques_def)

section \<open>The database under two writers\<close>

definition rebase :: "db \<Rightarrow> db \<Rightarrow> db \<Rightarrow> db" where
  "rebase old theirs mine =
     \<lparr>wallets = merge_rows (wallets old) (wallets theirs) (wallets mine),
      transactions = merge_rows (transactions old) (transactions theirs) (transactions mine),
      entries = merge_rows (entries old) (entries theirs) (entries mine),
      outbox = merge_rows (outbox old) (outbox theirs) (outbox mine),
      inbox = merge_rows (inbox old) (inbox theirs) (inbox mine)\<rparr>"

lemma rebase_sel [simp]:
  "wallets (rebase c d v) = merge_rows (wallets c) (wallets d) (wallets v)"
  "transactions (rebase c d v) = merge_rows (transactions c) (transactions d) (transactions v)"
  "entries (rebase c d v) = merge_rows (entries c) (entries d) (entries v)"
  "outbox (rebase c d v) = merge_rows (outbox c) (outbox d) (outbox v)"
  "inbox (rebase c d v) = merge_rows (inbox c) (inbox d) (inbox v)"
  by (simp_all add: rebase_def)

definition apart :: "db \<Rightarrow> db \<Rightarrow> db \<Rightarrow> bool" where
  "apart c x y \<longleftrightarrow>
     apart_rows wallet_uniques (wallets c) (wallets x) (wallets y) \<and>
     apart_rows transaction_uniques (transactions c) (transactions x) (transactions y) \<and>
     apart_rows ledger_uniques (entries c) (entries x) (entries y) \<and>
     apart_rows outbox_uniques (outbox c) (outbox x) (outbox y) \<and>
     apart_rows inbox_uniques (inbox c) (inbox x) (inbox y)"

text \<open>The wallets whose rows a transaction wrote.\<close>

definition touched :: "db \<Rightarrow> db \<Rightarrow> ID set" where
  "touched c v = wr_ID ` written (wallets c) (wallets v)"

lemma apart_rows_sym: "symmetric_clashes us \<Longrightarrow> apart_rows us c x y \<Longrightarrow> apart_rows us c y x"
  unfolding symmetric_clashes_def apart_rows_def by fast

lemma apart_sym: "apart c x y \<Longrightarrow> apart c y x"
  by (simp add: apart_def apart_rows_sym)

lemma apart_self [simp]: "apart c c y" "apart c x c"
  by (auto simp: apart_def apart_rows_def written_def)

lemma touched_self [simp]: "touched c c = {}"
  by (simp add: touched_def written_def)

text \<open>A session's view \<open>v\<close> of the committed database \<open>c\<close>.\<close>

definition sound :: "db \<Rightarrow> db \<Rightarrow> bool" where
  "sound c v \<longleftrightarrow> books c \<and> constraints c \<and> constraints v \<and> extends c v"

lemma tables_diverged:
  assumes "sound c v" and "constraints d" and "extends c d" and "apart c d v"
  shows "wallet_table.diverged (wallets c) (wallets d) (wallets v)"
    "operation_table.diverged (transactions c) (transactions d) (transactions v)"
    "entry_table.diverged (entries c) (entries d) (entries v)"
    "event_table.diverged (outbox c) (outbox d) (outbox v)"
    "message_table.diverged (inbox c) (inbox d) (inbox v)"
  using assms
  by (simp_all add: sound_def apart_def extends_def constraintsD wallet_table.diverged_def
      operation_table.diverged_def entry_table.diverged_def event_table.diverged_def message_table.diverged_def)

lemma rebase_keeps:
  assumes "sound c v" and "constraints d" and "extends c d" and "apart c d v"
  shows "constraints (rebase c d v)" and "extends d (rebase c d v)"
proof -
  note t = tables_diverged [OF assms]
  let ?m = "rebase c d v"
  show ext: "extends d ?m"
    using t by (simp add: extends_def wallet_table.merge_grown operation_table.merge_grown
        entry_table.merge_grown event_table.merge_grown message_table.merge_grown)
  have v: "constraints v" using assms(1) by (simp add: sound_def)
  have W: "wr_ID ` set (wallets ?m) = wr_ID ` set (wallets d) \<union> wr_ID ` set (wallets v)"
    and T: "tr_ID ` set (transactions ?m) = tr_ID ` set (transactions d) \<union> tr_ID ` set (transactions v)"
    using wallet_table.merge_key_set [OF t(1)] operation_table.merge_key_set [OF t(2)] by simp_all
  have inside: "written rs rs' \<subseteq> set rs'" for rs rs' :: "'r list" by (auto simp: written_def)
  have fk: "first_failed (transaction_foreign x) r = None \<Longrightarrow> first_failed (transaction_foreign ?m) r = None"
    "first_failed (ledger_foreign x) l = None \<Longrightarrow> first_failed (ledger_foreign ?m) l = None"
    "first_failed (inbox_foreign x) m = None \<Longrightarrow> first_failed (inbox_foreign ?m) m = None"
    if "x = d \<or> x = v" for x r l m
    using that unfolding foreign_None W T by blast+
  have "first_failed (transaction_foreign ?m) r = None" if "r \<in> set (transactions ?m)" for r
    using operation_table.merge_set [OF t(2), of r] that inside constraintsD(6) [OF v] constraintsD(6) [OF assms(2)]
      fk(1) by (metis rebase_sel(2) subsetD)
  moreover have "first_failed (ledger_foreign ?m) r = None" if "r \<in> set (entries ?m)" for r
    using entry_table.merge_set [OF t(3), of r] that inside constraintsD(7) [OF v] constraintsD(7) [OF assms(2)]
      fk(2) by (metis rebase_sel(3) subsetD)
  moreover have "first_failed (inbox_foreign ?m) r = None" if "r \<in> set (inbox ?m)" for r
    using message_table.merge_set [OF t(5), of r] that inside constraintsD(8) [OF v] constraintsD(8) [OF assms(2)]
      fk(3) by (metis rebase_sel(5) subsetD)
  ultimately show "constraints ?m"
    using t by (simp add: constraints_def wallet_table.merge_valid operation_table.merge_valid
        entry_table.merge_valid event_table.merge_valid message_table.merge_valid)
qed

lemma rebase_same: "extends c d \<Longrightarrow> rebase c d c = d"
  by (simp add: rebase_def extends_def merge_old [of kept_wallet] merge_old [of kept_operation]
      merge_old [of "(=)"] merge_old [of kept_event])

text \<open>What two sessions wrote stays apart when a third commits, and a session writes no more by it.\<close>

lemma written_rebase:
  assumes "sound c v" and "constraints d" and "extends c d" and "apart c d v"
  shows "written (wallets d) (wallets (rebase c d v)) \<subseteq> written (wallets c) (wallets v)"
    "written (transactions d) (transactions (rebase c d v)) \<subseteq> written (transactions c) (transactions v)"
    "written (entries d) (entries (rebase c d v)) \<subseteq> written (entries c) (entries v)"
    "written (outbox d) (outbox (rebase c d v)) \<subseteq> written (outbox c) (outbox v)"
    "written (inbox d) (inbox (rebase c d v)) \<subseteq> written (inbox c) (inbox v)"
  using tables_diverged [OF assms]
  by (simp_all add: wallet_table.merge_written operation_table.merge_written
      entry_table.merge_written event_table.merge_written message_table.merge_written)

lemma touched_rebase:
  assumes "sound c v" and "constraints d" and "extends c d" and "apart c d v"
  shows "touched d (rebase c d v) \<subseteq> touched c v"
  using written_rebase(1) [OF assms] unfolding touched_def by blast

lemma apart_rows_mono:
  "apart_rows us c x y \<Longrightarrow> written d x' \<subseteq> written c x \<Longrightarrow> written d y' \<subseteq> written c y \<Longrightarrow> apart_rows us d x' y'"
  unfolding apart_rows_def by blast

lemma apart_rebase:
  assumes "constraints d" and "extends c d" and "apart c x y"
    and "sound c x" and "apart c d x" and "sound c y" and "apart c d y"
  shows "apart d (rebase c d x) (rebase c d y)"
proof -
  note x = written_rebase [OF assms(4,1,2,5)] and y = written_rebase [OF assms(6,1,2,7)]
  show ?thesis
    using assms(3) apart_rows_mono [OF _ x(1) y(1)] apart_rows_mono [OF _ x(2) y(2)] apart_rows_mono [OF _ x(3) y(3)]
      apart_rows_mono [OF _ x(4) y(4)] apart_rows_mono [OF _ x(5) y(5)]
    unfolding apart_def by blast
qed

section \<open>The cluster\<close>

text \<open>
  A session at work: what it still has to do, its view and the wallets it locked. The cluster is the
  committed database, its sessions, and the records given to the broker.
\<close>

record session_state =
  ses_job :: "unit job"
  ses_view :: db
  ses_locks :: "ID set"

record cluster =
  store :: db
  sessions :: "nat \<Rightarrow> session_state option"
  sent :: "OutboxRecord list"

text \<open>
  A turn that locks \<open>K\<close> and leaves the view \<open>v\<close> may be taken beside the session \<open>y\<close>; otherwise it
  waits until \<open>y\<close> has ended.
\<close>

definition compatible :: "db \<Rightarrow> ID set \<Rightarrow> db \<Rightarrow> session_state \<Rightarrow> bool" where
  "compatible c K v y \<longleftrightarrow>
     K \<inter> ses_locks y = {} \<and> K \<inter> touched c (ses_view y) = {} \<and> touched c v \<inter> ses_locks y = {} \<and>
     apart c v (ses_view y)"

text \<open>The units of work a session may start with, as the use cases start them; queries of any length
  read in one turn.\<close>

definition void :: "'a job \<Rightarrow> unit job" where
  "void j = bind_job j (\<lambda>_. give ())"

inductive starts :: "environment \<Rightarrow> OutboxRecord list \<Rightarrow> db \<Rightarrow> unit job \<Rightarrow> bool" for E where
  start_open: "wallet_Open i p m at = Inr x \<Longrightarrow> starts E pubs c (open_job x correlationID at)"
| start_process: "PayloadHash E input = Inr hash \<Longrightarrow>
    NewExternal (new_external_params input hash i at) = Inr t \<Longrightarrow> constructed (in_Money input) \<Longrightarrow>
    starts E pubs c (void (process_job t (in_CorrelationID input) at))"
| start_take: "PayloadHash E (msg_Input message) = Inr hash \<Longrightarrow> constructed (in_Money (msg_Input message)) \<Longrightarrow>
    starts E pubs c (void (take_job message hash))"
| start_retry: "r \<in> set (transactions c) \<Longrightarrow> tr_ID r = pr_TransactionID pending \<Longrightarrow>
    tr_WalletID r = pr_WalletID pending \<Longrightarrow> starts E pubs c (void (retry_job policy pending at))"
| start_lease: "starts E pubs c (void (turn {} (LeasePendingReferences dueAt leaseUntil limit)))"
| start_lease_events: "starts E pubs c (void (turn {} (LeasePending dueAt leaseUntil limit)))"
| start_publication: "record_of c rec \<Longrightarrow> ok delivery \<Longrightarrow> rec \<in> set pubs \<Longrightarrow>
    starts E pubs c (turn {} (record_publication policy rec delivery))"
| start_failed_publication: "record_of c rec \<Longrightarrow> \<not> ok delivery \<Longrightarrow>
    starts E pubs c (turn {} (record_publication policy rec delivery))"
| start_query: "reader m \<Longrightarrow> starts E pubs c (turn {} m)"

text \<open>
  What can happen next: a session begins, takes a turn, commits what it did, or ends without (an
  error, a fault, a lost connection); or the broker takes a record. A world a turn runs in has any
  counters of the environment; only its committed database and its transaction matter.
\<close>

inductive moves_on :: "environment \<Rightarrow> cluster \<Rightarrow> cluster \<Rightarrow> bool" for E where
  on_begin: "sessions s k = None \<Longrightarrow> starts E (sent s) (store s) j \<Longrightarrow>
    moves_on E s (s\<lparr>sessions := (sessions s)(k \<mapsto> \<lparr>ses_job = j, ses_view = store s, ses_locks = {}\<rparr>)\<rparr>)"
| on_turn: "sessions s k = Some x \<Longrightarrow> ses_job x = Turn K f \<Longrightarrow>
    committed w = store s \<Longrightarrow> env w = E \<Longrightarrow> tx w = Some (ses_view x, False) \<Longrightarrow>
    f w = (j, w') \<Longrightarrow> tx w' = Some (v, False) \<Longrightarrow>
    (\<And>l y. l \<noteq> k \<Longrightarrow> sessions s l = Some y \<Longrightarrow> compatible (store s) K v y) \<Longrightarrow>
    moves_on E s (s\<lparr>sessions := (sessions s)(k \<mapsto> \<lparr>ses_job = j, ses_view = v, ses_locks = ses_locks x \<union> K\<rparr>)\<rparr>)"
| on_commit: "sessions s k = Some x \<Longrightarrow> ses_job x = Done (Inr ()) \<Longrightarrow>
    moves_on E s (s\<lparr>store := ses_view x, sessions := (\<lambda>l. if l = k then None
      else map_option (\<lambda>y. y\<lparr>ses_view := rebase (store s) (ses_view x) (ses_view y)\<rparr>) (sessions s l))\<rparr>)"
| on_leave: "moves_on E s (s\<lparr>sessions := (sessions s)(k := None)\<rparr>)"
| on_send: "record_of (store s) rec \<Longrightarrow> moves_on E s (s\<lparr>sent := sent s @ [rec]\<rparr>)"

inductive interleaved :: "environment \<Rightarrow> cluster \<Rightarrow> bool" for E where
  interleaved_start: "store s = empty_db \<Longrightarrow> sessions s = (\<lambda>_. None) \<Longrightarrow> sent s = [] \<Longrightarrow> interleaved E s"
| interleaved_on: "interleaved E s \<Longrightarrow> moves_on E s s' \<Longrightarrow> interleaved E s'"

end
