(* ===== verification/Rely.thy ===== *)
theory Rely
  imports Sessions
begin

text \<open>
  Reasoning about a job among other sessions, in the manner of rely and guarantee. What a session may
  rely on between its turns is \<open>disturbs\<close>: others commit lawful changes that kept apart from its own,
  left the wallets it locked alone, and did no more to the operations of those than to lease them. A job is \<open>secure\<close> when each of its turns changes the view
  lawfully and, if it ends well, its postcondition holds whatever came between the turns.
\<close>

section \<open>What others do\<close>

definition disturbs :: "ID set \<Rightarrow> db \<times> db \<Rightarrow> db \<times> db \<Rightarrow> bool" where
  "disturbs L p q \<longleftrightarrow>
     (case (p, q) of ((c, v), (d, v')) \<Rightarrow>
        sound c v \<and> sound d v' \<and> extends c d \<and> apart c d v \<and>
        (\<forall>r. wr_ID r \<in> L \<longrightarrow> (r \<in> set (wallets d) \<longleftrightarrow> r \<in> set (wallets c))) \<and>
        (\<forall>r \<in> set (transactions c). tr_WalletID r \<in> L \<longrightarrow> (\<exists>n. r\<lparr>tr_NextAttemptAt := n\<rparr> \<in> set (transactions d))) \<and>
        v' = rebase c d v)"

definition stable :: "ID set \<Rightarrow> (db \<Rightarrow> db \<Rightarrow> bool) \<Rightarrow> bool" where
  "stable L P \<longleftrightarrow> (\<forall>c v d v'. P c v \<longrightarrow> disturbs L (c, v) (d, v') \<longrightarrow> P d v')"

lemma disturbsD:
  assumes "disturbs L (c, v) (d, v')"
  shows "sound c v" "sound d v'" "extends c d" "apart c d v" "v' = rebase c d v"
    "wr_ID r \<in> L \<Longrightarrow> r \<in> set (wallets d) \<longleftrightarrow> r \<in> set (wallets c)"
    "q \<in> set (transactions c) \<Longrightarrow> tr_WalletID q \<in> L \<Longrightarrow> \<exists>n. q\<lparr>tr_NextAttemptAt := n\<rparr> \<in> set (transactions d)"
  using assms by (auto simp: disturbs_def)

abbreviation meanwhile :: "ID set \<Rightarrow> db \<times> db \<Rightarrow> db \<times> db \<Rightarrow> bool" where
  "meanwhile L \<equiv> (disturbs L)\<^sup>*\<^sup>*"

lemma stableI:
  assumes "\<And>c v d. P c v \<Longrightarrow> sound c v \<Longrightarrow> sound d (rebase c d v) \<Longrightarrow> extends c d \<Longrightarrow> apart c d v \<Longrightarrow>
    (\<And>r. wr_ID r \<in> L \<Longrightarrow> r \<in> set (wallets d) \<longleftrightarrow> r \<in> set (wallets c)) \<Longrightarrow>
    (\<And>r. r \<in> set (transactions c) \<Longrightarrow> tr_WalletID r \<in> L \<Longrightarrow> \<exists>n. r\<lparr>tr_NextAttemptAt := n\<rparr> \<in> set (transactions d)) \<Longrightarrow>
    P d (rebase c d v)"
  shows "stable L P"
  unfolding stable_def disturbs_def using assms by auto

lemma meanwhile_stable:
  assumes "meanwhile L (c, v) (d, v')" and "stable L P" and "P c v"
  shows "P d v'"
  using assms(1)
proof (induction rule: rtranclp_induct2)
  case (step d v' e v'')
  with assms(2) show ?case unfolding stable_def by blast
qed (rule assms(3))

lemma meanwhile_sound:
  assumes "meanwhile L (c, v) (d, v')" and "sound c v"
  shows "sound d v'"
  using assms(1)
proof (induction rule: rtranclp_induct2)
  case (step d v' e v'')
  then show ?case by (auto simp: disturbs_def)
qed (rule assms(2))

lemma sound_lawful: "sound c v \<Longrightarrow> lawful v v' \<Longrightarrow> sound c v'"
  by (auto simp: sound_def lawful_def intro: extends_trans)

section \<open>Secure jobs\<close>

inductive secure :: "environment \<Rightarrow> ('a \<Rightarrow> ID set \<Rightarrow> db \<Rightarrow> db \<Rightarrow> bool) \<Rightarrow> 'a job \<Rightarrow> ID set \<Rightarrow> db \<Rightarrow> db \<Rightarrow> bool"
  for E Q where
  secure_failed: "secure E Q (Done (Inl e)) L c v"
| secure_done: "(\<And>d v'. meanwhile L (c, v) (d, v') \<Longrightarrow> Q a L d v') \<Longrightarrow> secure E Q (Done (Inr a)) L c v"
| secure_turn: "(\<And>d v' w j w' v''. meanwhile L (c, v) (d, v') \<Longrightarrow> committed w = d \<Longrightarrow> env w = E \<Longrightarrow>
      tx w = Some (v', False) \<Longrightarrow> f w = (j, w') \<Longrightarrow> tx w' = Some (v'', False) \<Longrightarrow>
      lawful v' v'' \<and> secure E Q j (L \<union> K) d v'') \<Longrightarrow>
    secure E Q (Turn K f) L c v"

inductive_cases secure_doneE: "secure E Q (Done (Inr a)) L c v"
inductive_cases secure_turnE: "secure E Q (Turn K f) L c v"

text \<open>Security outlives what others do, and weakens.\<close>

lemma secure_disturbed:
  assumes "secure E Q j L c v" and "disturbs L (c, v) (d, v')"
  shows "secure E Q j L d v'"
  using assms(1)
proof cases
  case (secure_done a)
  show ?thesis unfolding secure_done(1)
  proof (rule secure.secure_done)
    fix e u assume "meanwhile L (d, v') (e, u)"
    with assms(2) have "meanwhile L (c, v) (e, u)" by (rule converse_rtranclp_into_rtranclp)
    then show "Q a L e u" by (rule secure_done(2))
  qed
next
  case (secure_turn f K)
  show ?thesis unfolding secure_turn(1)
  proof (rule secure.secure_turn)
    fix e u w j w' v''
    assume "meanwhile L (d, v') (e, u)" and run: "committed w = e" "env w = E" "tx w = Some (u, False)"
      "f w = (j, w')" "tx w' = Some (v'', False)"
    with assms(2) have "meanwhile L (c, v) (e, u)" by (meson converse_rtranclp_into_rtranclp)
    from secure_turn(2) [OF this run] show "lawful u v'' \<and> secure E Q j (L \<union> K) e v''" .
  qed
qed (simp add: secure.secure_failed)

lemma secure_weaken:
  assumes "secure E Q j L c v" and "\<And>a L d v. Q a L d v \<Longrightarrow> Q' a L d v"
  shows "secure E Q' j L c v"
  using assms(1)
proof (induction rule: secure.induct)
  case (secure_done L c v a)
  then show ?case using assms(2) by (blast intro: secure.secure_done)
next
  case (secure_turn L c v f K)
  show ?case by (rule secure.secure_turn) (use secure_turn in blast)
qed (rule secure.secure_failed)

text \<open>What holds of the committed database, and stays so beside a job that locks \<open>L\<close>, holds after it.\<close>

lemma disturbs_antimono: "disturbs L' p q \<Longrightarrow> L \<subseteq> L' \<Longrightarrow> disturbs L p q"
  unfolding disturbs_def by (cases p; cases q; simp; blast)

lemma stable_mono: "stable L P \<Longrightarrow> L \<subseteq> L' \<Longrightarrow> stable L' P"
  unfolding stable_def using disturbs_antimono by blast

lemma secure_beside:
  assumes "secure E Q j L c v" and "stable K (\<lambda>c v. A c)" and "A c" and "K \<subseteq> L"
  shows "secure E (\<lambda>a L c v. Q a L c v \<and> A c) j L c v"
  using assms(1,3,4)
proof (induction rule: secure.induct)
  case (secure_done L c v a)
  have "stable L (\<lambda>c v. A c)" using assms(2) secure_done(3) by (rule stable_mono)
  with secure_done show ?case by (intro secure.secure_done) (blast dest: meanwhile_stable)
next
  case (secure_turn L c v f K')
  have st: "stable L (\<lambda>c v. A c)" using assms(2) secure_turn(3) by (rule stable_mono)
  show ?case
  proof (rule secure.secure_turn)
    fix d v' w j w' v''
    assume m: "meanwhile L (c, v) (d, v')" and w: "committed w = d" "env w = E" "tx w = Some (v', False)"
      "f w = (j, w')" "tx w' = Some (v'', False)"
    have "A d" using meanwhile_stable [OF m st] secure_turn(2) by simp
    with secure_turn(1) [OF m w] secure_turn(3)
    show "lawful v' v'' \<and> secure E (\<lambda>a L c v. Q a L c v \<and> A c) j (L \<union> K') d v''" by blast
  qed
qed (rule secure.secure_failed)

section \<open>Rules\<close>

lemma secure_give:
  assumes "stable L (Q a L)" and "Q a L c v"
  shows "secure E Q (give a) L c v"
  unfolding give_def using meanwhile_stable [OF _ assms] by (rule secure_done)

lemma secure_refuse: "secure E Q (refuse e) L c v"
  unfolding refuse_def by (rule secure_failed)

text \<open>One job after another.\<close>

lemma secure_attempt:
  assumes "secure E Q j L c v" and "sound c v"
    and "\<And>a L' d v'. L \<subseteq> L' \<Longrightarrow> sound d v' \<Longrightarrow> Q a L' d v' \<Longrightarrow> secure E R (k (Inr a)) L' d v'"
    and "\<And>e L' d v'. sound d v' \<Longrightarrow> secure E R (k (Inl e)) L' d v'"
  shows "secure E R (attempt_job j k) L c v"
  using assms(1-3)
proof (induction rule: secure.induct)
  case (secure_failed e L c v)
  then show ?case using assms(4) by simp
next
  case (secure_done L c v a)
  from secure_done(1) have "Q a L c v" by blast
  with secure_done(2,3) show ?case by simp
next
  case (secure_turn L c v f K)
  show ?case unfolding attempt_job.simps
  proof (rule secure.secure_turn)
    fix d v' w j' w' v''
    assume m: "meanwhile L (c, v) (d, v')" and w: "committed w = d" "env w = E" "tx w = Some (v', False)"
      and run: "(map_prod (\<lambda>j. attempt_job j k) id \<circ> f) w = (j', w')" and w': "tx w' = Some (v'', False)"
    obtain j where f: "f w = (j, w')" and j': "j' = attempt_job j k"
      using run by (cases "f w") simp
    note ih = secure_turn(1) [OF m w f w']
    have "sound d v''" using meanwhile_sound [OF m secure_turn(2)] ih sound_lawful by blast
    then have "secure E R (attempt_job j k) (L \<union> K) d v''"
      using ih secure_turn(3) by blast
    with ih j' show "lawful v' v'' \<and> secure E R j' (L \<union> K) d v''" by blast
  qed
qed

lemma secure_bind:
  assumes "secure E Q j L c v" and "sound c v"
    and "\<And>a L' d v'. L \<subseteq> L' \<Longrightarrow> sound d v' \<Longrightarrow> Q a L' d v' \<Longrightarrow> secure E R (k a) L' d v'"
  shows "secure E R (bind_job j k) L c v"
  unfolding bind_job_def
  by (rule secure_attempt [OF assms(1,2)]) (simp_all add: assms(3) secure_refuse)

text \<open>A turn before the rest of a job, whose precondition others cannot spoil.\<close>

lemma secure_after_turn:
  assumes "stable L P" and "P c v" and "sound c v" and "moves lawful m"
    and rest: "\<And>r d u w w' u'. P d u \<Longrightarrow> sound d u \<Longrightarrow> sound d u' \<Longrightarrow> committed w = d \<Longrightarrow> env w = E \<Longrightarrow>
      tx w = Some (u, False) \<Longrightarrow> m w = (r, w') \<Longrightarrow> tx w' = Some (u', False) \<Longrightarrow> secure E Q (k r) (L \<union> K) d u'"
  shows "secure E Q (attempt_job (turn K m) k) L c v"
  unfolding turn_def attempt_job.simps
proof (rule secure_turn)
  fix d v' w j w' v''
  assume mean: "meanwhile L (c, v) (d, v')" and w: "committed w = d" "env w = E" "tx w = Some (v', False)"
    and run: "(map_prod (\<lambda>j. attempt_job j k) id \<circ> (\<lambda>w. case m w of (r, w') \<Rightarrow> (Done r, w'))) w = (j, w')"
    and w': "tx w' = Some (v'', False)"
  obtain r where m: "m w = (r, w')" and j: "j = k r" using run by (cases "m w") simp
  have P: "P d v'" and s: "sound d v'"
    using meanwhile_stable [OF mean assms(1,2)] meanwhile_sound [OF mean assms(3)] by blast+
  have l: "lawful v' v''" using movesD [OF assms(4) w(3) m] w' by simp
  with rest [OF P s sound_lawful [OF s l] w m w'] j show "lawful v' v'' \<and> secure E Q j (L \<union> K) d v''" by simp
qed

lemma secure_bind_turn:
  assumes "stable L P" and "P c v" and "sound c v" and "moves lawful m" and "confined m"
    and rest: "\<And>a d u w w' u'. P d u \<Longrightarrow> sound d u \<Longrightarrow> sound d u' \<Longrightarrow> env w = E \<Longrightarrow>
      does m w u a w' u' \<Longrightarrow> secure E Q (k a) (L \<union> K) d u'"
  shows "secure E Q (bind_job (turn K m) k) L c v"
  unfolding bind_job_def
proof (rule secure_after_turn [OF assms(1-4)])
  fix r d u w w' u'
  assume P: "P d u" and s: "sound d u" "sound d u'" and w: "committed w = d" "env w = E" "tx w = Some (u, False)"
    "m w = (r, w')" "tx w' = Some (u', False)"
  show "secure E Q (case r of Inl e \<Rightarrow> refuse e | Inr a \<Rightarrow> k a) (L \<union> K) d u'"
  proof (cases r)
    case (Inr a)
    have "frame w' = frame w" by (rule confinedD [OF assms(5) w(3,4)])
    with w Inr have "does m w u a w' u'" by (simp add: does_def)
    with rest [OF P s w(2)] Inr show ?thesis by simp
  qed (simp add: secure_refuse)
qed

text \<open>A turn that only reads, and goes on with its error as well.\<close>

lemma secure_reader:
  assumes "stable L P" and "P c v" and "sound c v" and "reader m"
    and rest: "\<And>r d u. P d u \<Longrightarrow> sound d u \<Longrightarrow> (\<And>a. r = Inr a \<Longrightarrow> \<exists>w w'. does m w u a w' u) \<Longrightarrow>
      secure E Q (k r) (L \<union> K) d u"
  shows "secure E Q (attempt_job (turn K m) k) L c v"
proof (rule secure_after_turn [OF assms(1-3) schema.reader_moves [OF assms(4)]])
  fix r d u w w' u'
  assume P: "P d u" and s: "sound d u" "sound d u'" and w: "committed w = d" "env w = E" "tx w = Some (u, False)"
    "m w = (r, w')" "tx w' = Some (u', False)"
  have u': "u' = u" "frame w' = frame w" using assms(4) w(3-5) unfolding reader_def by fastforce+
  show "secure E Q (k r) (L \<union> K) d u'"
    unfolding u'(1) by (rule rest [OF P s(1)]) (use w u' in \<open>auto simp: does_def\<close>)
qed

lemma secure_bind_reader:
  assumes "stable L P" and "P c v" and "sound c v" and "reader m"
    and rest: "\<And>a d u w w'. P d u \<Longrightarrow> sound d u \<Longrightarrow> env w = E \<Longrightarrow> does m w u a w' u \<Longrightarrow> secure E Q (k a) L d u"
  shows "secure E Q (bind_job (turn {} m) k) L c v"
proof (rule secure_bind_turn [OF assms(1-3) schema.reader_moves [OF assms(4)] reader_confined [OF assms(4)]])
  fix a d u w w' u'
  assume P: "P d u" and s: "sound d u" and e: "env w = E" and run: "does m w u a w' u'"
  have "u' = u" by (rule does_reader [OF assms(4) run])
  with rest [OF P s e] run show "secure E Q (k a) (L \<union> {}) d u'" by simp
qed

text \<open>How jobs in sequence group.\<close>

lemma attempt_attempt: "attempt_job (attempt_job j f) k = attempt_job j (\<lambda>r. attempt_job (f r) k)"
proof (induction j)
  case (Turn K g)
  have "(map_prod (\<lambda>j. attempt_job j k) id \<circ> (map_prod (\<lambda>j. attempt_job j f) id \<circ> g)) w =
      (map_prod (\<lambda>j. attempt_job j (\<lambda>r. attempt_job (f r) k)) id \<circ> g) w" for w
  proof (cases "g w")
    case (Pair j w')
    then show ?thesis using Turn.IH [of "(j, w')" j] by (auto intro: rangeI [of g w, unfolded Pair])
  qed
  then show ?case by (simp add: fun_eq_iff)
qed simp

lemma job_basic [simp]:
  "bind_job (give a) k = k a" "bind_job (refuse e) k = refuse e"
  "bind_job (Done (Inr a)) k = k a" "bind_job (Done (Inl e)) k = refuse e"
  "attempt_job (give a) h = h (Inr a)" "attempt_job (refuse e) h = h (Inl e)"
  by (simp_all add: bind_job_def give_def refuse_def)

lemma bind_attempt: "bind_job (attempt_job j f) k = attempt_job j (\<lambda>r. bind_job (f r) k)"
  by (simp add: bind_job_def attempt_attempt)

lemma bind_bind: "bind_job (bind_job j f) k = bind_job j (\<lambda>a. bind_job (f a) k)"
  unfolding bind_job_def attempt_attempt
  by (rule arg_cong [where f = "attempt_job j"]) (simp add: fun_eq_iff refuse_def split: sum.splits)

end
