(* ===== verification/Secured.thy ===== *)
theory Secured
  imports Rely Outcomes
begin

text \<open>
  The units of work are secure: whatever other sessions commit between their statements, what they
  leave in the end is a change they could have made alone, to the database as it is when they commit.
  The assertions between the turns speak of the committed database \<open>c\<close> and of what was written on top
  of it. What they say of \<open>c\<close> stays true: the wallet is locked, concluded operations are never changed,
  and nobody can bring in a row that excludes one written here.
\<close>

section \<open>Nothing written yet\<close>

lemma stable_unwritten: "stable L (\<lambda>c v. v = c)"
  by (rule stableI) (simp add: rebase_same)

definition held :: "Wallet \<Rightarrow> ID set \<Rightarrow> db \<Rightarrow> db \<Rightarrow> bool" where
  "held w L c v \<longleftrightarrow>
     v = c \<and> w_id w \<in> L \<and> wallet_to_row w \<in> set (wallets c) \<and> wallet_wf w \<and> wallet_iso w"

lemma stable_held: "stable L (held w L)"
  by (rule stableI) (simp add: held_def rebase_same)

text \<open>The operations that no longer wait stay as they are, and so does what was decided by them.\<close>

definition frozen :: "db \<Rightarrow> transaction_row set" where
  "frozen c = {r \<in> set (transactions c). tr_State r \<noteq> ''PENDING_REFERENCE''}"

definition only :: "transaction_row list \<Rightarrow> db" where
  "only rs = empty_db\<lparr>transactions := rs\<rparr>"

lemma frozen_stays: "extends c d \<Longrightarrow> frozen c \<subseteq> frozen d"
proof
  fix r assume e: "extends c d" and r: "r \<in> frozen c"
  then have "grown kept_operation (transactions c) (transactions d)" "r \<in> set (transactions c)"
    by (simp_all add: extends_def frozen_def)
  then obtain q where "q \<in> set (transactions d)" "kept_operation r q" using grown_rows by metis
  with r show "r \<in> frozen d" by (simp add: frozen_def kept_operation_def)
qed

lemma stable_frozen:
  assumes "stable L P"
  shows "stable L (\<lambda>c v. P c v \<and> (\<exists>rs. set rs \<subseteq> frozen c \<and> A rs))"
  unfolding stable_def
proof (intro allI impI)
  fix c v d v' assume p: "P c v \<and> (\<exists>rs. set rs \<subseteq> frozen c \<and> A rs)" and dis: "disturbs L (c, v) (d, v')"
  have "extends c d" by (rule disturbsD(3) [OF dis])
  with p frozen_stays have "\<exists>rs. set rs \<subseteq> frozen d \<and> A rs" by blast
  with p dis assms show "P d v' \<and> (\<exists>rs. set rs \<subseteq> frozen d \<and> A rs)" unfolding stable_def by blast
qed

lemma stable_frozen_row: "stable L P \<Longrightarrow> stable L (\<lambda>c v. P c v \<and> row \<in> frozen c)"
  unfolding stable_def using disturbsD(3) frozen_stays by blast

lemma stable_and: "stable L P \<Longrightarrow> stable L (\<lambda>c v. P c v \<and> A)"
  unfolding stable_def by blast

lemma stable_imp: "(A \<Longrightarrow> stable L P) \<Longrightarrow> stable L (\<lambda>c v. A \<and> P c v)"
  unfolding stable_def by blast

lemma processed_row: "rehydrate_row row = Inr r \<Longrightarrow> books c \<Longrightarrow> row \<in> set (transactions c) \<Longrightarrow> t_state r = StateProcessed \<Longrightarrow>
    row \<in> frozen c"
proof -
  assume "rehydrate_row row = Inr r" "books c" "row \<in> set (transactions c)" "t_state r = StateProcessed"
  moreover from this obtain t where "stores row t" by (auto simp: books_def transactions_inv_def)
  ultimately show "row \<in> frozen c"
    using stores_unique stores_sel(3) by (fastforce simp: frozen_def)
qed

section \<open>The wallet and the reference\<close>

lemma secure_GetForUpdate:
  assumes "sound c c"
  shows "secure E (\<lambda>w L d v. held w L d v \<and> w_id w = i) (GetForUpdate_job i) {} c c"
proof -
  have "secure E (\<lambda>w L d v. held w L d v \<and> w_id w = i) (bind_job (turn {i} (GetForUpdate i)) give) {} c c"
  proof (rule secure_bind_turn [OF stable_unwritten _ assms])
    fix w :: Wallet and d u wd wd' u'
    assume u: "u = d" "sound d u" and g: "does (GetForUpdate i) wd u w wd' u'"
    then obtain row where "u' = d" "List.find (\<lambda>r. wr_ID r = i) (wallets d) = Some row" "rehydrateWallet row = Inr w"
      using does_wallet_queries(1) by blast
    with u books_find_wallet [of d i row w] have "held w ({} \<union> {i}) d u' \<and> w_id w = i"
      by (auto simp: held_def sound_def)
    then show "secure E (\<lambda>w L d v. held w L d v \<and> w_id w = i) (give w) ({} \<union> {i}) d u'"
      by (intro secure_give stable_and stable_held)
  qed (simp_all add: schema.moves_readers)
  moreover have "bind_job (turn {i} (GetForUpdate i)) give = turn {i} (GetForUpdate i)"
    by (simp add: bind_job_def turn_def give_def refuse_def comp_def fun_eq_iff split: prod.splits sum.splits)
  ultimately show ?thesis by (simp add: GetForUpdate_job_def)
qed

lemma bind_give: "bind_job j give = j"
proof (induction j)
  case (Done r)
  then show ?case by (cases r) (simp_all add: give_def refuse_def)
next
  case (Turn K f)
  have "(map_prod (\<lambda>j. bind_job j give) id \<circ> f) w = f w" for w
  proof (cases "f w")
    case (Pair j w')
    then show ?thesis using Turn.IH [of "(j, w')" j] by (auto intro: rangeI [of f w, unfolded Pair])
  qed
  then show ?case by (simp add: bind_job_def fun_eq_iff)
qed

text \<open>
  What \<open>findReference\<close> found holds of the operations it read, which do not change; that nobody has
  reversed the reference since is seen to by the unique index when the operation is saved.
\<close>

definition found_reference ::
  "Wallet \<Rightarrow> Transaction \<Rightarrow> (err + Transaction option) \<times> Transaction \<Rightarrow> ID set \<Rightarrow> db \<Rightarrow> db \<Rightarrow> bool" where
  "found_reference w t r L c v \<longleftrightarrow>
     held w L c v \<and> (\<exists>rs. set rs \<subseteq> frozen c \<and> resolved_from t (snd r) \<and>
       (case fst r of Inl e \<Rightarrow> True | Inr q \<Rightarrow> good_reference (only rs) (snd r) q))"

lemma stable_found_reference: "stable L (found_reference w t r L)"
  unfolding found_reference_def by (intro stable_frozen stable_held)

lemma give_found:
  assumes "held w L c v" and "resolved_from t t'" and "set rs \<subseteq> frozen c"
    and "\<And>x. q = Inr x \<Longrightarrow> good_reference (only rs) t' x"
  shows "secure E (found_reference w t) (give (q, t')) L c v"
  by (rule secure_give [OF stable_found_reference])
    (use assms in \<open>auto simp: found_reference_def split: sum.splits\<close>)

lemma secure_refuse_reversed:
  assumes s: "sound c c" and h: "held w L c c" and t: "resolved_from t t'"
    and row: "row \<in> frozen c" "rehydrate_row row = Inr r"
    and r: "t_state r = StateProcessed" "t_kind r \<in> set (referableKinds (t_kind t'))"
      "t_walletID r = t_walletID t'" "t_referenceTransactionID t' = t_id r"
      "IsReversal (t_kind t') \<longrightarrow> t_amount r = t_amount t'"
  shows "secure E (found_reference w t) (refuse_reversed_job t' r) L c c"
proof (cases "IsReversal (t_kind t')")
  case False
  with row r have "good_reference (only [row]) t' (Some r)" by (simp add: good_reference_def only_def)
  with False h t row(1) show ?thesis
    unfolding refuse_reversed_job_def by (auto intro!: give_found [where rs = "[row]"])
next
  case True
  have "secure E (found_reference w t) (attempt_job (turn {} (HasProcessedReversal (t_id r))) (\<lambda>h.
        case h of
          Inl e \<Rightarrow> give (Inl e, t')
        | Inr reversed \<Rightarrow>
            if reversed then give (Inl (RejectionError FailureCodeReferenceAlreadyReversed), t')
            else give (Inr (Some r), t'))) L c c"
  proof (rule secure_reader [where P = "\<lambda>c v. held w L c v \<and> row \<in> frozen c"])
    fix b :: "err + bool" and d u
    assume P: "held w L d u \<and> row \<in> frozen d"
      and b: "\<And>a. b = Inr a \<Longrightarrow> \<exists>w w'. does (HasProcessedReversal (t_id r)) w u a w' u"
    then have fr: "row \<in> frozen d" and u: "u = d" by (auto simp: held_def)
    have "good_reference (only [row]) t' (Some r)" if "b = Inr False"
      using b [OF that] does_HasProcessedReversal fr u row r True
      by (fastforce simp: good_reference_def only_def frozen_def)
    with P t fr show "secure E (found_reference w t) (case b of
          Inl e \<Rightarrow> give (Inl e, t')
        | Inr reversed \<Rightarrow>
            if reversed then give (Inl (RejectionError FailureCodeReferenceAlreadyReversed), t')
            else give (Inr (Some r), t')) (L \<union> {}) d u"
      by (auto intro!: give_found [where rs = "[row]"] split: sum.splits)
  qed (use s h row(1) in \<open>auto intro: stable_frozen_row stable_held\<close>)
  with True show ?thesis by (simp add: refuse_reversed_job_def)
qed

lemma secure_check_reference:
  assumes s: "sound c c" and h: "held w L c c"
    and found: "\<And>r. found = Some r \<Longrightarrow> \<exists>row \<in> set (transactions c). rehydrate_row row = Inr r"
  shows "secure E (found_reference w t) (check_reference_job t found) L c c"
proof -
  have no: "secure E (found_reference w t) (give (Inl e, t)) L c c" for e
    using h by (intro give_found [where rs = "[]"]) simp_all
  show ?thesis
  proof (cases found)
    case None
    with no show ?thesis by (simp add: check_reference_job_def)
  next
    case (Some r)
    obtain row where row: "row \<in> set (transactions c)" "rehydrate_row row = Inr r" using found [OF Some] by blast
    show ?thesis
    proof (cases "IsTerminal (t_state r) \<and> ok (ResolveReference t (Some r))")
      case False
      with Some no show ?thesis by (auto simp: check_reference_job_def split: sum.splits)
    next
      case True
      then obtain u where u: "ResolveReference t (Some r) = Inr u" by (cases "ResolveReference t (Some r)") auto
      then have facts: "resolved_from t u" "t_state r = StateProcessed" "t_kind r \<in> set (referableKinds (t_kind u))"
        "t_walletID r = t_walletID u" "t_referenceTransactionID u = t_id r"
        "IsReversal (t_kind u) \<longrightarrow> t_amount r = t_amount u"
        by (auto simp: ResolveReference_Inr_iff resolved_from_def)
      moreover have "row \<in> frozen c" using processed_row [OF row(2) _ row(1) facts(2)] s by (simp add: sound_def)
      ultimately have "secure E (found_reference w t) (refuse_reversed_job u r) L c c"
        using secure_refuse_reversed [OF s h] row(2) by blast
      with True Some u show ?thesis by (simp add: check_reference_job_def)
    qed
  qed
qed

lemma secure_findReference:
  assumes s: "sound c c" and h: "held w L c c"
  shows "secure E (found_reference w t) (findReference_job t) L c c"
proof (cases "t_referenceExternalTransactionID t = ''''")
  case True
  then have "good_reference (only []) t None" by (simp add: good_reference_def)
  with True h show ?thesis
    unfolding findReference_job_def by (auto intro!: give_found [where rs = "[]"])
next
  case False
  have "secure E (found_reference w t)
      (attempt_job (turn {} (FindByExternalID (t_providerID t) (t_referenceExternalTransactionID t))) (\<lambda>r.
        case r of Inl e \<Rightarrow> give (Inl e, t) | Inr found \<Rightarrow> check_reference_job t found)) L c c"
  proof (rule secure_reader [OF stable_held h s])
    fix r :: "err + Transaction option" and d u
    assume hd: "held w L d u" "sound d u"
      and run: "\<And>a. r = Inr a \<Longrightarrow> \<exists>w w'. does (FindByExternalID (t_providerID t) (t_referenceExternalTransactionID t)) w u a w' u"
    have u: "u = d" using hd(1) by (simp add: held_def)
    show "secure E (found_reference w t)
      (case r of Inl e \<Rightarrow> give (Inl e, t) | Inr found \<Rightarrow> check_reference_job t found) (L \<union> {}) d u"
    proof (cases r)
      case (Inl e)
      with hd(1) show ?thesis by (auto intro!: give_found [where rs = "[]"])
    next
      case (Inr found)
      have "\<exists>row \<in> set (transactions d). rehydrate_row row = Inr x" if "found = Some x" for x
        using run [OF Inr] does_transaction_queries(2) that u find_SomeD by fastforce
      with Inr hd u show ?thesis using secure_check_reference by simp
    qed
  qed simp
  with False show ?thesis by (simp add: findReference_job_def)
qed


text \<open>The same for the outcome of \<open>Apply\<close>, which needs nothing more from the database.\<close>

definition attempted ::
  "Wallet \<Rightarrow> Transaction \<Rightarrow> time \<Rightarrow> err option \<times> Entry option \<times> Wallet \<times> Transaction \<Rightarrow> ID set \<Rightarrow> db \<Rightarrow> db \<Rightarrow> bool" where
  "attempted w t at r L c v \<longleftrightarrow>
     held w L c v \<and> (\<exists>rs. set rs \<subseteq> frozen c \<and>
       (case r of (outcome, entry, w', t') \<Rightarrow> resolved_from t t' \<and>
          (case outcome of
             Some e \<Rightarrow> entry = None \<and> w' = w
           | None \<Rightarrow> \<exists>q i. good_reference (only rs) t' q \<and> wallet_Apply w (Some t') q at i = Inr (entry, w'))))"

lemma stable_attempted: "stable L (attempted w t at r L)"
  unfolding attempted_def by (intro stable_frozen stable_held)

lemma secure_find_and_apply:
  assumes s: "sound c c" and h: "held w L c c"
  shows "secure E (attempted w t at) (find_and_apply_job w t at) L c c"
  unfolding find_and_apply_job_def
proof (rule secure_bind [OF secure_findReference [OF s h] s])
  fix r L' d v'
  assume f: "found_reference w t r L' d v'" and s': "sound d v'"
  obtain q t' where r: "r = (q, t')" by (cases r)
  show "secure E (attempted w t at) (case r of (reference, t') \<Rightarrow>
       case reference of
         Inl e \<Rightarrow> give (Some e, None, w, t')
       | Inr q \<Rightarrow>
           bind_job (turn {} NewID) (\<lambda>i.
             case wallet_Apply w (Some t') q at i of
               Inl e \<Rightarrow> give (Some e, None, w, t')
             | Inr (entry, w') \<Rightarrow> give (None, entry, w', t'))) L' d v'"
  proof (cases q)
    case (Inl e)
    with f r have "attempted w t at (Some e, None, w, t') L' d v'"
      unfolding attempted_def found_reference_def by (simp; blast)
    with r Inl show ?thesis by (simp add: secure_give stable_attempted)
  next
    case (Inr x)
    have "secure E (attempted w t at) (bind_job (turn {} NewID) (\<lambda>i.
             case wallet_Apply w (Some t') x at i of
               Inl e \<Rightarrow> give (Some e, None, w, t')
             | Inr (entry, w') \<Rightarrow> give (None, entry, w', t'))) L' d v'"
    proof (rule secure_bind_turn [OF stable_found_reference f s'])
      fix i e u wd wd' u'
      assume f: "found_reference w t r L' e u" and "does NewID wd u i wd' u'"
      then have u: "u' = u" by (intro does_reader [OF reader_basic(5)])
      from f r Inr have "attempted w t at (Some x', None, w, t') L' e u" for x'
        unfolding attempted_def found_reference_def by (simp; blast)
      moreover from f r Inr have "attempted w t at (None, entry, w', t') L' e u"
        if "wallet_Apply w (Some t') x at i = Inr (entry, w')" for entry w'
        using that unfolding attempted_def found_reference_def by (simp; blast)
      ultimately show "secure E (attempted w t at) (case wallet_Apply w (Some t') x at i of
               Inl e \<Rightarrow> give (Some e, None, w, t')
             | Inr (entry, w') \<Rightarrow> give (None, entry, w', t')) (L' \<union> {}) e u'"
        unfolding u by (auto intro!: secure_give stable_attempted split: sum.splits)
    qed (simp_all add: schema.moves_readers)
    with r Inr show ?thesis by simp
  qed
qed

section \<open>The operation that is saved\<close>

text \<open>
  The operation \<open>t\<close> written as a new row, or in the place of the row of the operation \<open>t0\<close> that
  waited: no other row excludes it.
\<close>

definition saves :: "Transaction option \<Rightarrow> Transaction \<Rightarrow> db \<Rightarrow> transaction_row list \<Rightarrow> bool" where
  "saves source t c ts \<longleftrightarrow>
     (\<exists>r. stores r t \<and>
        (\<forall>(name, clash) \<in> set transaction_uniques. \<forall>q \<in> set (transactions c).
           source = None \<or> tr_ID q \<noteq> t_id t \<longrightarrow> \<not> clash q r) \<and>
        (case source of
           None \<Rightarrow> ts = transactions c @ [r]
         | Some t0 \<Rightarrow> t0 \<noteq> t \<and> (\<exists>r0 \<in> set (transactions c). stores r0 t0 \<and> tr_ID r0 = t_id t \<and>
               tr_State r0 = ''PENDING_REFERENCE'') \<and>
             ts = map (\<lambda>q. if tr_ID q = t_id t then r else q) (transactions c)))"

lemma saves_saved:
  assumes "saves source t c ts" and "books c"
  shows "saved (transactions c) t ts"
proof -
  have dist: "distinct (map tr_ID (transactions c))" using assms(2) by (simp add: books_def transactions_inv_def)
  obtain r where st: "stores r t" and clash: "\<forall>(name, clash) \<in> set transaction_uniques. \<forall>q \<in> set (transactions c).
      source = None \<or> tr_ID q \<noteq> t_id t \<longrightarrow> \<not> clash q r"
    and src: "case source of
           None \<Rightarrow> ts = transactions c @ [r]
         | Some t0 \<Rightarrow> t0 \<noteq> t \<and> (\<exists>r0 \<in> set (transactions c). stores r0 t0 \<and> tr_ID r0 = t_id t \<and>
               tr_State r0 = ''PENDING_REFERENCE'') \<and>
             ts = map (\<lambda>q. if tr_ID q = t_id t then r else q) (transactions c)"
    using assms(1) unfolding saves_def by blast
  have id: "tr_ID r = t_id t" by (rule stores_sel(1) [OF st])
  show ?thesis
  proof (cases source)
    case None
    then have "t_id t \<notin> tr_ID ` set (transactions c)"
      using clash id by (auto simp: transaction_uniques_def)
    with None src dist st show ?thesis by (simp add: saved_insert)
  next
    case (Some t0)
    with src obtain r0 where r0: "r0 \<in> set (transactions c)" "tr_ID r0 = t_id t" "tr_State r0 = ''PENDING_REFERENCE''"
      and ts: "ts = map (\<lambda>q. if tr_ID q = t_id t then r else q) (transactions c)" by auto
    have "map tr_ID ts = map tr_ID (transactions c)" using id by (simp add: ts)
    moreover have "\<exists>q \<in> set ts. stores q t" using r0 st unfolding ts by force
    moreover have "\<forall>q \<in> set ts. stores q t \<or> q \<in> set (transactions c) \<and> tr_ID q \<noteq> t_id t"
      using st unfolding ts by auto
    moreover have "\<forall>q \<in> set (transactions c). if tr_ID q = t_id t then tr_State q = ''PENDING_REFERENCE'' else q \<in> set ts"
    proof
      fix q assume q: "q \<in> set (transactions c)"
      have "tr_ID q = t_id t \<Longrightarrow> q = r0" using distinct_key_unique [OF dist q r0(1)] r0(2) by simp
      moreover have "tr_ID q \<noteq> t_id t \<Longrightarrow> q \<in> set ts" using q unfolding ts by force
      ultimately show "if tr_ID q = t_id t then tr_State q = ''PENDING_REFERENCE'' else q \<in> set ts" using r0(3) by auto
    qed
    ultimately show ?thesis using dist unfolding saved_def by simp
  qed
qed

lemma saves_written:
  assumes "saves source t c ts" and dist: "distinct (map tr_ID (transactions c))"
  obtains r where "stores r t" "tr_ID r = t_id t" "r \<in> written (transactions c) ts"
    "\<forall>(name, clash) \<in> set transaction_uniques. \<forall>q \<in> set (transactions c).
      source = None \<or> tr_ID q \<noteq> t_id t \<longrightarrow> \<not> clash q r"
    "case source of
           None \<Rightarrow> ts = transactions c @ [r]
         | Some t0 \<Rightarrow> t0 \<noteq> t \<and> (\<exists>r0 \<in> set (transactions c). stores r0 t0 \<and> tr_ID r0 = t_id t \<and>
               tr_State r0 = ''PENDING_REFERENCE'') \<and>
             ts = map (\<lambda>q. if tr_ID q = t_id t then r else q) (transactions c)"
proof -
  obtain r where st: "stores r t" and clash: "\<forall>(name, clash) \<in> set transaction_uniques. \<forall>q \<in> set (transactions c).
      source = None \<or> tr_ID q \<noteq> t_id t \<longrightarrow> \<not> clash q r"
    and src: "case source of
           None \<Rightarrow> ts = transactions c @ [r]
         | Some t0 \<Rightarrow> t0 \<noteq> t \<and> (\<exists>r0 \<in> set (transactions c). stores r0 t0 \<and> tr_ID r0 = t_id t \<and>
               tr_State r0 = ''PENDING_REFERENCE'') \<and>
             ts = map (\<lambda>q. if tr_ID q = t_id t then r else q) (transactions c)"
    using assms(1) unfolding saves_def by blast
  have id: "tr_ID r = t_id t" by (rule stores_sel(1) [OF st])
  have mine: "r \<in> written (transactions c) ts"
  proof (cases source)
    case None
    with clash have "r \<notin> set (transactions c)" by (fastforce simp: transaction_uniques_def)
    with None src show ?thesis by (simp add: written_def)
  next
    case (Some t0)
    with src obtain r0 where r0: "r0 \<in> set (transactions c)" "stores r0 t0" "tr_ID r0 = t_id t" "t0 \<noteq> t" by auto
    then have "r \<noteq> r0" using stores_rehydrate [OF st] stores_rehydrate [OF r0(2)] by auto
    with r0 id distinct_key_unique [OF dist, of r r0] have "r \<notin> set (transactions c)" by auto
    moreover have "r \<in> set ts" using Some src by force
    ultimately show ?thesis by (simp add: written_def)
  qed
  show thesis by (rule that [OF st id mine clash src])
qed

lemma saves_stays:
  assumes "saves source t c ts" and s: "sound c v" "sound d v'" and e: "extends c d" and a: "apart c d v"
    and v: "transactions v = ts"
  shows "saves source t d (merge_rows (transactions c) (transactions d) ts)"
proof -
  have dist: "distinct (map tr_ID (transactions c))" "distinct (map tr_ID (transactions d))"
    using s by (simp_all add: sound_def books_def transactions_inv_def)
  obtain r where st: "stores r t" and id: "tr_ID r = t_id t" and mine: "r \<in> written (transactions c) ts"
    and clash: "\<forall>(name, clash) \<in> set transaction_uniques. \<forall>q \<in> set (transactions c).
      source = None \<or> tr_ID q \<noteq> t_id t \<longrightarrow> \<not> clash q r"
    and src: "case source of
           None \<Rightarrow> ts = transactions c @ [r]
         | Some t0 \<Rightarrow> t0 \<noteq> t \<and> (\<exists>r0 \<in> set (transactions c). stores r0 t0 \<and> tr_ID r0 = t_id t \<and>
               tr_State r0 = ''PENDING_REFERENCE'') \<and>
             ts = map (\<lambda>q. if tr_ID q = t_id t then r else q) (transactions c)"
    using saves_written [OF assms(1) dist(1)] .
  have g: "grown kept_operation (transactions c) (transactions d)" using e by (simp add: extends_def)
  have pkey: "(''wager_transactions_pkey'', \<lambda>q r. tr_ID q = tr_ID r) \<in> set transaction_uniques"
    by (simp add: transaction_uniques_def)
  have others: "\<not> cl q r" if "q \<in> written (transactions c) (transactions d)" "(n, cl) \<in> set transaction_uniques" for q n cl
    using a v mine that by (auto simp: apart_def apart_rows_def)
  have fresh: "\<forall>(name, cl) \<in> set transaction_uniques. \<forall>q \<in> set (transactions d).
      source = None \<or> tr_ID q \<noteq> t_id t \<longrightarrow> \<not> cl q r"
    using clash others unfolding written_def by fast
  show ?thesis
  proof (cases source)
    case None
    with src have "merge_rows (transactions c) (transactions d) ts = transactions d @ [r]"
      using operation_table.merge_added [OF g] by simp
    with None st fresh show ?thesis unfolding saves_def by auto
  next
    case (Some t0)
    with src obtain r0 where r0: "r0 \<in> set (transactions c)" "tr_ID r0 = t_id t" "tr_State r0 = ''PENDING_REFERENCE''"
        "stores r0 t0" "t0 \<noteq> t"
      and ts: "ts = map (\<lambda>q. if tr_ID q = t_id t then r else q) (transactions c) @ []" by auto
    obtain y where y: "y \<in> set (transactions d)" "kept_operation r0 y" using grown_rows [OF g r0(1)] by blast
    then have "tr_ID y = tr_ID r" using operation_table.keeps_key r0(2) id by simp
    then have "y \<notin> written (transactions c) (transactions d)" using others pkey by blast
    then have "y \<in> set (transactions c)" using y(1) by (simp add: written_def)
    with distinct_key_unique [OF dist(1) _ r0(1)] r0(2) id \<open>tr_ID y = tr_ID r\<close> y(1)
    have here: "r0 \<in> set (transactions d)" by metis
    have same: "q \<in> set (transactions c) \<Longrightarrow> tr_ID q = t_id t \<Longrightarrow> q \<in> set (transactions d)" for q
      using distinct_key_unique [OF dist(1) _ r0(1), of q] r0(2) here by simp
    have "merge_rows (transactions c) (transactions d) ts =
        map (\<lambda>q. if tr_ID q = t_id t then r else q) (transactions d) @ []"
      unfolding ts by (rule operation_table.merge_replaced [OF g dist(2) _ same]) (use r0 in force)+
    with Some st fresh here r0 show ?thesis unfolding saves_def by auto
  qed
qed

section \<open>The settlement that is written\<close>

text \<open>
  The operation was decided and saved; then, when money moved, the wallet is changed and the entry
  added; events and messages follow.
\<close>

definition moved_wallets :: "Wallet \<Rightarrow> Wallet \<Rightarrow> bool \<Rightarrow> wallet_row list \<Rightarrow> wallet_row list" where
  "moved_wallets w w' paid rs = (if paid then map (\<lambda>r. if wr_ID r = w_id w then wallet_to_row w' else r) rs else rs)"

definition decided_before ::
  "Wallet \<Rightarrow> Transaction \<Rightarrow> time \<Rightarrow> Transaction \<Rightarrow> Entry option \<Rightarrow> Wallet \<Rightarrow> ID set \<Rightarrow> db \<Rightarrow> bool" where
  "decided_before w t at t'' entry w' L c \<longleftrightarrow>
     w_id w \<in> L \<and> wallet_to_row w \<in> set (wallets c) \<and> wallet_wf w \<and> wallet_iso w \<and>
     (\<exists>rs. set rs \<subseteq> frozen c \<and> decided (only rs) w t at t'' entry w')"

definition settled ::
  "Transaction option \<Rightarrow> Wallet \<Rightarrow> Transaction \<Rightarrow> time \<Rightarrow> Transaction \<Rightarrow> Entry option \<Rightarrow> Wallet \<Rightarrow>
   bool \<Rightarrow> ledger_row list \<Rightarrow> outbox_row list \<Rightarrow> inbox_row list \<Rightarrow> ID set \<Rightarrow> db \<Rightarrow> db \<Rightarrow> bool" where
  "settled source w t at t'' entry w' paid les os ms L c v \<longleftrightarrow>
     decided_before w t at t'' entry w' L c \<and>
     (\<exists>ts. saves source t'' c ts \<and>
        v = \<lparr>wallets = moved_wallets w w' paid (wallets c), transactions = ts, entries = entries c @ les,
          outbox = outbox c @ os, inbox = inbox c @ ms\<rparr>)"

lemma decided_before_stays:
  assumes "decided_before w t at t'' entry w' L c" and "disturbs L (c, v) (d, v')"
  shows "decided_before w t at t'' entry w' L d"
proof -
  have "extends c d" and l: "\<And>r. wr_ID r \<in> L \<Longrightarrow> r \<in> set (wallets d) \<longleftrightarrow> r \<in> set (wallets c)"
    by (fact disturbsD [OF assms(2)])+
  with assms(1) frozen_stays [of c d] l [of "wallet_to_row w"] show ?thesis
    unfolding decided_before_def by (simp; blast)
qed

lemma moved_wallets_stay:
  assumes "w_id w \<in> L" and "wallet_to_row w \<in> set (wallets c)"
    and "sound c v" and "sound d v'" and "extends c d"
    and l: "\<And>r. wr_ID r \<in> L \<Longrightarrow> r \<in> set (wallets d) \<longleftrightarrow> r \<in> set (wallets c)"
  shows "merge_rows (wallets c) (wallets d) (moved_wallets w w' paid (wallets c)) = moved_wallets w w' paid (wallets d)"
proof (cases paid)
  case False
  with assms(5) show ?thesis
    by (simp add: moved_wallets_def extends_def merge_old [of kept_wallet])
next
  case True
  have g: "grown kept_wallet (wallets c) (wallets d)" using assms(5) by (simp add: extends_def)
  have dist: "distinct (map wr_ID (wallets d))" using assms(4) by (simp add: sound_def constraints_keys)
  have "w_id w \<in> wr_ID ` set (wallets c)" using assms(2) by (metis image_eqI wallet_to_row_sel(1))
  from wallet_table.merge_replaced [OF g dist this, where xs = "[]"] l assms(1) True show ?thesis
    by (simp add: moved_wallets_def)
qed

lemma stable_settled: "stable L (settled source w t at t'' entry w' paid les os ms L)"
  unfolding stable_def
proof (intro allI impI)
  fix c v d v'
  assume st: "settled source w t at t'' entry w' paid les os ms L c v" and dis: "disturbs L (c, v) (d, v')"
  have s: "sound c v" "sound d v'" and e: "extends c d" and a: "apart c d v" and v': "v' = rebase c d v"
    and l: "\<And>r. wr_ID r \<in> L \<Longrightarrow> r \<in> set (wallets d) \<longleftrightarrow> r \<in> set (wallets c)"
    by (fact disturbsD [OF dis])+
  obtain ts where sv: "saves source t'' c ts" and v: "v = \<lparr>wallets = moved_wallets w w' paid (wallets c),
      transactions = ts, entries = entries c @ les, outbox = outbox c @ os, inbox = inbox c @ ms\<rparr>"
    and dec: "decided_before w t at t'' entry w' L c"
    using st unfolding settled_def by blast
  have "saves source t'' d (merge_rows (transactions c) (transactions d) ts)"
    by (rule saves_stays [OF sv s e a]) (simp add: v)
  moreover have w: "merge_rows (wallets c) (wallets d) (moved_wallets w w' paid (wallets c)) = moved_wallets w w' paid (wallets d)"
    by (rule moved_wallets_stay [OF _ _ s e l]) (use dec in \<open>simp_all add: decided_before_def\<close>)
  moreover have "v' = \<lparr>wallets = moved_wallets w w' paid (wallets d),
      transactions = merge_rows (transactions c) (transactions d) ts, entries = entries d @ les,
      outbox = outbox d @ os, inbox = inbox d @ ms\<rparr>"
    unfolding v' v
    using e w
    by (simp add: rebase_def extends_def decided_before_def entry_table.merge_added event_table.merge_added
        message_table.merge_added)
  ultimately show "settled source w t at t'' entry w' paid les os ms L d v'"
    using decided_before_stays [OF dec dis] unfolding settled_def by blast
qed

text \<open>One turn after another, each of which adds to what was written.\<close>

lemma secure_saved:
  assumes "stable L P" and "P c v" and "sound c v" and "moves lawful m" and "confined m"
    and saving: "\<And>d u wd wd' u'. P d u \<Longrightarrow> sound d u \<Longrightarrow> does m wd u () wd' u' \<Longrightarrow>
      settled source w t at t'' entry w' False [] [] [] L d u'"
    and rest: "\<And>d u. sound d u \<Longrightarrow> settled source w t at t'' entry w' False [] [] [] L d u \<Longrightarrow> secure E Q (k ()) L d u"
  shows "secure E Q (bind_job (turn {} m) k) L c v"
proof (rule secure_bind_turn [OF assms(1-5)])
  fix a :: unit and d u wd wd' u'
  assume "P d u" "sound d u" "sound d u'" "does m wd u a wd' u'"
  with saving rest show "secure E Q (k a) (L \<union> {}) d u'" by simp
qed

lemma secure_UpdateBalance:
  assumes "settled source w t at t'' (Some e) w' False [] [] [] L c v" and "sound c v"
    and rest: "\<And>d u. sound d u \<Longrightarrow> settled source w t at t'' (Some e) w' True [] [] [] L d u \<Longrightarrow>
      1 \<le> sint (w_version w') \<Longrightarrow> secure E Q (k ()) L d u"
  shows "secure E Q (bind_job (turn {} (UpdateBalance w' (w_version w))) k) L c v"
proof (rule secure_bind_turn [OF stable_settled assms(1,2)])
  fix a :: unit and d u wd wd' u'
  assume st: "settled source w t at t'' (Some e) w' False [] [] [] L d u" and s: "sound d u" "sound d u'"
    and upd: "does (UpdateBalance w' (w_version w)) wd u a wd' u'"
  obtain ts where u: "u = \<lparr>wallets = wallets d, transactions = ts, entries = entries d, outbox = outbox d, inbox = inbox d\<rparr>"
    and sv: "saves source t'' d ts" and dec: "decided_before w t at t'' (Some e) w' L d"
    using st unfolding settled_def moved_wallets_def by auto
  obtain dir i where mv: "movement w (t_amount t'') (t_id t'') dir at i e w'"
    using dec decided_moves unfolding decided_before_def by blast
  have "distinct (map wr_ID (wallets u))" "wallet_to_row w \<in> set (wallets u)"
    using s dec by (simp_all add: u sound_def books_def wallets_inv_def decided_before_def)
  from does_UpdateBalance_row [OF upd this mv] u
  have "u' = \<lparr>wallets = moved_wallets w w' True (wallets d), transactions = ts, entries = entries d @ [],
      outbox = outbox d @ [], inbox = inbox d @ []\<rparr>" "1 \<le> sint (w_version w')"
    by (simp_all add: moved_wallets_def)
  with sv dec rest [OF s(2)] show "secure E Q (k a) (L \<union> {}) d u'"
    unfolding settled_def by auto
qed (simp_all add: schema.moves_repositories)

lemma secure_LedgerAppend:
  assumes "settled source w t at t'' entry w' paid [] [] [] L c v" and "sound c v"
    and rest: "\<And>d u. sound d u \<Longrightarrow> settled source w t at t'' entry w' paid [entry_to_row e] [] [] L d u \<Longrightarrow>
      secure E Q (k ()) L d u"
  shows "secure E Q (bind_job (turn {} (LedgerRepository_Append e)) k) L c v"
proof (rule secure_bind_turn [OF stable_settled assms(1,2)])
  fix a :: unit and d u wd wd' u'
  assume st: "settled source w t at t'' entry w' paid [] [] [] L d u" and s: "sound d u" "sound d u'"
    and app: "does (LedgerRepository_Append e) wd u a wd' u'"
  from does_LedgerRepository_Append [OF app] have "u' = u\<lparr>entries := entries u @ [entry_to_row e]\<rparr>"
    by (auto simp: insert_row_Inr)
  with st have "settled source w t at t'' entry w' paid [entry_to_row e] [] [] L d u'"
    unfolding settled_def by auto
  with rest [OF s(2)] show "secure E Q (k a) (L \<union> {}) d u'" by simp
qed (simp_all add: schema.moves_repositories)

lemma secure_append_events:
  assumes st: "\<And>os. stable L (A os)" and add: "\<And>os d u r. A os d u \<Longrightarrow> A (os @ [r]) d (u\<lparr>outbox := outbox u @ [r]\<rparr>)"
    and "A os c v" and "sound c v"
    and rest: "\<And>d u os'. sound d u \<Longrightarrow> list_all2 event_row es os' \<Longrightarrow> A (os @ os') d u \<Longrightarrow> secure E Q (k ()) L d u"
  shows "secure E Q (bind_job (append_events_job es) k) L c v"
  using assms(3-)
proof (induction es arbitrary: os c v)
  case Nil
  then show ?case using Nil.prems(3) [of c v "[]"] by simp
next
  case (Cons e es)
  have "secure E Q (bind_job (turn {} (append_event e)) (\<lambda>_. bind_job (append_events_job es) k)) L c v"
  proof (rule secure_bind_turn [OF st Cons.prems(1,2)])
    fix a :: unit and d u wd wd' u'
    assume A: "A os d u" and s: "sound d u" "sound d u'" and app: "does (append_event e) wd u a wd' u'"
    from does_append_event [OF app] obtain r where r: "event_row e r" "u' = u\<lparr>outbox := outbox u @ [r]\<rparr>" by blast
    with add [OF A] have "A (os @ [r]) d u'" by simp
    then have "secure E Q (bind_job (append_events_job es) k) L d u'"
    proof (rule Cons.IH [OF _ s(2)])
      fix d' u os' assume "sound d' u" "list_all2 event_row es os'" "A ((os @ [r]) @ os') d' u"
      with r(1) Cons.prems(3) [of d' u "r # os'"] show "secure E Q (k ()) L d' u" by simp
    qed
    then show "secure E Q (bind_job (append_events_job es) k) (L \<union> {}) d u'" by simp
  qed (simp_all add: schema.moves_append_event)
  then show ?case by (simp add: bind_bind)
qed

lemma secure_OutboxAppend:
  assumes st: "\<And>os. stable L (A os)" and add: "\<And>os d u r. A os d u \<Longrightarrow> A (os @ [r]) d (u\<lparr>outbox := outbox u @ [r]\<rparr>)"
    and "A [] c v" and "sound c v"
    and rest: "\<And>d u os. sound d u \<Longrightarrow> list_all2 event_row es os \<Longrightarrow> A os d u \<Longrightarrow> secure E Q (k ()) L d u"
  shows "secure E Q (bind_job (OutboxAppend_job es) k) L c v"
  unfolding OutboxAppend_job_def bind_bind
proof (rule secure_bind_reader [OF st assms(3,4)])
  fix a :: unit and d u wd wd'
  assume A: "A [] d u" and s: "sound d u"
  show "secure E Q (bind_job (append_events_job es) k) L d u"
    by (rule secure_append_events [where A = A, OF st add A s], assumption)
      (rule rest, assumption+, simp)
qed simp

lemma secure_settled_events:
  assumes "settled source w t at t'' entry w' paid les [] [] L c v" and "sound c v"
    and rest: "\<And>d u os. sound d u \<Longrightarrow> list_all2 event_row es os \<Longrightarrow>
      settled source w t at t'' entry w' paid les os [] L d u \<Longrightarrow> secure E Q (k ()) L d u"
  shows "secure E Q (bind_job (OutboxAppend_job es) k) L c v"
proof (rule secure_OutboxAppend [where A = "\<lambda>os. settled source w t at t'' entry w' paid les os [] L"])
  show "settled source w t at t'' entry w' paid les (os @ [r]) [] L d (u\<lparr>outbox := outbox u @ [r]\<rparr>)"
    if "settled source w t at t'' entry w' paid les os [] L d u" for os d u r
    using that unfolding settled_def by auto
qed (use assms stable_settled in blast)+

text \<open>All that \<open>record\<close> writes.\<close>

definition complete :: "bool \<Rightarrow> ledger_row list \<Rightarrow> Entry option \<Rightarrow> Wallet \<Rightarrow> bool" where
  "complete paid les entry w' \<longleftrightarrow>
     (case entry of
        None \<Rightarrow> \<not> paid \<and> les = []
      | Some e \<Rightarrow> paid \<and> les = [entry_to_row e] \<and> 1 \<le> sint (w_version w'))"

lemma secure_record_settlement:
  assumes "stable L P" and "P c v" and "sound c v" and "moves lawful (save t'')" and "confined (save t'')"
    and saving: "\<And>d u wd wd' u'. P d u \<Longrightarrow> sound d u \<Longrightarrow> does (save t'') wd u () wd' u' \<Longrightarrow>
      settled source w t at t'' entry w' False [] [] [] L d u'"
    and rest: "\<And>d u paid les os. sound d u \<Longrightarrow> list_all2 event_row es os \<Longrightarrow> complete paid les entry w' \<Longrightarrow>
      settled source w t at t'' entry w' paid les os [] L d u \<Longrightarrow> secure E Q (k ()) L d u"
  shows "secure E Q (bind_job (record_settlement_job w' (w_version w) t'' entry es save) k) L c v"
proof (cases entry)
  case None
  then show ?thesis
    unfolding record_settlement_job_def bind_bind
    by (simp add: bind_bind) (rule secure_saved [where P = P, OF assms(1-5) saving], assumption+,
      rule secure_settled_events, assumption+, rule rest, simp_all add: complete_def)
next
  case (Some e)
  have after: "secure E Q (bind_job (turn {} (UpdateBalance w' (w_version w)))
      (\<lambda>_. bind_job (turn {} (LedgerRepository_Append e)) (\<lambda>_. bind_job (OutboxAppend_job es) k))) L d u"
    if d: "sound d u" "settled source w t at t'' (Some e) w' False [] [] [] L d u" for d u
  proof (rule secure_UpdateBalance [OF d(2,1)])
    fix d u assume d: "sound d u" "settled source w t at t'' (Some e) w' True [] [] [] L d u" and v: "1 \<le> sint (w_version w')"
    show "secure E Q (bind_job (turn {} (LedgerRepository_Append e)) (\<lambda>_. bind_job (OutboxAppend_job es) k)) L d u"
    proof (rule secure_LedgerAppend [OF d(2,1)])
      fix d u assume d: "sound d u" "settled source w t at t'' (Some e) w' True [entry_to_row e] [] [] L d u"
      show "secure E Q (bind_job (OutboxAppend_job es) k) L d u"
        by (rule secure_settled_events [OF d(2,1)]) (use Some v rest in \<open>simp add: complete_def\<close>)
    qed
  qed
  have "secure E Q (bind_job (turn {} (save t'')) (\<lambda>_. bind_job (turn {} (UpdateBalance w' (w_version w)))
      (\<lambda>_. bind_job (turn {} (LedgerRepository_Append e)) (\<lambda>_. bind_job (OutboxAppend_job es) k)))) L c v"
    by (rule secure_saved [where P = P, OF assms(1-5) saving]) (use after Some in simp_all)
  then show ?thesis
    using Some by (simp add: record_settlement_job_def bind_bind)
qed

text \<open>A concluded operation: its events, and all that is written for it.\<close>

lemma secure_settle:
  assumes "stable L P" and "P c v" and "sound c v" and "moves lawful (save t'')" and "confined (save t'')"
    and saving: "\<And>d u wd wd' u'. P d u \<Longrightarrow> sound d u \<Longrightarrow> does (save t'') wd u () wd' u' \<Longrightarrow>
      settled source w t at t'' entry w' False [] [] [] L d u'"
    and rest: "\<And>d u paid les os es. sound d u \<Longrightarrow> events_of t'' w' entry correlationID at es \<Longrightarrow>
      list_all2 event_row es os \<Longrightarrow> complete paid les entry w' \<Longrightarrow>
      settled source w t at t'' entry w' paid les os [] L d u \<Longrightarrow> secure E Q (k ()) L d u"
  shows "secure E Q (bind_job (settle_job w w' t'' entry correlationID at save) k) L c v"
  unfolding settle_job_def bind_bind
proof (rule secure_bind_turn [OF assms(1-3)])
  fix es :: "Event list" and d u wd wd' u'
  assume P: "P d u" and s: "sound d u" and ev: "does (newEvents t'' w' entry correlationID at) wd u es wd' u'"
  have u': "u' = u" and es: "events_of t'' w' entry correlationID at es" using does_newEvents [OF ev] by auto
  have "secure E Q (bind_job (record_settlement_job w' (w_version w) t'' entry es save) k) L d u"
    by (rule secure_record_settlement [where P = P and save = save, OF assms(1) P s assms(4,5)])
      (use saving rest es in blast)+
  then show "secure E Q (bind_job (record_settlement_job w' (w_version w) t'' entry es save) k) (L \<union> {}) d u'"
    by (simp add: u')
qed (simp_all add: schema.moves_readers)

section \<open>Processing an operation\<close>

text \<open>The operation is recorded under its key already, with the same payload.\<close>

definition replays :: "Transaction \<Rightarrow> ID \<Rightarrow> db \<Rightarrow> bool" where
  "replays t i c \<longleftrightarrow>
     (\<exists>row \<in> set (transactions c). tr_ProviderID row = Some (t_providerID t) \<and>
        tr_IdempotencyKey row = Some (t_idempotencyKey t) \<and>
        (\<exists>p. stores row p \<and> t_payloadHash p = t_payloadHash t \<and> t_id p = i))"

lemma optional_inject: "optional a = optional b \<longleftrightarrow> a = b"
  by (auto simp: optional_def split: if_splits)

lemma stores_key: "stores r t \<Longrightarrow> tr_PayloadHash r = optional (t_payloadHash t) \<and> tr_ID r = t_id t"
  unfolding stores_def by (metis operation_row_sel(1,11))

lemma replays_stays:
  assumes "replays t i c" and "extends c d" and "books d"
  shows "replays t i d"
proof -
  obtain row p where row: "row \<in> set (transactions c)" "tr_ProviderID row = Some (t_providerID t)"
    "tr_IdempotencyKey row = Some (t_idempotencyKey t)" and p: "stores row p" "t_payloadHash p = t_payloadHash t" "t_id p = i"
    using assms(1) unfolding replays_def by blast
  have "grown kept_operation (transactions c) (transactions d)" using assms(2) by (simp add: extends_def)
  then obtain y where y: "y \<in> set (transactions d)" "kept_operation row y" using grown_rows row(1) by metis
  then have eq: "row_request y = row_request row" by (simp add: kept_operation_def)
  have same: "tr_ProviderID y = tr_ProviderID row" "tr_IdempotencyKey y = tr_IdempotencyKey row"
    "tr_PayloadHash y = tr_PayloadHash row" "tr_ID y = tr_ID row"
    using arg_cong [OF eq, of tr_ProviderID] arg_cong [OF eq, of tr_IdempotencyKey]
      arg_cong [OF eq, of tr_PayloadHash] arg_cong [OF eq, of tr_ID] by simp_all
  obtain u where u: "stores y u" using assms(3) y(1) by (auto simp: books_def transactions_inv_def)
  have "t_payloadHash u = t_payloadHash p" "t_id u = t_id p"
    using stores_key [OF u] stores_key [OF p(1)] same by (simp_all add: optional_inject)
  with row p y(1) same u show ?thesis unfolding replays_def by metis
qed

lemma replays_replayed:
  assumes "replays t i c" and "constraints c"
  shows "\<exists>r. replayed c t r \<and> res_TransactionID r = i"
proof -
  obtain row p where row: "row \<in> set (transactions c)" "tr_ProviderID row = Some (t_providerID t)"
    "tr_IdempotencyKey row = Some (t_idempotencyKey t)" and p: "stores row p" "t_payloadHash p = t_payloadHash t" "t_id p = i"
    using assms(1) unfolding replays_def by blast
  let ?P = "\<lambda>q. tr_ProviderID q = Some (t_providerID t) \<and> tr_IdempotencyKey q = Some (t_idempotencyKey t)"
  obtain q where q: "List.find ?P (transactions c) = Some q"
    using row by (cases "List.find ?P (transactions c)") (auto simp: find_None_iff)
  then have "q = row" using keys_unique [OF assms(2) _ _ _ row] find_SomeD [OF q] by blast
  with q p stores_rehydrate [OF p(1)] have "replayed c t (newWagerResult p True)"
    unfolding replayed_def by blast
  with p(3) show ?thesis by (intro exI [of _ "newWagerResult p True"]) (simp add: newWagerResult_def)
qed

definition processed ::
  "Transaction \<Rightarrow> string \<Rightarrow> time \<Rightarrow> inbox_row list \<Rightarrow> ID \<Rightarrow> ID set \<Rightarrow> db \<Rightarrow> db \<Rightarrow> bool" where
  "processed t correlationID at ms i L c v \<longleftrightarrow>
     v = c\<lparr>inbox := inbox c @ ms\<rparr> \<and> replays t i c \<or>
     (\<exists>w t'' entry w' paid les os es. settled None w t at t'' entry w' paid les os ms L c v \<and>
        complete paid les entry w' \<and> events_of t'' w' entry correlationID at es \<and> list_all2 event_row es os \<and>
        w_id w = t_walletID t \<and> i = t_id t'')"

lemma stable_or: "stable L P \<Longrightarrow> stable L P' \<Longrightarrow> stable L (\<lambda>c v. P c v \<or> P' c v)"
  unfolding stable_def by blast

lemma stable_ex: "(\<And>x. stable L (P x)) \<Longrightarrow> stable L (\<lambda>c v. \<exists>x. P x c v)"
  unfolding stable_def by blast

lemma stable_replays: "stable L (\<lambda>c v. v = c\<lparr>inbox := inbox c @ ms\<rparr> \<and> replays t i c)"
proof (rule stableI)
  fix c v d assume "v = c\<lparr>inbox := inbox c @ ms\<rparr> \<and> replays t i c" and s: "sound d (rebase c d v)" and e: "extends c d"
  moreover from this have "rebase c d v = d\<lparr>inbox := inbox d @ ms\<rparr>"
    by (simp add: rebase_def extends_def message_table.merge_added merge_old [of kept_wallet]
        merge_old [of kept_operation] merge_old [of kept_event] merge_old [of "(=)"])
  ultimately show "rebase c d v = d\<lparr>inbox := inbox d @ ms\<rparr> \<and> replays t i d"
    using replays_stays by (auto simp: sound_def)
qed

lemma stable_processed: "stable L (processed t correlationID at ms i L)"
  unfolding processed_def
  by (intro stable_or stable_replays stable_ex stable_and stable_settled)

lemma secure_findReplay:
  assumes h: "held w L c v" and s: "sound c v"
    and rest: "\<And>p d u. sound d u \<Longrightarrow> held w L d u \<Longrightarrow> (\<And>x. p = Some x \<Longrightarrow> replays t (t_id x) d) \<Longrightarrow>
      secure E Q (k p) L d u"
  shows "secure E Q (bind_job (findReplay_job t) k) L c v"
  unfolding findReplay_job_def bind_bind
proof (rule secure_bind_turn [OF stable_held h s])
  fix previous d u wd wd' u'
  assume h: "held w L d u" and s: "sound d u"
    and f: "does (FindByIdempotencyKey (t_providerID t) (t_idempotencyKey t)) wd u previous wd' u'"
  have u: "u = d" using h by (simp add: held_def)
  note key = does_transaction_queries(1) [OF f]
  have u': "u' = d" using key u by simp
  have "secure E Q (bind_job (case previous of
         Some p \<Rightarrow>
           if t_payloadHash p \<noteq> t_payloadHash t
             then refuse (ConflictError FailureCodeIdempotencyConflict)
           else give (Some p)
       | None \<Rightarrow>
           bind_job (turn {} (FindByExternalID (t_providerID t) (t_externalTransactionID t))) (\<lambda>found.
             case found of
               Some _ \<Rightarrow> refuse (ConflictError FailureCodeIdempotencyConflict)
             | None \<Rightarrow> give None)) k) L d d"
  proof (cases previous)
    case (Some p)
    then obtain row where row: "List.find (\<lambda>r. tr_ProviderID r = Some (t_providerID t) \<and>
        tr_IdempotencyKey r = Some (t_idempotencyKey t)) (transactions d) = Some row" "rehydrate_row row = Inr p"
      using key u by auto
    have mem: "row \<in> set (transactions d)" using find_SomeD [OF row(1)] by simp
    then obtain x where "stores row x" using s by (auto simp: sound_def books_def transactions_inv_def)
    with row(2) have "stores row p" using stores_unique by blast
    then have "t_payloadHash p = t_payloadHash t \<Longrightarrow> replays t (t_id p) d"
      using mem find_SomeD [OF row(1)] unfolding replays_def by blast
    with Some h s u rest [of d d "Some p"] show ?thesis by (simp add: secure_refuse)
  next
    case None
    have "secure E Q (bind_job (turn {} (FindByExternalID (t_providerID t) (t_externalTransactionID t))) (\<lambda>found.
        bind_job (case found of
               Some _ \<Rightarrow> refuse (ConflictError FailureCodeIdempotencyConflict)
             | None \<Rightarrow> give None) k)) L d d"
    proof (rule secure_bind_turn [OF stable_held h [unfolded u] s [unfolded u]])
      fix found e y we we' y'
      assume h: "held w L e y" and s: "sound e y"
        and f: "does (FindByExternalID (t_providerID t) (t_externalTransactionID t)) we y found we' y'"
      have "y' = y" using does_transaction_queries(2) [OF f] by simp
      with h s rest [of e y None] show "secure E Q (bind_job (case found of
               Some _ \<Rightarrow> refuse (ConflictError FailureCodeIdempotencyConflict)
             | None \<Rightarrow> give None) k) (L \<union> {}) e y'"
        by (auto simp: secure_refuse split: option.splits)
    qed (simp_all add: schema.moves_readers)
    with None show ?thesis by (simp add: bind_bind)
  qed
  then show "secure E Q (bind_job (case previous of
         Some p \<Rightarrow>
           if t_payloadHash p \<noteq> t_payloadHash t
             then refuse (ConflictError FailureCodeIdempotencyConflict)
           else give (Some p)
       | None \<Rightarrow>
           bind_job (turn {} (FindByExternalID (t_providerID t) (t_externalTransactionID t))) (\<lambda>found.
             case found of
               Some _ \<Rightarrow> refuse (ConflictError FailureCodeIdempotencyConflict)
             | None \<Rightarrow> give None)) k) (L \<union> {}) d u'"
    unfolding u' by simp
qed (simp_all add: schema.moves_readers)


text \<open>The row a new operation is saved as.\<close>

lemma Create_settles:
  assumes h: "attempted w t at (outcome, entry, w', t') L d u" and s: "sound d u"
    and con: "conclude t' w' outcome at = Inr t''"
    and t: "transaction_wf t" "t_state t = StatePending" "t_referenceAttempts t = 0"
    and iso: "currency_iso4217 (currency_code (currency (t_amount t)))"
    and run: "does (TransactionRepository_Create t'') wd u () wd' u'"
  shows "settled None w t at t'' entry w' False [] [] [] L d u'"
proof -
  obtain rs where held: "held w L d u" and rs: "set rs \<subseteq> frozen d" "resolved_from t t'"
    "case outcome of
       Some e \<Rightarrow> entry = None \<and> w' = w
     | None \<Rightarrow> \<exists>q i. good_reference (only rs) t' q \<and> wallet_Apply w (Some t') q at i = Inr (entry, w')"
    using h unfolding attempted_def by auto
  have u: "u = d" using held by (simp add: held_def)
  have dec: "decided (only rs) w t at t'' entry w'" by (rule decided_intro [OF rs(2) con rs(3)])
  then have before: "decided_before w t at t'' entry w' L d"
    using held rs(1) unfolding decided_before_def held_def by blast
  have t'': "transaction_wf t''" "same_request t t''" using decided_request [OF dec t(1)] by auto
  have att: "t_referenceAttempts t'' = 0"
    using conclude_Inr [OF con] resolved_attempts [OF rs(2) _ t(2)] t(3) by simp
  have dist: "distinct (map tr_ID (transactions d))" using s by (simp add: sound_def books_def transactions_inv_def)
  have "currency_iso4217 (currency_code (currency (t_amount t'')))" using iso t''(2) by (simp add: same_request_def)
  from does_Create_stored [OF run [unfolded u] dist t''(1) att this] obtain r where
    "stores r t''" "\<forall>(name, clash) \<in> set transaction_uniques. \<forall>q \<in> set (transactions d). \<not> clash q r"
    "u' = d\<lparr>transactions := transactions d @ [r]\<rparr>" by blast
  then have "saves None t'' d (transactions d @ [r])" "u' = d\<lparr>transactions := transactions d @ [r]\<rparr>"
    unfolding saves_def by auto
  with before show ?thesis unfolding settled_def moved_wallets_def by auto
qed

lemma secure_new_operation:
  assumes s: "sound c c" and h: "held w L c c" and own: "w_id w = t_walletID t"
    and t: "transaction_wf t" "t_state t = StatePending" "t_referenceAttempts t = 0"
    and iso: "currency_iso4217 (currency_code (currency (t_amount t)))"
  shows "secure E (\<lambda>r. processed t correlationID at [] (res_TransactionID r))
    (new_operation_job t correlationID at w) L c c"
  unfolding new_operation_job_def
proof (rule secure_bind [OF secure_find_and_apply [OF s h] s])
  let ?Q = "\<lambda>r. processed t correlationID at [] (res_TransactionID r)"
  fix x :: "err option \<times> Entry option \<times> Wallet \<times> Transaction" and L d v
  assume s: "sound d v" and att: "attempted w t at x L d v"
  obtain outcome entry w' t' where x: "x = (outcome, entry, w', t')" by (cases x)
  have "secure E ?Q (bind_job (settle_job w w' t'' entry correlationID at TransactionRepository_Create)
      (\<lambda>_. give (newWagerResult t'' False))) L d v" if con: "conclude t' w' outcome at = Inr t''" for t''
  proof (rule secure_settle [OF stable_attempted att s])
    show "settled None w t at t'' entry w' False [] [] [] L d y'"
      if "attempted w t at x L d y" "sound d y" "does (TransactionRepository_Create t'') wd y () wd' y'" for d y wd wd' y'
      using Create_settles [OF that(1) [unfolded x] that(2) con t iso that(3)] .
    fix d u paid les os es
    assume "events_of t'' w' entry correlationID at es" "list_all2 event_row es os" "complete paid les entry w'"
      "settled None w t at t'' entry w' paid les os [] L d u"
    then have "processed t correlationID at [] (res_TransactionID (newWagerResult t'' False)) L d u"
      using own unfolding processed_def newWagerResult_def by (simp; blast)
    then show "secure E ?Q (give (newWagerResult t'' False)) L d u" by (simp add: secure_give stable_processed)
  qed (simp_all add: schema.moves_repositories)
  then show "secure E ?Q (case x of (outcome, entry, w', t') \<Rightarrow>
     bind_job (Done (conclude t' w' outcome at)) (\<lambda>t''.
     bind_job (settle_job w w' t'' entry correlationID at TransactionRepository_Create)
       (\<lambda>_. give (newWagerResult t'' False)))) L d v"
    unfolding x by (cases "conclude t' w' outcome at") (simp_all add: secure_refuse)
qed

lemma secure_process:
  assumes s: "sound c c"
    and t: "transaction_wf t" "t_state t = StatePending" "t_referenceAttempts t = 0"
    and iso: "currency_iso4217 (currency_code (currency (t_amount t)))"
  shows "secure E (\<lambda>r. processed t correlationID at [] (res_TransactionID r)) (process_job t correlationID at) {} c c"
  unfolding process_job_def
proof (rule secure_bind [OF secure_GetForUpdate [OF s] s])
  let ?Q = "\<lambda>r. processed t correlationID at [] (res_TransactionID r)"
  fix w :: Wallet and L d v assume "sound d v" and held: "held w L d v \<and> w_id w = t_walletID t"
  then have h: "held w L d v" and own: "w_id w = t_walletID t" and s: "sound d v" by simp_all
  show "secure E ?Q (bind_job (findReplay_job t) (\<lambda>previous.
       case previous of
         Some p \<Rightarrow> give (newWagerResult p True)
       | None \<Rightarrow> new_operation_job t correlationID at w)) L d v"
  proof (rule secure_findReplay [OF h s])
    fix p :: "Transaction option" and d u
    assume s: "sound d u" and h: "held w L d u" and rep: "\<And>x. p = Some x \<Longrightarrow> replays t (t_id x) d"
    have u: "u = d" using h by (simp add: held_def)
    show "secure E ?Q (case p of
         Some p \<Rightarrow> give (newWagerResult p True)
       | None \<Rightarrow> new_operation_job t correlationID at w) L d u"
    proof (cases p)
      case (Some x)
      then have "processed t correlationID at [] (res_TransactionID (newWagerResult x True)) L d u"
        using rep u by (simp add: processed_def newWagerResult_def)
      with Some show ?thesis by (simp add: secure_give stable_processed)
    next
      case None
      with s h u own t iso secure_new_operation show ?thesis by simp
    qed
  qed
qed

end
