(* ===== verification/Commits.thy ===== *)
theory Commits
  imports Secured
begin

text \<open>
  What the assertions of the jobs come to when they commit: the change of the database that the
  function run alone would have made (\<open>changed\<close>). And what a commit does to the operations of wallets
  the session did not lock: at most it leases them (\<open>guarded\<close>), so that the others may rely on it.
\<close>

section \<open>An operation that was concluded\<close>

lemma saves_unreversed:
  assumes sv: "saves source t'' c ts" and b: "books c"
    and t: "IsReversal (t_kind t'')" "t_state t'' = StateProcessed"
    and x: "x \<in> set (transactions c)" "tr_ReferenceTransactionID x = Some (t_referenceTransactionID t'')"
  shows "\<not> row_reversed x"
proof
  assume rev: "row_reversed x"
  obtain r where st: "stores r t''" and clash: "\<forall>(name, clash) \<in> set transaction_uniques. \<forall>q \<in> set (transactions c).
      source = None \<or> tr_ID q \<noteq> t_id t'' \<longrightarrow> \<not> clash q r"
    and src: "case source of
           None \<Rightarrow> ts = transactions c @ [r]
         | Some t0 \<Rightarrow> t0 \<noteq> t'' \<and> (\<exists>r0 \<in> set (transactions c). stores r0 t0 \<and> tr_ID r0 = t_id t'' \<and>
               tr_State r0 = ''PENDING_REFERENCE'') \<and>
             ts = map (\<lambda>q. if tr_ID q = t_id t'' then r else q) (transactions c)"
    using sv unfolding saves_def by blast
  obtain u where "stores x u" using b x(1) by (auto simp: books_def transactions_inv_def)
  then have "x = operation_row u (tr_NextAttemptAt x)" by (simp add: stores_def)
  with x(2) have "ReferenceTransactionID u = Some (t_referenceTransactionID t'')" by (metis operation_row_sel(15))
  then have "ReferenceTransactionID t'' = Some (t_referenceTransactionID t'')"
    by (auto simp: ReferenceTransactionID_def split: if_splits)
  moreover have "r = operation_row t'' (tr_NextAttemptAt r)" using st by (simp add: stores_def)
  ultimately have r: "tr_ReferenceTransactionID r = Some (t_referenceTransactionID t'')" by (metis operation_row_sel(15))
  have "row_reversed r"
    using stores_sel(2,3) [OF st] t r by (auto simp: row_reversed_def row_is_reversal_def IsReversal_def)
  moreover have "source = None \<or> tr_ID x \<noteq> t_id t''"
  proof (cases source)
    case (Some t0)
    with src obtain r0 where r0: "r0 \<in> set (transactions c)" "tr_ID r0 = t_id t''" "tr_State r0 = ''PENDING_REFERENCE''"
      by auto
    have "distinct (map tr_ID (transactions c))" using b by (simp add: books_def transactions_inv_def)
    then have "tr_ID x = t_id t'' \<Longrightarrow> x = r0" using distinct_key_unique x(1) r0(1,2) by metis
    moreover have "x \<noteq> r0" using rev r0(3) by (auto simp: row_reversed_def)
    ultimately show ?thesis by blast
  qed simp
  ultimately have "\<not> (row_reversed x \<and> row_reversed r \<and>
      same_value (tr_ReferenceTransactionID x) (tr_ReferenceTransactionID r))" and "row_reversed r"
    using bspec [OF clash transaction_clashes(2)] x(1) by auto
  with rev x(2) r show False by (simp add: same_value_def)
qed

text \<open>What was decided by operations that do not change holds of the database as it is now.\<close>

lemma decided_now:
  assumes dec: "decided (only rs) w t at t'' entry w'" and rs: "set rs \<subseteq> frozen c"
    and sv: "saves source t'' c ts" and b: "books c"
  shows "decided c w t at t'' entry w'"
proof -
  obtain t' where t': "resolved_from t t'" "wager_step t' t''"
    and out: "(\<exists>q i. good_reference (only rs) t' q \<and> wallet_Apply w (Some t') q at i = Inr (entry, w')) \<and>
           t'' = t'\<lparr>t_state := StateProcessed, t_updatedAt := at, t_resultBalance := Some (w_balance w')\<rparr>
         \<or> t_state t'' \<in> {StatePendingReference, StateRejected} \<and> entry = None \<and> w' = w"
    using dec unfolding decided_def by blast
  have "good_reference c t' q"
    if q: "good_reference (only rs) t' q"
      and t'': "t'' = t'\<lparr>t_state := StateProcessed, t_updatedAt := at, t_resultBalance := Some (w_balance w')\<rparr>" for q
  proof (cases q)
    case (Some r)
    then have r: "\<exists>row \<in> set rs. rehydrate_row row = Inr r" "t_referenceTransactionID t' = t_id r"
      using q by (auto simp: good_reference_def only_def)
    have "\<not> row_reversed x" if "IsReversal (t_kind t')" "x \<in> set (transactions c)"
      "tr_ReferenceTransactionID x = Some (t_id r)" for x
      using saves_unreversed [OF sv b _ _ that(2)] that t'' r(2) by simp
    moreover have "\<exists>row \<in> set (transactions c). rehydrate_row row = Inr r"
      using r(1) rs by (auto simp: frozen_def)
    ultimately show ?thesis using q Some by (auto simp: good_reference_def)
  qed (use q in \<open>simp add: good_reference_def\<close>)
  with t' out show ?thesis unfolding decided_def by blast
qed

lemma settled_recorded:
  assumes st: "settled source w t at t'' entry w' paid les os ms L c v" and b: "books c"
    and all: "complete paid les entry w'" "events_of t'' w' entry correlationID at es" "list_all2 event_row es os"
  shows "decided c w t at t'' entry w'" and "recorded c w t'' entry w' correlationID at (v\<lparr>inbox := inbox c\<rparr>)"
proof -
  obtain ts where sv: "saves source t'' c ts" and v: "v = \<lparr>wallets = moved_wallets w w' paid (wallets c),
      transactions = ts, entries = entries c @ les, outbox = outbox c @ os, inbox = inbox c @ ms\<rparr>"
    and dec: "decided_before w t at t'' entry w' L c"
    using st unfolding settled_def by blast
  then show "decided c w t at t'' entry w'"
    using decided_now [OF _ _ sv b] unfolding decided_before_def by blast
  have "saved (transactions c) t'' ts" by (rule saves_saved [OF sv b])
  with all show "recorded c w t'' entry w' correlationID at (v\<lparr>inbox := inbox c\<rparr>)"
    unfolding recorded_def complete_def v moved_wallets_def
    by (intro exI [of _ es] exI [of _ ts] exI [of _ os]) (auto split: option.splits)
qed

text \<open>A new operation was applied, under keys nobody had used.\<close>

lemma saves_fresh:
  assumes sv: "saves None t'' c ts" and c: "constraints c" and q: "q \<in> set (transactions c)"
    and t'': "t_kind t'' \<noteq> KindOpening"
    and key: "tr_ProviderID q = Some (t_providerID t'')"
  shows "tr_IdempotencyKey q \<noteq> Some (t_idempotencyKey t'') \<and> tr_ExternalTransactionID q \<noteq> Some (t_externalTransactionID t'')"
proof -
  obtain r where st: "stores r t''" and clash: "\<forall>(name, clash) \<in> set transaction_uniques. \<forall>q \<in> set (transactions c). \<not> clash q r"
    using sv unfolding saves_def by auto
  have wf: "transaction_wf t''" by (rule stores_sel(9) [OF st])
  have ne: "t_providerID t'' \<noteq> ''''" "t_idempotencyKey t'' \<noteq> ''''" "t_externalTransactionID t'' \<noteq> ''''"
    using wf t'' by (auto simp: transaction_wf_defs)
  have r: "r = operation_row t'' (tr_NextAttemptAt r)" using st by (simp add: stores_def)
  have cols: "tr_ProviderID r = Some (t_providerID t'')" "tr_IdempotencyKey r = Some (t_idempotencyKey t'')"
    "tr_ExternalTransactionID r = Some (t_externalTransactionID t'')"
    using ne by (subst r, simp add: optional_def)+
  have kinds: "tr_Kind q \<noteq> ''OPENING''" "tr_Kind r \<noteq> ''OPENING''"
  proof -
    show "tr_Kind q \<noteq> ''OPENING''" using constraints_origin [OF c q] key by (auto simp: row_origin_def)
    have "kind_IsValid (t_kind t'')" using wf by (simp add: transaction_wf_defs)
    then show "tr_Kind r \<noteq> ''OPENING''"
      using stores_sel(2) [OF st] t'' by (cases "t_kind t''") (simp_all add: kind_IsValid_def)
  qed
  have "\<not> (tr_Kind q \<noteq> ''OPENING'' \<and> tr_Kind r \<noteq> ''OPENING'' \<and> same_value (tr_ProviderID q) (tr_ProviderID r) \<and>
      same_value (tr_IdempotencyKey q) (tr_IdempotencyKey r))"
    "\<not> (tr_Kind q \<noteq> ''OPENING'' \<and> tr_Kind r \<noteq> ''OPENING'' \<and> same_value (tr_ProviderID q) (tr_ProviderID r) \<and>
      same_value (tr_ExternalTransactionID q) (tr_ExternalTransactionID r))"
    using clash q by (auto simp: transaction_uniques_def)
  with cols kinds key show ?thesis by (auto simp: same_value_def)
qed

text \<open>What a processed operation leaves, with the messages \<open>ms\<close> recorded beside it.\<close>

lemma processed_executed:
  assumes p: "processed t (in_CorrelationID input) at ms i L c v" and s: "sound c v"
    and t: "PayloadHash E input = Inr hash" "NewExternal (new_external_params input hash j at) = Inr t"
      "constructed (in_Money input)"
  shows "\<exists>r. executed E c input r (v\<lparr>inbox := inbox c\<rparr>) \<and> res_TransactionID r = i \<and>
    v = v\<lparr>inbox := inbox c\<rparr>\<lparr>inbox := inbox c @ ms\<rparr>"
proof -
  have b: "books c" "constraints c" using s by (simp_all add: sound_def)
  note f = NewExternal_facts [OF t(2,3)]
  from p consider (old) "v = c\<lparr>inbox := inbox c @ ms\<rparr>" "replays t i c"
    | (new) w t'' entry w' paid les os es where
      "settled None w t at t'' entry w' paid les os ms L c v" "complete paid les entry w'"
      "events_of t'' w' entry (in_CorrelationID input) at es" "list_all2 event_row es os"
      "w_id w = t_walletID t" "i = t_id t''"
    unfolding processed_def by blast
  then show ?thesis
  proof cases
    case old
    obtain r where r: "replayed c t r" "res_TransactionID r = i" using replays_replayed [OF old(2) b(2)] by blast
    with t(1,2) old(1) have "executed E c input r (v\<lparr>inbox := inbox c\<rparr>)" unfolding executed_def by auto
    with r(2) old(1) show ?thesis by auto
  next
    case new
    obtain ts where sv: "saves None t'' c ts" and v: "inbox v = inbox c @ ms"
      and w: "wallet_to_row w \<in> set (wallets c)" "wallet_wf w" "wallet_iso w"
      using new(1) unfolding settled_def decided_before_def by auto
    note rec = settled_recorded [OF new(1) b(1) new(2-4)]
    have same: "same_request t t''" using decided_request [OF rec(1)] f by simp
    then have keys: "t_providerID t'' = t_providerID t" "t_idempotencyKey t'' = t_idempotencyKey t"
      "t_externalTransactionID t'' = t_externalTransactionID t" "t_kind t'' = t_kind t"
      by (simp_all add: same_request_def)
    have kind: "t_kind t \<noteq> KindOpening" using f by blast
    have "applied c t (in_CorrelationID input) at (newWagerResult t'' False) (v\<lparr>inbox := inbox c\<rparr>)"
      unfolding applied_def using rec w new(5) saves_fresh [OF sv b(2), unfolded keys, OF _ kind] by blast
    with t(1,2) have "executed E c input (newWagerResult t'' False) (v\<lparr>inbox := inbox c\<rparr>)"
      unfolding executed_def by blast
    moreover have "res_TransactionID (newWagerResult t'' False) = i" using new(6) by (simp add: newWagerResult_def)
    ultimately show ?thesis using v by auto
  qed
qed

section \<open>What commits leave alone\<close>

definition guarded :: "ID set \<Rightarrow> db \<Rightarrow> db \<Rightarrow> bool" where
  "guarded L c v \<longleftrightarrow>
     (\<forall>r \<in> set (transactions c). \<forall>q \<in> set (transactions v). tr_ID q = tr_ID r \<longrightarrow>
        q = r \<or> tr_WalletID r \<in> L \<or> (\<exists>n. q = r\<lparr>tr_NextAttemptAt := n\<rparr>))"

definition goal :: "environment \<Rightarrow> OutboxRecord list \<Rightarrow> 'a \<Rightarrow> ID set \<Rightarrow> db \<Rightarrow> db \<Rightarrow> bool" where
  "goal E pubs u L c v \<longleftrightarrow> changed E pubs c v \<and> guarded L c v"

lemma guarded_same: "books c \<Longrightarrow> transactions v = transactions c \<Longrightarrow> guarded L c v"
  unfolding guarded_def books_def transactions_inv_def using distinct_key_unique by metis

lemma guarded_saves:
  assumes sv: "saves source t c ts" and b: "books c" and v: "transactions v = ts"
    and L: "\<And>t0. source = Some t0 \<Longrightarrow> t_walletID t0 \<in> L"
  shows "guarded L c v"
  unfolding guarded_def
proof (intro ballI impI)
  fix r q assume r: "r \<in> set (transactions c)" and q: "q \<in> set (transactions v)" and id: "tr_ID q = tr_ID r"
  have dist: "distinct (map tr_ID (transactions c))" using b by (simp add: books_def transactions_inv_def)
  have old: "q \<in> set (transactions c) \<Longrightarrow> q = r" using distinct_key_unique [OF dist _ r id] by blast
  obtain x where st: "stores x t" and clash: "\<forall>(name, clash) \<in> set transaction_uniques. \<forall>q \<in> set (transactions c).
      source = None \<or> tr_ID q \<noteq> t_id t \<longrightarrow> \<not> clash q x"
    and src: "case source of
           None \<Rightarrow> ts = transactions c @ [x]
         | Some t0 \<Rightarrow> t0 \<noteq> t \<and> (\<exists>r0 \<in> set (transactions c). stores r0 t0 \<and> tr_ID r0 = t_id t \<and>
               tr_State r0 = ''PENDING_REFERENCE'') \<and>
             ts = map (\<lambda>q. if tr_ID q = t_id t then x else q) (transactions c)"
    using sv unfolding saves_def by blast
  show "q = r \<or> tr_WalletID r \<in> L \<or> (\<exists>n. q = r\<lparr>tr_NextAttemptAt := n\<rparr>)"
  proof (cases source)
    case None
    with clash r have "tr_ID r \<noteq> tr_ID x" by (auto simp: transaction_uniques_def)
    with None src v q id old show ?thesis by auto
  next
    case (Some t0)
    with src obtain r0 where r0: "r0 \<in> set (transactions c)" "tr_ID r0 = t_id t" "stores r0 t0"
      and ts: "ts = map (\<lambda>q. if tr_ID q = t_id t then x else q) (transactions c)" by auto
    then obtain y where y: "y \<in> set (transactions c)" "q = (if tr_ID y = t_id t then x else y)" using v q by auto
    then have "tr_ID y = tr_ID r" using id stores_sel(1) [OF st] by (simp split: if_splits)
    then have "y = r" by (rule distinct_key_unique [OF dist y(1) r])
    moreover have "tr_ID r = t_id t \<Longrightarrow> r = r0" using distinct_key_unique [OF dist r r0(1)] r0(2) by simp
    ultimately show ?thesis using y(2) L [OF Some] stores_sel(4) [OF r0(3)] by auto
  qed
qed

lemma processed_guarded:
  assumes "processed t correlationID at ms i L c v" and "books c"
  shows "guarded L c v"
proof -
  from assms(1) consider "v = c\<lparr>inbox := inbox c @ ms\<rparr>"
    | t'' ts where "saves None t'' c ts" "transactions v = ts"
    unfolding processed_def settled_def by (elim disjE exE conjE) auto
  then show ?thesis
  proof cases
    case 1
    then show ?thesis by (intro guarded_same [OF assms(2)]) simp
  qed (auto intro: guarded_saves [OF _ assms(2)])
qed

text \<open>Security of a job whose result is mapped, and of the goal it ends in.\<close>

lemma secure_conclude:
  assumes "secure E Q j L c v" and "sound c v"
    and "\<And>a L d v. sound d v \<Longrightarrow> Q a L d v \<Longrightarrow> R (f a) L d v"
  shows "secure E R (bind_job j (\<lambda>a. give (f a))) L c v"
  using assms(1,2)
proof (induction rule: secure.induct)
  case (secure_failed e L c v)
  then show ?case by (simp add: secure_refuse)
next
  case (secure_done L c v a)
  have "secure E R (Done (Inr (f a))) L c v"
    by (rule secure.secure_done) (use secure_done meanwhile_sound assms(3) in blast)
  then show ?case by (simp add: give_def)
next
  case (secure_turn L c v g K)
  show ?case unfolding bind_job_def attempt_job.simps
  proof (rule secure.secure_turn)
    fix d v' w j' w' v''
    assume m: "meanwhile L (c, v) (d, v')" and w: "committed w = d" "env w = E" "tx w = Some (v', False)"
      and run: "(map_prod (\<lambda>j. attempt_job j (\<lambda>r. case r of Inl e \<Rightarrow> refuse e | Inr a \<Rightarrow> give (f a))) id \<circ> g) w = (j', w')"
      and w': "tx w' = Some (v'', False)"
    obtain j where g: "g w = (j, w')" and j': "j' = bind_job j (\<lambda>a. give (f a))"
      using run by (cases "g w") (simp add: bind_job_def)
    note ih = secure_turn(1) [OF m w g w']
    have "sound d v''" using meanwhile_sound [OF m secure_turn(2)] ih sound_lawful by blast
    with ih j' show "lawful v' v'' \<and> secure E R j' (L \<union> K) d v''" by blast
  qed
qed

section \<open>Processing\<close>

lemma process_commits:
  assumes s: "sound c c"
    and t: "PayloadHash E input = Inr hash" "NewExternal (new_external_params input hash i at) = Inr t"
      "constructed (in_Money input)"
  shows "secure E (goal E pubs) (void (process_job t (in_CorrelationID input) at)) {} c c"
  unfolding void_def
proof (rule secure_conclude [OF secure_process [OF s] s])
  note f = NewExternal_facts [OF t(2,3)]
  show "transaction_wf t" "t_state t = StatePending" "t_referenceAttempts t = 0"
    "currency_iso4217 (currency_code (currency (t_amount t)))" using f by blast+
  fix a L d v assume s: "sound d v" and p: "processed t (in_CorrelationID input) at [] (res_TransactionID a) L d v"
  obtain r where r: "executed E d input r (v\<lparr>inbox := inbox d\<rparr>)" "v = v\<lparr>inbox := inbox d\<rparr>\<lparr>inbox := inbox d @ []\<rparr>"
    using processed_executed [OF p s t] by blast
  then have "executed E d input r v" by (metis append_Nil2 db.surjective db.update_convs(5))
  with t(3) have "changed E pubs d v" by (blast intro: changed_executed)
  with processed_guarded [OF p] s show "goal E pubs () L d v" by (simp add: goal_def sound_def)
qed

end
