(* ===== verification/Secured_Units.thy ===== *)
theory Secured_Units
  imports Commits
begin

text \<open>
  The other units of work commit as one change: a message taken in, an operation that waited and is
  tried again, a wallet that is opened, rows that are leased, and the record of a publication.
\<close>

section \<open>Messages\<close>

text \<open>An operation from the queue is processed, whatever identifier and instants it was given.\<close>

definition executing :: "environment \<Rightarrow> ProcessWagerInput \<Rightarrow> inbox_row list \<Rightarrow> ID \<Rightarrow> ID set \<Rightarrow> db \<Rightarrow> db \<Rightarrow> bool" where
  "executing E input ms i L c v \<longleftrightarrow>
     (\<exists>t hash j at. processed t (in_CorrelationID input) at ms i L c v \<and>
        PayloadHash E input = Inr hash \<and> NewExternal (new_external_params input hash j at) = Inr t)"

lemma stable_executing: "stable L (executing E input ms i L)"
  unfolding executing_def by (intro stable_ex stable_and stable_processed)

lemma stable_sure: "stable L (\<lambda>c v. A)"
  by (simp add: stable_def)

text \<open>What ProcessWager does with the outcome of its unit of work.\<close>

abbreviation concluding :: "Transaction \<Rightarrow> time \<Rightarrow> err + WagerResult \<Rightarrow> WagerResult job" where
  "concluding t receivedAt r \<equiv> (case r of
      Inl e \<Rightarrow>
        bind_job
          (if errors_Is e (Sentinel ErrConcurrentUpdate) then turn {} (record_metric ConcurrencyConflict)
           else give ())
          (\<lambda>_. refuse e)
    | Inr result \<Rightarrow>
        bind_job (turn {} clock_now) (\<lambda>finished.
        bind_job (turn {} (record_metric (WagerConcluded (t_kind t) (res_State result)
            (res_FailureCode result) (res_IdempotentReplay result) (time_Sub finished receivedAt))))
          (\<lambda>_. give result)))"

lemma secure_concluding:
  assumes m: "constructed (in_Money input)" and d: "sound d d"
    and t: "PayloadHash E input = Inr hash" "NewExternal (new_external_params input hash j at) = Inr t"
  shows "secure E (\<lambda>r. executing E input [] (res_TransactionID r))
    (attempt_job (process_job t (in_CorrelationID input) at) (concluding t at)) {} d d"
    (is "secure E ?Q _ _ _ _")
proof (rule secure_attempt [OF secure_process [OF d] d])
  note f = NewExternal_facts [OF t(2) m]
  show "transaction_wf t" "t_state t = StatePending" "t_referenceAttempts t = 0"
    "currency_iso4217 (currency_code (currency (t_amount t)))" using f by blast+
  show "secure E ?Q (concluding t at (Inl e)) L d v" if "sound d v" for e L d v
    using that by (auto intro!: secure_bind_reader [OF stable_sure [of _ True]] secure_refuse)
  fix a :: WagerResult and L d v
  assume s: "sound d v" and p: "processed t (in_CorrelationID input) at [] (res_TransactionID a) L d v"
  have ex: "executing E input [] (res_TransactionID a) L d v"
    using p t unfolding executing_def by blast
  have "secure E ?Q (bind_job (turn {} clock_now) (\<lambda>finished.
          bind_job (turn {} (record_metric (WagerConcluded (t_kind t) (res_State a)
              (res_FailureCode a) (res_IdempotentReplay a) (time_Sub finished at))))
            (\<lambda>_. give a))) L d v"
    by (rule secure_bind_reader [OF stable_executing ex s], simp)
      (rule secure_bind_reader [OF stable_executing], assumption+, simp, rule secure_give [OF stable_executing])
  then show "secure E ?Q (concluding t at (Inr a)) L d v" by simp
qed

lemma secure_ProcessWager:
  assumes s: "sound c c" and m: "constructed (in_Money input)"
  shows "secure E (\<lambda>r. executing E input [] (res_TransactionID r)) (ProcessWager_job input) {} c c"
proof -
  let ?Q = "\<lambda>r. executing E input [] (res_TransactionID r)"
  have "secure E ?Q (bind_job (turn {} (\<lambda>w. (PayloadHash (env w) input, w))) (\<lambda>payloadHash.
      bind_job (turn {} clock_now) (\<lambda>receivedAt.
      bind_job (turn {} NewID) (\<lambda>i.
      bind_job (Done (NewExternal (new_external_params input payloadHash i receivedAt))) (\<lambda>t.
      attempt_job (process_job t (in_CorrelationID input) receivedAt) (concluding t receivedAt)))))) {} c c"
  proof (rule secure_bind_reader [OF stable_unwritten refl s])
    fix hash d u w w' assume d: "u = d" "sound d u" "env w = E" and h: "does (\<lambda>w. (PayloadHash (env w) input, w)) w u hash w' u"
    have hash: "PayloadHash E input = Inr hash" using h d(3) by (simp add: does_def)
    show "secure E ?Q (bind_job (turn {} clock_now) (\<lambda>receivedAt.
      bind_job (turn {} NewID) (\<lambda>i.
      bind_job (Done (NewExternal (new_external_params input hash i receivedAt))) (\<lambda>t.
      attempt_job (process_job t (in_CorrelationID input) receivedAt) (concluding t receivedAt))))) {} d u"
    proof (rule secure_bind_reader [OF stable_unwritten d(1,2)])
      fix at d u assume d: "u = d" "sound d u"
      show "secure E ?Q (bind_job (turn {} NewID) (\<lambda>i.
        bind_job (Done (NewExternal (new_external_params input hash i at))) (\<lambda>t.
        attempt_job (process_job t (in_CorrelationID input) at) (concluding t at)))) {} d u"
      proof (rule secure_bind_reader [OF stable_unwritten d])
        fix i d u assume "u = d" "sound d u"
        then show "secure E ?Q (bind_job (Done (NewExternal (new_external_params input hash i at))) (\<lambda>t.
          attempt_job (process_job t (in_CorrelationID input) at) (concluding t at))) {} d u"
          using secure_concluding [OF m _ hash]
          by (cases "NewExternal (new_external_params input hash i at)") (simp_all add: secure_refuse)
      qed simp
    qed simp
  qed simp
  then show ?thesis unfolding ProcessWager_job_def by (simp add: secure_refuse)
qed


text \<open>The message beside it.\<close>

lemma executing_recorded:
  assumes ex: "executing E input [] i L d u" and run: "does (InboxRepository_Record m) wd u a wd' u'"
  shows "\<exists>at. executing E input [\<lparr>ir_MessageID = im_MessageID m, ir_PayloadHash = im_PayloadHash m,
    ir_TransactionID = im_TransactionID m, ir_ReceivedAt = at\<rparr>] i L d u'"
proof -
  obtain x at where x: "x = \<lparr>ir_MessageID = im_MessageID m, ir_PayloadHash = im_PayloadHash m,
      ir_TransactionID = im_TransactionID m, ir_ReceivedAt = at\<rparr>" and u': "u' = u\<lparr>inbox := inbox u @ [x]\<rparr>"
    using does_InboxRepository_Record [OF run] by (auto simp: insert_row_Inr)
  have "processed t c at [x] i L d u'" if "processed t c at [] i L d u" for t c at
  proof -
    have "settled None w t at t'' entry w' paid les os [x] L d u'"
      if "settled None w t at t'' entry w' paid les os [] L d u" for w t'' entry w' paid les os
      using that unfolding settled_def u' by auto
    with that show ?thesis unfolding processed_def u' by (simp; blast)
  qed
  with ex have "executing E input [x] i L d u'" unfolding executing_def by blast
  with x show ?thesis by blast
qed

definition taking :: "environment \<Rightarrow> InboundMessage \<Rightarrow> string \<Rightarrow> ID set \<Rightarrow> db \<Rightarrow> db \<Rightarrow> bool" where
  "taking E message hash L c v \<longleftrightarrow>
     v = c \<or>
     (\<exists>i at. executing E (msg_Input message) [\<lparr>ir_MessageID = msg_MessageID message, ir_PayloadHash = hash,
        ir_TransactionID = i, ir_ReceivedAt = at\<rparr>] i L c v)"

lemma stable_taking: "stable L (taking E message hash L)"
  unfolding taking_def by (intro stable_or stable_unwritten stable_ex stable_executing)

lemma secure_take:
  assumes s: "sound c c" and m: "constructed (in_Money (msg_Input message))"
  shows "secure E (\<lambda>r. taking E message hash) (take_job message hash) {} c c"
  unfolding take_job_def
proof (rule secure_bind_reader [OF stable_unwritten refl s])
  let ?Q = "\<lambda>r. taking E message hash"
  fix recorded :: "InboxMessage option" and d u wd wd'
  assume d: "u = d" "sound d u"
  show "secure E ?Q (case recorded of
         Some m \<Rightarrow>
           if im_PayloadHash m \<noteq> hash
             then refuse (ConflictError FailureCodeIdempotencyConflict)
           else give \<lparr>inr_WagerResult = zero_WagerResult\<lparr>res_TransactionID := im_TransactionID m,
             res_IdempotentReplay := True\<rparr>, inr_Duplicate = True\<rparr>
       | None \<Rightarrow>
           bind_job (ProcessWager_job (msg_Input message)) (\<lambda>applied.
           bind_job (turn {} (InboxRepository_Record \<lparr>im_MessageID = msg_MessageID message,
               im_PayloadHash = hash, im_TransactionID = res_TransactionID applied\<rparr>))
             (\<lambda>_. give \<lparr>inr_WagerResult = applied, inr_Duplicate = False\<rparr>))) {} d u"
  proof (cases recorded)
    case (Some m)
    have "taking E message hash {} d u" using d(1) by (simp add: taking_def)
    with Some show ?thesis by (simp add: secure_refuse secure_give stable_taking)
  next
    case None
    have "secure E ?Q (bind_job (ProcessWager_job (msg_Input message)) (\<lambda>applied.
           bind_job (turn {} (InboxRepository_Record \<lparr>im_MessageID = msg_MessageID message,
               im_PayloadHash = hash, im_TransactionID = res_TransactionID applied\<rparr>))
             (\<lambda>_. give \<lparr>inr_WagerResult = applied, inr_Duplicate = False\<rparr>))) {} d d"
    proof (rule secure_bind [OF secure_ProcessWager [OF d(2) [unfolded d(1)] m] d(2) [unfolded d(1)]])
      fix r :: WagerResult and L e v
      assume s: "sound e v" and ex: "executing E (msg_Input message) [] (res_TransactionID r) L e v"
      show "secure E ?Q (bind_job (turn {} (InboxRepository_Record \<lparr>im_MessageID = msg_MessageID message,
               im_PayloadHash = hash, im_TransactionID = res_TransactionID r\<rparr>))
             (\<lambda>_. give \<lparr>inr_WagerResult = r, inr_Duplicate = False\<rparr>)) L e v"
      proof (rule secure_bind_turn [OF stable_executing ex s])
        fix a :: unit and f y wy wy' y'
        assume ex: "executing E (msg_Input message) [] (res_TransactionID r) L f y"
          and run: "does (InboxRepository_Record \<lparr>im_MessageID = msg_MessageID message,
               im_PayloadHash = hash, im_TransactionID = res_TransactionID r\<rparr>) wy y a wy' y'"
        have "taking E message hash L f y'"
          using executing_recorded [OF ex run] unfolding taking_def by auto
        then show "secure E ?Q (give \<lparr>inr_WagerResult = r, inr_Duplicate = False\<rparr>) (L \<union> {}) f y'"
          by (simp add: secure_give stable_taking)
      qed (simp_all add: schema.moves_repositories)
    qed
    with None d(1) show ?thesis by simp
  qed
qed simp

lemma take_commits:
  assumes s: "sound c c" and m: "constructed (in_Money (msg_Input message))"
  shows "secure E (goal E pubs) (void (take_job message hash)) {} c c"
  unfolding void_def
proof (rule secure_conclude [OF secure_take [OF s m] s])
  fix L d v assume s: "sound d v" and t: "taking E message hash L d v"
  have b: "books d" "constraints v" using s by (simp_all add: sound_def)
  show "goal E pubs () L d v"
  proof (cases "v = d")
    case True
    then show ?thesis using guarded_same [OF b(1), of d] by (simp add: goal_def changed_none)
  next
    case False
    then obtain x i at t h j at' where x: "x = \<lparr>ir_MessageID = msg_MessageID message, ir_PayloadHash = hash,
        ir_TransactionID = i, ir_ReceivedAt = at\<rparr>"
      and p: "processed t (in_CorrelationID (msg_Input message)) at' [x] i L d v"
      and t: "PayloadHash E (msg_Input message) = Inr h"
        "NewExternal (new_external_params (msg_Input message) h j at') = Inr t"
      using t unfolding taking_def executing_def by blast
    obtain r where r: "executed E d (msg_Input message) r (v\<lparr>inbox := inbox d\<rparr>)" "res_TransactionID r = i"
      and v: "v = v\<lparr>inbox := inbox d\<rparr>\<lparr>inbox := inbox d @ [x]\<rparr>"
      using processed_executed [OF p s t m] by blast
    have "inbox v = inbox d @ [x]" by (subst v) simp
    then have "ir_MessageID x \<notin> ir_MessageID ` set (inbox d)"
      using message_table.valid_keys [OF constraintsD(5) [OF b(2)]] by simp
    then have "List.find (\<lambda>m. ir_MessageID m = msg_MessageID message) (inbox d) = None"
      by (auto simp: find_None_iff x image_iff)
    with r v x have "taken_in E d message hash \<lparr>inr_WagerResult = r, inr_Duplicate = False\<rparr> v"
      unfolding taken_in_def by (intro disjI2 conjI exI [of _ "v\<lparr>inbox := inbox d\<rparr>"] exI [of _ at]) simp_all
    with m have "changed E pubs d v" by (blast intro: changed_taken)
    with processed_guarded [OF p b(1)] show ?thesis by (simp add: goal_def)
  qed
qed


section \<open>Operations that wait\<close>

text \<open>
  The operation \<open>t\<close> waits, and its wallet is locked: nobody else can conclude it. That it is the wallet
  the worker was told of follows from the row it was leased by.
\<close>

definition waiting :: "ID set \<Rightarrow> Transaction \<Rightarrow> db \<Rightarrow> bool" where
  "waiting L t c \<longleftrightarrow> t_walletID t \<in> L \<and> (\<exists>row \<in> set (transactions c). stores row t)"

lemma stable_waiting: "stable L (\<lambda>c v. waiting L t c)"
proof (rule stableI)
  fix c v d :: db assume w: "waiting L t c"
    and l: "\<And>r. r \<in> set (transactions c) \<Longrightarrow> tr_WalletID r \<in> L \<Longrightarrow> \<exists>n. r\<lparr>tr_NextAttemptAt := n\<rparr> \<in> set (transactions d)"
  from w obtain row where row: "row \<in> set (transactions c)" "stores row t" and t: "t_walletID t \<in> L"
    unfolding waiting_def by blast
  then obtain n where "row\<lparr>tr_NextAttemptAt := n\<rparr> \<in> set (transactions d)" using l stores_sel(4) by metis
  with t stores_rescheduled [OF row(2)] show "waiting L t d" unfolding waiting_def by blast
qed

definition homed :: "PendingReference \<Rightarrow> db \<Rightarrow> bool" where
  "homed p c \<longleftrightarrow> (\<exists>r \<in> set (transactions c). tr_ID r = pr_TransactionID p \<and> tr_WalletID r = pr_WalletID p)"

lemma stable_homed: "stable L (\<lambda>c v. homed p c)"
proof (rule stableI)
  fix c v d :: db assume h: "homed p c" and e: "extends c d"
  obtain r where r: "r \<in> set (transactions c)" "tr_ID r = pr_TransactionID p" "tr_WalletID r = pr_WalletID p"
    using h unfolding homed_def by blast
  have g: "grown kept_operation (transactions c) (transactions d)" using e by (simp add: extends_def)
  obtain q where q: "q \<in> set (transactions d)" "kept_operation r q" using grown_rows [OF g r(1)] by blast
  then have eq: "row_request q = row_request r" by (simp add: kept_operation_def)
  have "tr_ID q = tr_ID r" "tr_WalletID q = tr_WalletID r"
    using arg_cong [OF eq, of tr_ID] arg_cong [OF eq, of tr_WalletID] by simp_all
  with q(1) r(2,3) show "homed p d" unfolding homed_def by auto
qed

text \<open>Each attempt changes the operation.\<close>

lemma retry_changes:
  assumes "retry_outcome policy t' w' outcome at = Inr t''" and "resolved_from t t'" and "t_state t = StatePendingReference"
  shows "t'' \<noteq> t"
proof (cases "\<exists>e. outcome = Some e \<and> errors_Is e (Sentinel ErrReferencePending)")
  case True
  then obtain u where r: "RecordMissingReference t' (rp_MaxAttempts policy) at = (Inr u, t'')"
    using assms(1) by (auto simp: retry_outcome_def split: prod.splits sum.splits)
  then have "t_referenceAttempts t'' = t_referenceAttempts t' + 1"
    by (cases rule: RecordMissingReference_cases) auto
  with resolved_from_sel(6) [OF assms(2)] show ?thesis by auto
next
  case False
  have "t_state t' = StatePendingReference" using assms(2,3) by (auto simp: resolved_from_def)
  then have "t_state t'' \<noteq> StatePendingReference"
    using False assms(1) by (auto simp: retry_outcome_def conclude_def mark_iffs split: option.splits if_splits)
  with assms(3) show ?thesis by auto
qed

lemma Update_settles:
  assumes h: "attempted w t at (outcome, entry, w', t') L d u" and s: "sound d u" and wt: "waiting K t d"
    and out: "retry_outcome policy t' w' outcome at = Inr t''" and t: "t_state t = StatePendingReference"
    and run: "does (UpdatePendingReference t'' nx) wd u () wd' u'"
  shows "settled (Some t) w t at t'' entry w' False [] [] [] L d u'"
proof -
  obtain rs where held: "held w L d u" and rs: "set rs \<subseteq> frozen d" "resolved_from t t'"
    "case outcome of
       Some e \<Rightarrow> entry = None \<and> w' = w
     | None \<Rightarrow> \<exists>q i. good_reference (only rs) t' q \<and> wallet_Apply w (Some t') q at i = Inr (entry, w')"
    using h unfolding attempted_def by auto
  have u: "u = d" and b: "books d" using held s by (simp_all add: held_def sound_def)
  note o = retry_outcome_Inr [OF out rs(3,2)]
  have before: "decided_before w t at t'' entry w' L d"
    using held rs(1) o unfolding decided_before_def held_def by blast
  obtain row where row: "row \<in> set (transactions d)" "stores row t" using wt unfolding waiting_def by blast
  have t'': "transaction_wf t''" "same_request t t''" using decided_request stores_sel(9) [OF row(2)] o by blast+
  obtain r rs' where r: "stores r t''" "rs' = map (\<lambda>q. if tr_ID q = t_id t'' then r else q) (transactions d)"
    "u' = d\<lparr>transactions := rs'\<rparr>" "tr_State row = ''PENDING_REFERENCE''" "tr_ID row = t_id t''"
    "\<forall>(name, clash) \<in> set transaction_uniques. \<forall>q \<in> set (transactions d). tr_ID q \<noteq> t_id t'' \<longrightarrow> \<not> clash q r"
    using does_Update_saved [OF run [unfolded u] b row(1) stores_rehydrate [OF row(2)] t''(2,1)] o by blast
  have "saves (Some t) t'' d rs'"
    unfolding saves_def using r row retry_changes [OF out rs(2) t] by auto
  with before r(3) show ?thesis unfolding settled_def moved_wallets_def by auto
qed


definition retrying :: "environment \<Rightarrow> PendingReference \<Rightarrow> time \<Rightarrow> ID set \<Rightarrow> db \<Rightarrow> db \<Rightarrow> bool" where
  "retrying E p at L c v \<longleftrightarrow>
     v = c \<or>
     (\<exists>w t t'' w'. settled (Some t) w t at t'' None w' False [] [] [] L c v \<and>
        (t_id t = pr_TransactionID p \<and> t_state t = StatePendingReference \<and> t_walletID t \<in> L \<and>
         t_state t'' = StatePendingReference)) \<or>
     (\<exists>w t t'' entry w' paid les os es. settled (Some t) w t at t'' entry w' paid les os [] L c v \<and>
        (t_id t = pr_TransactionID p \<and> t_state t = StatePendingReference \<and> t_walletID t \<in> L \<and>
         t_state t'' \<noteq> StatePendingReference \<and> complete paid les entry w' \<and>
         events_of t'' w' entry (retry_correlation E (t_id t'')) at es \<and> list_all2 event_row es os))"

lemma stable_retrying: "stable L (retrying E p at L)"
  unfolding retrying_def by (intro stable_or stable_unwritten stable_ex stable_and stable_settled)

lemma secure_conclude_retry:
  assumes att: "attempted w t at (outcome, entry, w', t') L c v" and wt: "waiting L t c" and s: "sound c v"
    and t: "t_id t = pr_TransactionID p" "t_state t = StatePendingReference"
    and out: "retry_outcome policy t' w' outcome at = Inr t''"
  shows "secure E (\<lambda>s. retrying E p at) (conclude_retry_job policy at w w' entry t'') L c v"
proof -
  let ?Q = "\<lambda>s. retrying E p at" and ?P = "\<lambda>c v. attempted w t at (outcome, entry, w', t') L c v \<and> waiting L t c"
  have st: "stable L ?P"
    using stable_attempted stable_waiting unfolding stable_def by blast
  have P: "?P c v" using att wt by blast
  have L: "t_walletID t \<in> L" using wt by (simp add: waiting_def)
  have save: "settled (Some t) w t at t'' entry w' False [] [] [] L d u'"
    if "?P d u" "sound d u" "does (UpdatePendingReference t'' n) wd u () wd' u'" for d u wd wd' u' n
    using Update_settles [OF _ that(2) _ out t(2) that(3)] that(1) by blast
  show ?thesis
  proof (cases "t_state t'' = StatePendingReference")
    case True
    have "secure E ?Q (bind_job (turn {} (UpdatePendingReference t''
        (time_Add at (policy_delay policy (t_referenceAttempts t''))))) (\<lambda>_. give (t_state t''))) L c v"
    proof (rule secure_saved [OF st P s _ _ save])
      fix d u assume st: "settled (Some t) w t at t'' entry w' False [] [] [] L d u"
      have "entry = None"
        using st True decided_moves unfolding settled_def decided_before_def by (cases entry) fastforce+
      with st True t L have "retrying E p at L d u" unfolding retrying_def by blast
      then show "secure E ?Q (give (t_state t'')) L d u" by (rule secure_give [OF stable_retrying])
    qed (simp_all add: schema.moves_repositories)
    with True show ?thesis by (simp add: conclude_retry_job_def)
  next
    case False
    have "secure E ?Q (bind_job (turn {} (\<lambda>v. (Inr (retry_correlation (env v) (t_id t'')), v))) (\<lambda>correlationID.
       bind_job (settle_job w w' t'' entry correlationID at (\<lambda>u. UpdatePendingReference u zero_time))
         (\<lambda>_. give (t_state t'')))) L c v"
    proof (rule secure_bind_reader [OF st P s])
      fix a d u wd wd' assume P: "?P d u" and s: "sound d u" and E: "env wd = E"
        and run: "does (\<lambda>v. (Inr (retry_correlation (env v) (t_id t'')), v)) wd u a wd' u"
      have a: "a = retry_correlation E (t_id t'')" using run E by (simp add: does_def)
      show "secure E ?Q (bind_job (settle_job w w' t'' entry a at (\<lambda>u. UpdatePendingReference u zero_time))
         (\<lambda>_. give (t_state t''))) L d u"
      proof (rule secure_settle [OF st P s _ _ save])
        fix d u paid les os es
        assume "events_of t'' w' entry a at es" "list_all2 event_row es os" "complete paid les entry w'"
          "settled (Some t) w t at t'' entry w' paid les os [] L d u"
        with False t L a have "retrying E p at L d u" unfolding retrying_def by blast
        then show "secure E ?Q (give (t_state t'')) L d u" by (rule secure_give [OF stable_retrying])
      qed (simp_all add: schema.moves_repositories)
    qed simp
    with False show ?thesis by (simp add: conclude_retry_job_def)
  qed
qed

lemma secure_retry_waiting:
  assumes s: "sound c c" and h: "held w L c c" and wt: "waiting L t c"
    and t: "t_id t = pr_TransactionID p" "t_state t = StatePendingReference"
  shows "secure E (\<lambda>s. retrying E p at) (retry_waiting_job policy t at w) L c c"
  unfolding retry_waiting_job_def
proof (rule secure_bind [OF secure_beside [OF secure_find_and_apply [OF s h] stable_waiting wt] s])
  fix x :: "err option \<times> Entry option \<times> Wallet \<times> Transaction" and L' e v
  assume LL: "L \<subseteq> L'" and s: "sound e v" and a: "attempted w t at x L' e v \<and> waiting L t e"
  obtain outcome entry w' t' where x: "x = (outcome, entry, w', t')" by (cases x)
  have wt: "waiting L' t e" using a LL by (auto simp: waiting_def)
  have "secure E (\<lambda>s. retrying E p at) (conclude_retry_job policy at w w' entry t'') L' e v"
    if "retry_outcome policy t' w' outcome at = Inr t''" for t''
    by (rule secure_conclude_retry [OF _ wt s t that]) (use a x in simp)
  then show "secure E (\<lambda>s. retrying E p at) (case x of (outcome, entry, w', t') \<Rightarrow>
      bind_job (Done (retry_outcome policy t' w' outcome at)) (\<lambda>t''. conclude_retry_job policy at w w' entry t'')) L' e v"
    unfolding x by (cases "retry_outcome policy t' w' outcome at") (simp_all add: secure_refuse)
qed simp

text \<open>The operation that is found is that of the row, whose wallet is locked.\<close>

lemma found_waits:
  assumes run: "does (FindByID (pr_TransactionID p)) wd d (Some t) wd' d'" and s: "sound d u" and h: "homed p d"
    and L: "pr_WalletID p \<in> L"
  shows "waiting L t d \<and> t_id t = pr_TransactionID p"
proof -
  obtain row where f: "List.find (\<lambda>r. tr_ID r = pr_TransactionID p) (transactions d) = Some row" "rehydrate_row row = Inr t"
    using does_transaction_queries(3) [OF run] by auto
  have row: "row \<in> set (transactions d)" "tr_ID row = pr_TransactionID p" using find_SomeD [OF f(1)] by auto
  then obtain x where "stores row x" using s by (auto simp: sound_def books_def transactions_inv_def)
  with f(2) have st: "stores row t" using stores_unique by blast
  obtain r where r: "r \<in> set (transactions d)" "tr_ID r = pr_TransactionID p" "tr_WalletID r = pr_WalletID p"
    using h unfolding homed_def by blast
  have "distinct (map tr_ID (transactions d))" using s by (simp add: sound_def books_def transactions_inv_def)
  then have "r = row" by (rule distinct_key_unique [OF _ r(1) row(1)]) (simp add: r row)
  with r(3) L row st stores_sel(1,4) [OF st] show ?thesis by (auto simp: waiting_def)
qed

lemma secure_retry:
  assumes s: "sound c c" and h: "homed p c"
  shows "secure E (\<lambda>s. retrying E p at) (retry_job policy p at) {} c c"
  unfolding retry_job_def
proof (rule secure_bind [OF secure_beside [OF secure_GetForUpdate [OF s] stable_homed h] s])
  let ?Q = "\<lambda>s. retrying E p at"
  fix w :: Wallet and L d v
  assume s: "sound d v" and a: "(held w L d v \<and> w_id w = pr_WalletID p) \<and> homed p d"
  have st: "stable L (\<lambda>d v. held w L d v \<and> homed p d)"
    using stable_held stable_homed unfolding stable_def by blast
  show "secure E ?Q (bind_job (turn {} (FindByID (pr_TransactionID p))) (\<lambda>found.
       case found of
         None \<Rightarrow> give (OtherState '''')
       | Some t \<Rightarrow>
           if t_state t \<noteq> StatePendingReference then give (t_state t)
           else retry_waiting_job policy t at w)) L d v"
  proof (rule secure_bind_reader [OF st _ s])
    fix found :: "Transaction option" and d u wd wd'
    assume P: "held w L d u \<and> homed p d" and s: "sound d u"
      and run: "does (FindByID (pr_TransactionID p)) wd u found wd' u"
    have u: "u = d" and L: "pr_WalletID p \<in> L" using P a by (simp_all add: held_def)
    have none: "retrying E p at L d d" by (simp add: retrying_def)
    have "secure E ?Q (retry_waiting_job policy t at w) L d d" if "found = Some t" "t_state t = StatePendingReference" for t
      using secure_retry_waiting found_waits run s P that u L by blast
    with none u show "secure E ?Q (case found of
         None \<Rightarrow> give (OtherState '''')
       | Some t \<Rightarrow>
           if t_state t \<noteq> StatePendingReference then give (t_state t)
           else retry_waiting_job policy t at w) L d u"
      by (auto simp: secure_give stable_retrying split: option.splits)
  qed (use a in simp_all)
qed simp

lemma retriedI:
  "List.find (\<lambda>r. tr_ID r = pr_TransactionID p) (transactions d) = Some row \<and> rehydrate_row row = Inr t \<and>
     wallet_to_row w \<in> set (wallets d) \<and> wallet_wf w \<and> wallet_iso w \<and> decided d w t at t'' entry w' \<and> g \<Longrightarrow>
   t_state t = StatePendingReference \<Longrightarrow>
   (if t_state t'' = StatePendingReference
    then entry = None \<and> (\<exists>rs. saved (transactions d) t'' rs \<and> d' = d\<lparr>transactions := rs\<rparr>)
    else recorded d w t'' entry w' (retry_correlation E (t_id t'')) at d') \<Longrightarrow>
   retried d E p at (t_state t'') d'"
  unfolding retried_def by blast

text \<open>What was found and decided of the operation, when the retry commits.\<close>

lemma settled_retry:
  assumes s: "sound d v" and st: "settled (Some t) w t at t'' entry w' paid les os [] L d v"
    and t: "t_id t = pr_TransactionID p" "t_walletID t \<in> L"
  shows "\<exists>row. List.find (\<lambda>r. tr_ID r = pr_TransactionID p) (transactions d) = Some row \<and> rehydrate_row row = Inr t \<and>
    wallet_to_row w \<in> set (wallets d) \<and> wallet_wf w \<and> wallet_iso w \<and> decided d w t at t'' entry w' \<and>
    guarded L d v"
proof -
  have b: "books d" "constraints d" using s by (simp_all add: sound_def)
  obtain ts where sv: "saves (Some t) t'' d ts" and v: "transactions v = ts" and w: "decided_before w t at t'' entry w' L d"
    using st unfolding settled_def by auto
  obtain r0 where r0: "r0 \<in> set (transactions d)" "stores r0 t" using sv unfolding saves_def by auto
  then have id: "tr_ID r0 = pr_TransactionID p" using stores_sel(1) t(1) by simp
  obtain row where row: "List.find (\<lambda>r. tr_ID r = pr_TransactionID p) (transactions d) = Some row"
    using r0(1) id by (cases "List.find (\<lambda>r. tr_ID r = pr_TransactionID p) (transactions d)") (auto simp: find_None_iff)
  have "distinct (map tr_ID (transactions d))" using b by (simp add: books_def transactions_inv_def)
  then have "row = r0" using distinct_key_unique r0(1) id find_SomeD [OF row] by metis
  with row stores_rehydrate [OF r0(2)] w decided_now [OF _ _ sv b(1)] guarded_saves [OF sv b(1) v] t(2)
  show ?thesis unfolding decided_before_def by auto
qed

lemma retry_commits:
  assumes s: "sound c c" and h: "homed p c"
  shows "secure E (goal E pubs) (void (retry_job policy p at)) {} c c"
  unfolding void_def
proof (rule secure_conclude [OF secure_retry [OF s h] s])
  fix L d v assume s: "sound d v" and t: "retrying E p at L d v"
  have b: "books d" "constraints d" using s by (simp_all add: sound_def)
  note found = settled_retry [OF s]
  from t consider "v = d"
    | (again) w t t'' w' where "settled (Some t) w t at t'' None w' False [] [] [] L d v"
      "t_id t = pr_TransactionID p" "t_state t = StatePendingReference" "t_walletID t \<in> L" "t_state t'' = StatePendingReference"
    | (concluded) w t t'' entry w' paid les os es where "settled (Some t) w t at t'' entry w' paid les os [] L d v"
      "t_id t = pr_TransactionID p" "t_state t = StatePendingReference" "t_walletID t \<in> L"
      "t_state t'' \<noteq> StatePendingReference" "complete paid les entry w'"
      "events_of t'' w' entry (retry_correlation E (t_id t'')) at es" "list_all2 event_row es os"
    unfolding retrying_def by blast
  then show "goal E pubs () L d v"
  proof cases
    case 1
    then show ?thesis using guarded_same [OF b(1), of d] by (simp add: goal_def changed_none)
  next
    case again
    obtain ts where sv: "saves (Some t) t'' d ts" and v: "v = d\<lparr>transactions := ts\<rparr>"
      using again(1) unfolding settled_def moved_wallets_def by auto
    obtain row where row: "List.find (\<lambda>r. tr_ID r = pr_TransactionID p) (transactions d) = Some row \<and> rehydrate_row row = Inr t \<and>
      wallet_to_row w \<in> set (wallets d) \<and> wallet_wf w \<and> wallet_iso w \<and> decided d w t at t'' None w' \<and> guarded L d v"
      using found [OF again(1,2,4)] by blast
    have "retried d E p at (t_state t'') v"
      by (rule retriedI [OF row again(3)]) (use again(5) saves_saved [OF sv b(1)] v in auto)
    with row show ?thesis unfolding goal_def by (blast intro: changed_retried)
  next
    case concluded
    have "v\<lparr>inbox := inbox d\<rparr> = v" using concluded(1) unfolding settled_def by auto
    with settled_recorded(2) [OF concluded(1) b(1) concluded(6-8)] concluded(5)
    have rec: "if t_state t'' = StatePendingReference
      then entry = None \<and> (\<exists>rs. saved (transactions d) t'' rs \<and> v = d\<lparr>transactions := rs\<rparr>)
      else recorded d w t'' entry w' (retry_correlation E (t_id t'')) at v" by simp
    obtain row where row: "List.find (\<lambda>r. tr_ID r = pr_TransactionID p) (transactions d) = Some row \<and> rehydrate_row row = Inr t \<and>
      wallet_to_row w \<in> set (wallets d) \<and> wallet_wf w \<and> wallet_iso w \<and> decided d w t at t'' entry w' \<and> guarded L d v"
      using found [OF concluded(1,2,4)] by blast
    from retriedI [OF row concluded(3) rec] row show ?thesis unfolding goal_def by (blast intro: changed_retried)
  qed
qed


section \<open>Wallets that are opened\<close>

text \<open>Rows added to the tables, and nothing else.\<close>

definition adds :: "wallet_row list \<Rightarrow> transaction_row list \<Rightarrow> ledger_row list \<Rightarrow> outbox_row list \<Rightarrow> db \<Rightarrow> db \<Rightarrow> bool" where
  "adds ws ts les os c v \<longleftrightarrow>
     v = \<lparr>wallets = wallets c @ ws, transactions = transactions c @ ts, entries = entries c @ les,
       outbox = outbox c @ os, inbox = inbox c\<rparr>"

lemma stable_adds: "stable L (adds ws ts les os)"
  by (rule stableI)
    (simp add: adds_def rebase_def extends_def wallet_table.merge_added operation_table.merge_added
      entry_table.merge_added event_table.merge_added merge_old [of "(=)"])

definition opens :: "Wallet \<Rightarrow> string \<Rightarrow> time \<Rightarrow> db \<Rightarrow> db \<Rightarrow> bool" where
  "opens x corr at c v \<longleftrightarrow>
     adds [wallet_to_row x] [] [] [] c v \<and> \<not> money_IsPositive (w_balance x) \<or>
     (\<exists>r e os t i j es. adds [wallet_to_row x] [r] [entry_to_row e] os c v \<and>
        (money_IsPositive (w_balance x) \<and> NewOpening i (w_id x) (w_playerID x) (w_balance x) at = Inr t \<and>
         OpeningLedgerEntry x (t_id t) at j = Inr e \<and> stores r t \<and> events_of t x (Some e) corr at es \<and>
         list_all2 event_row es os))"

lemma stable_opens: "stable L (opens x corr at)"
  unfolding opens_def by (intro stable_or stable_ex stable_and stable_adds)

lemma opens_opened:
  assumes o: "opens x corr at c v" and s: "sound c v"
  shows "opened c x corr at v"
proof -
  have c: "constraints c" "constraints v" using s by (simp_all add: sound_def)
  have w: "wallets v = wallets c @ [wallet_to_row x]" using o by (auto simp: opens_def adds_def)
  have valid: "valid_rows wallet_checks wallet_uniques (wallets c @ [wallet_to_row x])"
    using constraintsD(1) [OF c(2)] w by simp
  have base: "wallet_iso x" "w_id x \<notin> wr_ID ` set (wallets c)"
    "\<forall>r \<in> set (wallets c). \<not> (wr_PlayerID r = w_playerID x \<and> wr_Currency r = currency_code (wallet_Currency x))"
  proof -
    show "wallet_iso x"
      using valid by (auto simp: valid_rows_def wallet_checks_def wallet_iso_def split: if_splits)
    show "w_id x \<notin> wr_ID ` set (wallets c)" using wallet_table.valid_keys [OF valid] by simp
    show "\<forall>r \<in> set (wallets c). \<not> (wr_PlayerID r = w_playerID x \<and> wr_Currency r = currency_code (wallet_Currency x))"
      using valid by (auto simp: valid_rows_def wallet_uniques_def sorted_wrt_append)
  qed
  from o show ?thesis
    unfolding opens_def
  proof (elim disjE exE conjE)
    assume "adds [wallet_to_row x] [] [] [] c v" "\<not> money_IsPositive (w_balance x)"
    with base show ?thesis by (simp add: opened_def adds_def)
  next
    fix r e os t i j es
    assume a: "adds [wallet_to_row x] [r] [entry_to_row e] os c v"
      and p: "money_IsPositive (w_balance x)" and t: "NewOpening i (w_id x) (w_playerID x) (w_balance x) at = Inr t"
        "OpeningLedgerEntry x (t_id t) at j = Inr e" "stores r t" "events_of t x (Some e) corr at es"
        "list_all2 event_row es os"
    have "distinct (map tr_ID (transactions c @ [r]))"
      using a c(2) constraints_keys(2) [of v] by (simp add: adds_def)
    then have "t_id t \<notin> tr_ID ` set (transactions c)" using stores_sel(1) [OF t(3)] by simp
    moreover have "v = c\<lparr>wallets := wallets c @ [wallet_to_row x], transactions := transactions c @ [r],
        entries := entries c @ [entry_to_row e], outbox := outbox c @ os\<rparr>"
      using a by (simp add: adds_def)
    ultimately show ?thesis
      unfolding opened_def using base p t by (simp only: simp_thms if_True) blast
  qed
qed


text \<open>The turns of an opening, from the last to the first.\<close>

lemma secure_open_events:
  assumes a: "adds [wallet_to_row x] [r] [entry_to_row e] [] c v" and s: "sound c v"
    and t: "money_IsPositive (w_balance x)" "NewOpening i (w_id x) (w_playerID x) (w_balance x) at = Inr t"
      "OpeningLedgerEntry x (t_id t) at j = Inr e" "stores r t"
  shows "secure E (\<lambda>u L. opens x corr at) (open_events_job x t e corr at) L c v"
proof -
  let ?Q = "\<lambda>u :: unit. \<lambda>L. opens x corr at"
  have append: "secure E ?Q (OutboxAppend_job [p, b]) L d u"
    if a: "adds [wallet_to_row x] [r] [entry_to_row e] [] d u" and s: "sound d u"
      and ev: "NewWagerTransactionProcessed k (Some t) corr at = Inr p"
        "NewWalletBalanceChanged l (Some x) (Some e) corr at = Inr b" for p b d u k l
  proof -
    have "t_state t = StateProcessed" using t(2) by (auto simp: NewOpening_def)
    with ev have es: "events_of t x (Some e) corr at [p, b]" by (auto simp: events_of_def)
    have "secure E ?Q (bind_job (OutboxAppend_job [p, b]) give) L d u"
    proof (rule secure_OutboxAppend [where A = "\<lambda>os. adds [wallet_to_row x] [r] [entry_to_row e] os", OF stable_adds _ a s])
      fix d u os assume "list_all2 event_row [p, b] os" "adds [wallet_to_row x] [r] [entry_to_row e] os d u"
      with t es have "opens x corr at d u" unfolding opens_def by blast
      then show "secure E ?Q (give ()) L d u" by (rule secure_give [OF stable_opens])
    qed (auto simp: adds_def)
    then show ?thesis by (simp add: bind_give)
  qed
  show ?thesis
    unfolding open_events_job_def
  proof (rule secure_bind_reader [OF stable_adds a s])
    fix k :: ID and d u assume a: "adds [wallet_to_row x] [r] [entry_to_row e] [] d u" and s: "sound d u"
    have "secure E ?Q (bind_job (turn {} NewID) (\<lambda>l.
        bind_job (Done (NewWalletBalanceChanged l (Some x) (Some e) corr at)) (\<lambda>b. OutboxAppend_job [p, b]))) L d u"
      if p: "NewWagerTransactionProcessed k (Some t) corr at = Inr p" for p
    proof (rule secure_bind_reader [OF stable_adds a s])
      fix l :: ID and d u assume "adds [wallet_to_row x] [r] [entry_to_row e] [] d u" "sound d u"
      then show "secure E ?Q (bind_job (Done (NewWalletBalanceChanged l (Some x) (Some e) corr at))
          (\<lambda>b. OutboxAppend_job [p, b])) L d u"
        using append [OF _ _ p]
        by (cases "NewWalletBalanceChanged l (Some x) (Some e) corr at") (simp_all add: secure_refuse)
    qed simp
    then show "secure E ?Q (bind_job (Done (NewWagerTransactionProcessed k (Some t) corr at)) (\<lambda>p.
        bind_job (turn {} NewID) (\<lambda>l.
        bind_job (Done (NewWalletBalanceChanged l (Some x) (Some e) corr at)) (\<lambda>b. OutboxAppend_job [p, b])))) L d u"
      by (cases "NewWagerTransactionProcessed k (Some t) corr at") (simp_all add: secure_refuse)
  qed simp
qed

lemma secure_open_credit:
  assumes a: "adds [wallet_to_row x] [] [] [] c v" and s: "sound c v" and iso: "wallet_iso x"
    and p: "money_IsPositive (w_balance x)" and t: "NewOpening i (w_id x) (w_playerID x) (w_balance x) at = Inr t"
  shows "secure E (\<lambda>u L. opens x corr at) (open_credit_job x t corr at) L c v"
  unfolding open_credit_job_def
proof (rule secure_bind_turn [OF stable_adds a s])
  let ?Q = "\<lambda>u :: unit. \<lambda>L. opens x corr at"
  fix z :: unit and d u wd wd' u'
  assume a: "adds [wallet_to_row x] [] [] [] d u" and s: "sound d u" "sound d u'"
    and cr: "does (TransactionRepository_Create t) wd u z wd' u'"
  have t': "t_amount t = w_balance x" "t_referenceAttempts t = 0" using t by (auto simp: NewOpening_def)
  have "distinct (map tr_ID (transactions u))" using s(1) constraints_keys(2) by (simp add: sound_def)
  moreover have "currency_iso4217 (currency_code (currency (t_amount t)))"
    using iso t'(1) by (simp add: wallet_iso_def wallet_Currency_def)
  ultimately obtain r where r: "stores r t" "u' = u\<lparr>transactions := transactions u @ [r]\<rparr>"
    using does_Create_stored [OF cr _ NewOpening_wf [OF t] t'(2)] by blast
  then have a: "adds [wallet_to_row x] [r] [] [] d u'" using a by (simp add: adds_def)
  have "secure E ?Q (bind_job (turn {} NewID) (\<lambda>i.
     bind_job (Done (OpeningLedgerEntry x (t_id t) at i)) (\<lambda>credit.
     bind_job (turn {} (LedgerRepository_Append credit)) (\<lambda>_. open_events_job x t credit corr at)))) L d u'"
  proof (rule secure_bind_reader [OF stable_adds a s(2)])
    fix j :: ID and d u assume a: "adds [wallet_to_row x] [r] [] [] d u" and s: "sound d u"
    have "secure E ?Q (bind_job (turn {} (LedgerRepository_Append e)) (\<lambda>_. open_events_job x t e corr at)) L d u"
      if e: "OpeningLedgerEntry x (t_id t) at j = Inr e" for e
    proof (rule secure_bind_turn [OF stable_adds a s])
      fix z :: unit and d u wd wd' u'
      assume "adds [wallet_to_row x] [r] [] [] d u" and s: "sound d u'" and ap: "does (LedgerRepository_Append e) wd u z wd' u'"
      then have "adds [wallet_to_row x] [r] [entry_to_row e] [] d u'"
        using does_LedgerRepository_Append [OF ap] by (auto simp: insert_row_Inr adds_def)
      from secure_open_events [OF this s p t e r(1)]
      show "secure E ?Q (open_events_job x t e corr at) (L \<union> {}) d u'" by simp
    qed (simp_all add: schema.moves_repositories)
    then show "secure E ?Q (bind_job (Done (OpeningLedgerEntry x (t_id t) at j)) (\<lambda>credit.
        bind_job (turn {} (LedgerRepository_Append credit)) (\<lambda>_. open_events_job x t credit corr at))) L d u"
      by (cases "OpeningLedgerEntry x (t_id t) at j") (simp_all add: secure_refuse)
  qed simp
  then show "secure E ?Q (bind_job (turn {} NewID) (\<lambda>i.
     bind_job (Done (OpeningLedgerEntry x (t_id t) at i)) (\<lambda>credit.
     bind_job (turn {} (LedgerRepository_Append credit)) (\<lambda>_. open_events_job x t credit corr at)))) (L \<union> {}) d u'" by simp
qed (simp_all add: schema.moves_repositories)

lemma secure_open:
  assumes s: "sound c c"
  shows "secure E (\<lambda>u L. opens x corr at) (open_job x corr at) {} c c"
  unfolding open_job_def
proof (rule secure_bind_turn [OF stable_unwritten refl s])
  let ?Q = "\<lambda>u :: unit. \<lambda>L. opens x corr at"
  fix a :: unit and d u wd wd' u'
  assume d: "u = d" "sound d u'" and cr: "does (WalletRepository_Create x) wd u a wd' u'"
  have a: "adds [wallet_to_row x] [] [] [] d u'" and iso: "wallet_iso x"
    using does_WalletRepository_Create [OF cr] d(1)
    by (auto simp: insert_row_Inr adds_def admit_Inr wallet_checks_def wallet_iso_def split: if_splits)
  show "secure E ?Q (if \<not> money_IsPositive (w_balance x) then give ()
       else
         bind_job (turn {} NewID) (\<lambda>i.
         bind_job (Done (NewOpening i (w_id x) (w_playerID x) (w_balance x) at)) (\<lambda>t.
         open_credit_job x t corr at))) ({} \<union> {}) d u'"
  proof (cases "money_IsPositive (w_balance x)")
    case False
    with a have "opens x corr at d u'" unfolding opens_def by blast
    with False show ?thesis by (simp add: secure_give [OF stable_opens])
  next
    case True
    have "secure E ?Q (bind_job (turn {} NewID) (\<lambda>i.
         bind_job (Done (NewOpening i (w_id x) (w_playerID x) (w_balance x) at)) (\<lambda>t.
         open_credit_job x t corr at))) {} d u'"
    proof (rule secure_bind_reader [OF stable_adds a d(2)])
      fix i :: ID and d u assume "adds [wallet_to_row x] [] [] [] d u" "sound d u"
      then show "secure E ?Q (bind_job (Done (NewOpening i (w_id x) (w_playerID x) (w_balance x) at)) (\<lambda>t.
          open_credit_job x t corr at)) {} d u"
        using secure_open_credit [OF _ _ iso True]
        by (cases "NewOpening i (w_id x) (w_playerID x) (w_balance x) at") (simp_all add: secure_refuse)
    qed simp
    with True show ?thesis by simp
  qed
qed (simp_all add: schema.moves_repositories)

lemma open_commits:
  assumes s: "sound c c" and x: "wallet_Open i p m at = Inr x"
  shows "secure E (goal E pubs) (open_job x corr at) {} c c"
proof -
  have "secure E (goal E pubs) (bind_job (open_job x corr at) (\<lambda>u. give ())) {} c c"
  proof (rule secure_conclude [OF secure_open [OF s] s])
    fix L d v assume s: "sound d v" and o: "opens x corr at d v"
    have "changed E pubs d v" using opens_opened [OF o s] wallet_Open_wf [OF x] by (blast intro: changed_opened)
    moreover have "guarded L d v"
    proof -
      obtain ts where v: "transactions v = transactions d @ ts" using o unfolding opens_def adds_def by auto
      have "distinct (map tr_ID (transactions v))" using s constraints_keys(2) by (simp add: sound_def)
      then show ?thesis unfolding guarded_def v using distinct_key_unique [of tr_ID "transactions d @ ts"] by auto
    qed
    ultimately show "goal E pubs () L d v" by (simp add: goal_def)
  qed
  moreover have "(\<lambda>u. give ()) = (give :: unit \<Rightarrow> unit job)" by auto
  ultimately show ?thesis by (simp add: bind_give)
qed


section \<open>Units of one statement\<close>

lemma secure_statement:
  assumes st: "stable {} P" and P: "P c c" and s: "sound c c" and m: "moves lawful m" "confined m"
    and run: "\<And>a d u w w' u'. P d u \<Longrightarrow> sound d u \<Longrightarrow> sound d u' \<Longrightarrow> does m w u a w' u' \<Longrightarrow> A d u'"
    and A: "stable {} A" and fin: "\<And>d v. sound d v \<Longrightarrow> A d v \<Longrightarrow> changed E pubs d v \<and> guarded {} d v"
  shows "secure E (goal E pubs) (void (turn {} m)) {} c c"
proof -
  have "secure E (\<lambda>a L. A) (bind_job (turn {} m) give) {} c c"
  proof (rule secure_bind_turn [OF st P s m])
    fix a d u w w' u' assume "P d u" "sound d u" "sound d u'" "does m w u a w' u'"
    then have "A d u'" by (rule run)
    then show "secure E (\<lambda>a L. A) (give a) ({} \<union> {}) d u'" by (simp add: secure_give A)
  qed
  then have "secure E (\<lambda>a L. A) (turn {} m) {} c c" by (simp add: bind_give)
  then show ?thesis
    unfolding void_def
    by (rule secure_conclude [OF _ s]) (use fin in \<open>auto simp: goal_def guarded_def\<close>)
qed

lemma void_unit: "void j = j"
proof -
  have "(\<lambda>u. give ()) = (give :: unit \<Rightarrow> unit job)" by auto
  then show ?thesis by (simp add: void_def bind_give)
qed

lemma query_commits:
  fixes m :: "unit action"
  assumes s: "sound c c" and m: "reader m"
  shows "secure E (goal E pubs) (turn {} m) {} c c"
proof -
  have "secure E (goal E pubs) (void (turn {} m)) {} c c"
  proof (rule secure_statement [OF stable_unwritten refl s _ _ _ stable_unwritten])
    show "u' = d" if "u = d" "does m w u a w' u'" for a d u w w' u'
      using does_reader [OF m that(2)] that(1) by simp
    show "changed E pubs d v \<and> guarded {} d v" if "sound d v" "v = d" for d v
      using that guarded_same [of d d] by (simp add: changed_none sound_def)
  qed (use m in \<open>simp_all add: schema.reader_moves\<close>)
  then show ?thesis by (simp add: void_unit)
qed

text \<open>The rows an update really changes.\<close>

lemma update_rows_changed:
  "\<exists>S. S \<subseteq> {r \<in> set rs. P r} \<and> (\<forall>r \<in> S. f r \<noteq> r) \<and> update_rows P f rs = map (\<lambda>r. if r \<in> S then f r else r) rs"
  by (rule exI [of _ "{r \<in> set rs. P r \<and> f r \<noteq> r}"]) (auto simp: update_rows_def)

text \<open>Operations that are leased, each of which gets a new date.\<close>

definition leases :: "time option \<Rightarrow> db \<Rightarrow> db \<Rightarrow> bool" where
  "leases n c v \<longleftrightarrow>
     (\<exists>S. v = c\<lparr>transactions := map (\<lambda>r. if r \<in> S then r\<lparr>tr_NextAttemptAt := n\<rparr> else r) (transactions c)\<rparr> \<and>
        S \<subseteq> set (transactions c) \<and> (\<forall>r \<in> S. r\<lparr>tr_NextAttemptAt := n\<rparr> \<noteq> r))"

lemma stable_leases: "stable L (leases n)"
proof (rule stableI)
  fix c v d :: db
  assume "leases n c v" and s: "sound c v" "sound d (rebase c d v)" and e: "extends c d" and a: "apart c d v"
  then obtain S where v: "v = c\<lparr>transactions := map (\<lambda>r. if r \<in> S then r\<lparr>tr_NextAttemptAt := n\<rparr> else r) (transactions c)\<rparr>"
    and S: "S \<subseteq> set (transactions c)" "\<And>r. r \<in> S \<Longrightarrow> r\<lparr>tr_NextAttemptAt := n\<rparr> \<noteq> r"
    unfolding leases_def by blast
  have "constraints d" using s(2) by (simp add: sound_def)
  then have "operation_table.diverged (transactions c) (transactions d)
      (map (\<lambda>r. if r \<in> S then r\<lparr>tr_NextAttemptAt := n\<rparr> else r) (transactions c))"
    using tables_diverged(2) [OF s(1) _ e a] by (simp add: v)
  note m = operation_table.merge_mapped [OF this S]
  have "rebase c d v = d\<lparr>transactions := map (\<lambda>r. if r \<in> S then r\<lparr>tr_NextAttemptAt := n\<rparr> else r) (transactions d)\<rparr>"
    using e m(1) unfolding v
    by (simp add: rebase_def extends_def merge_old [of kept_wallet] merge_old [of "(=)"] merge_old [of kept_event])
  with m(2) S(2) show "leases n d (rebase c d v)" unfolding leases_def by blast
qed

lemma lease_commits:
  assumes s: "sound c c"
  shows "secure E (goal E pubs) (void (turn {} (LeasePendingReferences dueAt leaseUntil limit))) {} c c"
proof (rule secure_statement [OF stable_unwritten refl s _ _ _ stable_leases])
  fix a d u w w' u'
  assume u: "u = d" and run: "does (LeasePendingReferences dueAt leaseUntil limit) w u a w' u'"
  from does_LeasePendingReferences [OF run] obtain P where
    "u' = d\<lparr>transactions := update_rows P (\<lambda>r. r\<lparr>tr_NextAttemptAt := Some leaseUntil\<rparr>) (transactions d)\<rparr>"
    using u by blast
  moreover obtain S where "S \<subseteq> set (transactions d)" "\<forall>r \<in> S. r\<lparr>tr_NextAttemptAt := Some leaseUntil\<rparr> \<noteq> r"
    "update_rows P (\<lambda>r. r\<lparr>tr_NextAttemptAt := Some leaseUntil\<rparr>) (transactions d) =
      map (\<lambda>r. if r \<in> S then r\<lparr>tr_NextAttemptAt := Some leaseUntil\<rparr> else r) (transactions d)"
    using update_rows_changed [where P = P and f = "\<lambda>r. r\<lparr>tr_NextAttemptAt := Some leaseUntil\<rparr>" and rs = "transactions d"]
    by blast
  ultimately show "leases (Some leaseUntil) d u'" unfolding leases_def by (intro exI [of _ S] conjI) simp_all
next
  fix d v assume s: "sound d v" and l: "leases (Some leaseUntil) d v"
  then obtain S where v: "v = d\<lparr>transactions := map (\<lambda>r. if r \<in> S then r\<lparr>tr_NextAttemptAt := Some leaseUntil\<rparr> else r) (transactions d)\<rparr>"
    unfolding leases_def by blast
  have "changed E pubs d v"
    by (rule changed_leased [where P = "\<lambda>r. r \<in> S" and n = "Some leaseUntil"]) (simp add: v update_rows_def)
  moreover have "guarded {} d v"
    unfolding guarded_def
  proof (intro ballI impI)
    fix r q assume r: "r \<in> set (transactions d)" and q: "q \<in> set (transactions v)" and id: "tr_ID q = tr_ID r"
    from q v obtain y where y: "y \<in> set (transactions d)" "q = (if y \<in> S then y\<lparr>tr_NextAttemptAt := Some leaseUntil\<rparr> else y)"
      by auto
    then have "tr_ID y = tr_ID r" using id by (simp split: if_splits)
    moreover have "distinct (map tr_ID (transactions d))" using s by (simp add: sound_def books_def transactions_inv_def)
    ultimately have "y = r" using distinct_key_unique y(1) r by metis
    with y(2) show "q = r \<or> tr_WalletID r \<in> {} \<or> (\<exists>n. q = r\<lparr>tr_NextAttemptAt := n\<rparr>)" by auto
  qed
  ultimately show "changed E pubs d v \<and> guarded {} d v" by blast
qed (simp_all add: schema.moves_repositories)


text \<open>Events that are leased, rescheduled or marked: what they say stays, and none is marked undelivered.\<close>

definition marks :: "OutboxRecord list \<Rightarrow> db \<Rightarrow> db \<Rightarrow> bool" where
  "marks pubs c v \<longleftrightarrow>
     (\<exists>g S. v = c\<lparr>outbox := map (\<lambda>r. if r \<in> S then g r else r) (outbox c)\<rparr> \<and> S \<subseteq> set (outbox c) \<and>
        (\<forall>r \<in> S. g r \<noteq> r) \<and> (\<forall>rec r. delivers rec (g r) = delivers rec r) \<and>
        (\<forall>r \<in> S. or_PublishedAt (g r) \<noteq> or_PublishedAt r \<longrightarrow> (\<exists>rec \<in> set pubs. delivers rec r)))"

lemma stable_marks: "stable L (marks pubs)"
proof (rule stableI)
  fix c v d :: db
  assume "marks pubs c v" and s: "sound c v" "sound d (rebase c d v)" and e: "extends c d" and a: "apart c d v"
  then obtain g S where v: "v = c\<lparr>outbox := map (\<lambda>r. if r \<in> S then g r else r) (outbox c)\<rparr>"
    and S: "S \<subseteq> set (outbox c)" "\<And>r. r \<in> S \<Longrightarrow> g r \<noteq> r"
    and g: "\<forall>rec r. delivers rec (g r) = delivers rec r"
      "\<forall>r \<in> S. or_PublishedAt (g r) \<noteq> or_PublishedAt r \<longrightarrow> (\<exists>rec \<in> set pubs. delivers rec r)"
    unfolding marks_def by blast
  have "constraints d" using s(2) by (simp add: sound_def)
  then have "event_table.diverged (outbox c) (outbox d) (map (\<lambda>r. if r \<in> S then g r else r) (outbox c))"
    using tables_diverged(4) [OF s(1) _ e a] by (simp add: v)
  note m = event_table.merge_mapped [OF this S]
  have "rebase c d v = d\<lparr>outbox := map (\<lambda>r. if r \<in> S then g r else r) (outbox d)\<rparr>"
    using e m(1) unfolding v
    by (simp add: rebase_def extends_def merge_old [of kept_wallet] merge_old [of "(=)"] merge_old [of kept_operation])
  with m(2) S(2) g show "marks pubs d (rebase c d v)" unfolding marks_def by blast
qed

lemma marks_update:
  assumes "u' = d\<lparr>outbox := update_rows P f (outbox d)\<rparr>" and "\<forall>rec r. delivers rec (f r) = delivers rec r"
    and "\<And>r. r \<in> set (outbox d) \<Longrightarrow> P r \<Longrightarrow> or_PublishedAt (f r) \<noteq> or_PublishedAt r \<Longrightarrow> \<exists>rec \<in> set pubs. delivers rec r"
  shows "marks pubs d u'"
proof -
  obtain S where S: "S \<subseteq> {r \<in> set (outbox d). P r}" "\<forall>r \<in> S. f r \<noteq> r"
    "update_rows P f (outbox d) = map (\<lambda>r. if r \<in> S then f r else r) (outbox d)"
    using update_rows_changed [where P = P and f = f and rs = "outbox d"] by blast
  then have "u' = d\<lparr>outbox := map (\<lambda>r. if r \<in> S then f r else r) (outbox d)\<rparr>" "S \<subseteq> set (outbox d)"
    "\<forall>r \<in> S. or_PublishedAt (f r) \<noteq> or_PublishedAt r \<longrightarrow> (\<exists>rec \<in> set pubs. delivers rec r)"
    using assms(1,3) by auto
  with S(2) assms(2) show ?thesis unfolding marks_def by blast
qed

lemma marks_commit: "sound d v \<Longrightarrow> marks pubs d v \<Longrightarrow> changed E pubs d v \<and> guarded {} d v"
proof -
  assume s: "sound d v" and "marks pubs d v"
  then obtain g S where v: "v = d\<lparr>outbox := map (\<lambda>r. if r \<in> S then g r else r) (outbox d)\<rparr>"
    and g: "\<forall>rec r. delivers rec (g r) = delivers rec r"
      "\<forall>r \<in> S. or_PublishedAt (g r) \<noteq> or_PublishedAt r \<longrightarrow> (\<exists>rec \<in> set pubs. delivers rec r)"
    unfolding marks_def by blast
  have "changed E pubs d v"
    by (rule changed_delivery [where P = "\<lambda>r. r \<in> S" and f = g]) (use g in \<open>auto simp: v update_rows_def\<close>)
  with s show ?thesis by (auto simp: v sound_def intro: guarded_same)
qed

lemma lease_events_commits:
  assumes s: "sound c c"
  shows "secure E (goal E pubs) (void (turn {} (LeasePending dueAt leaseUntil limit))) {} c c"
proof (rule secure_statement [OF stable_unwritten refl s _ _ _ stable_marks marks_commit])
  fix a d u w w' u' assume "u = d" and run: "does (LeasePending dueAt leaseUntil limit) w u a w' u'"
  then show "marks pubs d u'"
    using does_LeasePending [OF run] by (auto intro!: marks_update simp: delivers_def)
qed (simp_all add: schema.moves_repositories)

lemma publication_commits:
  assumes s: "sound c c" and r: "record_of c rec" and sent: "ok delivery \<Longrightarrow> rec \<in> set pubs"
  shows "secure E (goal E pubs) (turn {} (record_publication policy rec delivery)) {} c c"
proof -
  have st: "stable {} (\<lambda>c v. v = c \<and> record_of c rec)"
  proof (rule stableI)
    fix c v d :: db assume "v = c \<and> record_of c rec" and e: "extends c d"
    then show "rebase c d v = d \<and> record_of d rec" using rebase_same [OF e] record_stays [OF e] by simp
  qed
  have "secure E (goal E pubs) (void (turn {} (record_publication policy rec delivery))) {} c c"
  proof (rule secure_statement [OF st _ s _ _ _ stable_marks marks_commit])
    fix a d u w w' u'
    assume u: "u = d \<and> record_of d rec" and s: "sound d u" and run: "does (record_publication policy rec delivery) w u a w' u'"
    obtain f where f: "u' = d\<lparr>outbox := update_rows (\<lambda>r. or_ID r = ob_EventID rec \<and> or_PublishedAt r = None) f (outbox d)\<rparr>"
      "\<forall>rec r. delivers rec (f r) = delivers rec r" "\<not> ok delivery \<longrightarrow> (\<forall>r. or_PublishedAt (f r) = or_PublishedAt r)"
      using does_record_publication [OF run] u by blast
    obtain row where row: "row \<in> set (outbox d)" "delivers rec row" using u unfolding record_of_delivers by blast
    have keys: "distinct (map or_ID (outbox d))" using s constraints_keys(3) u by (simp add: sound_def)
    show "marks pubs d u'"
    proof (rule marks_update [OF f(1,2)])
      fix r assume x: "r \<in> set (outbox d)" "or_ID r = ob_EventID rec \<and> or_PublishedAt r = None"
        "or_PublishedAt (f r) \<noteq> or_PublishedAt r"
      then have "r = row" using distinct_key_unique [OF keys x(1) row(1)] row(2) by (simp add: delivers_def)
      with row(2) x(3) f(3) sent show "\<exists>rec \<in> set pubs. delivers rec r" by auto
    qed
  qed (use r in \<open>simp_all add: schema.moves_units\<close>)
  then show ?thesis by (simp add: void_unit)
qed

section \<open>Every unit of work\<close>

lemma starts_secure:
  assumes "starts E pubs c j" and s: "sound c c"
  shows "secure E (goal E pubs) j {} c c"
  using assms(1)
proof cases
  case (start_process input hash i at t)
  then show ?thesis using process_commits [OF s] by blast
next
  case (start_retry r pending policy at)
  then show ?thesis using retry_commits [OF s] unfolding homed_def by blast
qed (use s in \<open>auto intro: open_commits take_commits lease_commits lease_events_commits publication_commits query_commits\<close>)

end
