(* ===== verification/Interleaving.thy ===== *)
theory Interleaving
  imports Secured_Units
begin

text \<open>
  Any number of sessions, whose turns come in any order. What holds of the cluster whatever happens:
  the books are kept, and each session is still on its way to a change it could have made alone.
\<close>

section \<open>What a commit does to the others\<close>

lemma changed_mono: "changed E pubs d d' \<Longrightarrow> set pubs \<subseteq> set pubs' \<Longrightarrow> changed E pubs' d d'"
proof (cases rule: changed.cases, assumption)
  fix P f assume sub: "set pubs \<subseteq> set pubs'" and d': "d' = d\<lparr>outbox := update_rows P f (outbox d)\<rparr>"
    and f: "\<And>r. r \<in> set (outbox d) \<Longrightarrow> P r \<Longrightarrow> or_PublishedAt (f r) \<noteq> or_PublishedAt r \<Longrightarrow> \<exists>rec \<in> set pubs. delivers rec (f r)"
      "\<And>rec r. delivers rec (f r) = delivers rec r"
  show "changed E pubs' d d'"
    by (rule changed_delivery [OF d' _ f(2)]) (use f(1) sub in blast)
qed (simp_all add: changed.intros)

lemma goal_mono: "goal E pubs u L c v \<Longrightarrow> set pubs \<subseteq> set pubs' \<Longrightarrow> goal E pubs' u L c v"
  by (auto simp: goal_def intro: changed_mono)

text \<open>A session that committed disturbed the others no more than they rely on.\<close>

lemma commit_disturbs:
  assumes c: "sound c v" and b: "books v" and g: "guarded K c v"
    and y: "sound c y" and a: "apart c v y" and t: "touched c v \<inter> L = {}" and l: "K \<inter> L = {}"
  shows "disturbs L (c, y) (v, rebase c v y)"
proof -
  have v: "constraints v" and e: "extends c v" and keys: "distinct (map wr_ID (wallets c))"
    "distinct (map tr_ID (transactions c))"
    using c constraints_keys by (simp_all add: sound_def)
  have r: "constraints (rebase c v y)" "extends v (rebase c v y)" by (rule rebase_keeps [OF y v e a])+
  have new: "q \<in> set (wallets c)" if "q \<in> set (wallets v)" "wr_ID q \<in> L" for q
    using t that by (auto simp: touched_def written_def)
  have old: "q \<in> set (wallets v)" if q: "q \<in> set (wallets c)" "wr_ID q \<in> L" for q
  proof -
    have "grown kept_wallet (wallets c) (wallets v)" using e by (simp add: extends_def)
    from grown_rows [OF this q(1)] obtain x where x: "x \<in> set (wallets v)" "wr_ID x = wr_ID q"
      using wallet_table.keeps_key by blast
    then have "x = q" using distinct_key_unique [OF keys(1) new q(1)] q(2) by simp
    with x(1) show ?thesis by simp
  qed
  have ops: "\<exists>n. q\<lparr>tr_NextAttemptAt := n\<rparr> \<in> set (transactions v)"
    if q: "q \<in> set (transactions c)" "tr_WalletID q \<in> L" for q
  proof -
    have "grown kept_operation (transactions c) (transactions v)" using e by (simp add: extends_def)
    from grown_rows [OF this q(1)] obtain x where x: "x \<in> set (transactions v)" "tr_ID x = tr_ID q"
      using operation_table.keeps_key by blast
    then have "x = q \<or> (\<exists>n. x = q\<lparr>tr_NextAttemptAt := n\<rparr>)"
      using g q l unfolding guarded_def by blast
    moreover have "q = q\<lparr>tr_NextAttemptAt := tr_NextAttemptAt q\<rparr>" by simp
    ultimately show ?thesis using x(1) by metis
  qed
  have "sound v (rebase c v y)" using b v r by (simp add: sound_def)
  with y e a new old ops show ?thesis unfolding disturbs_def by auto
qed

lemma secure_next:
  assumes "secure E Q (Turn K f) L c v" and "meanwhile L (c, v) (d, v')"
    and "committed w = d" and "env w = E" and "tx w = Some (v', False)" and "f w = (j, w')" and "tx w' = Some (v'', False)"
  shows "lawful v' v'' \<and> secure E Q j (L \<union> K) d v''"
proof -
  have "lawful v' v'' \<and> secure E Q j (L \<union> K) d v''" if "secure E Q i L c v" "i = Turn K f" for i
    using that(1)
  proof cases
    case (secure_turn f' K')
    with that(2) show ?thesis using assms(2-) by blast
  qed (use that(2) in simp_all)
  with assms(1) show ?thesis by blast
qed

section \<open>The invariant\<close>

definition beside :: "db \<Rightarrow> session_state \<Rightarrow> session_state \<Rightarrow> bool" where
  "beside c x y \<longleftrightarrow>
     apart c (ses_view x) (ses_view y) \<and> touched c (ses_view x) \<inter> ses_locks y = {} \<and> ses_locks x \<inter> ses_locks y = {}"

definition at_work :: "environment \<Rightarrow> cluster \<Rightarrow> session_state \<Rightarrow> bool" where
  "at_work E s x \<longleftrightarrow>
     sound (store s) (ses_view x) \<and> secure E (goal E (sent s)) (ses_job x) (ses_locks x) (store s) (ses_view x)"

definition well :: "environment \<Rightarrow> cluster \<Rightarrow> bool" where
  "well E s \<longleftrightarrow>
     books (store s) \<and> constraints (store s) \<and>
     (\<forall>r \<in> set (outbox (store s)). or_PublishedAt r \<noteq> None \<longrightarrow> (\<exists>rec \<in> set (sent s). delivers rec r)) \<and>
     (\<forall>rec \<in> set (sent s). record_of (store s) rec) \<and>
     (\<forall>k x. sessions s k = Some x \<longrightarrow> at_work E s x) \<and>
     (\<forall>k l x y. k \<noteq> l \<longrightarrow> sessions s k = Some x \<longrightarrow> sessions s l = Some y \<longrightarrow> beside (store s) x y)"

lemma wellD:
  assumes "well E s"
  shows "books (store s)" "constraints (store s)"
    "r \<in> set (outbox (store s)) \<Longrightarrow> or_PublishedAt r \<noteq> None \<Longrightarrow> \<exists>rec \<in> set (sent s). delivers rec r"
    "rec \<in> set (sent s) \<Longrightarrow> record_of (store s) rec"
    "sessions s k = Some x \<Longrightarrow> at_work E s x"
    "k \<noteq> l \<Longrightarrow> sessions s k = Some x \<Longrightarrow> sessions s l = Some y \<Longrightarrow> beside (store s) x y"
  using assms unfolding well_def by blast+

text \<open>A session that changed, and is beside the others both ways round.\<close>

lemma well_session:
  assumes w: "well E s" and x: "at_work E s x"
    and others: "\<And>l y. l \<noteq> k \<Longrightarrow> sessions s l = Some y \<Longrightarrow> beside (store s) x y \<and> beside (store s) y x"
  shows "well E (s\<lparr>sessions := (sessions s)(k \<mapsto> x)\<rparr>)"
proof -
  let ?s = "s\<lparr>sessions := (sessions s)(k \<mapsto> x)\<rparr>"
  have same: "at_work E ?s y = at_work E s y" for y by (simp add: at_work_def)
  have "at_work E ?s y" if "sessions ?s l = Some y" for l y
    using that x wellD(5) [OF w] unfolding same by (simp split: if_splits)
  moreover have "beside (store s) y z" if "l \<noteq> m" "sessions ?s l = Some y" "sessions ?s m = Some z" for l m y z
  proof (cases "l = k \<or> m = k")
    case True
    with that others [of m z] others [of l y] show ?thesis by (auto split: if_splits)
  next
    case False
    with that wellD(6) [OF w that(1)] show ?thesis by simp
  qed
  ultimately show ?thesis using w unfolding well_def by simp
qed

lemma well_leave: "well E s \<Longrightarrow> well E (s\<lparr>sessions := (sessions s)(k := None)\<rparr>)"
  unfolding well_def at_work_def by (auto split: if_splits)

lemma well_begin:
  assumes w: "well E s" and j: "starts E (sent s) (store s) j"
  shows "well E (s\<lparr>sessions := (sessions s)(k \<mapsto> \<lparr>ses_job = j, ses_view = store s, ses_locks = {}\<rparr>)\<rparr>)"
proof (rule well_session [OF w])
  have s: "sound (store s) (store s)" using wellD(1,2) [OF w] by (simp add: sound_def)
  with starts_secure [OF j s] show "at_work E s \<lparr>ses_job = j, ses_view = store s, ses_locks = {}\<rparr>"
    by (simp add: at_work_def)
  have "touched (store s) (ses_view y) \<inter> {} = {}" for y by simp
  then show "beside (store s) \<lparr>ses_job = j, ses_view = store s, ses_locks = {}\<rparr> y \<and>
      beside (store s) y \<lparr>ses_job = j, ses_view = store s, ses_locks = {}\<rparr>" for y
    by (simp add: beside_def)
qed

lemma well_turn:
  assumes w: "well E s" and x: "sessions s k = Some x" "ses_job x = Turn K f"
    and run: "committed wd = store s" "env wd = E" "tx wd = Some (ses_view x, False)" "f wd = (j, wd')"
      "tx wd' = Some (v, False)"
    and free: "\<And>l y. l \<noteq> k \<Longrightarrow> sessions s l = Some y \<Longrightarrow> compatible (store s) K v y"
  shows "well E (s\<lparr>sessions := (sessions s)(k \<mapsto> \<lparr>ses_job = j, ses_view = v, ses_locks = ses_locks x \<union> K\<rparr>)\<rparr>)"
proof (rule well_session [OF w])
  have a: "sound (store s) (ses_view x)"
    "secure E (goal E (sent s)) (Turn K f) (ses_locks x) (store s) (ses_view x)"
    using wellD(5) [OF w x(1)] x(2) by (simp_all add: at_work_def)
  have "lawful (ses_view x) v \<and> secure E (goal E (sent s)) j (ses_locks x \<union> K) (store s) v"
    by (rule secure_next [OF a(2) rtranclp.rtrancl_refl run(1-3)]) (fact run)+
  with sound_lawful [OF a(1)] show "at_work E s \<lparr>ses_job = j, ses_view = v, ses_locks = ses_locks x \<union> K\<rparr>"
    by (simp add: at_work_def)
  fix l y assume l: "l \<noteq> k" "sessions s l = Some y"
  have b: "beside (store s) x y" "beside (store s) y x" using wellD(6) [OF w _ x(1) l(2)] wellD(6) [OF w l(1) l(2) x(1)] l(1) by simp_all
  have "apart (store s) v (ses_view y)" and c: "K \<inter> ses_locks y = {}" "K \<inter> touched (store s) (ses_view y) = {}"
    "touched (store s) v \<inter> ses_locks y = {}"
    using free [OF l] by (simp_all add: compatible_def)
  then have "apart (store s) v (ses_view y)" "apart (store s) (ses_view y) v" by (simp_all add: apart_sym)
  moreover have "ses_locks x \<inter> ses_locks y = {}" "touched (store s) (ses_view y) \<inter> ses_locks x = {}"
    using b by (simp_all add: beside_def)
  ultimately show "beside (store s) \<lparr>ses_job = j, ses_view = v, ses_locks = ses_locks x \<union> K\<rparr> y \<and>
      beside (store s) y \<lparr>ses_job = j, ses_view = v, ses_locks = ses_locks x \<union> K\<rparr>"
    using c unfolding beside_def by (simp; blast)
qed

lemma well_send:
  assumes w: "well E s" and r: "record_of (store s) rec"
  shows "well E (s\<lparr>sent := sent s @ [rec]\<rparr>)"
proof -
  have "secure E (goal E (sent s @ [rec])) j L c v" if "secure E (goal E (sent s)) j L c v" for j :: "unit job" and L c v
    using that by (rule secure_weaken) (auto intro: goal_mono)
  then have work: "at_work E (s\<lparr>sent := sent s @ [rec]\<rparr>) x" if "at_work E s x" for x
    using that by (simp add: at_work_def)
  have "\<forall>k x. sessions s k = Some x \<longrightarrow> at_work E (s\<lparr>sent := sent s @ [rec]\<rparr>) x"
    using wellD(5) [OF w] work by blast
  with w r show ?thesis unfolding well_def by simp
qed


text \<open>A commit: the session's view is the committed database, and those of the others are brought up to date.\<close>

lemma well_commit:
  assumes w: "well E s" and x: "sessions s k = Some x" "ses_job x = Done (Inr ())"
  shows "well E (s\<lparr>store := ses_view x, sessions := (\<lambda>l. if l = k then None
      else map_option (\<lambda>y. y\<lparr>ses_view := rebase (store s) (ses_view x) (ses_view y)\<rparr>) (sessions s l))\<rparr>)"
    and "goal E (sent s) () (ses_locks x) (store s) (ses_view x)" and "extends (store s) (ses_view x)"
proof -
  let ?c = "store s" and ?v = "ses_view x"
  let ?up = "\<lambda>y. y\<lparr>ses_view := rebase ?c ?v (ses_view y)\<rparr>"
  let ?s = "s\<lparr>store := ?v, sessions := (\<lambda>l. if l = k then None else map_option ?up (sessions s l))\<rparr>"
  have a: "sound ?c ?v" "secure E (goal E (sent s)) (Done (Inr ())) (ses_locks x) ?c ?v"
    using wellD(5) [OF w x(1)] x(2) by (simp_all add: at_work_def)
  show g: "goal E (sent s) () (ses_locks x) ?c ?v" using a(2) by (rule secure_doneE) blast
  then have ch: "changed E (sent s) ?c ?v" and gd: "guarded (ses_locks x) ?c ?v" by (simp_all add: goal_def)
  show e: "extends ?c ?v" using a(1) by (simp add: sound_def)
  have b: "books ?v" "constraints ?v"
    using changed_books [OF ch] wellD(1) [OF w] a(1) by (simp_all add: sound_def)
  have up: "sound ?c (ses_view y)" "apart ?c ?v (ses_view y)" "disturbs (ses_locks y) (?c, ses_view y) (?v, rebase ?c ?v (ses_view y))"
    if "l \<noteq> k" "sessions s l = Some y" for l y
  proof -
    have bs: "beside ?c x y" using wellD(6) [OF w] x(1) that by metis
    show "sound ?c (ses_view y)" using wellD(5) [OF w that(2)] by (simp add: at_work_def)
    then show "disturbs (ses_locks y) (?c, ses_view y) (?v, rebase ?c ?v (ses_view y))"
      using commit_disturbs [OF a(1) b(1) gd] bs unfolding beside_def by blast
    show "apart ?c ?v (ses_view y)" using bs by (simp add: beside_def)
  qed
  have work: "at_work E ?s (?up y)" if "l \<noteq> k" "sessions s l = Some y" for l y
  proof -
    have "secure E (goal E (sent s)) (ses_job y) (ses_locks y) ?c (ses_view y)"
      using wellD(5) [OF w that(2)] by (simp add: at_work_def)
    from secure_disturbed [OF this up(3) [OF that]] disturbsD(2) [OF up(3) [OF that]] show ?thesis
      by (simp add: at_work_def)
  qed
  have apart: "beside ?v (?up y) (?up z)"
    if "l \<noteq> m" "l \<noteq> k" "sessions s l = Some y" "m \<noteq> k" "sessions s m = Some z" for l m y z
  proof -
    note y = up [OF that(2,3)] and z = up [OF that(4,5)]
    have bs: "beside ?c y z" using wellD(6) [OF w that(1,3,5)] .
    then have "apart ?v (rebase ?c ?v (ses_view y)) (rebase ?c ?v (ses_view z))"
      using apart_rebase [OF b(2) e _ y(1,2) z(1,2)] by (simp add: beside_def)
    moreover have "touched ?v (rebase ?c ?v (ses_view y)) \<subseteq> touched ?c (ses_view y)"
      by (rule touched_rebase [OF y(1) b(2) e y(2)])
    ultimately show ?thesis using bs by (auto simp: beside_def)
  qed
  have del: "\<exists>rec \<in> set (sent s). delivers rec r" if "r \<in> set (outbox ?v)" "or_PublishedAt r \<noteq> None" for r
    using changed_outbox [OF ch that] wellD(3) [OF w] by metis
  have rec: "record_of ?v rec" if "rec \<in> set (sent s)" for rec
    by (rule record_stays [OF e wellD(4) [OF w that]])
  show "well E ?s"
    unfolding well_def
  proof (intro conjI allI impI ballI)
    fix l y assume "sessions ?s l = Some y"
    with work show "at_work E ?s y" by (auto split: if_splits)
  next
    fix l m y z assume "l \<noteq> m" "sessions ?s l = Some y" "sessions ?s m = Some z"
    with apart show "beside (store ?s) y z" by (auto split: if_splits)
  qed (use b del rec in simp_all)
qed

lemma moves_on_well: "moves_on E s s' \<Longrightarrow> well E s \<Longrightarrow> well E s'"
proof (induction rule: moves_on.induct)
  case (on_begin s k j)
  then show ?case by (intro well_begin)
next
  case (on_turn s k x K f wd j wd' v)
  show ?case by (rule well_turn [OF on_turn(9) on_turn(1-7)]) (rule on_turn(8))
qed (auto intro: well_commit(1) well_leave well_send)

lemma interleaved_well: "interleaved E s \<Longrightarrow> well E s"
proof (induction rule: interleaved.induct)
  case (interleaved_start s)
  moreover have "outbox empty_db = []" by (simp add: empty_db_def)
  ultimately show ?case by (simp add: well_def)
qed (rule moves_on_well)

text \<open>What a move does to the committed database: nothing, or a change that a call alone could have made.\<close>

lemma moves_on_changed:
  assumes "moves_on E s s'" and "well E s"
  shows "changed E (sent s) (store s) (store s') \<and> lawful (store s) (store s')"
  using assms
proof (induction rule: moves_on.induct)
  case (on_commit s k x)
  have "constraints (ses_view x)"
    using wellD(5) [OF on_commit(3,1)] by (simp add: at_work_def sound_def)
  with well_commit(2,3) [OF on_commit(3,1,2)] show ?case by (simp add: goal_def lawful_def)
qed (simp_all add: changed_none schema.stay)

end
