(* ===== verification/Concurrent_Scenario.thy ===== *)
theory Concurrent_Scenario
  imports Interleaving Scenario
begin

text \<open>
  A run of two sessions whose turns alternate, on which the theorems about interleavings are applied: a
  wallet is opened with 5.00 BRL; then one session places a bet of 2.00 on it while another opens a
  wallet for a second player.
\<close>

section \<open>Two sessions\<close>

type_synonym pair = "db \<times> session_state option \<times> session_state option"

definition cluster_of :: "pair \<Rightarrow> cluster" where
  "cluster_of p = (case p of (d, a, b) \<Rightarrow> \<lparr>store = d, sessions = (\<lambda>_. None)(0 := a, 1 := b), sent = []\<rparr>)"

text \<open>The world of the \<open>n\<close>-th move, and the move of a session beside the other.\<close>

definition world_at :: "nat \<Rightarrow> db \<Rightarrow> db \<Rightarrow> world" where
  "world_at n d v = start\<lparr>committed := d, tx := Some (v, False), sequence := 100 * int n, instants := n, identifiers := n\<rparr>"

definition turn_at :: "nat \<Rightarrow> db \<Rightarrow> session_state \<Rightarrow> session_state option \<Rightarrow> session_state option" where
  "turn_at n d x y =
     (case ses_job x of
        Done _ \<Rightarrow> None
      | Turn K f \<Rightarrow>
          (case f (world_at n d (ses_view x)) of (j, w) \<Rightarrow>
             (case tx w of
                Some (v, False) \<Rightarrow>
                  if (case y of None \<Rightarrow> True | Some z \<Rightarrow> compatible d K v z)
                  then Some \<lparr>ses_job = j, ses_view = v, ses_locks = ses_locks x \<union> K\<rparr> else None
              | _ \<Rightarrow> None)))"

definition commit_at :: "db \<Rightarrow> session_state \<Rightarrow> session_state option \<Rightarrow> db \<times> session_state option" where
  "commit_at d x y = (ses_view x, map_option (\<lambda>z. z\<lparr>ses_view := rebase d (ses_view x) (ses_view z)\<rparr>) y)"

text \<open>A session whose job has ended commits, another takes its turn.\<close>

definition move_first :: "nat \<Rightarrow> pair \<Rightarrow> pair option" where
  "move_first n p =
     (case p of
        (d, Some x, y) \<Rightarrow>
          (case ses_job x of
             Done (Inr u) \<Rightarrow> (case commit_at d x y of (d', y') \<Rightarrow> Some (d', None, y'))
           | _ \<Rightarrow> map_option (\<lambda>x'. (d, Some x', y)) (turn_at n d x y))
      | _ \<Rightarrow> None)"

definition swap :: "pair \<Rightarrow> pair" where
  "swap p = (case p of (d, a, b) \<Rightarrow> (d, b, a))"

fun schedule :: "nat \<Rightarrow> bool list \<Rightarrow> pair \<Rightarrow> pair option" where
  "schedule n [] p = Some p"
| "schedule n (first # bs) p =
     (case (if first then move_first n p else map_option swap (move_first n (swap p))) of
        None \<Rightarrow> None
      | Some q \<Rightarrow> schedule (Suc n) bs q)"

text \<open>The moves are those of a cluster, on either side.\<close>

lemma turn_at_moves:
  assumes "turn_at n d x y = Some x'"
  shows "moves_on calm (cluster_of (d, Some x, y)) (cluster_of (d, Some x', y))"
    and "moves_on calm (cluster_of (d, y, Some x)) (cluster_of (d, y, Some x'))"
proof -
  obtain K f j w v where f: "ses_job x = Turn K f" "f (world_at n d (ses_view x)) = (j, w)" "tx w = Some (v, False)"
    and c: "\<And>z. y = Some z \<Longrightarrow> compatible d K v z"
    and x': "x' = \<lparr>ses_job = j, ses_view = v, ses_locks = ses_locks x \<union> K\<rparr>"
    using assms by (auto simp: turn_at_def split: job.splits prod.splits option.splits bool.splits if_splits)
  have w: "committed (world_at n d (ses_view x)) = d" "env (world_at n d (ses_view x)) = calm"
    "tx (world_at n d (ses_view x)) = Some (ses_view x, False)"
    by (simp_all add: world_at_def)
  have up: "cluster_of (d, Some x', y) = (cluster_of (d, Some x, y))\<lparr>sessions :=
      (sessions (cluster_of (d, Some x, y)))(0 \<mapsto> \<lparr>ses_job = j, ses_view = v, ses_locks = ses_locks x \<union> K\<rparr>)\<rparr>"
    "cluster_of (d, y, Some x') = (cluster_of (d, y, Some x))\<lparr>sessions :=
      (sessions (cluster_of (d, y, Some x)))(1 \<mapsto> \<lparr>ses_job = j, ses_view = v, ses_locks = ses_locks x \<union> K\<rparr>)\<rparr>"
    by (simp_all add: cluster_of_def x' fun_eq_iff)
  show "moves_on calm (cluster_of (d, Some x, y)) (cluster_of (d, Some x', y))"
    unfolding up(1) by (rule on_turn [OF _ f(1) _ w(2,3) f(2,3)])
      (use w(1) c in \<open>auto simp: cluster_of_def split: if_splits\<close>)
  show "moves_on calm (cluster_of (d, y, Some x)) (cluster_of (d, y, Some x'))"
    unfolding up(2) by (rule on_turn [OF _ f(1) _ w(2,3) f(2,3)])
      (use w(1) c in \<open>auto simp: cluster_of_def split: if_splits\<close>)
qed

lemma commit_at_moves:
  assumes "ses_job x = Done (Inr ())" and "commit_at d x y = (d', y')"
  shows "moves_on calm (cluster_of (d, Some x, y)) (cluster_of (d', None, y'))"
    and "moves_on calm (cluster_of (d, y, Some x)) (cluster_of (d', y', None))"
proof -
  let ?up = "map_option (\<lambda>z. z\<lparr>ses_view := rebase d (ses_view x) (ses_view z)\<rparr>)"
  have d': "d' = ses_view x" "y' = ?up y" using assms(2) by (auto simp: commit_at_def)
  have up: "cluster_of (d', None, y') = (cluster_of (d, Some x, y))\<lparr>store := ses_view x, sessions := (\<lambda>l. if l = 0 then None
      else map_option (\<lambda>z. z\<lparr>ses_view := rebase (store (cluster_of (d, Some x, y))) (ses_view x) (ses_view z)\<rparr>)
        (sessions (cluster_of (d, Some x, y)) l))\<rparr>"
    "cluster_of (d', y', None) = (cluster_of (d, y, Some x))\<lparr>store := ses_view x, sessions := (\<lambda>l. if l = 1 then None
      else map_option (\<lambda>z. z\<lparr>ses_view := rebase (store (cluster_of (d, y, Some x))) (ses_view x) (ses_view z)\<rparr>)
        (sessions (cluster_of (d, y, Some x)) l))\<rparr>"
    by (auto simp: cluster_of_def d' fun_eq_iff)
  show "moves_on calm (cluster_of (d, Some x, y)) (cluster_of (d', None, y'))"
    unfolding up(1) by (rule on_commit) (simp_all add: cluster_of_def assms(1))
  show "moves_on calm (cluster_of (d, y, Some x)) (cluster_of (d', y', None))"
    unfolding up(2) by (rule on_commit) (simp_all add: cluster_of_def assms(1))
qed

lemma move_first_moves:
  assumes "move_first n p = Some q"
  shows "moves_on calm (cluster_of p) (cluster_of q)" and "moves_on calm (cluster_of (swap p)) (cluster_of (swap q))"
proof -
  obtain d x y where p: "p = (d, Some x, y)" using assms by (auto simp: move_first_def split: prod.splits option.splits)
  have both: "moves_on calm (cluster_of p) (cluster_of q) \<and> moves_on calm (cluster_of (swap p)) (cluster_of (swap q))"
  proof (cases "ses_job x = Done (Inr ())")
    case True
    then have "q = (case commit_at d x y of (d', y') \<Rightarrow> (d', None, y'))"
      using assms by (auto simp: move_first_def p split: prod.splits)
    then obtain d' y' where "commit_at d x y = (d', y')" "q = (d', None, y')" by (cases "commit_at d x y") simp
    with commit_at_moves [OF True] show ?thesis by (simp add: p swap_def)
  next
    case False
    then obtain x' where "turn_at n d x y = Some x'" "q = (d, Some x', y)"
      using assms by (auto simp: move_first_def p split: job.splits sum.splits)
    with turn_at_moves show ?thesis by (simp add: p swap_def)
  qed
  then show "moves_on calm (cluster_of p) (cluster_of q)" "moves_on calm (cluster_of (swap p)) (cluster_of (swap q))"
    by simp_all
qed

lemma schedule_interleaved:
  "schedule n bs p = Some q \<Longrightarrow> interleaved calm (cluster_of p) \<Longrightarrow> interleaved calm (cluster_of q)"
proof (induction bs arbitrary: n p)
  case (Cons first bs)
  have ss: "swap (swap r) = r" for r by (cases r) (simp add: swap_def)
  obtain r where r: "(if first then move_first n p else map_option swap (move_first n (swap p))) = Some r"
    "schedule (Suc n) bs r = Some q"
    using Cons.prems(1) by (simp split: option.splits)
  have "moves_on calm (cluster_of p) (cluster_of r)"
    using r(1) move_first_moves ss by (metis (mono_tags, lifting) map_option_eq_Some)
  then show ?case using Cons.IH [OF r(2)] Cons.prems(2) interleaved_on by blast
qed simp

lemma begin_first: "interleaved calm (cluster_of (d, None, y)) \<Longrightarrow> starts calm [] d j \<Longrightarrow>
  interleaved calm (cluster_of (d, Some \<lparr>ses_job = j, ses_view = d, ses_locks = {}\<rparr>, y))"
proof -
  assume i: "interleaved calm (cluster_of (d, None, y))" and j: "starts calm [] d j"
  let ?s = "cluster_of (d, None, y)"
  have "moves_on calm ?s (?s\<lparr>sessions := (sessions ?s)(0 \<mapsto> \<lparr>ses_job = j, ses_view = store ?s, ses_locks = {}\<rparr>)\<rparr>)"
    by (rule on_begin) (simp_all add: cluster_of_def j)
  moreover have "?s\<lparr>sessions := (sessions ?s)(0 \<mapsto> \<lparr>ses_job = j, ses_view = store ?s, ses_locks = {}\<rparr>)\<rparr> =
      cluster_of (d, Some \<lparr>ses_job = j, ses_view = d, ses_locks = {}\<rparr>, y)"
    by (simp add: cluster_of_def fun_eq_iff)
  ultimately show ?thesis using i interleaved_on by metis
qed

lemma begin_second: "interleaved calm (cluster_of (d, x, None)) \<Longrightarrow> starts calm [] d j \<Longrightarrow>
  interleaved calm (cluster_of (d, x, Some \<lparr>ses_job = j, ses_view = d, ses_locks = {}\<rparr>))"
proof -
  assume i: "interleaved calm (cluster_of (d, x, None))" and j: "starts calm [] d j"
  let ?s = "cluster_of (d, x, None)"
  have "moves_on calm ?s (?s\<lparr>sessions := (sessions ?s)(1 \<mapsto> \<lparr>ses_job = j, ses_view = store ?s, ses_locks = {}\<rparr>)\<rparr>)"
    by (rule on_begin) (simp_all add: cluster_of_def j)
  moreover have "?s\<lparr>sessions := (sessions ?s)(1 \<mapsto> \<lparr>ses_job = j, ses_view = store ?s, ses_locks = {}\<rparr>)\<rparr> =
      cluster_of (d, x, Some \<lparr>ses_job = j, ses_view = d, ses_locks = {}\<rparr>)"
    by (simp add: cluster_of_def fun_eq_iff)
  ultimately show ?thesis using i interleaved_on by metis
qed

section \<open>The run\<close>

definition first_wallet :: Wallet where "first_wallet = projr (wallet_Open 1000 7 (brl 500) 100)"

definition second_wallet :: Wallet where "second_wallet = projr (wallet_Open 2000 8 (brl 100) 100)"

definition opening_pair :: pair where
  "opening_pair = (empty_db, Some \<lparr>ses_job = open_job first_wallet ''c'' 100, ses_view = empty_db, ses_locks = {}\<rparr>, None)"

definition opened_pair :: pair where "opened_pair = the (schedule 1 (replicate 11 True) opening_pair)"

definition opened_db :: db where "opened_db = fst opened_pair"

definition bet_operation :: Transaction where
  "bet_operation = projr (NewExternal (new_external_params bet (projr (PayloadHash calm bet)) 5000 100))"

definition betting_at :: "db \<Rightarrow> pair" where
  "betting_at d =
     (d, Some \<lparr>ses_job = void (process_job bet_operation ''c'' 100), ses_view = d, ses_locks = {}\<rparr>,
      Some \<lparr>ses_job = open_job second_wallet ''c'' 100, ses_view = d, ses_locks = {}\<rparr>)"

definition betting_pair :: pair where "betting_pair = betting_at opened_db"

lemma opened_ok: "schedule 1 (replicate 11 True) opening_pair \<noteq> None \<and> (case opened_pair of (d, a, b) \<Rightarrow>
    map wr_BalanceMinor (wallets d) = [500] \<and> a = None \<and> b = None)"
  by code_simp


text \<open>
  Ten turns each in alternation: the bet has its wallet locked and written, the other wallet is written
  too. Then the opening commits, the bet takes its last turn, and commits.
\<close>

lemma run_ok: "case schedule 20 (concat (replicate 10 [True, False])) betting_pair of
    Some (d, Some x, Some y) \<Rightarrow>
      map wr_BalanceMinor (wallets d) = [500] \<and> ses_locks x = {1000} \<and>
      (case ses_job y of Done (Inr u) \<Rightarrow> True | _ \<Rightarrow> False) \<and>
      map wr_BalanceMinor (wallets (ses_view x)) = [300] \<and> map wr_BalanceMinor (wallets (ses_view y)) = [500, 100] \<and>
      (case schedule 40 [False, True, True] (d, Some x, Some y) of
         Some (d', None, None) \<Rightarrow> map wr_BalanceMinor (wallets d') = [300, 100]
       | _ \<Rightarrow> False)
  | _ \<Rightarrow> False"
  by code_simp


text \<open>All of it happens in a cluster.\<close>

lemma start_jobs:
  "starts calm [] empty_db (open_job first_wallet ''c'' 100)"
  "starts calm [] d (open_job second_wallet ''c'' 100)"
  "starts calm [] d (void (process_job bet_operation ''c'' 100))"
proof -
  have right: "x = Inr (projr x)" if "\<not> isl x" for x :: "'a + 'b" using that by (cases x) simp_all
  have "\<not> isl (wallet_Open 1000 7 (brl 500) 100)" "\<not> isl (wallet_Open 2000 8 (brl 100) 100)" by code_simp+
  then have "wallet_Open 1000 7 (brl 500) 100 = Inr first_wallet" "wallet_Open 2000 8 (brl 100) 100 = Inr second_wallet"
    unfolding first_wallet_def second_wallet_def by (metis right)+
  then show "starts calm [] empty_db (open_job first_wallet ''c'' 100)" "starts calm [] d (open_job second_wallet ''c'' 100)"
    by (blast intro: start_open)+
  have "\<not> isl (PayloadHash calm bet)" by code_simp
  then have hash: "PayloadHash calm bet = Inr (projr (PayloadHash calm bet))" by (rule right)
  have "\<not> isl (NewExternal (new_external_params bet (projr (PayloadHash calm bet)) 5000 100))" by code_simp
  then have new: "NewExternal (new_external_params bet (projr (PayloadHash calm bet)) 5000 100) = Inr bet_operation"
    unfolding bet_operation_def by (rule right)
  have "in_CorrelationID bet = ''c''" by (simp add: bet_def)
  with start_process [OF hash new bet_constructed(1)] show "starts calm [] d (void (process_job bet_operation ''c'' 100))" by simp
qed

lemma interleaved_opened: "interleaved calm (cluster_of (opened_db, None, None))"
proof -
  have "interleaved calm (cluster_of (empty_db, None, None))"
    by (rule interleaved_start) (simp_all add: cluster_of_def fun_eq_iff)
  then have "interleaved calm (cluster_of opening_pair)"
    unfolding opening_pair_def using begin_first start_jobs(1) by blast
  moreover obtain q where q: "schedule 1 (replicate 11 True) opening_pair = Some q" using opened_ok by auto
  ultimately have "interleaved calm (cluster_of q)" using schedule_interleaved by blast
  moreover have "q = (opened_db, None, None)"
    using opened_ok q by (auto simp: opened_db_def opened_pair_def split: prod.splits)
  ultimately show ?thesis by simp
qed

lemma interleaved_betting: "interleaved calm (cluster_of betting_pair)"
  unfolding betting_pair_def betting_at_def
  using begin_second [OF begin_first [OF interleaved_opened start_jobs(3)] start_jobs(2)] .

lemma interleaved_middle:
  obtains d x y d' where "interleaved calm (cluster_of (d, Some x, Some y))" and "ses_locks x = {1000}"
    and "ses_job y = Done (Inr ())"
    and "map wr_BalanceMinor (wallets d) = [500]" and "map wr_BalanceMinor (wallets (ses_view x)) = [300]"
    and "map wr_BalanceMinor (wallets (ses_view y)) = [500, 100]"
    and "schedule 40 [False, True, True] (d, Some x, Some y) = Some (d', None, None)"
    and "map wr_BalanceMinor (wallets d') = [300, 100]"
proof -
  obtain d x y where q: "schedule 20 (concat (replicate 10 [True, False])) betting_pair = Some (d, Some x, Some y)"
    using run_ok by (auto split: option.splits prod.splits)
  have i: "interleaved calm (cluster_of (d, Some x, Some y))"
    by (rule schedule_interleaved [OF q interleaved_betting])
  note ok = run_ok [unfolded q option.case prod.case]
  obtain d' where d': "schedule 40 [False, True, True] (d, Some x, Some y) = Some (d', None, None)"
    "map wr_BalanceMinor (wallets d') = [300, 100]"
    using ok by (auto split: option.splits prod.splits)
  have "ses_job y = Done (Inr ())" using ok by (auto split: job.splits sum.splits)
  with i ok d' show thesis by (intro that [of d x y d']) simp_all
qed

text \<open>The opening commits while the bet is at work.\<close>

lemma opening_commits:
  assumes "ses_job y = Done (Inr ())"
  obtains x' where "moves_on calm (cluster_of (d, Some x, Some y)) (cluster_of (ses_view y, Some x', None))"
  using commit_at_moves(2) [OF assms, of d "Some x"] by (simp add: commit_at_def)

end
