(* ===== verification/Isolation.thy ===== *)
theory Isolation
  imports Outcomes
begin

text \<open>
  Why one row lock is enough: whatever a step does, it moves the money of one wallet at most, the one
  its unit of work locked before it read anything else of it.
\<close>

text \<open>All that changes of wallets and entries is of the wallet \<open>i\<close>: its row, and one entry at most.\<close>

definition moves_only :: "ID \<Rightarrow> db \<Rightarrow> db \<Rightarrow> bool" where
  "moves_only i d d' \<longleftrightarrow>
     (\<forall>j. j \<noteq> i \<longrightarrow> filter (\<lambda>r. wr_ID r = j) (wallets d') = filter (\<lambda>r. wr_ID r = j) (wallets d)) \<and>
     (\<exists>new. entries d' = entries d @ new \<and> length new \<le> 1 \<and> (\<forall>l \<in> set new. lr_WalletID l = i))"

lemma moves_only_same: "wallets d' = wallets d \<Longrightarrow> entries d' = entries d \<Longrightarrow> moves_only i d d'"
  by (simp add: moves_only_def)

lemma moves_only_rows [simp]:
  "moves_only i d d" "moves_only i d (d\<lparr>transactions := ts\<rparr>)" "moves_only i d (d\<lparr>outbox := os\<rparr>)"
  by (simp_all add: moves_only_same)

lemma moves_only_trans_same: "moves_only i d d1 \<Longrightarrow> wallets d2 = wallets d1 \<Longrightarrow> entries d2 = entries d1 \<Longrightarrow> moves_only i d d2"
  by (simp add: moves_only_def)

lemma recorded_moves:
  assumes "recorded d w t'' entry w' c at d'" and "decided d w t at t'' entry w'"
  shows "moves_only (w_id w) d d'"
proof (cases entry)
  case None
  with assms(1) show ?thesis by (auto simp: recorded_def moves_only_def)
next
  case (Some e)
  then obtain rs os where d': "d' = d\<lparr>transactions := rs,
      wallets := map (\<lambda>r. if wr_ID r = w_id w then wallet_to_row w' else r) (wallets d),
      entries := entries d @ [entry_to_row e], outbox := outbox d @ os\<rparr>"
    using assms(1) by (auto simp: recorded_def)
  have m: "w_id w' = w_id w" "entry_walletID e = w_id w"
    using decided_moves [OF assms(2) [unfolded Some]] by (auto simp: movement_def)
  have "filter (\<lambda>r. wr_ID r = j) (map (\<lambda>r. if wr_ID r = w_id w then wallet_to_row w' else r) ws) =
      filter (\<lambda>r. wr_ID r = j) ws" if "j \<noteq> w_id w" for j ws
    using that m(1) by (induction ws) auto
  with m(2) show ?thesis by (simp add: d' moves_only_def entry_to_row_sel)
qed

lemma executed_moves: "executed E d input a d' \<Longrightarrow> \<exists>i. moves_only i d d'"
  unfolding executed_def applied_def using recorded_moves moves_only_same by metis

lemma opened_moves:
  assumes "opened d x c at d'"
  shows "\<exists>i. moves_only i d d'"
proof -
  have new: "filter (\<lambda>r. wr_ID r = j) (wallets d @ [wallet_to_row x]) = filter (\<lambda>r. wr_ID r = j) (wallets d)" if "j \<noteq> w_id x" for j
    using that by simp
  show ?thesis
  proof (cases "money_IsPositive (w_balance x)")
    case False
    with assms new show ?thesis by (auto simp: opened_def moves_only_def)
  next
    case True
    with assms obtain t :: Transaction and r j e os where e: "OpeningLedgerEntry x (t_id t) at j = Inr e"
      and d': "d' = d\<lparr>wallets := wallets d @ [wallet_to_row x], transactions := transactions d @ [r],
            entries := entries d @ [entry_to_row e], outbox := outbox d @ os\<rparr>"
      unfolding opened_def by auto
    from e have "entry_walletID e = w_id x" by (auto dest!: OpeningLedgerEntry_Inr)
    with d' new show ?thesis by (auto simp: moves_only_def entry_to_row_sel intro!: exI [of _ "w_id x"])
  qed
qed

lemma changed_moves:
  assumes "changed E pubs d d'"
  shows "\<exists>i. moves_only i d d'"
  using assms
proof cases
  case (changed_taken message hash q)
  from this(1) consider "d' = d"
    | d1 ms where "executed E d (msg_Input message) (inr_WagerResult q) d1" "d' = d1\<lparr>inbox := ms\<rparr>"
    unfolding taken_in_def by blast
  then show ?thesis
  proof cases
    case 2
    then obtain i where "moves_only i d d1" using executed_moves by blast
    with 2(2) show ?thesis using moves_only_trans_same [of i d d1 d'] by auto
  qed (simp add: moves_only_same)
next
  case (changed_retried p at s)
  then obtain w t t'' entry w' where dec: "decided d w t at t'' entry w'"
    and eff: "if s = StatePendingReference
         then entry = None \<and> (\<exists>rs. saved (transactions d) t'' rs \<and> d' = d\<lparr>transactions := rs\<rparr>)
         else recorded d w t'' entry w' (retry_correlation E (t_id t'')) at d'"
    unfolding retried_def by blast
  then show ?thesis using recorded_moves [OF _ dec] moves_only_same by (auto split: if_splits)
qed (use executed_moves opened_moves in auto)

lemma step_moves_one_wallet:
  assumes "reachable w" and "step w w'"
  shows "\<exists>i. moves_only i (committed w) (committed w')"
  using changed_moves step_changed [OF assms(2)] reachable_inv [OF assms(1)] by metis

end
