(* ===== verification/Interleaving_Guarantees.thy ===== *)
theory Interleaving_Guarantees
  imports Concurrent_Scenario Isolation
begin

text \<open>
  The guarantees of any number of sessions whose statements come in any order: the two processes, and
  several of each, on one database.
\<close>

text \<open>The operations of one provider differ in both their keys.\<close>

lemma provider_keys_differ:
  assumes c: "constraints d" and q: "q \<in> set (transactions d)" "tr_ProviderID q = Some p"
    and r: "r \<in> set (transactions d)" "tr_ProviderID r = Some p" and ne: "q \<noteq> r"
  shows "tr_IdempotencyKey q \<noteq> tr_IdempotencyKey r \<and> tr_ExternalTransactionID q \<noteq> tr_ExternalTransactionID r"
proof -
  have o: "row_origin q" "row_origin r" using constraints_origin [OF c] q(1) r(1) by blast+
  with q(2) r(2) have kinds: "tr_Kind q \<noteq> ''OPENING''" "tr_Kind r \<noteq> ''OPENING''"
    and keys: "tr_IdempotencyKey q \<noteq> None" "tr_ExternalTransactionID q \<noteq> None"
    by (auto simp: row_origin_def split: if_splits)
  have "(transactionsProviderExternalID, \<lambda>q r.
         tr_Kind q \<noteq> ''OPENING'' \<and> tr_Kind r \<noteq> ''OPENING'' \<and>
         same_value (tr_ProviderID q) (tr_ProviderID r) \<and>
         same_value (tr_ExternalTransactionID q) (tr_ExternalTransactionID r)) \<in> set transaction_uniques"
    by (simp add: transaction_uniques_def)
  from operation_table.valid_pair [OF constraintsD(2) [OF c] this q(1) r(1) ne]
    operation_table.valid_pair [OF constraintsD(2) [OF c] transaction_clashes(1) q(1) r(1) ne] kinds keys q(2) r(2)
  show ?thesis by (auto simp: same_value_def)
qed

text \<open>C2. Whatever sessions are at work at the same time, however their statements interleave and wherever
  they break off, the books hold between any two statements: no wallet is overdrawn, its balance is the
  sum of its unbroken chain of entries and its version counts its movements, and entries and processed
  operations agree one to one.\<close>

theorem interleaved_books:
  assumes "interleaved E s"
  shows "(\<forall>r \<in> set (wallets (store s)).
      0 \<le> sint (wr_BalanceMinor r) \<and>
      sint (wr_BalanceMinor r) = rebuilt_balance (store s) (wr_ID r) \<and>
      chain 0 (wallet_entries (store s) (wr_ID r)) (sint (wr_BalanceMinor r)) \<and>
      sint (wr_Version r) =
        1 + int (count_rows (\<lambda>l. \<not> is_opening (store s) l) (wallet_entries (store s) (wr_ID r)))) \<and>
    distinct (map lr_TransactionID (entries (store s))) \<and>
    (\<forall>l \<in> set (entries (store s)). \<exists>t \<in> set (transactions (store s)). entry_of l t) \<and>
    (\<forall>t \<in> set (transactions (store s)). moved_money t \<longrightarrow> (\<exists>l \<in> set (entries (store s)). entry_of l t))"
proof -
  have b: "books (store s)" "constraints (store s)" using wellD(1,2) [OF interleaved_well [OF assms]] .
  then have "entries_inv (store s)" by (simp add: books_def)
  with books_balances [OF b] show ?thesis
    unfolding entries_inv_def by blast
qed

theorem interleaved_books_witness:
  "\<exists>s :: cluster. map wr_BalanceMinor (wallets (store s)) = [300, 100] \<and>
     (\<forall>r \<in> set (wallets (store s)). sint (wr_BalanceMinor r) = rebuilt_balance (store s) (wr_ID r))"
proof -
  obtain d x y d' where i: "interleaved calm (cluster_of (d, Some x, Some y))"
    and r: "schedule 40 [False, True, True] (d, Some x, Some y) = Some (d', None, None)"
    and d': "map wr_BalanceMinor (wallets d') = [300, 100]"
    by (rule interleaved_middle)
  have "interleaved calm (cluster_of (d', None, None))" by (rule schedule_interleaved [OF r i])
  from interleaved_books [OF this] d' show ?thesis
    by (intro exI [of _ "cluster_of (d', None, None)"]) (simp add: cluster_of_def)
qed

text \<open>C4. However the sessions race, everything happens once: two operations of a provider never share
  an idempotency key or an external identifier, no operation is reversed twice, no message is taken in
  twice, and no event is marked as published that the broker was not given with its contents.\<close>

theorem interleaved_once:
  assumes "interleaved E s"
  shows "(\<forall>q \<in> set (transactions (store s)). \<forall>r \<in> set (transactions (store s)). \<forall>p.
      tr_ProviderID q = Some p \<and> tr_ProviderID r = Some p \<and> q \<noteq> r \<longrightarrow>
      tr_IdempotencyKey q \<noteq> tr_IdempotencyKey r \<and> tr_ExternalTransactionID q \<noteq> tr_ExternalTransactionID r) \<and>
    distinct (map tr_ReferenceTransactionID (filter row_reversed (transactions (store s)))) \<and>
    distinct (map ir_MessageID (inbox (store s))) \<and>
    (\<forall>r \<in> set (outbox (store s)). or_PublishedAt r \<noteq> None \<longrightarrow> (\<exists>rec \<in> set (sent s). delivers rec r))"
proof -
  note w = interleaved_well [OF assms]
  have c: "constraints (store s)" by (rule wellD(2) [OF w])
  have "distinct (map ir_MessageID (inbox (store s)))"
    by (rule message_table.valid_keys [OF constraintsD(5) [OF c]])
  with provider_keys_differ [OF c] constraints_one_reversal [OF c] wellD(3) [OF w] show ?thesis by blast
qed

theorem interleaved_once_witness:
  "\<exists>s :: cluster. map wr_BalanceMinor (wallets (store s)) = [300, 100] \<and>
     distinct (map tr_ReferenceTransactionID (filter row_reversed (transactions (store s))))"
proof -
  obtain d x y d' where i: "interleaved calm (cluster_of (d, Some x, Some y))"
    and r: "schedule 40 [False, True, True] (d, Some x, Some y) = Some (d', None, None)"
    and d': "map wr_BalanceMinor (wallets d') = [300, 100]"
    by (rule interleaved_middle)
  have "interleaved calm (cluster_of (d', None, None))" by (rule schedule_interleaved [OF r i])
  from interleaved_once [OF this] d' show ?thesis
    by (intro exI [of _ "cluster_of (d', None, None)"]) (simp add: cluster_of_def)
qed






end
