(* ===== verification/Wiring.thy ===== *)
theory Wiring
  imports Prelude
begin

text \<open>
  How the two processes are put together: the constructors \<open>cmd/api/main.go\<close> and \<open>cmd/workers/main.go\<close>
  hand to Fx, with what each takes and what it gives, read off the signatures and the annotations
  of the modules. Fx is outside; what the code relies on is that a constructor runs once, after
  everything that gives what it takes.
\<close>

section \<open>What is passed around\<close>

text \<open>The types of the parameters, and the groups of values, which any number of constructors add to.\<close>

datatype item =
    Lifecycle_item | Config_item | Logger_item | Clock_item | Pool_item | Transactor_item
  | WalletRepository_item | TransactionRepository_item | LedgerRepository_item | OutboxRepository_item
  | InboxRepository_item | Registry_item | MeterProvider_item | Recorder_item | Metrics_item
  | RequestRecorder_item | OpenWallet_item | ProcessWager_item | ReadWallet_item | ReadTransaction_item
  | TokenVerifier_item | Handler_item | Server_item | Client_item | Publisher_item | EventPublisher_item
  | WagerConsumer_item | ProcessInboxMessage_item | RetryPolicy_item | ResolvePending_item
  | PublicationPolicy_item | PublishOutbox_item
  | Routes_group | PublicRoutes_group | Readiness_group

definition groups :: "item list" where
  "groups = [Routes_group, PublicRoutes_group, Readiness_group]"

text \<open>The constructors, and the functions Fx invokes on start, which give nothing.\<close>

datatype ctor =
    Fx_Lifecycle | Ctor_Load | Ctor_newLogger | Ctor_newClock | Ctor_newRequestRecorder
  | Ctor_newPostgresHealthCheck | Ctor_newEventsQueueHealthCheck | Ctor_newWagerQueueHealthCheck
  | Ctor_newReferenceRetryPolicy | Ctor_newPublicationPolicy
  | Ctor_NewPool | Ctor_NewTransactor | Ctor_NewWalletRepository | Ctor_NewTransactionRepository
  | Ctor_NewLedgerRepository | Ctor_NewOutboxRepository | Ctor_NewInboxRepository
  | Ctor_NewRegistry | Ctor_NewMeterProvider | Ctor_NewRecorder | Ctor_NewRoute
  | Ctor_NewOpenWallet | Ctor_NewProcessWager | Ctor_NewReadWallet | Ctor_NewReadTransaction
  | Ctor_NewProcessInboxMessage | Ctor_NewResolvePendingReferences | Ctor_NewPublishOutbox
  | Ctor_NewTokenVerifier | Ctor_NewHandler | Ctor_NewHealthHandler | Ctor_NewServer
  | Ctor_NewWalletHandler | Ctor_NewWageringHandler | Ctor_NewDocsHandler
  | Ctor_NewClient | Ctor_NewEventPublisher | Ctor_NewWagerConsumer
  | Meter_registerLifecycle | Server_registerLifecycle
  | Poll_references | Poll_outbox | Poll_wagering

section \<open>Signatures\<close>

text \<open>The use cases.\<close>

definition NewOpenWallet_takes :: "item list" where
  "NewOpenWallet_takes = [Transactor_item, WalletRepository_item, TransactionRepository_item, LedgerRepository_item,
     OutboxRepository_item, Clock_item]"

definition NewProcessWager_takes :: "item list" where
  "NewProcessWager_takes = [Transactor_item, WalletRepository_item, TransactionRepository_item, LedgerRepository_item,
     OutboxRepository_item, Clock_item, Metrics_item]"

definition NewReadWallet_takes :: "item list" where
  "NewReadWallet_takes = [Transactor_item, WalletRepository_item, LedgerRepository_item, Metrics_item]"

definition NewReadTransaction_takes :: "item list" where
  "NewReadTransaction_takes = [Transactor_item, TransactionRepository_item]"

definition NewProcessInboxMessage_takes :: "item list" where
  "NewProcessInboxMessage_takes = [Transactor_item, InboxRepository_item, ProcessWager_item, Metrics_item]"

definition NewResolvePendingReferences_takes :: "item list" where
  "NewResolvePendingReferences_takes = [Transactor_item, WalletRepository_item, TransactionRepository_item,
     LedgerRepository_item, OutboxRepository_item, Clock_item, RetryPolicy_item, Metrics_item]"

definition NewPublishOutbox_takes :: "item list" where
  "NewPublishOutbox_takes = [Transactor_item, OutboxRepository_item, EventPublisher_item, Clock_item,
     PublicationPolicy_item, Metrics_item]"

text \<open>The handlers of the server.\<close>

definition NewWalletHandler_takes :: "item list" where
  "NewWalletHandler_takes = [OpenWallet_item, ReadWallet_item, Logger_item]"

definition NewWageringHandler_takes :: "item list" where
  "NewWageringHandler_takes = [ProcessWager_item, ReadTransaction_item, Logger_item]"

definition NewHandler_takes :: "item list" where
  "NewHandler_takes =
     [PublicRoutes_group, Routes_group, Readiness_group, TokenVerifier_item, RequestRecorder_item, Logger_item]"

definition NewHealthHandler_takes :: "item list" where
  "NewHealthHandler_takes = [Readiness_group, PublicRoutes_group, RequestRecorder_item, Logger_item]"

text \<open>The adapters and the functions of the two \<open>main\<close> packages.\<close>

fun takes :: "ctor \<Rightarrow> item list" where
  "takes Ctor_newRequestRecorder = [Recorder_item]"
| "takes Ctor_newPostgresHealthCheck = [Pool_item]"
| "takes Ctor_newEventsQueueHealthCheck = [Publisher_item]"
| "takes Ctor_newWagerQueueHealthCheck = [WagerConsumer_item]"
| "takes Ctor_newReferenceRetryPolicy = [Config_item]"
| "takes Ctor_newPublicationPolicy = [Config_item]"
| "takes Ctor_NewPool = [Lifecycle_item, Config_item]"
| "takes Ctor_NewTransactor = [Pool_item]"
| "takes Ctor_NewMeterProvider = [Registry_item]"
| "takes Ctor_NewRecorder = [MeterProvider_item]"
| "takes Ctor_NewRoute = [Registry_item]"
| "takes Ctor_NewTokenVerifier = [Lifecycle_item, Config_item]"
| "takes Ctor_NewHandler = NewHandler_takes"
| "takes Ctor_NewHealthHandler = NewHealthHandler_takes"
| "takes Ctor_NewServer = [Config_item, Handler_item]"
| "takes Ctor_NewWalletHandler = NewWalletHandler_takes"
| "takes Ctor_NewWageringHandler = NewWageringHandler_takes"
| "takes Ctor_NewClient = [Config_item]"
| "takes Ctor_NewEventPublisher = [Lifecycle_item, Client_item, Config_item]"
| "takes Ctor_NewWagerConsumer =
     [Lifecycle_item, Client_item, Config_item, ProcessInboxMessage_item, Recorder_item, Logger_item]"
| "takes Meter_registerLifecycle = [Lifecycle_item, MeterProvider_item]"
| "takes Server_registerLifecycle = [Lifecycle_item, Server_item]"
| "takes Poll_references = [Lifecycle_item, ResolvePending_item, Config_item, Logger_item]"
| "takes Poll_outbox = [Lifecycle_item, PublishOutbox_item, Config_item, Logger_item]"
| "takes Poll_wagering = [Lifecycle_item, WagerConsumer_item, Config_item, Logger_item]"
| "takes Ctor_NewOpenWallet = NewOpenWallet_takes"
| "takes Ctor_NewProcessWager = NewProcessWager_takes"
| "takes Ctor_NewReadWallet = NewReadWallet_takes"
| "takes Ctor_NewReadTransaction = NewReadTransaction_takes"
| "takes Ctor_NewProcessInboxMessage = NewProcessInboxMessage_takes"
| "takes Ctor_NewResolvePendingReferences = NewResolvePendingReferences_takes"
| "takes Ctor_NewPublishOutbox = NewPublishOutbox_takes"
| "takes _ = []"

text \<open>What a constructor gives, under the annotations of its module.\<close>

fun gives :: "ctor \<Rightarrow> item list" where
  "gives Fx_Lifecycle = [Lifecycle_item]"
| "gives Ctor_Load = [Config_item]"
| "gives Ctor_newLogger = [Logger_item]"
| "gives Ctor_newClock = [Clock_item]"
| "gives Ctor_newRequestRecorder = [RequestRecorder_item]"
| "gives Ctor_newPostgresHealthCheck = [Readiness_group]"
| "gives Ctor_newEventsQueueHealthCheck = [Readiness_group]"
| "gives Ctor_newWagerQueueHealthCheck = [Readiness_group]"
| "gives Ctor_newReferenceRetryPolicy = [RetryPolicy_item]"
| "gives Ctor_newPublicationPolicy = [PublicationPolicy_item]"
| "gives Ctor_NewPool = [Pool_item]"
| "gives Ctor_NewTransactor = [Transactor_item]"
| "gives Ctor_NewWalletRepository = [WalletRepository_item]"
| "gives Ctor_NewTransactionRepository = [TransactionRepository_item]"
| "gives Ctor_NewLedgerRepository = [LedgerRepository_item]"
| "gives Ctor_NewOutboxRepository = [OutboxRepository_item]"
| "gives Ctor_NewInboxRepository = [InboxRepository_item]"
| "gives Ctor_NewRegistry = [Registry_item]"
| "gives Ctor_NewMeterProvider = [MeterProvider_item]"
| "gives Ctor_NewRecorder = [Recorder_item, Metrics_item]"
| "gives Ctor_NewRoute = [PublicRoutes_group]"
| "gives Ctor_NewOpenWallet = [OpenWallet_item]"
| "gives Ctor_NewProcessWager = [ProcessWager_item]"
| "gives Ctor_NewReadWallet = [ReadWallet_item]"
| "gives Ctor_NewReadTransaction = [ReadTransaction_item]"
| "gives Ctor_NewProcessInboxMessage = [ProcessInboxMessage_item]"
| "gives Ctor_NewResolvePendingReferences = [ResolvePending_item]"
| "gives Ctor_NewPublishOutbox = [PublishOutbox_item]"
| "gives Ctor_NewTokenVerifier = [TokenVerifier_item]"
| "gives Ctor_NewHandler = [Handler_item]"
| "gives Ctor_NewHealthHandler = [Handler_item]"
| "gives Ctor_NewServer = [Server_item]"
| "gives Ctor_NewWalletHandler = [Routes_group]"
| "gives Ctor_NewWageringHandler = [Routes_group]"
| "gives Ctor_NewDocsHandler = [PublicRoutes_group]"
| "gives Ctor_NewClient = [Client_item]"
| "gives Ctor_NewEventPublisher = [Publisher_item, EventPublisher_item]"
| "gives Ctor_NewWagerConsumer = [WagerConsumer_item]"
| "gives _ = []"

section \<open>The modules and the two processes\<close>

definition metrics_Module :: "ctor list" where
  "metrics_Module = [Ctor_NewRegistry, Ctor_NewMeterProvider, Ctor_NewRecorder, Meter_registerLifecycle]"

definition postgres_Module :: "ctor list" where
  "postgres_Module = [Ctor_NewPool, Ctor_NewTransactor, Ctor_NewWalletRepository, Ctor_NewTransactionRepository,
     Ctor_NewLedgerRepository, Ctor_NewOutboxRepository, Ctor_NewInboxRepository]"

definition httpserver_Module :: "ctor list" where
  "httpserver_Module = [Ctor_NewHandler, Ctor_NewServer, Ctor_NewWalletHandler, Ctor_NewWageringHandler,
     Ctor_NewDocsHandler, Server_registerLifecycle]"

definition HealthModule :: "ctor list" where
  "HealthModule = [Ctor_NewHealthHandler, Ctor_NewServer, Server_registerLifecycle]"

definition messaging_Module :: "ctor list" where
  "messaging_Module = [Ctor_NewClient, Ctor_NewEventPublisher, Ctor_NewWagerConsumer]"

definition worker_Module :: "ctor list" where
  "worker_Module = [Poll_references, Poll_outbox, Poll_wagering]"

definition api_options :: "ctor list" where
  "api_options = [Ctor_newLogger, Ctor_newClock, Ctor_NewOpenWallet, Ctor_NewProcessWager, Ctor_NewReadWallet,
     Ctor_NewReadTransaction, Ctor_NewTokenVerifier, Ctor_newRequestRecorder, Ctor_NewRoute,
     Ctor_newPostgresHealthCheck] @ metrics_Module @ postgres_Module @ httpserver_Module"

definition workers_options :: "ctor list" where
  "workers_options = [Ctor_newLogger, Ctor_newClock, Ctor_NewProcessWager, Ctor_NewProcessInboxMessage,
     Ctor_newReferenceRetryPolicy, Ctor_NewResolvePendingReferences, Ctor_newPublicationPolicy,
     Ctor_NewPublishOutbox, Ctor_newRequestRecorder, Ctor_NewRoute, Ctor_newPostgresHealthCheck,
     Ctor_newEventsQueueHealthCheck, Ctor_newWagerQueueHealthCheck] @
     messaging_Module @ metrics_Module @ postgres_Module @ HealthModule @ worker_Module"

text \<open>\<open>main\<close>: the configuration, and the life cycle Fx itself provides.\<close>

definition api_main :: "ctor list" where
  "api_main = Fx_Lifecycle # Ctor_Load # api_options"

definition workers_main :: "ctor list" where
  "workers_main = Fx_Lifecycle # Ctor_Load # workers_options"

definition invoked :: "ctor list \<Rightarrow> ctor list" where
  "invoked cs = filter (\<lambda>c. gives c = []) cs"

section \<open>Orders of construction\<close>

definition givers :: "ctor list \<Rightarrow> ctor \<Rightarrow> ctor list" where
  "givers cs c = filter (\<lambda>p. \<exists>i \<in> set (takes c). i \<in> set (gives p)) cs"

text \<open>An order in which everything a constructor takes was given before it runs.\<close>

fun built :: "ctor list \<Rightarrow> ctor list \<Rightarrow> ctor list \<Rightarrow> bool" where
  "built cs seen [] \<longleftrightarrow> True"
| "built cs seen (c # order) \<longleftrightarrow>
     c \<in> set cs \<and> c \<notin> set seen \<and> set (givers cs c) \<subseteq> set seen \<and> built cs (c # seen) order"

text \<open>An order Fx may construct a process in: the invoked functions all run, and with them what they need.\<close>

definition construction :: "ctor list \<Rightarrow> ctor list \<Rightarrow> bool" where
  "construction cs order \<longleftrightarrow> built cs [] order \<and> set (invoked cs) \<subseteq> set order"

definition well_wired :: "ctor list \<Rightarrow> bool" where
  "well_wired cs \<longleftrightarrow> distinct cs \<and>
     (\<forall>c \<in> set cs. \<forall>i \<in> set (takes c).
        if i \<in> set groups then (\<exists>p \<in> set cs. i \<in> set (gives p))
        else length (filter (\<lambda>p. i \<in> set (gives p)) cs) = 1)"

lemma built_before:
  "built cs seen (xs @ c # ys) \<Longrightarrow> set (givers cs c) \<subseteq> set seen \<union> set xs"
proof (induction xs arbitrary: seen)
  case (Cons a xs)
  then have "built cs (a # seen) (xs @ c # ys)" by simp
  from Cons.IH [OF this] show ?case by auto
qed simp

lemma built_distinct: "built cs seen order \<Longrightarrow> distinct order \<and> set order \<subseteq> set cs \<and> set order \<inter> set seen = {}"
  by (induction cs seen order rule: built.induct) auto

text \<open>What some constructors need to have run, up to so many steps back.\<close>

fun behind :: "ctor list \<Rightarrow> nat \<Rightarrow> ctor list \<Rightarrow> ctor list" where
  "behind cs 0 front = []"
| "behind cs (Suc n) front =
     (let prior = remdups (concat (map (givers cs) front)) in prior @ behind cs n prior)"

lemma built_prefix:
  assumes "built cs [] (xs @ zs)" and "c \<in> set xs"
  shows "set (givers cs c) \<subseteq> set xs"
proof -
  obtain us vs where xs: "xs = us @ c # vs" using assms(2) by (meson split_list)
  with assms(1) have "built cs [] (us @ c # (vs @ zs))" by simp
  from built_before [OF this] xs show ?thesis by auto
qed

lemma behind_prefix:
  "built cs [] (xs @ zs) \<Longrightarrow> set front \<subseteq> set xs \<Longrightarrow> set (behind cs n front) \<subseteq> set xs"
proof (induction n arbitrary: front)
  case (Suc n)
  let ?prior = "remdups (concat (map (givers cs) front))"
  have "set ?prior \<subseteq> set xs" using built_prefix [OF Suc.prems(1)] Suc.prems(2) by auto
  with Suc.IH [OF Suc.prems(1)] show ?case by (simp add: Let_def)
qed simp

lemma behind_before:
  assumes "built cs [] (xs @ c # ys)"
  shows "set (behind cs n [c]) \<subseteq> set xs"
proof (cases n)
  case (Suc m)
  have "set (remdups (givers cs c)) \<subseteq> set xs" using built_before [OF assms] by simp
  with Suc behind_prefix [OF assms this] show ?thesis by (simp add: Let_def)
qed simp

text \<open>What is taken in a construction is constructed.\<close>

lemma construction_behind:
  assumes "construction cs order"
  shows "set (behind cs n (invoked cs)) \<subseteq> set order"
  using assms behind_prefix [of cs order "[]" "invoked cs" n] by (simp add: construction_def)

section \<open>The two processes are well wired\<close>

definition api_order :: "ctor list" where
  "api_order = [Fx_Lifecycle, Ctor_Load, Ctor_newLogger, Ctor_newClock, Ctor_NewRegistry, Ctor_NewMeterProvider,
     Meter_registerLifecycle, Ctor_NewRoute, Ctor_NewDocsHandler, Ctor_NewPool, Ctor_NewTransactor,
     Ctor_NewWalletRepository, Ctor_NewTransactionRepository, Ctor_NewLedgerRepository, Ctor_NewOutboxRepository,
     Ctor_NewInboxRepository, Ctor_NewOpenWallet, Ctor_NewRecorder, Ctor_NewReadWallet, Ctor_NewWalletHandler,
     Ctor_NewProcessWager, Ctor_NewReadTransaction, Ctor_NewWageringHandler, Ctor_newPostgresHealthCheck,
     Ctor_NewTokenVerifier, Ctor_newRequestRecorder, Ctor_NewHandler, Ctor_NewServer, Server_registerLifecycle]"

definition workers_order :: "ctor list" where
  "workers_order = [Fx_Lifecycle, Ctor_Load, Ctor_newLogger, Ctor_newClock, Ctor_NewRegistry, Ctor_NewMeterProvider,
     Meter_registerLifecycle, Ctor_NewRecorder, Ctor_NewRoute, Ctor_NewPool, Ctor_NewTransactor,
     Ctor_NewWalletRepository, Ctor_NewTransactionRepository, Ctor_NewLedgerRepository, Ctor_NewOutboxRepository,
     Ctor_NewInboxRepository, Ctor_newReferenceRetryPolicy, Ctor_NewResolvePendingReferences, Poll_references,
     Ctor_newPublicationPolicy, Ctor_NewClient, Ctor_NewEventPublisher, Ctor_NewPublishOutbox, Poll_outbox,
     Ctor_NewProcessWager, Ctor_NewProcessInboxMessage, Ctor_NewWagerConsumer, Poll_wagering,
     Ctor_newPostgresHealthCheck, Ctor_newEventsQueueHealthCheck, Ctor_newWagerQueueHealthCheck,
     Ctor_newRequestRecorder, Ctor_NewHealthHandler, Ctor_NewServer, Server_registerLifecycle]"

lemma orders: "construction api_main api_order" "construction workers_main workers_order"
  by code_simp+

lemma wired: "well_wired api_main" "well_wired workers_main"
  by code_simp+

lemma complete: "set api_order = set api_main" "set workers_order = set workers_main"
  by code_simp+

end
