(* ===== verification/Startup.thy ===== *)
theory Startup
  imports Wiring Workers Server Metrics
begin

text \<open>
  What starting and stopping the two processes does: what each constructor refuses, and the hooks
  it appends to the life cycle. The database, the identity provider, the queue service and the
  network are outside (\<open>outside\<close>); running the hooks in the order they were appended is left to Fx.
\<close>

section \<open>What is outside\<close>

text \<open>The answers of the libraries and services. An identity provider is known by a name it was found under.\<close>

record outside =
  out_ParseConfig :: "string \<Rightarrow> err option"
  out_NewWithConfig :: "string \<Rightarrow> err option"
  out_Ping :: "err option"
  out_LoadDefaultConfig :: "string \<Rightarrow> err option"
  out_GetQueueUrl :: "string \<Rightarrow> err + string"
  out_GetQueueAttributes :: "string \<Rightarrow> err option"
  out_NewProvider :: "string \<Rightarrow> string \<Rightarrow> err + string"
  out_Issuer :: "string \<Rightarrow> err + string"
  out_Verifier :: "string \<Rightarrow> string \<Rightarrow> string \<Rightarrow> err + string"
  out_Exporter :: "err option"
  out_Instrument :: "string \<Rightarrow> err option"
  out_Listen :: "string \<Rightarrow> err option"
  out_ServerShutdown :: "err option"
  out_MeterShutdown :: "err option"
  out_StopExpired :: "ctor \<Rightarrow> bool"

section \<open>messaging/publisher.go\<close>

record EventPublisher =
  ep_queueName :: string
  ep_queueURL :: string

definition NewEventPublisher :: "Config \<Rightarrow> EventPublisher" where
  "NewEventPublisher cfg = \<lparr>ep_queueName = cfg_EventsQueueName cfg, ep_queueURL = ''''\<rparr>"

definition publisher_OnStart :: "(string \<Rightarrow> err + string) \<Rightarrow> Config \<Rightarrow> EventPublisher \<Rightarrow> err + EventPublisher" where
  "publisher_OnStart getQueueUrl cfg publisher =
     (case getQueueUrl (cfg_EventsQueueName cfg) of
        Inl e \<Rightarrow> Inl (Wrapped [e]) | Inr url \<Rightarrow> Inr (publisher\<lparr>ep_queueURL := url\<rparr>))"

definition publisher_Check :: "(string \<Rightarrow> err option) \<Rightarrow> EventPublisher \<Rightarrow> err option" where
  "publisher_Check getQueueAttributes p = getQueueAttributes (ep_queueURL p)"

definition consumer_Check :: "(string \<Rightarrow> err option) \<Rightarrow> WagerConsumer \<Rightarrow> err option" where
  "consumer_Check getQueueAttributes c = getQueueAttributes (wc_queueURL c)"

text \<open>The endpoint a client is pointed at, absent for the regular ones.\<close>

definition NewClient :: "outside \<Rightarrow> Config \<Rightarrow> err + string option" where
  "NewClient out cfg =
     (case out_LoadDefaultConfig out (cfg_AWSRegion cfg) of
        Some e \<Rightarrow> Inl (Wrapped [e])
      | None \<Rightarrow> Inr (if cfg_AWSEndpointURL cfg \<noteq> '''' then Some (cfg_AWSEndpointURL cfg) else None))"

section \<open>auth/verifier.go\<close>

definition identityProviderTimeout :: duration where "identityProviderTimeout = 5 * Second"

text \<open>The hook of \<open>NewTokenVerifier\<close>: what tokens are verified with, once the provider was discovered.\<close>

definition verifier_OnStart :: "outside \<Rightarrow> Config \<Rightarrow> err + (string \<Rightarrow> err + string)" where
  "verifier_OnStart out cfg =
     (case out_NewProvider out (cfg_OIDCIssuerURL cfg) (cfg_OIDCDiscoveryURL cfg) of
        Inl e \<Rightarrow> Inl (Wrapped [e])
      | Inr provider \<Rightarrow>
          (case out_Issuer out provider of
             Inl e \<Rightarrow> Inl (Wrapped [e])
           | Inr issuer \<Rightarrow>
               if issuer \<noteq> cfg_OIDCIssuerURL cfg then Inl OtherError
               else Inr (out_Verifier out provider (cfg_OIDCAudience cfg))))"

section \<open>postgres/module.go\<close>

definition NewPool :: "outside \<Rightarrow> Config \<Rightarrow> err + unit" where
  "NewPool out cfg =
     (case out_ParseConfig out (cfg_DatabaseURL cfg) of
        Some e \<Rightarrow> Inl (Wrapped [e])
      | None \<Rightarrow>
          (case out_NewWithConfig out (cfg_DatabaseURL cfg) of
             Some e \<Rightarrow> Inl (Wrapped [e]) | None \<Rightarrow> Inr ()))"

definition pool_OnStart :: "outside \<Rightarrow> err + unit" where
  "pool_OnStart out = (case out_Ping out of Some e \<Rightarrow> Inl (Wrapped [e]) | None \<Rightarrow> Inr ())"

section \<open>httpserver/module.go\<close>

record http_Server =
  hs_Addr :: string
  hs_ReadHeaderTimeout :: duration
  hs_ReadTimeout :: duration
  hs_WriteTimeout :: duration
  hs_IdleTimeout :: duration

definition NewServer :: "Config \<Rightarrow> http_Server" where
  "NewServer cfg =
     \<lparr>hs_Addr = '':'' @ cfg_HTTPPort cfg, hs_ReadHeaderTimeout = 5 * Second, hs_ReadTimeout = 10 * Second,
      hs_WriteTimeout = 15 * Second, hs_IdleTimeout = 60 * Second\<rparr>"

definition server_OnStart :: "outside \<Rightarrow> http_Server \<Rightarrow> err + string" where
  "server_OnStart out server =
     (case out_Listen out (hs_Addr server) of Some e \<Rightarrow> Inl (Wrapped [e]) | None \<Rightarrow> Inr (hs_Addr server))"

text \<open>How long a request may take, and the probes of the readiness endpoint.\<close>

definition requestTimeout :: duration where "requestTimeout = 5 * Second"
definition readinessTimeout :: duration where "readinessTimeout = 2 * Second"

section \<open>The processes\<close>

text \<open>What the hooks set up. The pollers that run are known by their functions.\<close>

record process =
  ps_pool :: bool
  ps_publisher :: EventPublisher
  ps_consumer :: WagerConsumer
  ps_verifier :: "(string \<Rightarrow> err + string) option"
  ps_listening :: "string option"
  ps_pollers :: "ctor list"

definition new_process :: "Config \<Rightarrow> process" where
  "new_process cfg =
     \<lparr>ps_pool = False, ps_publisher = NewEventPublisher cfg, ps_consumer = NewWagerConsumer cfg,
      ps_verifier = None, ps_listening = None, ps_pollers = []\<rparr>"

text \<open>\<open>fx.Hook\<close>: a step of the start, which may fail, and a step of the stop, which reports an error.\<close>

record hook =
  on_start :: "process \<Rightarrow> err + process"
  on_stop :: "process \<Rightarrow> err option \<times> process"

definition start_hook :: "(process \<Rightarrow> err + process) \<Rightarrow> hook" where
  "start_hook f = \<lparr>on_start = f, on_stop = (\<lambda>p. (None, p))\<rparr>"

definition pool_hook :: "outside \<Rightarrow> hook" where
  "pool_hook out =
     \<lparr>on_start = (\<lambda>p. and_then (pool_OnStart out) (\<lambda>_. Inr (p\<lparr>ps_pool := True\<rparr>))),
      on_stop = (\<lambda>p. (None, p\<lparr>ps_pool := False\<rparr>))\<rparr>"

definition publisher_hook :: "outside \<Rightarrow> Config \<Rightarrow> hook" where
  "publisher_hook out cfg = start_hook (\<lambda>p.
     and_then (publisher_OnStart (out_GetQueueUrl out) cfg (ps_publisher p)) (\<lambda>q. Inr (p\<lparr>ps_publisher := q\<rparr>)))"

definition consumer_hook :: "outside \<Rightarrow> hook" where
  "consumer_hook out = start_hook (\<lambda>p.
     and_then (consumer_OnStart (out_GetQueueUrl out) (ps_consumer p)) (\<lambda>c. Inr (p\<lparr>ps_consumer := c\<rparr>)))"

definition verifier_hook :: "outside \<Rightarrow> Config \<Rightarrow> hook" where
  "verifier_hook out cfg = start_hook (\<lambda>p.
     and_then (verifier_OnStart out cfg) (\<lambda>v. Inr (p\<lparr>ps_verifier := Some v\<rparr>)))"

definition metrics_registerLifecycle :: "outside \<Rightarrow> hook" where
  "metrics_registerLifecycle out = \<lparr>on_start = Inr, on_stop = (\<lambda>p. (out_MeterShutdown out, p))\<rparr>"

definition server_registerLifecycle :: "outside \<Rightarrow> Config \<Rightarrow> hook" where
  "server_registerLifecycle out cfg =
     \<lparr>on_start = (\<lambda>p. and_then (server_OnStart out (NewServer cfg)) (\<lambda>addr. Inr (p\<lparr>ps_listening := Some addr\<rparr>))),
      on_stop = (\<lambda>p. (out_ServerShutdown out, p\<lparr>ps_listening := None\<rparr>))\<rparr>"

text \<open>
  The hooks of \<open>newPoller\<close>. The stop waits for the round in progress, also when its deadline runs
  out first, which it then reports.
\<close>

definition poller_hook :: "outside \<Rightarrow> ctor \<Rightarrow> hook" where
  "poller_hook out c =
     \<lparr>on_start = (\<lambda>p. Inr (p\<lparr>ps_pollers := c # ps_pollers p\<rparr>)),
      on_stop = (\<lambda>p. (if out_StopExpired out c then Some (Sentinel ErrDeadlineExceeded) else None,
        p\<lparr>ps_pollers := removeAll c (ps_pollers p)\<rparr>))\<rparr>"

text \<open>The hooks a constructor appends to the life cycle, unless it fails.\<close>

definition run_ctor :: "outside \<Rightarrow> Config \<Rightarrow> ctor \<Rightarrow> err + hook list" where
  "run_ctor out cfg c =
     (case c of
        Ctor_NewPool \<Rightarrow> and_then (NewPool out cfg) (\<lambda>_. Inr [pool_hook out])
      | Ctor_NewClient \<Rightarrow> and_then (NewClient out cfg) (\<lambda>_. Inr [])
      | Ctor_NewEventPublisher \<Rightarrow> Inr [publisher_hook out cfg]
      | Ctor_NewWagerConsumer \<Rightarrow> Inr [consumer_hook out]
      | Ctor_NewTokenVerifier \<Rightarrow> Inr [verifier_hook out cfg]
      | Ctor_NewMeterProvider \<Rightarrow> and_then (NewMeterProvider (out_Exporter out)) (\<lambda>_. Inr [])
      | Ctor_NewRecorder \<Rightarrow> and_then (NewRecorder (out_Instrument out)) (\<lambda>_. Inr [])
      | Meter_registerLifecycle \<Rightarrow> Inr [metrics_registerLifecycle out]
      | Server_registerLifecycle \<Rightarrow> Inr [server_registerLifecycle out cfg]
      | Poll_references \<Rightarrow> Inr [poller_hook out Poll_references]
      | Poll_outbox \<Rightarrow> Inr [poller_hook out Poll_outbox]
      | Poll_wagering \<Rightarrow> Inr [poller_hook out Poll_wagering]
      | _ \<Rightarrow> Inr [])"

definition hooks_of :: "outside \<Rightarrow> Config \<Rightarrow> ctor list \<Rightarrow> err + hook list" where
  "hooks_of out cfg order = and_then (map_results (run_ctor out cfg) order) (\<lambda>hooks. Inr (concat hooks))"

section \<open>The life cycle\<close>

text \<open>What the code relies on of Fx: hooks start in their order, up to one that fails, and stop in the reverse.\<close>

definition starts_in_order :: "(hook list \<Rightarrow> process \<Rightarrow> err + process) \<Rightarrow> bool" where
  "starts_in_order start \<longleftrightarrow> (\<forall>p. start [] p = Inr p) \<and>
     (\<forall>h hs p e. on_start h p = Inl e \<longrightarrow> start (h # hs) p = Inl e) \<and>
     (\<forall>h hs p p'. on_start h p = Inr p' \<longrightarrow> start (h # hs) p = start hs p')"

definition stops_in_reverse :: "(hook list \<Rightarrow> process \<Rightarrow> process) \<Rightarrow> bool" where
  "stops_in_reverse stop \<longleftrightarrow> (\<forall>p. stop [] p = p) \<and>
     (\<forall>h hs p. stop (hs @ [h]) p = stop hs (snd (on_stop h p)))"

fun run_hooks :: "hook list \<Rightarrow> process \<Rightarrow> err + process" where
  "run_hooks [] p = Inr p"
| "run_hooks (h # hs) p = and_then (on_start h p) (run_hooks hs)"

definition stop_hooks :: "hook list \<Rightarrow> process \<Rightarrow> process" where
  "stop_hooks hs p = foldr (\<lambda>h p. snd (on_stop h p)) hs p"

lemma starts_in_order_run: "starts_in_order start \<Longrightarrow> start hs p = run_hooks hs p"
proof (induction hs arbitrary: p)
  case (Cons h hs)
  then show ?case by (cases "on_start h p") (auto simp: starts_in_order_def)
qed (simp add: starts_in_order_def)

lemma stops_in_reverse_run: "stops_in_reverse stop \<Longrightarrow> stop hs p = stop_hooks hs p"
  by (induction hs arbitrary: p rule: rev_induct) (simp_all add: stops_in_reverse_def stop_hooks_def)

lemma fx_life_cycle: "starts_in_order run_hooks" "stops_in_reverse stop_hooks"
  by (simp_all add: starts_in_order_def stops_in_reverse_def stop_hooks_def)

lemma run_hooks_append: "run_hooks (hs @ ks) p = and_then (run_hooks hs p) (run_hooks ks)"
  by (induction hs arbitrary: p) (auto simp: and_then_def split: sum.splits)

text \<open>A start: the constructors, then the hooks they appended.\<close>

definition launch ::
  "(hook list \<Rightarrow> process \<Rightarrow> err + process) \<Rightarrow> outside \<Rightarrow> Config \<Rightarrow> ctor list \<Rightarrow> err + process" where
  "launch start out cfg order = and_then (hooks_of out cfg order) (\<lambda>hooks. start hooks (new_process cfg))"

end
