(* ===== verification/Lifecycle.thy ===== *)
theory Lifecycle
  imports Startup
begin

text \<open>
  What a start of the two processes sets up, in whatever order their constructors run, when it
  succeeds, and what holds at each of its points and of the stop's.
\<close>

section \<open>What a start sets up\<close>

definition pollers :: "ctor set" where
  "pollers = {Poll_references, Poll_outbox, Poll_wagering}"

text \<open>The process once the constructors of a set have had their hooks run.\<close>

definition set_up :: "outside \<Rightarrow> Config \<Rightarrow> ctor set \<Rightarrow> process \<Rightarrow> bool" where
  "set_up out cfg S p \<longleftrightarrow>
     (ps_pool p \<longleftrightarrow> Ctor_NewPool \<in> S) \<and>
     (if Ctor_NewEventPublisher \<in> S
      then publisher_OnStart (out_GetQueueUrl out) cfg (NewEventPublisher cfg) = Inr (ps_publisher p)
      else ps_publisher p = NewEventPublisher cfg) \<and>
     (if Ctor_NewWagerConsumer \<in> S
      then consumer_OnStart (out_GetQueueUrl out) (NewWagerConsumer cfg) = Inr (ps_consumer p)
      else ps_consumer p = NewWagerConsumer cfg) \<and>
     (if Ctor_NewTokenVerifier \<in> S then \<exists>v. ps_verifier p = Some v \<and> verifier_OnStart out cfg = Inr v
      else ps_verifier p = None) \<and>
     ps_listening p = (if Server_registerLifecycle \<in> S then Some (hs_Addr (NewServer cfg)) else None) \<and>
     set (ps_pollers p) = S \<inter> pollers"

text \<open>Whether a constructor and its hook succeed.\<close>

definition accepted :: "outside \<Rightarrow> Config \<Rightarrow> ctor \<Rightarrow> bool" where
  "accepted out cfg c \<longleftrightarrow>
     (case c of
        Ctor_NewPool \<Rightarrow> ok (NewPool out cfg) \<and> ok (pool_OnStart out)
      | Ctor_NewClient \<Rightarrow> ok (NewClient out cfg)
      | Ctor_NewEventPublisher \<Rightarrow> ok (publisher_OnStart (out_GetQueueUrl out) cfg (NewEventPublisher cfg))
      | Ctor_NewWagerConsumer \<Rightarrow> ok (consumer_OnStart (out_GetQueueUrl out) (NewWagerConsumer cfg))
      | Ctor_NewTokenVerifier \<Rightarrow> ok (verifier_OnStart out cfg)
      | Ctor_NewMeterProvider \<Rightarrow> ok (NewMeterProvider (out_Exporter out))
      | Ctor_NewRecorder \<Rightarrow> ok (NewRecorder (out_Instrument out))
      | Server_registerLifecycle \<Rightarrow> ok (server_OnStart out (NewServer cfg))
      | _ \<Rightarrow> True)"

lemmas hook_defs = run_ctor_def start_hook_def pool_hook_def publisher_hook_def consumer_hook_def verifier_hook_def
  metrics_registerLifecycle_def server_registerLifecycle_def poller_hook_def

lemma set_up_new: "set_up out cfg {} (new_process cfg)"
  by (simp add: set_up_def new_process_def)

text \<open>The constructors whose hooks set something up.\<close>

definition hooked :: "ctor set" where
  "hooked = {Ctor_NewPool, Ctor_NewEventPublisher, Ctor_NewWagerConsumer, Ctor_NewTokenVerifier,
     Server_registerLifecycle} \<union> pollers"

lemma set_up_cong:
  assumes "S \<inter> hooked = T \<inter> hooked"
  shows "set_up out cfg S p \<longleftrightarrow> set_up out cfg T p"
proof -
  have one: "x \<in> S \<longleftrightarrow> x \<in> T" if "x \<in> hooked" for x using assms that by auto
  have "Ctor_NewPool \<in> S \<longleftrightarrow> Ctor_NewPool \<in> T" "Ctor_NewEventPublisher \<in> S \<longleftrightarrow> Ctor_NewEventPublisher \<in> T"
    "Ctor_NewWagerConsumer \<in> S \<longleftrightarrow> Ctor_NewWagerConsumer \<in> T"
    "Ctor_NewTokenVerifier \<in> S \<longleftrightarrow> Ctor_NewTokenVerifier \<in> T"
    "Server_registerLifecycle \<in> S \<longleftrightarrow> Server_registerLifecycle \<in> T"
    by (intro one; simp add: hooked_def)+
  moreover have "S \<inter> pollers = T \<inter> pollers" using assms by (auto simp: hooked_def)
  ultimately show ?thesis by (simp only: set_up_def)
qed

lemma set_up_unhooked: "c \<notin> hooked \<Longrightarrow> set_up out cfg (insert c S) p \<longleftrightarrow> set_up out cfg S p"
  by (rule set_up_cong) simp

lemma run_ctor_unhooked:
  assumes "c \<notin> hooked" and "run_ctor out cfg c = Inr hs"
  shows "run_hooks hs p = Inr p"
  using assms
  by (cases c) (auto simp: hooked_def pollers_def run_ctor_def metrics_registerLifecycle_def)

lemma not_pollers:
  "Ctor_NewPool \<notin> pollers" "Ctor_NewEventPublisher \<notin> pollers" "Ctor_NewWagerConsumer \<notin> pollers"
  "Ctor_NewTokenVerifier \<notin> pollers" "Server_registerLifecycle \<notin> pollers"
  by (simp_all add: pollers_def)

text \<open>A constructor runs its hook once: what it sets up is added.\<close>

lemma ctor_set_up:
  assumes s: "set_up out cfg S p" and new: "c \<notin> S" and c: "run_ctor out cfg c = Inr hs" and run: "run_hooks hs p = Inr p'"
  shows "set_up out cfg (insert c S) p'"
proof (cases "c \<in> hooked")
  case False
  with run_ctor_unhooked [OF False c, of p] run s show ?thesis by (simp add: set_up_unhooked)
next
  case True
  then consider "c = Ctor_NewPool" | "c = Ctor_NewEventPublisher" | "c = Ctor_NewWagerConsumer"
    | "c = Ctor_NewTokenVerifier" | "c = Server_registerLifecycle" | "c \<in> pollers"
    by (auto simp: hooked_def)
  then show ?thesis
  proof cases
    case 1
    with c have "hs = [pool_hook out]" by (auto simp: run_ctor_def)
    with run have "p' = p\<lparr>ps_pool := True\<rparr>" by (auto simp: pool_hook_def)
    with s 1 show ?thesis by (simp add: set_up_def not_pollers)
  next
    case 2
    with c run obtain q where "publisher_OnStart (out_GetQueueUrl out) cfg (ps_publisher p) = Inr q"
      "p' = p\<lparr>ps_publisher := q\<rparr>" by (auto simp: run_ctor_def publisher_hook_def start_hook_def)
    with s new 2 show ?thesis by (simp add: set_up_def not_pollers)
  next
    case 3
    with c run obtain q where "consumer_OnStart (out_GetQueueUrl out) (ps_consumer p) = Inr q"
      "p' = p\<lparr>ps_consumer := q\<rparr>" by (auto simp: run_ctor_def consumer_hook_def start_hook_def)
    with s new 3 show ?thesis by (simp add: set_up_def not_pollers)
  next
    case 4
    with c run obtain v where "verifier_OnStart out cfg = Inr v" "p' = p\<lparr>ps_verifier := Some v\<rparr>"
      by (auto simp: run_ctor_def verifier_hook_def start_hook_def)
    with s new 4 show ?thesis by (simp add: set_up_def not_pollers)
  next
    case 5
    with c run have "p' = p\<lparr>ps_listening := Some (hs_Addr (NewServer cfg))\<rparr>"
      by (auto simp: run_ctor_def server_registerLifecycle_def server_OnStart_def split: option.splits)
    with s new 5 show ?thesis by (simp add: set_up_def not_pollers)
  next
    case 6
    then have "hs = [poller_hook out c]" using c by (auto simp: pollers_def run_ctor_def)
    with run have "p' = p\<lparr>ps_pollers := c # ps_pollers p\<rparr>" by (simp add: poller_hook_def)
    moreover have "x \<in> insert c S \<longleftrightarrow> x \<in> S" if "x \<notin> pollers" for x using 6 that by auto
    moreover from this have "Ctor_NewPool \<in> insert c S \<longleftrightarrow> Ctor_NewPool \<in> S"
      "Ctor_NewEventPublisher \<in> insert c S \<longleftrightarrow> Ctor_NewEventPublisher \<in> S"
      "Ctor_NewWagerConsumer \<in> insert c S \<longleftrightarrow> Ctor_NewWagerConsumer \<in> S"
      "Ctor_NewTokenVerifier \<in> insert c S \<longleftrightarrow> Ctor_NewTokenVerifier \<in> S"
      "Server_registerLifecycle \<in> insert c S \<longleftrightarrow> Server_registerLifecycle \<in> S"
      by (simp_all add: pollers_def)
    ultimately show ?thesis using s 6 by (simp only: set_up_def) simp
  qed
qed

lemma hooks_of_simps [simp]:
  "hooks_of out cfg [] = Inr []"
  "hooks_of out cfg (c # cs) =
     and_then (run_ctor out cfg c) (\<lambda>hs. and_then (hooks_of out cfg cs) (\<lambda>ks. Inr (hs @ ks)))"
  by (simp_all add: hooks_of_def and_then_def split: sum.splits)

lemma order_set_up:
  "set_up out cfg S p \<Longrightarrow> distinct order \<Longrightarrow> S \<inter> set order = {} \<Longrightarrow> hooks_of out cfg order = Inr hs \<Longrightarrow>
     run_hooks hs p = Inr p' \<Longrightarrow> set_up out cfg (S \<union> set order) p'"
proof (induction order arbitrary: S p hs)
  case (Cons c order)
  from Cons.prems(4) obtain hs1 hs2 where h: "run_ctor out cfg c = Inr hs1" "hooks_of out cfg order = Inr hs2" "hs = hs1 @ hs2"
    by auto
  with Cons.prems(5) obtain q where q: "run_hooks hs1 p = Inr q" "run_hooks hs2 q = Inr p'"
    by (auto simp: run_hooks_append)
  have "set_up out cfg (insert c S) q" using ctor_set_up [OF Cons.prems(1) _ h(1) q(1)] Cons.prems(3) by simp
  from Cons.IH [OF this _ _ h(2) q(2)] Cons.prems(2,3) show ?case by auto
qed simp

lemma hooks_of_append:
  "hooks_of out cfg (xs @ ys) = Inr hooks \<longleftrightarrow>
     (\<exists>hs ks. hooks_of out cfg xs = Inr hs \<and> hooks_of out cfg ys = Inr ks \<and> hooks = hs @ ks)"
  by (induction xs arbitrary: hooks) (auto simp: and_then_Inr_iff)

text \<open>Conversely, where every constructor and its hook succeed, so does the start.\<close>

lemma ctor_accepted:
  assumes "set_up out cfg S p" and "c \<notin> S"
  shows "(\<exists>hs p'. run_ctor out cfg c = Inr hs \<and> run_hooks hs p = Inr p') \<longleftrightarrow> accepted out cfg c"
proof -
  have "c = Ctor_NewEventPublisher \<Longrightarrow> ps_publisher p = NewEventPublisher cfg"
    "c = Ctor_NewWagerConsumer \<Longrightarrow> ps_consumer p = NewWagerConsumer cfg"
    using assms by (auto simp: set_up_def)
  then show ?thesis
    by (cases c) (auto simp: run_ctor_def accepted_def pool_hook_def publisher_hook_def consumer_hook_def verifier_hook_def
      start_hook_def metrics_registerLifecycle_def server_registerLifecycle_def poller_hook_def and_then_def
      split: sum.splits)
qed

lemma order_accepted:
  "set_up out cfg S p \<Longrightarrow> distinct order \<Longrightarrow> S \<inter> set order = {} \<Longrightarrow>
     (\<exists>hs p'. hooks_of out cfg order = Inr hs \<and> run_hooks hs p = Inr p') \<longleftrightarrow> (\<forall>c \<in> set order. accepted out cfg c)"
proof (induction order arbitrary: S p)
  case (Cons c order)
  have c: "c \<notin> S" using Cons.prems(3) by simp
  have "(\<exists>hs p'. hooks_of out cfg order = Inr hs \<and> run_hooks hs q = Inr p') \<longleftrightarrow> (\<forall>d \<in> set order. accepted out cfg d)"
    if "run_ctor out cfg c = Inr ks" "run_hooks ks p = Inr q" for ks q
    using Cons.IH [OF ctor_set_up [OF Cons.prems(1) c that]] Cons.prems(2,3) by simp
  note rest = this
  show ?case
  proof
    assume "\<exists>hs p'. hooks_of out cfg (c # order) = Inr hs \<and> run_hooks hs p = Inr p'"
    then obtain ks hs q p' where "run_ctor out cfg c = Inr ks" "run_hooks ks p = Inr q"
      "hooks_of out cfg order = Inr hs" "run_hooks hs q = Inr p'"
      by (auto simp: run_hooks_append)
    moreover from this rest have "\<forall>d \<in> set order. accepted out cfg d" by blast
    ultimately show "\<forall>d \<in> set (c # order). accepted out cfg d" using ctor_accepted [OF Cons.prems(1) c] by auto
  next
    assume all: "\<forall>d \<in> set (c # order). accepted out cfg d"
    then obtain ks q where k: "run_ctor out cfg c = Inr ks" "run_hooks ks p = Inr q"
      using ctor_accepted [OF Cons.prems(1) c] by auto
    from all rest [OF k] obtain hs p' where "hooks_of out cfg order = Inr hs" "run_hooks hs q = Inr p'"
      by (metis list.set_intros(2))
    with k have "hooks_of out cfg (c # order) = Inr (ks @ hs) \<and> run_hooks (ks @ hs) p = Inr p'"
      by (simp add: run_hooks_append)
    then show "\<exists>hs p'. hooks_of out cfg (c # order) = Inr hs \<and> run_hooks hs p = Inr p'" by blast
  qed
qed auto

lemma launched:
  assumes "starts_in_order start" and "distinct order"
  shows "(\<exists>p. launch start out cfg order = Inr p) \<longleftrightarrow> (\<forall>c \<in> set order. accepted out cfg c)"
    and "launch start out cfg order = Inr p \<Longrightarrow> set_up out cfg (set order) p"
proof -
  show "(\<exists>p. launch start out cfg order = Inr p) \<longleftrightarrow> (\<forall>c \<in> set order. accepted out cfg c)"
    unfolding launch_def starts_in_order_run [OF assms(1)] and_then_Inr_iff
    using order_accepted [OF set_up_new assms(2)] by blast
  show "set_up out cfg (set order) p" if "launch start out cfg order = Inr p"
    using order_set_up [OF set_up_new assms(2)] that by (auto simp: launch_def starts_in_order_run [OF assms(1)])
qed

section \<open>Which constructors run\<close>

text \<open>The constructors that can fail, or whose hooks can; those a process needs, in its order.\<close>

definition fallible :: "ctor list" where
  "fallible = [Ctor_NewPool, Ctor_NewMeterProvider, Ctor_NewRecorder, Ctor_NewClient, Ctor_NewEventPublisher,
     Ctor_NewWagerConsumer, Ctor_NewTokenVerifier, Server_registerLifecycle]"

lemma accepted_rest: "c \<notin> set fallible \<Longrightarrow> accepted out cfg c"
  by (cases c) (simp_all add: fallible_def accepted_def)

text \<open>Seven steps back are enough: the longest way from an invoked function to what it needs has seven.\<close>

definition run_of :: "ctor list \<Rightarrow> ctor list" where
  "run_of cs = invoked cs @ behind cs 7 (invoked cs)"

lemma construction_run:
  assumes "construction cs order"
  shows "distinct order" and "set (run_of cs) \<subseteq> set order" and "set order \<subseteq> set cs"
  using assms built_distinct [of cs "[]" order] construction_behind [OF assms, of 7]
  by (auto simp: construction_def run_of_def)

lemma runs:
  "filter (\<lambda>c. c \<in> set fallible) api_main =
     [Ctor_NewTokenVerifier, Ctor_NewMeterProvider, Ctor_NewRecorder, Ctor_NewPool, Server_registerLifecycle]"
  "filter (\<lambda>c. c \<in> set fallible) workers_main =
     [Ctor_NewClient, Ctor_NewEventPublisher, Ctor_NewWagerConsumer, Ctor_NewMeterProvider, Ctor_NewRecorder, Ctor_NewPool,
      Server_registerLifecycle]"
  "list_all (\<lambda>c. c \<in> set (run_of api_main)) (filter (\<lambda>c. c \<in> set fallible) api_main)"
  "list_all (\<lambda>c. c \<in> set (run_of workers_main)) (filter (\<lambda>c. c \<in> set fallible) workers_main @ worker_Module)"
  "list_all (\<lambda>c. c \<notin> set api_main) worker_Module"
  by code_simp+

text \<open>When a process starts, in every order it may be constructed in.\<close>

lemma started:
  assumes start: "starts_in_order start" and cs: "construction cs order"
    and needed: "set (filter (\<lambda>c. c \<in> set fallible) cs) \<subseteq> set (run_of cs)"
  shows "(\<exists>p. launch start out cfg order = Inr p) \<longleftrightarrow>
    (\<forall>c \<in> set (filter (\<lambda>c. c \<in> set fallible) cs). accepted out cfg c)"
    and "launch start out cfg order = Inr p \<Longrightarrow> set_up out cfg (set order) p"
proof -
  note run = construction_run [OF cs]
  have "c \<in> set order \<longleftrightarrow> c \<in> set cs" if "c \<in> set fallible" for c using run needed that by auto
  then have "(\<forall>c \<in> set order. accepted out cfg c) \<longleftrightarrow>
      (\<forall>c \<in> set (filter (\<lambda>c. c \<in> set fallible) cs). accepted out cfg c)"
    using accepted_rest by simp blast
  with launched(1) [OF start run(1)] show "(\<exists>p. launch start out cfg order = Inr p) \<longleftrightarrow>
      (\<forall>c \<in> set (filter (\<lambda>c. c \<in> set fallible) cs). accepted out cfg c)" by simp
  show "launch start out cfg order = Inr p \<Longrightarrow> set_up out cfg (set order) p" by (rule launched(2) [OF start run(1)])
qed

section \<open>The two starts\<close>

definition api_ready :: "outside \<Rightarrow> Config \<Rightarrow> bool" where
  "api_ready out cfg \<longleftrightarrow> ok (NewPool out cfg) \<and> ok (pool_OnStart out) \<and> ok (NewMeterProvider (out_Exporter out)) \<and>
     ok (NewRecorder (out_Instrument out)) \<and> ok (verifier_OnStart out cfg) \<and> ok (server_OnStart out (NewServer cfg))"

definition workers_ready :: "outside \<Rightarrow> Config \<Rightarrow> bool" where
  "workers_ready out cfg \<longleftrightarrow> ok (NewPool out cfg) \<and> ok (pool_OnStart out) \<and> ok (NewMeterProvider (out_Exporter out)) \<and>
     ok (NewRecorder (out_Instrument out)) \<and> ok (NewClient out cfg) \<and>
     ok (publisher_OnStart (out_GetQueueUrl out) cfg (NewEventPublisher cfg)) \<and>
     ok (consumer_OnStart (out_GetQueueUrl out) (NewWagerConsumer cfg)) \<and> ok (server_OnStart out (NewServer cfg))"

lemma api_started:
  assumes "starts_in_order start" and "construction api_main order"
  shows "(\<exists>p. launch start out cfg order = Inr p) \<longleftrightarrow> api_ready out cfg"
    and "launch start out cfg order = Inr p \<Longrightarrow> ps_pool p \<and> ps_pollers p = [] \<and>
      ps_listening p = Some (hs_Addr (NewServer cfg)) \<and> (\<exists>v. ps_verifier p = Some v \<and> verifier_OnStart out cfg = Inr v)"
proof -
  have needed: "set (filter (\<lambda>c. c \<in> set fallible) api_main) \<subseteq> set (run_of api_main)"
    using runs(3) by (auto simp: list_all_iff)
  note st = started [OF assms needed]
  show "(\<exists>p. launch start out cfg order = Inr p) \<longleftrightarrow> api_ready out cfg"
    unfolding st(1) runs by (auto simp: accepted_def api_ready_def)
  have mem: "Ctor_NewPool \<in> set order" "Ctor_NewTokenVerifier \<in> set order" "Server_registerLifecycle \<in> set order"
    "set order \<inter> pollers = {}"
    using construction_run [OF assms(2)] needed runs(5) unfolding runs
    by (auto simp: pollers_def worker_Module_def)
  show "ps_pool p \<and> ps_pollers p = [] \<and>
      ps_listening p = Some (hs_Addr (NewServer cfg)) \<and> (\<exists>v. ps_verifier p = Some v \<and> verifier_OnStart out cfg = Inr v)"
    if "launch start out cfg order = Inr p"
    using st(2) [OF that] mem by (simp add: set_up_def)
qed

lemma workers_started:
  assumes "starts_in_order start" and "construction workers_main order"
  shows "(\<exists>p. launch start out cfg order = Inr p) \<longleftrightarrow> workers_ready out cfg"
    and "launch start out cfg order = Inr p \<Longrightarrow> ps_pool p \<and> set (ps_pollers p) = pollers \<and>
      ps_listening p = Some (hs_Addr (NewServer cfg)) \<and>
      publisher_OnStart (out_GetQueueUrl out) cfg (NewEventPublisher cfg) = Inr (ps_publisher p) \<and>
      consumer_OnStart (out_GetQueueUrl out) (NewWagerConsumer cfg) = Inr (ps_consumer p)"
proof -
  have all: "set (filter (\<lambda>c. c \<in> set fallible) workers_main @ worker_Module) \<subseteq> set (run_of workers_main)"
    using runs(4) by (auto simp: list_all_iff)
  then have needed: "set (filter (\<lambda>c. c \<in> set fallible) workers_main) \<subseteq> set (run_of workers_main)" by auto
  note st = started [OF assms needed]
  show "(\<exists>p. launch start out cfg order = Inr p) \<longleftrightarrow> workers_ready out cfg"
    unfolding st(1) runs by (auto simp: accepted_def workers_ready_def)
  have mem: "Ctor_NewPool \<in> set order" "Ctor_NewEventPublisher \<in> set order" "Ctor_NewWagerConsumer \<in> set order"
    "Server_registerLifecycle \<in> set order" "pollers \<subseteq> set order"
    using construction_run(2) [OF assms(2)] all unfolding runs
    by (auto simp: pollers_def worker_Module_def)
  show "ps_pool p \<and> set (ps_pollers p) = pollers \<and>
      ps_listening p = Some (hs_Addr (NewServer cfg)) \<and>
      publisher_OnStart (out_GetQueueUrl out) cfg (NewEventPublisher cfg) = Inr (ps_publisher p) \<and>
      consumer_OnStart (out_GetQueueUrl out) (NewWagerConsumer cfg) = Inr (ps_consumer p)"
    if "launch start out cfg order = Inr p"
    using st(2) [OF that] mem by (simp add: set_up_def Int_absorb1)
qed

section \<open>What runs has what it needs\<close>

definition in_use :: "process \<Rightarrow> bool" where
  "in_use p \<longleftrightarrow> ps_pollers p \<noteq> [] \<or> ps_listening p \<noteq> None"

text \<open>
  The pool is open while anything runs, a poller has its queues resolved, and the API answers no
  request before it can verify a token.
\<close>

definition prepared :: "outside \<Rightarrow> Config \<Rightarrow> ctor list \<Rightarrow> process \<Rightarrow> bool" where
  "prepared out cfg cs p \<longleftrightarrow> (in_use p \<longrightarrow> ps_pool p) \<and>
     (Poll_outbox \<in> set (ps_pollers p) \<longrightarrow>
        publisher_OnStart (out_GetQueueUrl out) cfg (NewEventPublisher cfg) = Inr (ps_publisher p)) \<and>
     (Poll_wagering \<in> set (ps_pollers p) \<longrightarrow>
        consumer_OnStart (out_GetQueueUrl out) (NewWagerConsumer cfg) = Inr (ps_consumer p)) \<and>
     (cs = api_main \<and> ps_listening p \<noteq> None \<longrightarrow> ps_verifier p \<noteq> None)"

lemma stop_hooks_append: "stop_hooks (hs @ ks) p = stop_hooks hs (stop_hooks ks p)"
  by (simp add: stop_hooks_def)

text \<open>What stopping undoes, and what it leaves.\<close>

definition undone :: "ctor set \<Rightarrow> process \<Rightarrow> process \<Rightarrow> bool" where
  "undone S p q \<longleftrightarrow> (ps_pool q \<longleftrightarrow> ps_pool p \<and> Ctor_NewPool \<notin> S) \<and>
     ps_listening q = (if Server_registerLifecycle \<in> S then None else ps_listening p) \<and>
     set (ps_pollers q) = set (ps_pollers p) - S \<inter> pollers \<and> ps_publisher q = ps_publisher p \<and>
     ps_consumer q = ps_consumer p \<and> ps_verifier q = ps_verifier p"

lemma undone_ctor: "run_ctor out cfg c = Inr hs \<Longrightarrow> undone {c} p (stop_hooks hs p)"
  by (cases c)
    (auto simp: run_ctor_def undone_def stop_hooks_def pollers_def start_hook_def pool_hook_def publisher_hook_def
      consumer_hook_def verifier_hook_def metrics_registerLifecycle_def server_registerLifecycle_def poller_hook_def)

lemma undone_order: "hooks_of out cfg ys = Inr ks \<Longrightarrow> undone (set ys) p (stop_hooks ks p)"
proof (induction ys arbitrary: ks)
  case (Cons c ys)
  then obtain hs1 hs2 where h: "run_ctor out cfg c = Inr hs1" "hooks_of out cfg ys = Inr hs2" "ks = hs1 @ hs2" by auto
  have "undone (set ys) p (stop_hooks hs2 p)" using Cons.IH [OF h(2)] .
  moreover have "undone {c} (stop_hooks hs2 p) (stop_hooks ks p)"
    using undone_ctor [OF h(1)] by (simp add: h(3) stop_hooks_append)
  ultimately show ?case by (auto simp: undone_def split: if_splits)
qed (simp add: undone_def stop_hooks_def)

lemma behind_facts:
  "list_all (\<lambda>c. c \<in> set (behind api_main 7 [Server_registerLifecycle])) [Ctor_NewPool, Ctor_NewTokenVerifier]"
  "Ctor_NewPool \<in> set (behind workers_main 7 [Server_registerLifecycle])"
  "Ctor_NewPool \<in> set (behind workers_main 7 [Poll_references])"
  "list_all (\<lambda>c. c \<in> set (behind workers_main 7 [Poll_outbox])) [Ctor_NewPool, Ctor_NewEventPublisher]"
  "list_all (\<lambda>c. c \<in> set (behind workers_main 7 [Poll_wagering])) [Ctor_NewPool, Ctor_NewWagerConsumer]"
  "list_all (\<lambda>c. c \<notin> set api_main) [Poll_references, Poll_outbox, Poll_wagering]"
  by code_simp+

text \<open>A prefix of an order holds what its members need.\<close>

lemma prefix_needs:
  assumes "construction cs (xs @ zs)" and "cs \<in> {api_main, workers_main}"
  shows "Server_registerLifecycle \<in> set xs \<Longrightarrow> Ctor_NewPool \<in> set xs"
    and "c \<in> set xs \<Longrightarrow> c \<in> pollers \<Longrightarrow> Ctor_NewPool \<in> set xs"
    and "Poll_outbox \<in> set xs \<Longrightarrow> Ctor_NewEventPublisher \<in> set xs"
    and "Poll_wagering \<in> set xs \<Longrightarrow> Ctor_NewWagerConsumer \<in> set xs"
    and "cs = api_main \<Longrightarrow> Server_registerLifecycle \<in> set xs \<Longrightarrow> Ctor_NewTokenVerifier \<in> set xs"
proof -
  have built: "built cs [] (xs @ zs)" using assms(1) by (simp add: construction_def)
  have before: "set (behind cs 7 [c]) \<subseteq> set xs" if "c \<in> set xs" for c
    using behind_prefix [OF built, of "[c]" 7] that by simp
  have known: "c \<in> set cs" if "c \<in> set xs" for c using built_distinct [OF built] that by auto
  show "Ctor_NewPool \<in> set xs" if "Server_registerLifecycle \<in> set xs"
    using before [OF that] assms(2) behind_facts(1,2) by (auto simp: list_all_iff)
  show "Ctor_NewPool \<in> set xs" if "c \<in> set xs" "c \<in> pollers"
    using before [OF that(1)] known [OF that(1)] that(2) assms(2) behind_facts(3-6)
    by (auto simp: pollers_def list_all_iff)
  show "Ctor_NewEventPublisher \<in> set xs" if "Poll_outbox \<in> set xs"
    using before [OF that] known [OF that] assms(2) behind_facts(4,6) by (auto simp: list_all_iff)
  show "Ctor_NewWagerConsumer \<in> set xs" if "Poll_wagering \<in> set xs"
    using before [OF that] known [OF that] assms(2) behind_facts(5,6) by (auto simp: list_all_iff)
  show "Ctor_NewTokenVerifier \<in> set xs" if "cs = api_main" "Server_registerLifecycle \<in> set xs"
    using before [OF that(2)] that(1) behind_facts(1) by (auto simp: list_all_iff)
qed

text \<open>
  A start that came as far as \<open>xs @ ys\<close>, of which \<open>ys\<close> was stopped again: without \<open>ys\<close> a point of the
  start, and otherwise one of the stop, or of what undoes a start that failed.
\<close>

lemma life_prepared:
  assumes fx: "starts_in_order start" "stops_in_reverse stop"
    and cs: "construction cs (xs @ ys @ zs)" "cs \<in> {api_main, workers_main}"
    and hooks: "hooks_of out cfg xs = Inr hs" "hooks_of out cfg ys = Inr ks"
    and run: "start (hs @ ks) (new_process cfg) = Inr p"
  shows "prepared out cfg cs (stop ks p)"
proof -
  have dist: "distinct (xs @ ys)" using construction_run(1) [OF cs(1)] by auto
  have "hooks_of out cfg (xs @ ys) = Inr (hs @ ks)"
    using hooks by (simp add: hooks_of_append)
  with order_set_up [OF set_up_new dist] run have up: "set_up out cfg (set xs \<union> set ys) p"
    by (simp add: starts_in_order_run [OF fx(1)])
  have un: "undone (set ys) p (stop ks p)"
    using undone_order [OF hooks(2)] by (simp add: stops_in_reverse_run [OF fx(2)])
  have only: "x \<in> set ys \<Longrightarrow> x \<notin> set xs" for x using dist by auto
  note needs = prefix_needs [OF cs]
  have state: "ps_pool p \<longleftrightarrow> Ctor_NewPool \<in> set xs \<union> set ys"
    "ps_listening p \<noteq> None \<longleftrightarrow> Server_registerLifecycle \<in> set xs \<union> set ys"
    "set (ps_pollers p) = (set xs \<union> set ys) \<inter> pollers"
    using up by (simp_all add: set_up_def)
  have "ps_pool (stop ks p) \<longleftrightarrow> Ctor_NewPool \<in> set xs"
    using un state(1) only by (simp add: undone_def) blast
  moreover have "ps_listening (stop ks p) \<noteq> None \<longleftrightarrow> Server_registerLifecycle \<in> set xs"
    using un state(2) only [of Server_registerLifecycle] by (simp add: undone_def)
  moreover have pol: "set (ps_pollers (stop ks p)) = set xs \<inter> pollers"
    using un state(3) only by (simp add: undone_def) blast
  moreover have "ps_pollers (stop ks p) \<noteq> [] \<Longrightarrow> \<exists>c \<in> set xs. c \<in> pollers" using pol by (metis IntE last_in_set)
  moreover have "Ctor_NewEventPublisher \<in> set xs \<Longrightarrow>
      publisher_OnStart (out_GetQueueUrl out) cfg (NewEventPublisher cfg) = Inr (ps_publisher (stop ks p))"
    using up un by (simp add: set_up_def undone_def)
  moreover have "Ctor_NewWagerConsumer \<in> set xs \<Longrightarrow>
      consumer_OnStart (out_GetQueueUrl out) (NewWagerConsumer cfg) = Inr (ps_consumer (stop ks p))"
    using up un by (simp add: set_up_def undone_def)
  moreover have "Ctor_NewTokenVerifier \<in> set xs \<Longrightarrow> ps_verifier (stop ks p) \<noteq> None"
    using up un by (simp add: set_up_def undone_def) blast
  ultimately show ?thesis using needs unfolding prepared_def in_use_def by (metis IntD1)
qed

text \<open>
  Where the two queues of the consumer have one name, the start resolves the address of the dead
  letters only, and the consumer receives from an empty address.
\<close>

lemma consumer_started:
  assumes "consumer_OnStart getQueueUrl (NewWagerConsumer cfg) = Inr c"
  shows "getQueueUrl (cfg_WagerDeadLetterQueueName cfg) = Inr (wc_deadLetterURL c)"
    and "if cfg_WagerQueueName cfg = cfg_WagerDeadLetterQueueName cfg then wc_queueURL c = ''''
      else getQueueUrl (cfg_WagerQueueName cfg) = Inr (wc_queueURL c)"
  using assms by (auto simp: consumer_OnStart_def NewWagerConsumer_def resolve_queue_def split: sum.splits if_splits)

lemma publisher_started:
  "publisher_OnStart getQueueUrl cfg (NewEventPublisher cfg) = Inr q \<Longrightarrow>
     getQueueUrl (cfg_EventsQueueName cfg) = Inr (ep_queueURL q)"
  by (auto simp: publisher_OnStart_def split: sum.splits)

text \<open>A request is answered before the server would cut its connection.\<close>

lemma timeouts_in_order:
  "sint readinessTimeout < sint requestTimeout \<and> sint requestTimeout < sint (hs_WriteTimeout (NewServer cfg))"
  by (simp add: readinessTimeout_def requestTimeout_def NewServer_def Second_def Millisecond_def)

section \<open>The processes once started\<close>

definition api_serving :: "outside \<Rightarrow> Config \<Rightarrow> process \<Rightarrow> bool" where
  "api_serving out cfg p \<longleftrightarrow> ps_pool p \<and> out_Ping out = None \<and> ps_listening p = Some ('':'' @ cfg_HTTPPort cfg) \<and>
     (\<exists>provider. out_NewProvider out (cfg_OIDCIssuerURL cfg) (cfg_OIDCDiscoveryURL cfg) = Inr provider \<and>
        out_Issuer out provider = Inr (cfg_OIDCIssuerURL cfg) \<and>
        ps_verifier p = Some (out_Verifier out provider (cfg_OIDCAudience cfg)))"

definition workers_running :: "outside \<Rightarrow> Config \<Rightarrow> process \<Rightarrow> bool" where
  "workers_running out cfg p \<longleftrightarrow> ps_pool p \<and> out_Ping out = None \<and> ps_listening p = Some ('':'' @ cfg_HTTPPort cfg) \<and>
     set (ps_pollers p) = pollers \<and> out_GetQueueUrl out (cfg_EventsQueueName cfg) = Inr (ep_queueURL (ps_publisher p)) \<and>
     out_GetQueueUrl out (cfg_WagerDeadLetterQueueName cfg) = Inr (wc_deadLetterURL (ps_consumer p)) \<and>
     (if cfg_WagerQueueName cfg = cfg_WagerDeadLetterQueueName cfg then wc_queueURL (ps_consumer p) = ''''
      else out_GetQueueUrl out (cfg_WagerQueueName cfg) = Inr (wc_queueURL (ps_consumer p)))"

lemma launched_serving:
  assumes "starts_in_order start" and "construction api_main order" and "launch start out cfg order = Inr p"
  shows "api_serving out cfg p"
proof -
  note st = api_started(2) [OF assms]
  have "ok (pool_OnStart out)" using api_started(1) [OF assms(1,2)] assms(3) by (auto simp: api_ready_def)
  with st show ?thesis
    by (auto simp: api_serving_def NewServer_def verifier_OnStart_def pool_OnStart_def split: sum.splits option.splits if_splits)
qed

lemma launched_running:
  assumes "starts_in_order start" and "construction workers_main order" and "launch start out cfg order = Inr p"
  shows "workers_running out cfg p"
proof -
  note st = workers_started(2) [OF assms]
  have "ok (pool_OnStart out)" using workers_started(1) [OF assms(1,2)] assms(3) by (auto simp: workers_ready_def)
  then show ?thesis
    using st publisher_started [of "out_GetQueueUrl out" cfg "ps_publisher p"]
      consumer_started [of "out_GetQueueUrl out" cfg "ps_consumer p"]
    by (auto simp: workers_running_def NewServer_def pool_OnStart_def split: option.splits)
qed

text \<open>Everything outside answers well.\<close>

definition all_well :: outside where
  "all_well = \<lparr>out_ParseConfig = (\<lambda>_. None), out_NewWithConfig = (\<lambda>_. None), out_Ping = None,
     out_LoadDefaultConfig = (\<lambda>_. None), out_GetQueueUrl = (\<lambda>name. Inr (''https://'' @ name)),
     out_GetQueueAttributes = (\<lambda>_. None), out_NewProvider = (\<lambda>issuer _. Inr issuer), out_Issuer = Inr,
     out_Verifier = (\<lambda>_ _ token. Inr token), out_Exporter = None, out_Instrument = (\<lambda>_. None),
     out_Listen = (\<lambda>_. None), out_ServerShutdown = None, out_MeterShutdown = None, out_StopExpired = (\<lambda>_. False)\<rparr>"

definition minimal_config :: Config where
  "minimal_config = fst (read_config minimal_environment (\<lambda>_. None))"

lemma all_well_ready: "api_ready all_well cfg" "workers_ready all_well cfg"
  by (simp_all add: api_ready_def workers_ready_def all_well_def NewPool_def pool_OnStart_def NewMeterProvider_def Let_def
      NewRecorder_def errors_Join_def verifier_OnStart_def server_OnStart_def NewClient_def publisher_OnStart_def
      consumer_OnStart_def resolve_queue_def)

section \<open>Guarantees\<close>




text \<open>The API, started and then stopped up to its database.\<close>

lemma stopping_api:
  "take 24 api_order @ drop 24 api_order = api_order"
  "\<exists>hs ks p. hooks_of all_well minimal_config (take 24 api_order) = Inr hs \<and>
     hooks_of all_well minimal_config (drop 24 api_order) = Inr ks \<and>
     run_hooks (hs @ ks) (new_process minimal_config) = Inr p"
proof -
  obtain p where "launch run_hooks all_well minimal_config api_order = Inr p"
    using api_started(1) [OF fx_life_cycle(1) orders(1)] all_well_ready(1) by blast
  then obtain hooks where "hooks_of all_well minimal_config (take 24 api_order @ drop 24 api_order) = Inr hooks"
    "run_hooks hooks (new_process minimal_config) = Inr p" by (auto simp: launch_def)
  then show "\<exists>hs ks p. hooks_of all_well minimal_config (take 24 api_order) = Inr hs \<and>
     hooks_of all_well minimal_config (drop 24 api_order) = Inr ks \<and>
     run_hooks (hs @ ks) (new_process minimal_config) = Inr p"
    unfolding hooks_of_append by blast
qed simp


end
