(* ===== verification/Probes.thy ===== *)
theory Probes
  imports Lifecycle Serving "HOL-Library.Multiset"
begin

text \<open>
  The readiness of the two processes: the checks \<open>cmd/api/main.go\<close> and \<open>cmd/workers/main.go\<close> put into
  the group the server collects, and what a probe is answered. The order of a group is left to Fx.
\<close>

section \<open>The checks\<close>

text \<open>A check is its name with what the dependency answers when it is asked.\<close>

definition newPostgresHealthCheck :: "outside \<Rightarrow> string \<times> err option" where
  "newPostgresHealthCheck out = (''postgres'', out_Ping out)"

definition newEventsQueueHealthCheck :: "outside \<Rightarrow> EventPublisher \<Rightarrow> string \<times> err option" where
  "newEventsQueueHealthCheck out publisher = (''sqs-events'', publisher_Check (out_GetQueueAttributes out) publisher)"

definition newWagerQueueHealthCheck :: "outside \<Rightarrow> WagerConsumer \<Rightarrow> string \<times> err option" where
  "newWagerQueueHealthCheck out consumer = (''sqs-wagering'', consumer_Check (out_GetQueueAttributes out) consumer)"

definition api_readiness :: "outside \<Rightarrow> (string \<times> err option) list" where
  "api_readiness out = [newPostgresHealthCheck out]"

definition workers_readiness :: "outside \<Rightarrow> process \<Rightarrow> (string \<times> err option) list" where
  "workers_readiness out p =
     [newPostgresHealthCheck out, newEventsQueueHealthCheck out (ps_publisher p),
      newWagerQueueHealthCheck out (ps_consumer p)]"

text \<open>The checks are those of the constructors that give to the group.\<close>

lemma readiness_groups:
  "filter (\<lambda>c. Readiness_group \<in> set (gives c)) api_main = [Ctor_newPostgresHealthCheck]"
  "filter (\<lambda>c. Readiness_group \<in> set (gives c)) workers_main =
     [Ctor_newPostgresHealthCheck, Ctor_newEventsQueueHealthCheck, Ctor_newWagerQueueHealthCheck]"
  by code_simp+

section \<open>What a probe is answered\<close>

definition probed :: "(string \<times> err option) list \<Rightarrow> response \<Rightarrow> bool" where
  "probed checks rs \<longleftrightarrow>
     (let failing = filter (\<lambda>(_, e). e \<noteq> None) checks in
      rs_Status rs = (if failing = [] then 200 else 503) \<and>
      (\<exists>names. rs_Body rs = HealthBody \<lparr>hr_Status = (if failing = [] then ''ready'' else ''unavailable''),
         hr_Failing = names\<rparr> \<and> mset names = mset (map fst failing)))"

lemma answer_health: "answer headers status (HealthBody h) =
    \<lparr>rs_Status = status, rs_Headers = headers @ [(''Content-Type'', ''application/json'')], rs_Body = HealthBody h\<rparr>"
  by (simp add: answer_def writeJSON_def body_Marshal_def)

lemma readiness_probed:
  assumes "mset checks = mset collected"
  shows "probed collected (readinessHandler checks)"
proof -
  let ?P = "\<lambda>(_, e). e \<noteq> None"
  have f: "mset (filter ?P checks) = mset (filter ?P collected)" using assms by simp
  have names: "mset (map fst (filter ?P checks)) = mset (map fst (filter ?P collected))" using f by simp
  have "filter ?P checks = [] \<longleftrightarrow> filter ?P collected = []" using f by (metis mset_zero_iff)
  with names show ?thesis
    unfolding readinessHandler_def probed_def Let_def
    by (cases "filter ?P collected = []") (simp_all add: answer_health del: mset_map mset_filter)
qed

lemma probed_headers: "probed checks (rs\<lparr>rs_Headers := hs\<rparr>) \<longleftrightarrow> probed checks rs"
  by (simp add: probed_def Let_def)

text \<open>A handler behind the middleware answers with what it was given, and the correlation identifier.\<close>

lemma behind_middleware:
  assumes "withCorrelationID rq (\<lambda>i. withRequestObservation rq (h i)) w = (rs, w')"
  obtains i w0 q pattern w1 where "h i w0 = ((q, pattern), w1)" and "idle w w0" and "idle w1 w'"
    and "rs = q\<lparr>rs_Headers := (CorrelationHeader, i) # rs_Headers q\<rparr>"
proof -
  obtain i v where v: "(i, v) = (if isValidCorrelationID (rq_CorrelationID rq) then (rq_CorrelationID rq, w)
      else (uuid_text w (env_NewID (env w) (identifiers w)), snd (NewID w)))" by (metis prod.exhaust)
  then have "idle w v" by (auto simp: NewID_def idle_def split: if_splits)
  obtain q v1 where q: "withRequestObservation rq (h i) v = (q, v1)" by fastforce
  have "withCorrelationID rq (\<lambda>i. withRequestObservation rq (h i)) w =
      (q\<lparr>rs_Headers := (CorrelationHeader, i) # rs_Headers q\<rparr>, v1)"
    unfolding withCorrelationID_def Let_def v [symmetric] by (simp add: q)
  with assms have rs: "rs = q\<lparr>rs_Headers := (CorrelationHeader, i) # rs_Headers q\<rparr>" "v1 = w'" by simp_all
  obtain w0 pattern w1 where "idle v w0" "h i w0 = ((q, pattern), w1)" "idle w1 v1"
    using withRequestObservation_run [OF q] by metis
  with that rs idle_trans [OF \<open>idle w v\<close>] show thesis by metis
qed

lemma public_ready:
  "rq_Segments rq = [''health'', ''ready''] \<Longrightarrow> method_matches ''GET'' (rq_Method rq) \<Longrightarrow>
     public_route lib rq = Some (readinessHandler (lib_checks lib), ''GET /health/ready'')"
  by (simp add: public_route_def)

text \<open>
  A readiness probe of either process is answered 200 exactly when everything it depends on answers,
  and otherwise 503 with the names of what does not; it needs no token and changes nothing.
\<close>

lemma api_probed:
  assumes "mset (lib_checks lib) = mset (api_readiness out)" and "rq_Segments rq = [''health'', ''ready'']"
    and "method_matches ''GET'' (rq_Method rq)" and run: "NewHandler lib rq w = (rs, w')"
  shows "probed (api_readiness out) rs \<and> idle w w'"
proof -
  obtain i w0 q pattern w1 where h: "root_mux lib i rq w0 = ((q, pattern), w1)" "idle w w0" "idle w1 w'"
    "rs = q\<lparr>rs_Headers := (CorrelationHeader, i) # rs_Headers q\<rparr>"
    using behind_middleware [OF run [unfolded NewHandler_def]] by metis
  then have "q = readinessHandler (lib_checks lib)" "w1 = w0"
    by (simp_all add: root_mux_def public_ready [OF assms(2,3)])
  with h readiness_probed [OF assms(1)] show ?thesis by (auto simp: probed_headers intro: idle_trans)
qed

lemma health_behind:
  assumes "NewHealthHandler lib rq w = (rs, w')"
  obtains hs where "rs = fst (health_route lib rq)\<lparr>rs_Headers := hs\<rparr>" and "idle w w'"
proof -
  obtain i w0 q pattern w1 where h: "(\<lambda>w. (health_route lib rq, w)) w0 = ((q, pattern), w1)" "idle w w0" "idle w1 w'"
    "rs = q\<lparr>rs_Headers := (CorrelationHeader, i) # rs_Headers q\<rparr>"
    using behind_middleware [OF assms [unfolded NewHealthHandler_def]] by metis
  then have "fst (health_route lib rq) = q" "idle w w'" using idle_trans by (auto intro: idle_trans)
  with h(4) that show thesis by blast
qed

lemma workers_probed:
  assumes "mset (lib_checks lib) = mset (workers_readiness out p)" and "rq_Segments rq = [''health'', ''ready'']"
    and "method_matches ''GET'' (rq_Method rq)" and run: "NewHealthHandler lib rq w = (rs, w')"
  shows "probed (workers_readiness out p) rs \<and> idle w w'"
proof -
  obtain hs where rs: "rs = fst (health_route lib rq)\<lparr>rs_Headers := hs\<rparr>" "idle w w'"
    by (rule health_behind [OF run])
  have "fst (health_route lib rq) = readinessHandler (lib_checks lib)"
    using assms(2,3) by (simp add: health_route_def public_ready)
  with rs readiness_probed [OF assms(1)] show ?thesis by (simp add: probed_headers)
qed

text \<open>The workers serve nothing else, whatever is sent to them.\<close>

lemma workers_serve_probes:
  assumes "NewHealthHandler lib rq w = (rs, w')"
  shows "idle w w' \<and> (rq_Segments rq \<notin> {[''health'', ''live''], [''health'', ''ready''], [''metrics'']} \<longrightarrow> rs_Status rs = 404)"
proof -
  obtain hs where rs: "rs = fst (health_route lib rq)\<lparr>rs_Headers := hs\<rparr>" "idle w w'"
    by (rule health_behind [OF assms])
  then show ?thesis by (simp add: health_route_def Let_def router_response_def)
qed

text \<open>
  What a probe of the workers means once they started: the database answers, and so do the queue of the
  events and the wagering queue, at the addresses that were resolved for the configured names.
\<close>

lemma workers_healthy:
  assumes "workers_running out cfg p" and "probed (workers_readiness out p) rs"
    and "cfg_WagerQueueName cfg \<noteq> cfg_WagerDeadLetterQueueName cfg"
  shows "rs_Status rs = 200 \<longleftrightarrow> out_Ping out = None \<and>
    (\<exists>events wagers. out_GetQueueUrl out (cfg_EventsQueueName cfg) = Inr events \<and>
       out_GetQueueUrl out (cfg_WagerQueueName cfg) = Inr wagers \<and>
       out_GetQueueAttributes out events = None \<and> out_GetQueueAttributes out wagers = None)"
  using assms
  by (auto simp: probed_def Let_def workers_running_def workers_readiness_def newPostgresHealthCheck_def
      newEventsQueueHealthCheck_def newWagerQueueHealthCheck_def publisher_Check_def consumer_Check_def split: if_splits)

end
