(* ===== verification/Stored.thy ===== *)
theory Stored
  imports Reachable Scenario
begin

text \<open>
  What is stored can be read back: every row of the wallets, operations and entries of a reachable
  state is the row of an object that is well formed, which the repositories rebuild from it.
\<close>

definition stored_entry :: "ledger_row \<Rightarrow> bool" where
  "stored_entry l \<longleftrightarrow> (\<exists>e. l = entry_to_row e \<and> entry_wf e \<and> currency_iso4217 (currency_code (currency (entry_amount e))))"

lemma entry_reads_back:
  assumes "entry_wf e" and "currency_iso4217 (currency_code (currency (entry_amount e)))"
  shows "entry_of_row (entry_to_row e) = Inr e"
proof -
  obtain i w t d a b a' at where e: "e = \<lparr>entry_id = i, entry_walletID = w, entry_transactionID = t, entry_direction = d,
       entry_amount = a, entry_balanceBefore = b, entry_balanceAfter = a', entry_createdAt = at\<rparr>" by (cases e)
  have like: "money_like a b" "money_like a a'" "direction_IsValid d" using assms(1) by (simp_all add: e entry_wf_def)
  obtain n k where a: "a = \<lparr>minorUnits = n, currency = Currency k\<rparr>" by (metis Currency.exhaust Money.cases)
  have k: "NewCurrency k = Inr (Currency k)" "k \<noteq> ''''" using assms(2) by (auto simp: e a NewCurrency_Inr)
  have b: "b = \<lparr>minorUnits = minorUnits b, currency = Currency k\<rparr>" "a' = \<lparr>minorUnits = minorUnits a', currency = Currency k\<rparr>"
    using like by (simp_all add: a money_like_def)
  then obtain nb na where "b = \<lparr>minorUnits = nb, currency = Currency k\<rparr>" "a' = \<lparr>minorUnits = na, currency = Currency k\<rparr>" by blast
  with assms(1) k direction_of_String [OF like(3)] show ?thesis
    by (simp add: e a entry_of_row_def entry_to_row_def NewEntry_Inr_iff currency_String_def money_New_def
        currency_IsZero_def)
qed

text \<open>An entry of a wallet has the currency of the wallet.\<close>

lemma entry_stored: "entry_wf e \<Longrightarrow> entry_balanceBefore e = w_balance w \<Longrightarrow> wallet_iso w \<Longrightarrow> stored_entry (entry_to_row e)"
  unfolding stored_entry_def by (auto simp: entry_wf_def money_like_def wallet_iso_def wallet_Currency_def)

lemma recorded_stored:
  assumes "recorded d w t e w' c at d'" and "decided d w at0 at1 t e w'" and "wallet_iso w"
    and "\<forall>l \<in> set (entries d). stored_entry l"
  shows "\<forall>l \<in> set (entries d'). stored_entry l"
proof (cases e)
  case None
  with assms(1,4) show ?thesis by (auto simp: recorded_def)
next
  case (Some x)
  with assms(2) obtain dir i where "movement w (t_amount t) (t_id t) dir at1 i x w'" using decided_moves by blast
  then have "stored_entry (entry_to_row x)" by (intro entry_stored [OF _ _ assms(3)]) (simp_all add: movement_def)
  with Some assms(1,4) show ?thesis by (auto simp: recorded_def)
qed

lemma executed_stored:
  assumes "executed E d input r d'" and "\<forall>l \<in> set (entries d). stored_entry l"
  shows "\<forall>l \<in> set (entries d'). stored_entry l"
  using assms recorded_stored unfolding executed_def applied_def by metis

lemma opened_stored:
  assumes "opened d w c at d'" and "\<forall>l \<in> set (entries d). stored_entry l"
  shows "\<forall>l \<in> set (entries d'). stored_entry l"
proof (cases "money_IsPositive (w_balance w)")
  case True
  have iso: "wallet_iso w" using assms(1) by (simp add: opened_def)
  from True assms(1) obtain t :: Transaction and r :: transaction_row and j e os where e: "OpeningLedgerEntry w (t_id t) at j = Inr e"
    and "d' = d\<lparr>wallets := wallets d @ [wallet_to_row w], transactions := transactions d @ [r],
      entries := entries d @ [entry_to_row e], outbox := outbox d @ os\<rparr>"
    by (simp add: opened_def) blast
  then have d': "entries d' = entries d @ [entry_to_row e]" by simp
  have "entry_wf e" "entry_amount e = w_balance w"
    using e by (auto simp: OpeningLedgerEntry_def NewEntry_Inr_iff split: if_splits)
  with iso have "stored_entry (entry_to_row e)" by (auto simp: stored_entry_def wallet_iso_def wallet_Currency_def)
  with d' assms(2) show ?thesis by auto
qed (use assms in \<open>auto simp: opened_def\<close>)

lemma changed_stored:
  assumes "changed E pubs d d'" and d: "\<forall>l \<in> set (entries d). stored_entry l"
  shows "\<forall>l \<in> set (entries d'). stored_entry l"
  using assms(1)
proof cases
  case changed_opened
  then show ?thesis using opened_stored d by blast
next
  case changed_executed
  then show ?thesis using executed_stored d by blast
next
  case (changed_taken message hash q)
  then show ?thesis using executed_stored [OF _ d] d by (fastforce simp: taken_in_def)
next
  case (changed_retried p at s)
  then show ?thesis using recorded_stored [OF _ _ _ d] d by (fastforce simp: retried_def split: if_splits)
qed (use d in simp_all)

lemma reachable_stored: "reachable w \<Longrightarrow> \<forall>l \<in> set (entries (committed w)). stored_entry l"
proof (induction rule: reachable.induct)
  case (reach_step w w')
  have "changed (env w) (published w') (committed w) (committed w')"
    using step_changed [OF reach_step(2)] reachable_inv [OF reach_step(1)] by simp
  with reach_step.IH show ?case using changed_stored by blast
qed (simp add: initial_def empty_db_def)

text \<open>C26. Whatever is stored can be read back: each row of a wallet, an operation or an entry in a
  reachable state is rebuilt into an object that is well formed and has exactly the row's columns.\<close>

theorem rows_read_back:
  assumes "reachable w"
  shows "(\<forall>r \<in> set (wallets (committed w)). \<exists>x. rehydrateWallet r = Inr x \<and> wallet_wf x \<and> wallet_to_row x = r) \<and>
    (\<forall>r \<in> set (transactions (committed w)). \<exists>t. rehydrate_row r = Inr t \<and> transaction_wf t \<and>
       operation_row t (tr_NextAttemptAt r) = r) \<and>
    (\<forall>l \<in> set (entries (committed w)). \<exists>e. entry_of_row l = Inr e \<and> entry_wf e \<and> entry_to_row e = l)"
proof -
  note inv = reachable_inv [OF assms, unfolded books_def]
  have "\<exists>x. rehydrateWallet r = Inr x \<and> wallet_wf x \<and> wallet_to_row x = r" if r: "r \<in> set (wallets (committed w))" for r
  proof -
    obtain x where "r = wallet_to_row x" "wallet_wf x" "wallet_iso x" using inv r by (auto simp: wallets_inv_def)
    then show ?thesis using rehydrateWallet_row by blast
  qed
  moreover have "\<exists>t. rehydrate_row r = Inr t \<and> transaction_wf t \<and> operation_row t (tr_NextAttemptAt r) = r"
    if r: "r \<in> set (transactions (committed w))" for r
  proof -
    obtain t where t: "stores r t" using inv r by (auto simp: transactions_inv_def)
    with stores_rehydrate [OF t] show ?thesis unfolding stores_def by metis
  qed
  ultimately show ?thesis using reachable_stored [OF assms] entry_reads_back unfolding stored_entry_def by metis
qed

theorem rows_read_back_witness:
  "\<exists>l e. l \<in> set (entries (committed opened_world)) \<and> entry_of_row l = Inr e \<and> entry_wf e"
proof -
  have "entries (committed opened_world) \<noteq> []" using opened_rows by force
  then obtain l where "l \<in> set (entries (committed opened_world))" by (meson last_in_set)
  with rows_read_back [OF reachable_opened] show ?thesis by blast
qed

end
