(* ===== verification/Logging.thy ===== *)
theory Logging
  imports Http
begin

text \<open>
  \<open>internal/infrastructure/logging\<close> and the context of a request: the identifier that ties the records
  of an operation together, the caller, and the handler that stamps each record. The handler behind
  it is the library's, a parameter with its operations.
\<close>

section \<open>Contexts\<close>

text \<open>A key has a type of its own in Go, so that no other package's value is found under it.\<close>

datatype context_key = correlationKey | principalKey

datatype context_value = CorrelationValue string | PrincipalValue Principal

type_synonym go_context = "(context_key \<times> context_value) list"

definition WithValue :: "go_context \<Rightarrow> context_key \<Rightarrow> context_value \<Rightarrow> go_context" where
  "WithValue ctx k v = (k, v) # ctx"

definition WithCorrelationID :: "go_context \<Rightarrow> string \<Rightarrow> go_context" where
  "WithCorrelationID ctx i = WithValue ctx correlationKey (CorrelationValue i)"

definition CorrelationID :: "go_context \<Rightarrow> string" where
  "CorrelationID ctx = (case map_of ctx correlationKey of Some (CorrelationValue i) \<Rightarrow> i | _ \<Rightarrow> '''')"

text \<open>\<open>middleware.go\<close>: the caller, or the zero \<open>Principal\<close>, which holds no role.\<close>

definition WithPrincipal :: "go_context \<Rightarrow> Principal \<Rightarrow> go_context" where
  "WithPrincipal ctx p = WithValue ctx principalKey (PrincipalValue p)"

definition principalFrom :: "go_context \<Rightarrow> Principal" where
  "principalFrom ctx =
     (case map_of ctx principalKey of Some (PrincipalValue p) \<Rightarrow> p | _ \<Rightarrow> \<lparr>pr_Roles = [], pr_ProviderID = ''''\<rparr>)"

section \<open>The handler of the records\<close>

definition correlationField :: string where "correlationField = ''correlationId''"

record log_record =
  lr_Message :: string
  lr_Attrs :: "(string \<times> string) list"

text \<open>\<open>slog.Handler\<close> of the library, on handlers of any type.\<close>

record 'h slog_Handler =
  sl_Enabled :: "'h \<Rightarrow> go_context \<Rightarrow> int \<Rightarrow> bool"
  sl_Handle :: "'h \<Rightarrow> go_context \<Rightarrow> log_record \<Rightarrow> err option"
  sl_WithAttrs :: "'h \<Rightarrow> (string \<times> string) list \<Rightarrow> 'h"
  sl_WithGroup :: "'h \<Rightarrow> string \<Rightarrow> 'h"

datatype 'h contextHandler = ContextHandler (handler_next: 'h)

definition contextHandler_Enabled :: "'h slog_Handler \<Rightarrow> 'h contextHandler \<Rightarrow> go_context \<Rightarrow> int \<Rightarrow> bool" where
  "contextHandler_Enabled lib h ctx level = sl_Enabled lib (handler_next h) ctx level"

definition contextHandler_Handle ::
  "'h slog_Handler \<Rightarrow> 'h contextHandler \<Rightarrow> go_context \<Rightarrow> log_record \<Rightarrow> err option" where
  "contextHandler_Handle lib h ctx record =
     (let i = CorrelationID ctx;
          record = (if i \<noteq> '''' then record\<lparr>lr_Attrs := lr_Attrs record @ [(correlationField, i)]\<rparr> else record)
      in sl_Handle lib (handler_next h) ctx record)"

definition contextHandler_WithAttrs ::
  "'h slog_Handler \<Rightarrow> 'h contextHandler \<Rightarrow> (string \<times> string) list \<Rightarrow> 'h contextHandler" where
  "contextHandler_WithAttrs lib h attrs = ContextHandler (sl_WithAttrs lib (handler_next h) attrs)"

definition contextHandler_WithGroup :: "'h slog_Handler \<Rightarrow> 'h contextHandler \<Rightarrow> string \<Rightarrow> 'h contextHandler" where
  "contextHandler_WithGroup lib h name = ContextHandler (sl_WithGroup lib (handler_next h) name)"

section \<open>What a context carries\<close>

lemma CorrelationID_simps [simp]:
  "CorrelationID [] = ''''"
  "CorrelationID (WithCorrelationID ctx i) = i"
  "CorrelationID (WithPrincipal ctx p) = CorrelationID ctx"
  by (simp_all add: CorrelationID_def WithCorrelationID_def WithPrincipal_def WithValue_def)

lemma principalFrom_simps [simp]:
  "principalFrom (WithPrincipal ctx p) = p"
  "principalFrom (WithCorrelationID ctx i) = principalFrom ctx"
  by (simp_all add: principalFrom_def WithCorrelationID_def WithPrincipal_def WithValue_def)

text \<open>A request that was not authenticated is refused by every role.\<close>

lemma no_caller_no_role:
  "map_of ctx principalKey = None \<Longrightarrow> requireRole role handler (principalFrom ctx) = (\<lambda>w. (writeForbidden, w))"
  by (simp add: principalFrom_def requireRole_def HasRole_def)

text \<open>However the handler was derived, what it hands on carries the identifier attached last.\<close>

lemma stamped:
  "contextHandler_Handle lib h (WithCorrelationID ctx i) (\<lparr>lr_Message = m, lr_Attrs = attrs\<rparr>) =
     sl_Handle lib (handler_next h) (WithCorrelationID ctx i)
       \<lparr>lr_Message = m, lr_Attrs = attrs @ (if i = '''' then [] else [(correlationField, i)])\<rparr>"
  by (simp add: contextHandler_Handle_def)

end
