(* ===== verification/Migrate.thy ===== *)
theory Migrate
  imports Encoding Domain
begin

text \<open>
  \<open>cmd/migrate/main.go\<close> and \<open>postgres/migrations.go\<close>: the command that applies, reverts and lists the
  migrations. Opening the database, the lock and goose are outside: what they answer is a parameter,
  results as the text they print as.
\<close>

record migration_tools =
  mt_Open :: "string \<Rightarrow> err option"
  mt_Sub :: "err option"
  mt_SessionLocker :: "err option"
  mt_NewProvider :: "err option"
  mt_Up :: "string list \<times> err option"
  mt_Down :: "string option \<times> err option"
  mt_NoNextVersion :: "err \<Rightarrow> bool"
  mt_Status :: "(string \<times> string) list \<times> err option"

text \<open>The errors of the command itself are \<open>OtherError\<close>; the second component is what it printed.\<close>

definition NewMigrationProvider :: "migration_tools \<Rightarrow> err option" where
  "NewMigrationProvider tools =
     (case mt_Sub tools of
        Some e \<Rightarrow> Some (Wrapped [e])
      | None \<Rightarrow>
          (case mt_SessionLocker tools of Some e \<Rightarrow> Some (Wrapped [e]) | None \<Rightarrow> mt_NewProvider tools))"

text \<open>\<open>%-8s %s\<close>: the state of a migration, filled up to eight characters, and its path.\<close>

definition status_line :: "string \<times> string \<Rightarrow> string" where
  "status_line status =
     (case status of (state, path) \<Rightarrow> state @ replicate (8 - length state) (CHR '' '') @ '' '' @ path)"

definition migrate_run :: "migration_tools \<Rightarrow> (string \<Rightarrow> string) \<Rightarrow> string list \<Rightarrow> err option \<times> string list" where
  "migrate_run tools getenv args =
     (if length args \<noteq> 1 then (Some OtherError, [])
      else if getenv ''DATABASE_URL'' = '''' then (Some OtherError, [])
      else (case mt_Open tools (getenv ''DATABASE_URL'') of
        Some e \<Rightarrow> (Some (Wrapped [e]), [])
      | None \<Rightarrow>
          (case NewMigrationProvider tools of
             Some e \<Rightarrow> (Some e, [])
           | None \<Rightarrow>
               if hd args = ''up'' then (case mt_Up tools of (results, e) \<Rightarrow> (e, results))
               else if hd args = ''down'' then
                 (case mt_Down tools of
                    (result, Some e) \<Rightarrow>
                      if mt_NoNextVersion tools e then (None, [''no migration to revert''])
                      else (Some e, case result of None \<Rightarrow> [] | Some r \<Rightarrow> [r])
                  | (result, None) \<Rightarrow> (None, case result of None \<Rightarrow> [] | Some r \<Rightarrow> [r]))
               else if hd args = ''status'' then
                 (case mt_Status tools of (statuses, e) \<Rightarrow> (e, map status_line statuses))
               else (Some OtherError, []))))"

text \<open>\<open>main\<close>: the status the command exits with.\<close>

definition migrate_main :: "migration_tools \<Rightarrow> (string \<Rightarrow> string) \<Rightarrow> string list \<Rightarrow> nat" where
  "migrate_main tools getenv args = (if fst (migrate_run tools getenv args) \<noteq> None then 1 else 0)"

text \<open>
  A command that succeeded named one of the three tasks, reached the database, and did the task;
  only a revert with nothing left to revert is no failure although goose reports one.
\<close>

lemma migrate_succeeds:
  "migrate_main tools getenv args = 0 \<longleftrightarrow>
     (\<exists>task. args = [task] \<and> getenv ''DATABASE_URL'' \<noteq> '''' \<and> mt_Open tools (getenv ''DATABASE_URL'') = None \<and>
        NewMigrationProvider tools = None \<and>
        (task = ''up'' \<and> snd (mt_Up tools) = None \<or>
         task = ''down'' \<and> (case snd (mt_Down tools) of None \<Rightarrow> True | Some e \<Rightarrow> mt_NoNextVersion tools e) \<or>
         task = ''status'' \<and> snd (mt_Status tools) = None))"
proof (cases "length args = 1")
  case True
  then obtain task where "args = [task]" by (auto simp: length_Suc_conv)
  then show ?thesis
    by (auto simp: migrate_main_def migrate_run_def split: option.splits prod.splits)
qed (auto simp: migrate_main_def migrate_run_def)

text \<open>The lines of a failed run are those of what was done before it failed.\<close>

lemma migrate_prints:
  "fst (migrate_run tools getenv [''up'']) = Some e \<Longrightarrow> snd (migrate_run tools getenv [''up'']) \<noteq> [] \<Longrightarrow>
     snd (migrate_run tools getenv [''up'']) = fst (mt_Up tools) \<and> snd (mt_Up tools) = Some e"
  by (auto simp: migrate_run_def split: option.splits prod.splits if_splits)

end
