(* ===== verification/Fixtures.thy ===== *)
theory Fixtures
  imports Wallet
begin

text \<open>
  \<open>internal/domain/domaintest/fixtures.go\<close>: the wallets and operations the tests of the domain start
  from. An error stands for the failing of the test; identifiers that are drawn are parameters.
\<close>

text \<open>2026-09-08 12:00 UTC, in nanoseconds since the first instant.\<close>

definition FixedNow :: time where "FixedNow = (739866 * 86400 + 12 * 3600) * 1000000000"

definition MustParseMoney :: "string \<Rightarrow> string \<Rightarrow> err + Money" where
  "MustParseMoney amount currencyCode = Parse amount currencyCode"

definition MustParseSignedMoney :: "string \<Rightarrow> string \<Rightarrow> err + Money" where
  "MustParseSignedMoney amount currencyCode = ParseSigned amount currencyCode"

definition MustOpenWallet :: "ID \<Rightarrow> ID \<Rightarrow> Money \<Rightarrow> err + Wallet" where
  "MustOpenWallet i player initialBalance = wallet_Open i player initialBalance FixedNow"

definition ValidExternalParams :: "ID \<Rightarrow> ID \<Rightarrow> ID \<Rightarrow> Kind \<Rightarrow> string \<Rightarrow> err + NewExternalParams" where
  "ValidExternalParams i walletID playerID kind amount =
     and_then (MustParseMoney amount ''BRL'') (\<lambda>m.
     let params = \<lparr>p_ID = i, p_Kind = kind, p_ProviderID = ''provider-a'',
           p_ExternalTransactionID = ''transaction-123'', p_IdempotencyKey = ''provider-a:transaction-123'',
           p_PayloadHash = ''hash'', p_WalletID = walletID, p_PlayerID = playerID, p_RoundID = ''round-987'',
           p_GameID = ''fortune-chimp'', p_Money = m, p_ReferenceExternalTransactionID = '''', p_CreatedAt = FixedNow\<rparr>
     in Inr (if RequiresReference kind then params\<lparr>p_ReferenceExternalTransactionID := ''transaction-122''\<rparr> else params))"

definition MustExternalTransaction :: "ID \<Rightarrow> ID \<Rightarrow> ID \<Rightarrow> Kind \<Rightarrow> string \<Rightarrow> err + Transaction" where
  "MustExternalTransaction i walletID playerID kind amount =
     and_then (ValidExternalParams i walletID playerID kind amount) NewExternal"

text \<open>The identifiers \<open>ValidExternalParams\<close> draws for the wallet and the player are replaced here.\<close>

definition MustProcessedReference ::
  "ID \<Rightarrow> ID \<Rightarrow> ID \<Rightarrow> Wallet \<Rightarrow> Kind \<Rightarrow> string \<Rightarrow> err + Transaction option" where
  "MustProcessedReference i drawnWallet drawnPlayer w kind amount =
     (if kind = OtherKind '''' then Inr None
      else and_then (ValidExternalParams i drawnWallet drawnPlayer kind amount) (\<lambda>params.
        let params = params\<lparr>p_ExternalTransactionID := ''transaction-122'',
              p_IdempotencyKey := ''provider-a:transaction-122''\<rparr>;
            params = (if RequiresReference kind
              then params\<lparr>p_ReferenceExternalTransactionID := ''transaction-121''\<rparr> else params);
            params = params\<lparr>p_WalletID := w_id w, p_PlayerID := w_playerID w\<rparr>
        in and_then (NewExternal params) (\<lambda>reference.
           and_then (MarkProcessed reference (w_balance w) FixedNow) (\<lambda>reference. Inr (Some reference)))))"

definition MustResolveReference :: "Transaction \<Rightarrow> Transaction option \<Rightarrow> err + Transaction" where
  "MustResolveReference operation reference =
     (case reference of None \<Rightarrow> Inr operation | Some _ \<Rightarrow> ResolveReference operation reference)"

definition MustRehydrateWallet :: "ID \<Rightarrow> ID \<Rightarrow> string \<Rightarrow> int64 \<Rightarrow> err + Wallet" where
  "MustRehydrateWallet i playerID balance version =
     and_then (MustParseMoney balance ''BRL'') (\<lambda>m. wallet_Rehydrate i playerID m version FixedNow FixedNow)"

definition MustRehydrateTransaction :: "RehydrateParams \<Rightarrow> err + Transaction" where
  "MustRehydrateTransaction params =
     (let params = (if IsZero_time (t_createdAt params) then params\<lparr>t_createdAt := FixedNow\<rparr> else params);
          params = (if IsZero_time (t_updatedAt params) then params\<lparr>t_updatedAt := FixedNow\<rparr> else params)
      in wager_Rehydrate params)"

section \<open>Which fixtures there are\<close>

lemma FixedNow_nonzero [simp]: "FixedNow \<noteq> 0"
  by (simp add: FixedNow_def)

lemma ok_Inr: "ok r \<longleftrightarrow> (\<exists>x. r = Inr x)"
  by (cases r) simp_all

lemma NewExternal_ok:
  "ok (NewExternal p) \<longleftrightarrow>
     IsExternal (p_Kind p) \<and> p_ID p \<noteq> NilID \<and> p_WalletID p \<noteq> NilID \<and> p_PlayerID p \<noteq> NilID \<and> p_CreatedAt p \<noteq> 0 \<and>
     '''' \<notin> set [p_ProviderID p, p_ExternalTransactionID p, p_IdempotencyKey p, p_PayloadHash p, p_RoundID p, p_GameID p] \<and>
     kind_amount_ok (p_Kind p) (p_Money p) \<and> kind_reference_ok (p_Kind p) (p_ReferenceExternalTransactionID p) \<and>
     p_ReferenceExternalTransactionID p \<noteq> p_ExternalTransactionID p"
  unfolding ok_Inr NewExternal_def by (auto simp: IsExternal_def and_then_Inr_iff split: if_splits)

text \<open>
  An operation can be made of exactly the kinds a provider may send, with the amounts the kind
  allows; it is pending and well formed.
\<close>

lemma MustExternalTransaction_iff:
  assumes "i \<noteq> NilID" "walletID \<noteq> NilID" "playerID \<noteq> NilID"
  shows "ok (MustExternalTransaction i walletID playerID kind amount) \<longleftrightarrow>
    IsExternal kind \<and> (\<exists>m. Parse amount ''BRL'' = Inr m \<and> kind_amount_ok kind m)"
proof (cases "Parse amount ''BRL''")
  case (Inr m)
  with assms show ?thesis
    by (auto simp: MustExternalTransaction_def ValidExternalParams_def MustParseMoney_def Let_def NewExternal_ok
        kind_reference_ok_def AllowsReference_def)
qed (simp add: MustExternalTransaction_def ValidExternalParams_def MustParseMoney_def)

lemma Parse_BRL: "Parse amount ''BRL'' = Inr m \<Longrightarrow> currency m = Currency ''BRL''"
  by (auto simp: Parse_def money_parse_def NewCurrency_def currencyCodeLen_def byte_between_def)

lemma NewExternal_fields:
  assumes "NewExternal p = Inr t"
  shows "t_id t = p_ID p" "t_kind t = p_Kind p" "t_state t = StatePending" "t_walletID t = p_WalletID p"
    "t_playerID t = p_PlayerID p" "t_amount t = p_Money p" "t_providerID t = p_ProviderID p"
    "t_externalTransactionID t = p_ExternalTransactionID p" "t_roundID t = p_RoundID p"
    "t_referenceExternalTransactionID t = p_ReferenceExternalTransactionID p"
  using assms by (auto simp: NewExternal_def split: if_splits)

text \<open>The reference of a reversal can be made wherever the operation can, and the reversal resolves to it.\<close>

lemma fixture_resolves:
  assumes ids: "i \<noteq> NilID" "j \<noteq> NilID"
    and w: "wallet_wf w" "currency (w_balance w) = Currency ''BRL''"
    and kinds: "r \<in> set (referableKinds kind)" "RequiresReference kind"
    and amount: "Parse amount ''BRL'' = Inr m" "kind_amount_ok kind m"
  shows "\<exists>q t. MustProcessedReference i dw dp w r amount = Inr (Some q) \<and>
    MustExternalTransaction j (w_id w) (w_playerID w) kind amount = Inr t \<and>
    MustResolveReference t (Some q) = Inr (t\<lparr>t_referenceTransactionID := i\<rparr>)"
proof -
  have kind: "kind \<in> {KindRefund, KindRollback}" using kinds(2) by (auto simp: RequiresReference_def IsReversal_def)
  with kinds(1) have r: "r \<in> {KindBet, KindWin, KindRefund}" by auto
  have ext: "IsExternal r" "IsExternal kind" using r kind by (auto simp: IsExternal_def kind_IsValid_def)
  have m: "kind_amount_ok r m" using amount(2) r kind by (auto simp: kind_amount_ok_def)
  have wid: "w_id w \<noteq> NilID" "w_playerID w \<noteq> NilID" using w(1) by (simp_all add: wallet_wf_def)
  have cur: "currency m = Currency ''BRL''" using Parse_BRL [OF amount(1)] .
  have like: "money_like (w_balance w) m" using w cur by (simp add: money_like_def wallet_wf_def wallet_Currency_def)
  let ?p = "\<lparr>p_ID = i, p_Kind = r, p_ProviderID = ''provider-a'', p_ExternalTransactionID = ''transaction-122'',
    p_IdempotencyKey = ''provider-a:transaction-122'', p_PayloadHash = ''hash'', p_WalletID = w_id w,
    p_PlayerID = w_playerID w, p_RoundID = ''round-987'', p_GameID = ''fortune-chimp'', p_Money = m,
    p_ReferenceExternalTransactionID = (if RequiresReference r then ''transaction-121'' else ''''), p_CreatedAt = FixedNow\<rparr>"
  have "ok (NewExternal ?p)"
    using ids wid ext(1) m by (simp add: NewExternal_ok kind_reference_ok_def AllowsReference_def)
  then obtain u where u: "NewExternal ?p = Inr u" unfolding ok_Inr by blast
  note uf = NewExternal_fields [OF u, simplified]
  obtain q where q: "MarkProcessed u (w_balance w) FixedNow = Inr q"
    "q = u\<lparr>t_state := StateProcessed, t_updatedAt := FixedNow, t_resultBalance := Some (w_balance w)\<rparr>"
    using like uf by (simp add: MarkProcessed_Inr_iff)
  have "r \<noteq> OtherKind ''''" using r by auto
  then have first: "MustProcessedReference i dw dp w r amount = Inr (Some q)"
    using u q(1) amount(1)
    by (cases "RequiresReference r")
      (simp_all add: MustProcessedReference_def ValidExternalParams_def MustParseMoney_def Let_def)
  obtain t where t: "MustExternalTransaction j (w_id w) (w_playerID w) kind amount = Inr t"
    using MustExternalTransaction_iff [OF ids(2) wid] ext(2) amount unfolding ok_Inr by blast
  then obtain p where p: "ValidExternalParams j (w_id w) (w_playerID w) kind amount = Inr p" "NewExternal p = Inr t"
    by (auto simp: MustExternalTransaction_def)
  note tf = NewExternal_fields [OF p(2)]
  have "ResolveReference t (Some q) = Inr (t\<lparr>t_referenceTransactionID := i\<rparr>)"
    using p(1) amount(1) kinds uf q(2) tf
    by (auto simp: ResolveReference_Inr_iff ValidExternalParams_def MustParseMoney_def Let_def IsTerminal_def
        CanTransitionTo_def)
  with first t show ?thesis by (auto simp: MustResolveReference_def)
qed

end
