(* ===== verification/Spec2Isabelle.thy ===== *)
theory Spec2Isabelle
  imports Queue_Guarantees Server_Guarantees Intake Delivery Interleaving_Guarantees Probes Stored Logging Migrate Fixtures
begin

text \<open>
  A verification development of betledger (\<open>src/\<close>), a ledger of wagers: game providers send bets,
  wins, losses, refunds and rollbacks against the wallets of players, over HTTP or through a queue;
  every movement is written to a ledger, and every outcome is announced by an event.

  \<^bold>\<open>The program.\<close> Two processes share one PostgreSQL database. \<open>cmd/api\<close> serves HTTP: a request
  passes the middleware (correlation identifier, observation, authentication, role) to a handler,
  which calls a use case. \<open>cmd/workers\<close> runs three pollers: one takes operations from a queue and
  calls the same use case inside a transaction that also records the message, one tries operations
  again that wait for the operation they refer to, one publishes the events of the outbox. A use case
  loads domain objects through repositories, lets them decide, and writes what they decided within one
  transaction. Nothing is shared but the database.

  \<^bold>\<open>The theories\<close>, in the order of their imports, with the code each models:

  \<^item> \<open>Prelude\<close>: results as sums, Go's signed 64-bit integers as words, lists of rows. \<open>Encoding\<close>: what the
    entry points use of Go's \<open>strings\<close>, \<open>strconv\<close> and \<open>encoding/base64\<close>.
  \<^item> \<open>Domain\<close>, \<open>Money\<close>, \<open>Ledger\<close>, \<open>Wager\<close>, \<open>Wallet\<close>, \<open>Event\<close>: \<open>internal/domain\<close>. A struct is a record, a
    method that changes its receiver returns the changed record, an error is its class, cause and code.
  \<^item> \<open>Tables\<close>, \<open>Queries\<close>: \<open>postgres/migrations\<close> and \<open>postgres/sqlcgen\<close>. A table is the list of its rows in the
    order they were inserted, a statement is a function of the session and the database, and a
    violated constraint is the error PostgreSQL reports.
  \<^item> \<open>Store\<close>, \<open>Repositories\<close>: \<open>postgres/transactor.go\<close>, \<open>errors.go\<close> and the repositories. A call is a function
    from the world to its result and the next world (\<open>action\<close>).
  \<^item> \<open>Payload_Hash\<close>, \<open>Settlement\<close>, \<open>Messages\<close>, \<open>Reads\<close>: \<open>internal/usecase\<close>.
  \<^item> \<open>Configuration\<close>, \<open>Messaging\<close>, \<open>Workers\<close>: \<open>config/config.go\<close>, \<open>messaging/\<close>, \<open>worker/poller.go\<close> and the policies of
    \<open>cmd/workers/main.go\<close>.
  \<^item> \<open>Http\<close>, \<open>Handlers\<close>, \<open>Server\<close>, \<open>Metrics\<close>, \<open>Logging\<close>: \<open>auth/verifier.go\<close>, \<open>httpserver/\<close>, \<open>metrics/metrics.go\<close> and
    \<open>logging/logger.go\<close>.
  \<^item> \<open>Wiring\<close>, \<open>Startup\<close>: the composition of \<open>cmd/api\<close> and \<open>cmd/workers\<close> out of the modules, as what each
    constructor takes and gives, and the hooks the constructors append (\<open>postgres/module.go\<close>,
    \<open>httpserver/module.go\<close>, \<open>messaging/\<close>, \<open>auth/\<close>, \<open>metrics/\<close>, \<open>worker/\<close>). \<open>Migrate\<close>: \<open>cmd/migrate\<close> and
    \<open>postgres/migrations.go\<close>. \<open>Fixtures\<close>: \<open>domaintest/fixtures.go\<close>.

  \<^bold>\<open>The environment.\<close> A world holds the committed database, the open transaction, counters, and an
  \<open>environment\<close>: what is outside the program, as functions of how often it was asked. It decides the
  instants of the clock and of the server, the identifiers drawn, which rows other sessions hold,
  what the broker answers, and where a request to the database fails, before it took effect or, for
  a commit, after it, with the answer lost. Every theorem holds for all environments.

  \<^bold>\<open>What runs at the same time\<close> is modelled twice. In \<open>Reachable\<close> an action runs alone, and units of
  work are the grain at which everything interleaves (\<open>step\<close>, \<open>steps\<close>, \<open>reachable\<close>); a batch is a
  sequence of such steps, between which others may come. In \<open>Jobs\<close> the units of work that take several
  statements are cut at them (\<open>job\<close>, a sequence of turns), and \<open>Sessions\<close> runs any number of jobs side
  by side (\<open>cluster\<close>, \<open>moves_on\<close>, \<open>interleaved\<close>) the way PostgreSQL does at READ COMMITTED, the level the
  pool begins its transactions with: a statement sees what is committed by then and what its own
  transaction wrote (\<open>rebase\<close>), and waits for a transaction that holds its row, or a row that excludes
  its own (\<open>compatible\<close>). A session may break off at any turn. That what commits there is what the unit
  of work alone could have done (\<open>changed\<close>) takes the theorems about states over to the interleaving.

  \<^bold>\<open>What the lemmas show.\<close>

  \<^item> \<open>Money\<close> to \<open>Event\<close>: exact parsing, formatting and arithmetic (locale \<open>checked_arith\<close>), the state machine
    of an operation (locale \<open>ranked_machine\<close>), well-formedness kept by every method.
  \<^item> \<open>Units\<close>, \<open>Effects\<close>: what may happen inside a transaction, what a successful one did, and the contract
    of \<open>WithinTransaction\<close> (locale \<open>transactor\<close>), commit or nothing.
  \<^item> \<open>Books\<close>, \<open>Settling\<close>, \<open>History\<close>, \<open>System\<close>, \<open>Reachable\<close>: the invariant of the financial tables and of the
    outbox, and what a commit may change (locale \<open>change\<close>), for every use case and so in all
    reachable states.
  \<^item> \<open>Outcomes\<close>, \<open>Batches\<close>, \<open>Reading\<close>: what one call, one batch and one query answer.
  \<^item> \<open>Consuming\<close>, \<open>Serving\<close>, \<open>Failures\<close>: the consumer and the server on top of the use cases, as steps of the
    system; every error any of them can raise has a class and a known code. \<open>Workers\<close>: a poller keeps
    whatever its job keeps (locale \<open>background_job\<close>, interpreted on the three jobs).
  \<^item> \<open>Progress\<close>, \<open>Resolution\<close>, \<open>Progress_Guarantees\<close>: where no fault is in the way and the environment behaves,
    calls do succeed, and which outcome they end with. \<open>Intake\<close>: the same through the queue. \<open>Delivery\<close>: what a
    round of the publication does, for any answers of the broker, and how rounds empty the outbox.
    \<open>Stored\<close>: rows and objects correspond.
  \<^item> \<open>Lifecycle\<close>: what a start sets up, in whatever order the constructors run, when it succeeds, and what
    holds at each of its points and of the stop's. \<open>Probes\<close>: the readiness of both processes, answered from
    the checks each puts into the group. \<open>Isolation\<close>: a step of the system moves the money of at most one
    wallet.
  \<^item> \<open>Jobs\<close>: a job run in one go is the unit of work of the same name. \<open>Sessions\<close>: what two sessions wrote to
    the same tables fits together (locale \<open>table\<close>, interpreted on the five tables). \<open>Rely\<close>: what a session
    may rely on between its turns (\<open>disturbs\<close>), and the rules for assertions that nobody can spoil
    (\<open>stable\<close>, \<open>secure\<close>). \<open>Secured\<close>, \<open>Commits\<close>, \<open>Secured_Units\<close>: the assertions between the turns of every job,
    from the lock of the wallet to the commit. \<open>Interleaving\<close>: the invariant of the cluster.
    \<open>Interleaving_Guarantees\<close>: what follows for the books, for what may happen only once, for
    each commit and for a locked wallet.
    \<open>Concurrent_Scenario\<close>: two sessions whose turns alternate.
  \<^item> \<open>Scenario\<close>: a small run that the theorems are applied to. \<open>Queue_Guarantees\<close>, \<open>Server_Guarantees\<close> and this
    theory: the guarantees of the whole system.

  \<^bold>\<open>Bounds and termination.\<close> Integers keep their widths: 64 bits, and 32 where the code narrows a
  batch size or a count of attempts. No definition of the program takes fuel: every loop is over a
  list, over the attempts of a back-off or over the digits of a number, and terminates as a function of
  HOL; the loop of the poller, which does not end by itself, is an inductive relation on its events.
  Only the search for what a constructor depends on (\<open>behind\<close>) is cut off, after 7 steps back, the
  longest chain of either process; what it finds is a lower bound of what must have run before.

  \<^bold>\<open>Parameters.\<close> SHA-256, the texts of identifiers and instants, \<open>time.ParseDuration\<close>, the decoding of
  JSON into a struct by reflection, the verification of a token, what the queue answers, the exposition
  of the metrics, the handler behind the logger, and what the database, the identity provider, the
  queue service, goose and the network answer on start (\<open>outside\<close>, \<open>migration_tools\<close>). Of Fx the
  code relies on two documented contracts: a constructor runs once, after all that gives what it takes
  (\<open>construction\<close>), and hooks start in the order they were appended and stop in the reverse
  (\<open>starts_in_order\<close>, \<open>stops_in_reverse\<close>, realised by \<open>run_hooks\<close> and \<open>stop_hooks\<close>). The snapshot of an event
  is kept as the event it is the text of.

  \<^bold>\<open>Not modelled.\<close> The wording of errors and logs; the inside of Fx, of the connection pool and of goose;
  what a request or a handling does when its deadline runs out in the middle of a statement, other than
  as an outage; the redirects of \<open>net/http\<close> to the clean form of a path; the registry of the metrics;
  \<open>test/testenv\<close>, which only drives containers for tests. Of the interleaving: a statement is one step;
  what PostgreSQL does about a deadlock is only seen as a session that breaks off, and that the
  sessions of a cluster get on is not stated.
\<close>

section \<open>The books\<close>

text \<open>C1. In every state the system can reach, whatever faults, retries and interleavings of units of
  work led there, no wallet is overdrawn, its balance is the sum of its ledger entries, which form an
  unbroken chain from zero, and its version counts its movements.\<close>

theorem reachable_balances:
  assumes "reachable w" and "r \<in> set (wallets (committed w))"
  shows "0 \<le> sint (wr_BalanceMinor r) \<and>
    sint (wr_BalanceMinor r) = rebuilt_balance (committed w) (wr_ID r) \<and>
    chain 0 (wallet_entries (committed w) (wr_ID r)) (sint (wr_BalanceMinor r)) \<and>
    sint (wr_Version r) =
      1 + int (count_rows (\<lambda>l. \<not> is_opening (committed w) l) (wallet_entries (committed w) (wr_ID r)))"
  using reachable_inv [OF assms(1)] books_balances assms(2) by blast

theorem reachable_balances_witness:
  "\<exists>r \<in> set (wallets (committed opened_world)).
     sint (wr_BalanceMinor r) = 500 \<and> rebuilt_balance (committed opened_world) (wr_ID r) = 500"
proof -
  have ws: "map wr_BalanceMinor (wallets (committed opened_world)) = [500]" using opened_rows by blast
  then obtain r where "wallets (committed opened_world) = [r]" "wr_BalanceMinor r = 500" by auto
  with reachable_balances [OF reachable_opened, of r] show ?thesis by simp
qed



text \<open>C6. An operation is reversed at most once: no two processed refunds or rollbacks of a reachable
  state name the same reference, and each names one.\<close>

theorem reachable_one_reversal:
  assumes "reachable w"
  shows "distinct (map tr_ReferenceTransactionID (filter row_reversed (transactions (committed w)))) \<and>
    None \<notin> tr_ReferenceTransactionID ` set (filter row_reversed (transactions (committed w)))"
  using reachable_inv [OF assms] constraints_one_reversal by blast

theorem reachable_one_reversal_witness:
  "distinct (map tr_ReferenceTransactionID (filter row_reversed (transactions (committed bet_world))))"
  using reachable_one_reversal [OF reachable_bet] by blast

section \<open>History\<close>

text \<open>C8. Whatever happens after a state, what it recorded stays: the entries and the messages taken in
  are a prefix of the later ones, an operation keeps what was asked for and, once it no longer waits
  for a reference, keeps everything, an event keeps its contents and, once published, its row, and a
  wallet keeps its player and currency.\<close>

theorem history_kept:
  assumes "reachable w" and "steps w w'"
  shows "extends (committed w) (committed w')"
  using steps_lawful [OF assms(2,1)] .

theorem history_kept_witness:
  "extends (committed opened_world) (committed bet_world)"
  using history_kept [OF reachable_opened steps_one [OF step_bet]] .

section \<open>One call of a provider\<close>

text \<open>C9. An answer of \<open>ProcessWager.Execute\<close> tells what was committed: a result means that the
  operation was executed, or replayed, in full; an error means that nothing was, unless the answer to
  the commit was lost on its way.\<close>

theorem process_all_or_nothing:
  assumes "reachable w" and "constructed (in_Money input)" and "ProcessWager_Execute input w = (r, w')"
  shows "(case r of
      Inr a \<Rightarrow> executed (env w) (committed w) input a (committed w')
    | Inl e \<Rightarrow> committed w' = committed w \<or>
        answer_lost (env w) \<and> (\<exists>a. executed (env w) (committed w) input a (committed w')))"
  using process_outcome [OF assms(3,1,2)] by (cases r) auto

theorem process_all_or_nothing_witness:
  "\<exists>a. executed calm (committed opened_world) bet a (committed bet_world)"
proof -
  obtain a where "ProcessWager_Execute bet opened_world = (Inr a, bet_world)" using bet_run by blast
  from process_all_or_nothing [OF reachable_opened bet_constructed(1) this] show ?thesis by auto
qed

text \<open>C10. Idempotency: once an operation was executed, sending it again, at any later time and however
  often, changes nothing, and every answer names the same operation and is marked as a replay.\<close>

theorem process_idempotent:
  assumes "reachable w" and "constructed (in_Money input)"
    and "ProcessWager_Execute input w = (Inr a, w1)" and "steps w1 w2"
    and "ProcessWager_Execute input w2 = (r, w3)"
  shows "committed w3 = committed w2 \<and>
    (\<forall>b. r = Inr b \<longrightarrow> res_TransactionID b = res_TransactionID a \<and> res_IdempotentReplay b)"
proof -
  have ex: "executed (env w) (committed w) input a (committed w1)"
    using process_outcome [OF assms(3,1,2)] by auto
  have w1: "reachable w1" using reach_step [OF assms(1) step_process [OF assms(3,2)]] .
  have w2: "reachable w2" using reachable_steps [OF assms(4) w1] .
  obtain hash q where "q \<in> set (transactions (committed w1))" "keyed input hash (res_TransactionID a) q"
    using executed_keyed [OF ex assms(2)] reachable_inv [OF assms(1)] by metis
  then obtain q' where q': "q' \<in> set (transactions (committed w2))" "keyed input hash (res_TransactionID a) q'"
    using keyed_stays [OF steps_lawful [OF assms(4) w1]] by metis
  note again = executed_again [OF _ assms(2) _ _ q']
  from process_outcome [OF assms(5) w2 assms(2)] again reachable_inv [OF w2] show ?thesis by auto
qed

theorem process_idempotent_witness:
  "committed (snd (ProcessWager_Execute bet bet_world)) = committed bet_world"
proof -
  obtain a where "ProcessWager_Execute bet opened_world = (Inr a, bet_world)" using bet_run by blast
  from process_idempotent [OF reachable_opened bet_constructed(1) this steps_refl prod.collapse [symmetric]]
  show ?thesis by blast
qed

text \<open>C11. A key is bound to the payload it first came with: while an operation is recorded under a
  provider's idempotency key, a request that uses the key with another payload changes nothing and gets
  no result.\<close>

theorem process_conflict:
  assumes "reachable w" and "constructed (in_Money input)"
    and "q \<in> set (transactions (committed w))" and "tr_ProviderID q = Some (in_ProviderID input)"
    and "tr_IdempotencyKey q = Some (in_IdempotencyKey input)"
    and "\<forall>hash. PayloadHash (env w) input = Inr hash \<longrightarrow> tr_PayloadHash q \<noteq> Some hash"
    and "ProcessWager_Execute input w = (r, w')"
  shows "committed w' = committed w \<and> \<not> ok r"
proof -
  have False if ex: "executed (env w) (committed w) input a (committed w')" for a
  proof -
    note inv = reachable_inv [OF assms(1)]
    have stay: "extends (committed w) (committed w')" and c: "constraints (committed w')"
      using step_lawful [OF step_process [OF assms(7,2)]] inv by (simp_all add: lawful_def)
    obtain hash p where p: "PayloadHash (env w) input = Inr hash" "p \<in> set (transactions (committed w'))"
      "keyed input hash (res_TransactionID a) p"
      using executed_keyed [OF ex assms(2)] inv by metis
    have "grown kept_operation (transactions (committed w)) (transactions (committed w'))"
      using stay by (simp add: extends_def)
    then obtain q' where q': "q' \<in> set (transactions (committed w'))" "kept_operation q q'"
      using grown_rows [OF _ assms(3)] by metis
    then have eq: "row_request q' = row_request q" unfolding kept_operation_def by blast
    have same: "tr_ProviderID q' = tr_ProviderID q" "tr_IdempotencyKey q' = tr_IdempotencyKey q"
      "tr_PayloadHash q' = tr_PayloadHash q"
      using arg_cong [OF eq, of tr_ProviderID] arg_cong [OF eq, of tr_IdempotencyKey]
        arg_cong [OF eq, of tr_PayloadHash] by simp_all
    have "q' = p" using keys_unique [OF c q'(1) _ _ p(2)] same assms(4,5) p(3) by (simp add: keyed_def)
    with p same assms(6) show ?thesis by (simp add: keyed_def)
  qed
  with process_outcome [OF assms(7,1,2)] show ?thesis by blast
qed

theorem process_conflict_witness:
  "committed (snd (ProcessWager_Execute other_bet bet_world)) = committed bet_world \<and>
   \<not> ok (fst (ProcessWager_Execute other_bet bet_world))"
proof -
  obtain hash i q where h: "PayloadHash calm bet = Inr hash" and q: "q \<in> set (transactions (committed bet_world))"
    "keyed bet hash i q" using bet_row by blast
  have other: "in_ProviderID other_bet = in_ProviderID bet" "in_IdempotencyKey other_bet = in_IdempotencyKey bet"
    by (simp_all add: other_bet_def)
  have "\<forall>h. PayloadHash (env bet_world) other_bet = Inr h \<longrightarrow> tr_PayloadHash q \<noteq> Some h"
    using q(2) h other_bet_hash by (auto simp: keyed_def)
  from process_conflict [OF reachable_bet bet_constructed(2) q(1) _ _ this prod.collapse [symmetric]] q(2) other
  show ?thesis by (simp add: keyed_def)
qed

text \<open>C12. What a result means for the money: a replay changed nothing; an operation that was rejected,
  that waits or that is a LOSS left every wallet and the ledger alone; any other one added one entry
  and changed one wallet, by its amount in the direction of its kind, to the balance it answered with.
  Either way the events of its outcome, and of the balance when it moved, came to the outbox, under
  the correlation identifier of the request.\<close>

theorem process_effect:
  assumes "reachable w" and "constructed (in_Money input)" and "ProcessWager_Execute input w = (Inr a, w')"
  shows "if res_IdempotentReplay a then committed w' = committed w
    else let money_moved = (res_State a = StateProcessed \<and> in_Kind input \<noteq> KindLoss) in
      (if money_moved
       then one_movement (committed w) (in_WalletID input) (in_Kind input) (in_Money input) (res_TransactionID a)
         (minorUnits (res_Balance a)) (committed w')
       else unmoved (committed w) (committed w')) \<and>
      outcome_events (in_WalletID input) (res_State a) money_moved (in_CorrelationID input)
        (committed w) (committed w')"
proof -
  have "executed (env w) (committed w) input a (committed w')"
    using process_outcome [OF assms(3,1,2)] by auto
  from executed_effect [OF this assms(2)] reachable_inv [OF assms(1)] show ?thesis by simp
qed

theorem process_effect_witness:
  "\<exists>a :: WagerResult. one_movement (committed opened_world) 1000 KindBet (brl 200) (res_TransactionID a)
     (minorUnits (res_Balance a)) (committed bet_world)"
proof -
  obtain a where run: "ProcessWager_Execute bet opened_world = (Inr a, bet_world)" using bet_run by blast
  with bet_ok have "res_State a = StateProcessed" "\<not> res_IdempotentReplay a" by simp_all
  moreover have "in_WalletID bet = 1000" "in_Kind bet = KindBet" "in_Money bet = brl 200" by (simp_all add: bet_def)
  ultimately show ?thesis
    using process_effect [OF reachable_opened bet_constructed(1) run] by (intro exI [of _ a]) (simp add: Let_def)
qed

section \<open>Operations from the queue\<close>

text \<open>C15. A message that was taken in once has no effect when it is delivered again, however often and
  whatever happened in between: nothing changes, and an answer names the operation of the first time
  and says that the message was a duplicate.\<close>

theorem message_idempotent:
  assumes "reachable w" and "constructed (in_Money (msg_Input message))"
    and "ProcessInboxMessage_Execute message w = (Inr a, w1)" and "steps w1 w2"
    and "ProcessInboxMessage_Execute message w2 = (r, w3)"
  shows "committed w3 = committed w2 \<and>
    (\<forall>b. r = Inr b \<longrightarrow> inr_Duplicate b \<and>
       res_TransactionID (inr_WagerResult b) = res_TransactionID (inr_WagerResult a))"
  by (rule taken_in_once [OF assms])

theorem message_idempotent_witness:
  "committed (snd (ProcessInboxMessage_Execute bet_message message_world)) = committed message_world"
proof -
  have "constructed (in_Money (msg_Input bet_message))" by (simp add: bet_message_def)
  moreover obtain a where "ProcessInboxMessage_Execute bet_message opened_world = (Inr a, message_world)"
    using message_run by blast
  ultimately show ?thesis
    using message_idempotent [OF reachable_opened _ _ steps_refl prod.collapse [symmetric]] by blast
qed

section \<open>Events that leave\<close>

text \<open>C21. At least once: an event marked as published was delivered to the broker, under its identifier
  and with the contents the outbox holds.\<close>

theorem published_was_delivered:
  assumes "reachable w" and "r \<in> set (outbox (committed w))" and "or_PublishedAt r \<noteq> None"
  shows "\<exists>rec \<in> set (published w). ob_EventID rec = or_ID r \<and> ob_AggregateID rec = or_AggregateID r \<and>
    ob_EventType rec = or_EventType r \<and> ob_OccurredAt rec = or_OccurredAt r \<and> ob_Payload rec = or_Payload r"
  using reachable_inv [OF assms(1)] assms(2,3) by (simp add: delivered_def delivers_def)

theorem published_was_delivered_witness:
  "\<exists>r \<in> set (outbox (committed published_world)). \<exists>rec \<in> set (published published_world).
     ob_EventID rec = or_ID r"
  using published_rows published_was_delivered [OF reachable_published_world] by blast

text \<open>C22. In order: a lease hands out at most one event of each wallet, always the oldest one not yet
  published, already due, and no more of them than asked for.\<close>

theorem lease_in_order:
  assumes "reachable w" and "WithinTransaction (LeasePending dueAt leaseUntil limit) w = (Inr rs, w')"
  shows "distinct (map ob_AggregateID rs) \<and> length rs \<le> nat (sint (to_int32 limit)) \<and>
    (\<forall>rec \<in> set rs. \<exists>row \<in> set (outbox (committed w)). delivers rec row \<and>
       or_NextAttemptAt row \<le> dueAt \<and> outbox_head (outbox (committed w)) row)"
  using lease_order_facts [OF assms(2,1)] .

theorem lease_in_order_witness:
  "\<exists>rs w'. WithinTransaction (LeasePending 1000 2000 10) opened_world = (Inr rs, w') \<and> length rs = 1 \<and>
     (\<forall>rec \<in> set rs. \<exists>row \<in> set (outbox (committed opened_world)). delivers rec row)"
proof -
  obtain q w' where run: "WithinTransaction (LeasePending 1000 2000 10) opened_world = (q, w')" by fastforce
  with lease_ok obtain rs where "q = Inr rs" "length rs = 1" by (cases q) auto
  with lease_in_order [OF reachable_opened run [unfolded \<open>q = Inr rs\<close>]] run show ?thesis by blast
qed

section \<open>Queries\<close>

text \<open>C25. A reconciliation of a reachable state always finds the stored balance consistent with the one
  rebuilt from the ledger, and changes nothing.\<close>

theorem reconcile_consistent:
  assumes "reachable w" and "ReadWallet_Reconcile i w = (Inr r, w')"
  shows "committed w' = committed w \<and> rr_Consistent r \<and> rr_Stored r = rr_Calculated r \<and>
    minorUnits (rr_Difference r) = 0 \<and>
    (\<exists>row \<in> set (wallets (committed w)). wr_ID row = i \<and> minorUnits (rr_Stored r) = wr_BalanceMinor row \<and>
       sint (minorUnits (rr_Calculated r)) = rebuilt_balance (committed w) i)"
  using reconcile_facts [OF assms] .

theorem reconcile_consistent_witness:
  "\<exists>r. fst (ReadWallet_Reconcile 1000 opened_world) = Inr r \<and> rr_Consistent r"
proof -
  obtain q w' where run: "ReadWallet_Reconcile 1000 opened_world = (q, w')" by fastforce
  with reconcile_ok obtain r where "q = Inr r" by (cases q) auto
  with reconcile_consistent [OF reachable_opened run [unfolded \<open>q = Inr r\<close>]] run show ?thesis by simp
qed

text \<open>C27. A page of a ledger holds the next entries after its cursor, in the order of their instants and
  identifiers, at most the number asked for, and its own cursor leads to exactly the entries that were
  left: on an unchanging ledger the pages from the first one show every entry once.\<close>

theorem ledger_pages:
  assumes "reachable w" and "ReadWallet_Ledger i c limit w = (Inr page, w')"
  shows "let size = nat (sint (if limit = 0 then 50 else limit)); rest = rest_of_ledger (committed w) i c in
    1 \<le> size \<and> size \<le> 200 \<and> map_results entry_of_row (take size rest) = Inr (lp_Entries page) \<and>
    (case lp_NextCursor page of
       None \<Rightarrow> length rest \<le> size
     | Some c' \<Rightarrow> rest_of_ledger (committed w) i (Some c') = drop size rest \<and> size < length rest)"
  using ledger_page_facts [OF assms] .

theorem ledger_pages_witness:
  "\<exists>page. fst (ReadWallet_Ledger 1000 None 1 opened_world) = Inr page \<and>
     map_results entry_of_row (take 1 (rest_of_ledger (committed opened_world) 1000 None)) = Inr (lp_Entries page)"
proof -
  obtain q w' where run: "ReadWallet_Ledger 1000 None 1 opened_world = (q, w')" by fastforce
  with ledger_ok obtain page where "q = Inr page" by (cases q) auto
  with ledger_pages [OF reachable_opened run [unfolded \<open>q = Inr page\<close>]] run show ?thesis
    by (simp add: Let_def)
qed

text \<open>C28. A provider only sees its own operations: what \<open>ReadTransaction.ByID\<close> answers with is stored
  under the identifier asked for and belongs to the provider that asks, and asking changes nothing.\<close>

theorem provider_isolation:
  assumes "reachable w" and "ReadTransaction_ByID p i w = (Inr t, w')"
  shows "committed w' = committed w \<and> t_providerID t = p \<and>
    (\<exists>row \<in> set (transactions (committed w)). tr_ID row = i \<and> stores row t)"
  using read_transaction_facts [OF assms] .

theorem provider_isolation_witness:
  "\<exists>t. fst (ReadTransaction_ByID '''' 1001 opened_world) = Inr t \<and> t_providerID t = ''''"
proof -
  obtain q w' where run: "ReadTransaction_ByID '''' 1001 opened_world = (q, w')" by fastforce
  with read_ok obtain t where "q = Inr t" by (cases q) auto
  with provider_isolation [OF reachable_opened run [unfolded \<open>q = Inr t\<close>]] run show ?thesis by simp
qed

end
